(* ===== verification/Prelude.thy ===== *)
theory Prelude
  imports Main "HOL-Library.Word"
begin

text \<open>
  Shared vocabulary of the development: bytes and strings as the C++ code sees them, the
  operations of \<open>std::string\<close> and of the C library that the sources call, machine sizes,
  exceptions as values, and the Boost string algorithms as parameters.

  A \<open>std::string\<close> is a \<^typ>\<open>string\<close>: a \<^typ>\<open>char\<close> is one byte. \<open>std::size_t\<close> fields whose
  wrap-around the code can observe are \<open>64 word\<close>; lengths of strings are \<^typ>\<open>nat\<close>.
  The functions of \<^emph>\<open>Boost.StringAlgo\<close> are not part of the repository: they are the fields of
  the record \<open>platform\<close>, and the locale \<open>boost_string\<close> lists their documented behaviour.
\<close>

unbundle bit_operations_syntax

section \<open>Collections of facts\<close>

named_theorems find_simps \<open>where the searches of std::string stop\<close>
named_theorems platform_simps \<open>documented behaviour of the platform's functions\<close>

section \<open>Exceptions, sizes\<close>

datatype cxx_exn =
    InvalidArgument
  | OutOfRange
  | LengthError
  | RuntimeError string
  | LogicError string

type_synonym 'a result = "cxx_exn + 'a"

text \<open>A call that may also not return: \<^const>\<open>None\<close> is a loop that never ends.\<close>

type_synonym 'a run = "'a result option"

type_synonym size_t = "64 word"

text \<open>\<open>std::string::npos\<close>, the largest value of \<open>std::size_t\<close>.\<close>

definition npos :: size_t where
  "npos = - 1"

definition bind_result :: "'a result \<Rightarrow> ('a \<Rightarrow> 'b result) \<Rightarrow> 'b result" where
  "bind_result r f = (case r of Inl e \<Rightarrow> Inl e | Inr x \<Rightarrow> f x)"

lemma bind_result_simps [simp]:
  "bind_result (Inl e) f = Inl e"
  "bind_result (Inr x) f = f x"
  by (simp_all add: bind_result_def)

lemma bind_result_Inr_iff:
  "bind_result r f = Inr y \<longleftrightarrow> (\<exists>x. r = Inr x \<and> f x = Inr y)"
  by (cases r) auto

section \<open>Characters of the C locale\<close>

abbreviation byte :: "char \<Rightarrow> nat" where
  "byte c \<equiv> of_char c"

abbreviation CR :: char where
  "CR \<equiv> CHR 0x0D"

abbreviation LF :: char where
  "LF \<equiv> CHR 0x0A"

abbreviation DQUOTE :: char where
  "DQUOTE \<equiv> CHR 0x22"

text \<open>\<open>isspace\<close>, \<open>isdigit\<close>, \<open>isalnum\<close> and \<open>toupper\<close> in the C locale.\<close>

definition isspace :: "char \<Rightarrow> bool" where
  "isspace c \<longleftrightarrow> byte c = 32 \<or> (9 \<le> byte c \<and> byte c \<le> 13)"

definition isdigit :: "char \<Rightarrow> bool" where
  "isdigit c \<longleftrightarrow> 48 \<le> byte c \<and> byte c \<le> 57"

definition isupper :: "char \<Rightarrow> bool" where
  "isupper c \<longleftrightarrow> 65 \<le> byte c \<and> byte c \<le> 90"

definition islower :: "char \<Rightarrow> bool" where
  "islower c \<longleftrightarrow> 97 \<le> byte c \<and> byte c \<le> 122"

definition isalnum :: "char \<Rightarrow> bool" where
  "isalnum c \<longleftrightarrow> isdigit c \<or> isupper c \<or> islower c"

definition toupper :: "char \<Rightarrow> char" where
  "toupper c = (if islower c then char_of (byte c - 32) else c)"

definition digit_char :: "nat \<Rightarrow> char" where
  "digit_char d = char_of (48 + d)"

lemma byte_eq_iff: "byte c = n \<longleftrightarrow> n < 256 \<and> c = char_of n"
  by (auto simp: of_char_eq_iff take_bit_nat_eq_self)

lemma byte_digit_char [simp]: "d < 10 \<Longrightarrow> byte (digit_char d) = 48 + d"
  by (simp add: digit_char_def)

lemma isdigit_digit_char [simp]: "d < 10 \<Longrightarrow> isdigit (digit_char d)"
  by (simp add: isdigit_def)

lemma isdigit_not_isspace [simp]: "isdigit c \<Longrightarrow> \<not> isspace c"
  by (auto simp: isdigit_def isspace_def)

section \<open>Searching strings\<close>

text \<open>\<open>str.find(c)\<close>: the position of the first occurrence of a character, if there is one.\<close>

fun find_char :: "char \<Rightarrow> string \<Rightarrow> nat option" where
  "find_char c [] = None"
| "find_char c (x # xs) = (if x = c then Some 0 else map_option Suc (find_char c xs))"

text \<open>\<open>str.find(pattern)\<close>, and \<open>str.find(pattern, off)\<close>, which is \<open>npos\<close> beyond the end.\<close>

fun is_prefix :: "string \<Rightarrow> string \<Rightarrow> bool" where
  "is_prefix [] s = True"
| "is_prefix (p # ps) [] = False"
| "is_prefix (p # ps) (c # cs) = (p = c \<and> is_prefix ps cs)"

fun find_str :: "string \<Rightarrow> string \<Rightarrow> nat option" where
  "find_str p [] = (if p = [] then Some 0 else None)"
| "find_str p (c # cs) =
     (if is_prefix p (c # cs) then Some 0 else map_option Suc (find_str p cs))"

definition find_from :: "string \<Rightarrow> string \<Rightarrow> nat \<Rightarrow> nat option" where
  "find_from p s off =
     (if off \<le> length s then map_option (\<lambda>n. off + n) (find_str p (drop off s)) else None)"

lemma is_prefix_iff: "is_prefix p s \<longleftrightarrow> (\<exists>r. s = p @ r)"
  by (induction p s rule: is_prefix.induct) auto

lemma is_prefix_append [simp]: "is_prefix p (p @ r)"
  by (auto simp: is_prefix_iff)

lemma is_prefix_extend: "is_prefix p s \<Longrightarrow> is_prefix p (s @ t)"
  by (auto simp: is_prefix_iff)

lemma is_prefix_length: "is_prefix p s \<Longrightarrow> length p \<le> length s"
  by (auto simp: is_prefix_iff)

lemma is_prefix_restrict: "length p \<le> length s \<Longrightarrow> is_prefix p (s @ t) = is_prefix p s"
  by (induction p s rule: is_prefix.induct) auto

lemma find_char_None_iff [find_simps]: "find_char c s = None \<longleftrightarrow> c \<notin> set s"
  by (induction s) auto

lemma find_char_SomeD:
  "find_char c s = Some n \<Longrightarrow> n < length s \<and> s = take n s @ c # drop (Suc n) s \<and> c \<notin> set (take n s)"
  by (induction s arbitrary: n) (auto split: if_splits)

lemma find_char_append [find_simps]:
  "c \<notin> set a \<Longrightarrow> find_char c (a @ c # b) = Some (length a)"
  by (induction a) auto

lemma find_str_SomeD:
  "find_str p s = Some n \<Longrightarrow> s = take n s @ p @ drop (n + length p) s \<and> n + length p \<le> length s"
proof (induction p s arbitrary: n rule: find_str.induct)
  case (1 p)
  then show ?case by (simp split: if_splits)
next
  case (2 p c cs)
  show ?case
  proof (cases "is_prefix p (c # cs)")
    case True
    with 2 is_prefix_length [OF True] show ?thesis by (auto simp: is_prefix_iff)
  next
    case False
    with 2 show ?thesis by auto
  qed
qed

lemma find_str_append: "find_str p s = Some n \<Longrightarrow> find_str p (s @ t) = Some n"
proof (induction p s arbitrary: n rule: find_str.induct)
  case (1 p)
  then show ?case by (cases t) (auto split: if_splits)
next
  case (2 p c cs)
  show ?case
  proof (cases "is_prefix p (c # cs)")
    case True
    with is_prefix_extend [OF True, of t] 2 show ?thesis by simp
  next
    case False
    with 2 obtain m where m: "find_str p cs = Some m" "n = Suc m" by auto
    from find_str_SomeD [OF m(1)] have "length p \<le> length (c # cs)" by simp
    from is_prefix_restrict [OF this, of t] False have "\<not> is_prefix p (c # cs @ t)" by simp
    with False 2 m show ?thesis by simp
  qed
qed

lemma find_str_first:
  "find_str p s = Some n \<Longrightarrow> m < n \<Longrightarrow> \<not> is_prefix p (drop m s)"
proof (induction p s arbitrary: n m rule: find_str.induct)
  case (1 p)
  then show ?case by (simp split: if_splits)
next
  case (2 p c cs)
  then show ?case by (cases m) (auto split: if_splits)
qed

lemma find_str_None_drop: "find_str p s = None \<Longrightarrow> find_str p (drop n s) = None"
  by (induction p s arbitrary: n rule: find_str.induct)
     (auto simp: drop_Cons' split: if_splits)

lemma find_from_SomeD:
  "find_from p s off = Some n \<Longrightarrow>
     off \<le> n \<and> n + length p \<le> length s \<and> drop off s = take (n - off) (drop off s) @ p @ drop (n + length p) s"
proof -
  assume "find_from p s off = Some n"
  then obtain k where k: "off \<le> length s" "find_str p (drop off s) = Some k" "n = off + k"
    by (auto simp: find_from_def split: if_splits)
  from find_str_SomeD [OF k(2)] k(1,3) show ?thesis
    by (auto simp: add.commute add.left_commute)
qed

lemma find_from_append: "find_from p s off = Some n \<Longrightarrow> find_from p (s @ t) off = Some n"
  by (auto simp: find_from_def find_str_append split: if_splits)

text \<open>The CRLF that ends a line is found right after a line that has no carriage return.\<close>

lemma find_str_CRLF [find_simps]:
  "CR \<notin> set l \<Longrightarrow> find_str [CR, LF] (l @ CR # LF # r) = Some (length l)"
  by (induction l) auto

lemma find_str_fresh [find_simps]:
  "c \<notin> set a \<Longrightarrow> find_str (c # p) (a @ c # p @ b) = Some (length a)"
proof (induction a)
  case Nil
  show ?case using is_prefix_append [of p b] by simp
qed simp

lemma find_from_CRLF [find_simps]:
  "CR \<notin> set l \<Longrightarrow> find_from [CR, LF] (a @ l @ CR # LF # r) (length a) = Some (length a + length l)"
  by (simp add: find_from_def find_str_CRLF)

section \<open>Numbers in text\<close>

text \<open>\<open>std::to_string\<close> of an unsigned number: decimal, no leading zeros.\<close>

fun to_string :: "nat \<Rightarrow> string" where
  "to_string n = (if n < 10 then [digit_char n] else to_string (n div 10) @ [digit_char (n mod 10)])"

declare to_string.simps [simp del]

text \<open>The value of a digit in a base up to 36, as \<open>strtoul\<close> reads it.\<close>

definition digit_val :: "char \<Rightarrow> nat" where
  "digit_val c =
     (if isdigit c then byte c - 48
      else if isupper c then byte c - 55
      else if islower c then byte c - 87
      else 36)"

definition digits_val :: "nat \<Rightarrow> string \<Rightarrow> nat" where
  "digits_val base ds = foldl (\<lambda>n c. n * base + digit_val c) 0 ds"

text \<open>
  \<open>std::stoul(str, 0, base)\<close> for base 10 or 16: leading white space, an optional sign, for base
  16 an optional \<open>0x\<close>, then digits. What follows the digits is ignored. A minus sign negates
  the result modulo \<open>2\<^sup>6\<^sup>4\<close>. No digits is \<open>std::invalid_argument\<close>, a value of
  \<open>2\<^sup>6\<^sup>4\<close> or more is \<open>std::out_of_range\<close>.
\<close>

fun strip_sign :: "string \<Rightarrow> bool \<times> string" where
  "strip_sign (c # s) =
     (if c = CHR ''-'' then (True, s) else if c = CHR ''+'' then (False, s) else (False, c # s))"
| "strip_sign [] = (False, [])"

fun strip_hex :: "string \<Rightarrow> string" where
  "strip_hex (z # x # d # s) =
     (if z = CHR ''0'' \<and> (x = CHR ''x'' \<or> x = CHR ''X'') \<and> digit_val d < 16
      then d # s else z # x # d # s)"
| "strip_hex s = s"

definition stoul :: "nat \<Rightarrow> string \<Rightarrow> size_t result" where
  "stoul base str =
     (let (neg, s) = strip_sign (dropWhile isspace str);
          ds = takeWhile (\<lambda>c. digit_val c < base) (if base = 16 then strip_hex s else s);
          n = digits_val base ds
      in if ds = [] then Inl InvalidArgument
         else if n \<ge> 2 ^ 64 then Inl OutOfRange
         else Inr (if neg then - of_nat n else of_nat n))"

text \<open>
  \<open>std::stoi(str)\<close>: the same reading in base 10, as an \<open>int\<close> of 32 bits.
\<close>

definition stoi :: "string \<Rightarrow> int result" where
  "stoi str =
     (let (neg, s) = strip_sign (dropWhile isspace str);
          ds = takeWhile isdigit s;
          n = (if neg then - int (digits_val 10 ds) else int (digits_val 10 ds))
      in if ds = [] then Inl InvalidArgument
         else if n < - (2 ^ 31) \<or> n \<ge> 2 ^ 31 then Inl OutOfRange
         else Inr n)"

lemma digit_val_digit_char [simp]: "d < 10 \<Longrightarrow> digit_val (digit_char d) = d"
  by (simp add: digit_val_def)

lemma to_string_digits: "c \<in> set (to_string n) \<Longrightarrow> isdigit c"
proof (induction n rule: to_string.induct)
  case (1 n)
  then show ?case by (cases "n < 10") (auto simp: to_string.simps [of n])
qed

lemma to_string_nonempty [simp]: "to_string n \<noteq> []"
  by (subst to_string.simps) simp

lemma digits_val_snoc: "digits_val b (ds @ [d]) = digits_val b ds * b + digit_val d"
  by (simp add: digits_val_def)

lemma digits_val_to_string [simp]: "digits_val 10 (to_string n) = n"
proof (induction n rule: to_string.induct)
  case (1 n)
  show ?case
  proof (cases "n < 10")
    case True
    then show ?thesis by (simp add: to_string.simps [of n] digits_val_def)
  next
    case False
    with 1 have "digits_val 10 (to_string (n div 10)) = n div 10" by simp
    with False show ?thesis by (subst to_string.simps) (simp add: digits_val_snoc)
  qed
qed

lemma isdigit_digit_val: "isdigit c \<Longrightarrow> digit_val c < 10"
  by (auto simp: digit_val_def isdigit_def)

lemma strip_sign_digits: "s \<noteq> [] \<Longrightarrow> isdigit (hd s) \<Longrightarrow> strip_sign s = (False, s)"
  by (cases s) (auto simp: isdigit_def)

lemma to_string_hd: "isdigit (hd (to_string n))"
  using to_string_digits [of "hd (to_string n)" n] by simp

lemma dropWhile_hd: "s \<noteq> [] \<Longrightarrow> \<not> P (hd s) \<Longrightarrow> dropWhile P s = s"
  by (cases s) auto

lemma stoul_to_string:
  assumes "n < 2 ^ 64"
  shows "stoul 10 (to_string n) = Inr (of_nat n)"
proof -
  have d: "dropWhile isspace (to_string n) = to_string n"
    using to_string_hd [of n] by (simp add: dropWhile_hd)
  have t: "takeWhile (\<lambda>c. digit_val c < 10) (to_string n) = to_string n"
    by (auto simp: takeWhile_eq_all_conv isdigit_digit_val dest: to_string_digits)
  show ?thesis
    using assms by (simp add: stoul_def d t strip_sign_digits to_string_hd)
qed

lemma stoi_to_string:
  assumes "n < 2 ^ 31"
  shows "stoi (to_string n) = Inr (int n)"
proof -
  have d: "dropWhile isspace (to_string n) = to_string n"
    using to_string_hd [of n] by (simp add: dropWhile_hd)
  have t: "takeWhile isdigit (to_string n) = to_string n"
    by (auto simp: takeWhile_eq_all_conv dest: to_string_digits)
  show ?thesis
    using assms by (simp add: stoi_def d t strip_sign_digits to_string_hd)
qed

section \<open>Boost string algorithms\<close>

text \<open>
  Reference meanings of the algorithms: trimming at both ends, splitting at every delimiter, and
  splitting with adjacent delimiters merged (\<open>token_compress_on\<close>).
\<close>

definition trim_left_by :: "(char \<Rightarrow> bool) \<Rightarrow> string \<Rightarrow> string" where
  "trim_left_by P s = dropWhile P s"

definition trim_by :: "(char \<Rightarrow> bool) \<Rightarrow> string \<Rightarrow> string" where
  "trim_by P s = rev (dropWhile P (rev (dropWhile P s)))"

fun split_by :: "(char \<Rightarrow> bool) \<Rightarrow> string \<Rightarrow> string list" where
  "split_by P [] = [[]]"
| "split_by P (c # s) =
     (if P c then [] # split_by P s
      else (case split_by P s of [] \<Rightarrow> [[c]] | w # ws \<Rightarrow> (c # w) # ws))"

function split_compress_by :: "(char \<Rightarrow> bool) \<Rightarrow> string \<Rightarrow> string list" where
  "split_compress_by P [] = [[]]"
| "split_compress_by P (c # s) =
     (if P c then [] # split_compress_by P (dropWhile P s)
      else (case split_compress_by P s of [] \<Rightarrow> [[c]] | w # ws \<Rightarrow> (c # w) # ws))"
  by pat_completeness auto
termination
  by (relation "measure (\<lambda>(P, s). length s)") (auto simp: le_imp_less_Suc length_dropWhile_le)

text \<open>
  What the repository takes from outside: the functions of Boost.StringAlgo, and whether the
  allocator grants \<open>std::string::reserve\<close> (an exception otherwise).
\<close>

record platform =
  boost_iequals :: "string \<Rightarrow> string \<Rightarrow> bool"
  boost_trim :: "string \<Rightarrow> string"
  boost_trim_left :: "string \<Rightarrow> string"
  boost_trim_if :: "(char \<Rightarrow> bool) \<Rightarrow> string \<Rightarrow> string"
  boost_split :: "(char \<Rightarrow> bool) \<Rightarrow> bool \<Rightarrow> string \<Rightarrow> string list"
  reserve_ok :: "size_t \<Rightarrow> bool"

locale boost_string =
  fixes B :: platform
  assumes iequals [platform_simps]: "boost_iequals B a b \<longleftrightarrow> map toupper a = map toupper b"
    and trim [platform_simps]: "boost_trim B s = trim_by isspace s"
    and trim_left [platform_simps]: "boost_trim_left B s = trim_left_by isspace s"
    and trim_if [platform_simps]: "boost_trim_if B P s = trim_by P s"
    and split [platform_simps]:
      "boost_split B P compress s = (if compress then split_compress_by P s else split_by P s)"

text \<open>
  The reference meanings as a platform, with an allocator that grants every request up to the
  largest string of the C++ library; the concrete inputs of the development run on it.
\<close>

definition reference_platform :: platform where
  "reference_platform =
     \<lparr>boost_iequals = (\<lambda>a b. map toupper a = map toupper b),
      boost_trim = trim_by isspace,
      boost_trim_left = trim_left_by isspace,
      boost_trim_if = trim_by,
      boost_split = (\<lambda>P compress s. if compress then split_compress_by P s else split_by P s),
      reserve_ok = (\<lambda>n. unat n < 2 ^ 62)\<rparr>"

interpretation ref: boost_string reference_platform
  by unfold_locales (simp_all add: reference_platform_def)

lemma trim_by_id:
  assumes "s = [] \<or> \<not> P (hd s) \<and> \<not> P (last s)"
  shows "trim_by P s = s"
proof (cases "s = []")
  case False
  with assms have "dropWhile P s = s" "dropWhile P (rev s) = rev s"
    by (auto simp: dropWhile_hd hd_rev)
  then show ?thesis by (simp add: trim_by_def)
qed (simp add: trim_by_def)

lemma split_by_nonempty [simp]: "split_by P s \<noteq> []"
  by (induction s) (auto split: list.splits)

lemma split_compress_by_nonempty [simp]: "split_compress_by P s \<noteq> []"
  by (induction P s rule: split_compress_by.induct) (auto split: list.splits)

lemma split_by_word: "\<forall>c \<in> set w. \<not> P c \<Longrightarrow> split_by P w = [w]"
  by (induction w) auto

lemma split_by_append:
  "\<forall>c \<in> set w. \<not> P c \<Longrightarrow> P d \<Longrightarrow> split_by P (w @ d # s) = w # split_by P s"
  by (induction w) (auto split: list.splits)

lemma split_compress_word: "\<forall>c \<in> set w. \<not> P c \<Longrightarrow> split_compress_by P w = [w]"
  by (induction w) auto

lemma split_compress_append:
  "\<forall>c \<in> set w. \<not> P c \<Longrightarrow> P d \<Longrightarrow>
     split_compress_by P (w @ d # s) = w # split_compress_by P (dropWhile P s)"
  by (induction w) auto

section \<open>Codecs\<close>

text \<open>
  The contract of a pair of functions that write values as text and read them back. Every codec of
  the repository is an interpretation: the two Base64 codecs, URL percent-encoding, decimal numbers.
\<close>

locale codec =
  fixes encode :: "'a \<Rightarrow> string"
    and decode :: "string \<Rightarrow> 'b"
    and dom_ok :: "'a \<Rightarrow> bool"
    and result :: "'a \<Rightarrow> 'b"
  assumes decode_encode: "dom_ok x \<Longrightarrow> decode (encode x) = result x"
    and result_inj: "dom_ok x \<Longrightarrow> dom_ok y \<Longrightarrow> result x = result y \<Longrightarrow> x = y"
begin

lemma encode_inj: "dom_ok x \<Longrightarrow> dom_ok y \<Longrightarrow> encode x = encode y \<Longrightarrow> x = y"
  by (metis decode_encode result_inj)

lemma encode_inj_on: "inj_on encode {x. dom_ok x}"
  by (auto intro: inj_onI encode_inj)

end

interpretation decimal: codec to_string "stoul 10" "\<lambda>n. n < 2 ^ 64" "\<lambda>n. Inr (of_nat n)"
  by unfold_locales (auto simp: stoul_to_string word_of_nat_eq_iff take_bit_nat_eq_self)

section \<open>Keyed stores\<close>

text \<open>
  The contract of a store of values under keys, up to an equivalence of keys: header lists with
  case-insensitive names, members of a JSON object, pooled connections. A lookup after an update
  sees the new value under every equivalent key and the old store under the others.
\<close>

locale keyed_store =
  fixes put :: "'k \<Rightarrow> 'v \<Rightarrow> 's \<Rightarrow> 's"
    and look :: "'k \<Rightarrow> 's \<Rightarrow> 'v option"
    and same :: "'k \<Rightarrow> 'k \<Rightarrow> bool"
    and inv :: "'s \<Rightarrow> bool"
  assumes look_put: "inv s \<Longrightarrow> look k' (put k v s) = (if same k k' then Some v else look k' s)"
    and look_same: "inv s \<Longrightarrow> same k k' \<Longrightarrow> look k s = look k' s"
    and inv_put: "inv s \<Longrightarrow> inv (put k v s)"
    and same_refl: "same k k"
begin

lemma inv_put_all: "inv s \<Longrightarrow> inv (fold (\<lambda>(k, v). put k v) kvs s)"
  by (induction kvs arbitrary: s) (auto simp: inv_put)

lemma look_put_same: "inv s \<Longrightarrow> look k (put k v s) = Some v"
  by (simp add: look_put same_refl)

text \<open>After a sequence of updates the last one with a matching key wins.\<close>

lemma look_put_all:
  "inv s \<Longrightarrow> look k (fold (\<lambda>(k, v). put k v) kvs s)
     = (case filter (\<lambda>kv. same (fst kv) k) kvs of
          [] \<Rightarrow> look k s | m # ms \<Rightarrow> Some (snd (last (m # ms))))"
proof (induction kvs arbitrary: s)
  case (Cons kv kvs)
  obtain k' v where kv: "kv = (k', v)" by force
  from Cons kv show ?case
    by (auto simp: look_put inv_put split: list.splits)
qed simp

lemma look_put_all_miss:
  "inv s \<Longrightarrow> \<forall>kv \<in> set kvs. \<not> same (fst kv) k \<Longrightarrow>
     look k (fold (\<lambda>(k, v). put k v) kvs s) = look k s"
  by (simp add: look_put_all filter_empty_conv)

end

section \<open>Bytes\<close>

text \<open>Two bytes are equal when their bits are; a sum without carries is a bitwise or.\<close>

lemma word8_eq_iff:
  "(a :: 8 word) = b \<longleftrightarrow>
     bit a 0 = bit b 0 \<and> bit a 1 = bit b 1 \<and> bit a 2 = bit b 2 \<and> bit a 3 = bit b 3 \<and>
     bit a 4 = bit b 4 \<and> bit a 5 = bit b 5 \<and> bit a 6 = bit b 6 \<and> bit a 7 = bit b 7"
proof -
  have "(\<forall>n<8. bit a n = bit b n) \<longleftrightarrow>
     bit a 0 = bit b 0 \<and> bit a 1 = bit b 1 \<and> bit a 2 = bit b 2 \<and> bit a 3 = bit b 3 \<and>
     bit a 4 = bit b 4 \<and> bit a 5 = bit b 5 \<and> bit a 6 = bit b 6 \<and> bit a 7 = bit b 7"
    by (simp add: eval_nat_numeral All_less_Suc conj_ac)
  moreover have "a = b \<longleftrightarrow> (\<forall>n<8. bit a n = bit b n)"
    by (auto intro: bit_word_eqI)
  ultimately show ?thesis by simp
qed

lemma word8_add_or: "(a :: 8 word) AND b = 0 \<Longrightarrow> a + b = a OR b"
  by (rule disjunctive_add_eq_or)

lemma bit_word8_beyond [simp]: "8 \<le> n \<Longrightarrow> \<not> bit (a :: 8 word) n"
  using bit_imp_le_length [of a n] by auto

lemmas word8_bits = word8_add_or word8_eq_iff bit_simps

lemma unat_of_nat_byte [simp]: "unat (of_nat (byte c) :: 8 word) = byte c"
  by (simp add: unat_of_nat)

lemma word8_masks:
  "(a :: 8 word) AND 0x03 = take_bit 2 a"
  "a AND 0x0f = take_bit 4 a"
  "a AND 0x3f = take_bit 6 a"
  "drop_bit 2 (a AND 0xfc) = drop_bit 2 a"
  "drop_bit 4 (a AND 0xf0) = drop_bit 4 a"
  "drop_bit 6 (a AND 0xc0) = drop_bit 6 a"
  "drop_bit 2 a AND 0x3f = drop_bit 2 a"
  "drop_bit 4 a AND 0x0f = drop_bit 4 a"
  "drop_bit 6 a AND 0x03 = drop_bit 6 a"
  by (simp_all add: word8_eq_iff bit_simps)

lemma unat8_drop_bit: "unat (drop_bit n (a :: 8 word)) = unat a div 2 ^ n"
  by (subst unat_drop_bit_eq) (simp add: drop_bit_eq_div)

lemma unat8_take_bit: "unat (take_bit n (a :: 8 word)) = unat a mod 2 ^ n"
  by (subst unsigned_take_bit_eq) (simp add: take_bit_eq_mod)

lemma unat8_push_bit: "unat (push_bit n (a :: 8 word)) = unat a * 2 ^ n mod 256"
  by (subst unsigned_push_bit_eq) (simp add: push_bit_eq_mult take_bit_eq_mod)

lemmas unat8_shifts = unat8_drop_bit unat8_take_bit unat8_push_bit

lemma unat8_less [simp]: "unat (a :: 8 word) < 256"
  using unsigned_less [of a, where 'a = nat] by simp

end
