(* ===== verification/Base64_Cpp.thy ===== *)
theory Base64_Cpp
  imports Prelude
begin

text \<open>
  The codec of \<open>base64/base64.cpp\<close>, which decodes the image of every POST request. Bytes are
  \<open>8 word\<close>, the loops keep the working arrays \<open>char_array_3\<close> and \<open>char_array_4\<close> as the code does.
  These arrays are not initialised in the source: their first contents are an argument of the model
  (\<open>junk3\<close>, \<open>junk4\<close>), and the theorems show that no result depends on them. The counters are
  \<open>int\<close> in the source, so inputs are taken to be shorter than \<open>2\<^sup>3\<^sup>1\<close> bytes; the number
  of bytes still to read is the length of the list that is left.
\<close>

type_synonym uchar = "8 word"

definition base64_chars :: string where
  "base64_chars =
     ''ABCDEFGHIJKLMNOPQRSTUVWXYZ'' @ ''abcdefghijklmnopqrstuvwxyz'' @ ''0123456789+/''"

definition is_base64 :: "char \<Rightarrow> bool" where
  "is_base64 c \<longleftrightarrow> isalnum c \<or> c = CHR ''+'' \<or> c = CHR ''/''"

section \<open>Encoding\<close>

text \<open>The six-bit groups of \<open>char_array_3\<close>; the tail of the encoder computes the first three only.\<close>

definition encode_head :: "uchar list \<Rightarrow> uchar list" where
  "encode_head a3 =
     [drop_bit 2 (a3 ! 0 AND 0xfc),
      push_bit 4 (a3 ! 0 AND 0x03) + drop_bit 4 (a3 ! 1 AND 0xf0),
      push_bit 2 (a3 ! 1 AND 0x0f) + drop_bit 6 (a3 ! 2 AND 0xc0)]"

definition encode_group :: "uchar list \<Rightarrow> uchar list" where
  "encode_group a3 = encode_head a3 @ [a3 ! 2 AND 0x3f]"

definition base64_char :: "uchar \<Rightarrow> char" where
  "base64_char k = base64_chars ! unat k"

fun base64_encode_loop :: "uchar list \<Rightarrow> nat \<Rightarrow> uchar list \<Rightarrow> string \<Rightarrow> nat \<times> uchar list \<times> string" where
  "base64_encode_loop [] i a3 ret = (i, a3, ret)"
| "base64_encode_loop (b # bs) i a3 ret =
     (let a3 = a3[i := b]
      in if Suc i = 3
         then base64_encode_loop bs 0 a3 (ret @ map base64_char (encode_group a3))
         else base64_encode_loop bs (Suc i) a3 ret)"

fun zero_from :: "nat \<Rightarrow> nat \<Rightarrow> uchar list \<Rightarrow> uchar list" where
  "zero_from 0 j a3 = a3"
| "zero_from (Suc n) j a3 = zero_from n (Suc j) (a3[j := 0])"

definition base64_encode :: "uchar list \<Rightarrow> uchar list \<Rightarrow> string" where
  "base64_encode junk3 bytes =
     (case base64_encode_loop bytes 0 junk3 [] of (i, a3, ret) \<Rightarrow>
        if i \<noteq> 0
        then let a3 = zero_from (3 - i) i a3
             in ret @ map base64_char (take (i + 1) (encode_head a3)) @ replicate (3 - i) (CHR ''='')
        else ret)"

section \<open>Decoding\<close>

text \<open>\<open>base64_chars.find(c)\<close>, narrowed to \<open>unsigned char\<close>: \<open>npos\<close> becomes 255.\<close>

definition base64_find :: "uchar \<Rightarrow> uchar" where
  "base64_find k = (case find_char (char_of (unat k)) base64_chars of None \<Rightarrow> 255 | Some n \<Rightarrow> of_nat n)"

definition decode_head :: "uchar list \<Rightarrow> uchar list" where
  "decode_head a4 =
     [push_bit 2 (a4 ! 0) + drop_bit 4 (a4 ! 1 AND 0x30),
      push_bit 4 (a4 ! 1 AND 0xf) + drop_bit 2 (a4 ! 2 AND 0x3c)]"

definition decode_group :: "uchar list \<Rightarrow> uchar list" where
  "decode_group a4 = decode_head a4 @ [push_bit 6 (a4 ! 2 AND 0x3) + a4 ! 3]"

definition bytes_to_string :: "uchar list \<Rightarrow> string" where
  "bytes_to_string bs = map (\<lambda>b. char_of (unat b)) bs"

fun base64_decode_loop :: "string \<Rightarrow> nat \<Rightarrow> uchar list \<Rightarrow> string \<Rightarrow> nat \<times> uchar list \<times> string" where
  "base64_decode_loop [] i a4 ret = (i, a4, ret)"
| "base64_decode_loop (c # cs) i a4 ret =
     (if c \<noteq> CHR ''='' \<and> is_base64 c
      then let a4 = a4[i := of_nat (byte c)]
           in if Suc i = 4
              then let a4 = map base64_find a4
                   in base64_decode_loop cs 0 a4 (ret @ bytes_to_string (decode_group a4))
              else base64_decode_loop cs (Suc i) a4 ret
      else (i, a4, ret))"

fun find_upto :: "nat \<Rightarrow> uchar list \<Rightarrow> uchar list" where
  "find_upto 0 a4 = a4"
| "find_upto (Suc j) a4 = (find_upto j a4)[j := base64_find (a4 ! j)]"

definition base64_decode :: "uchar list \<Rightarrow> string \<Rightarrow> string" where
  "base64_decode junk4 encoded =
     (case base64_decode_loop encoded 0 junk4 [] of (i, a4, ret) \<Rightarrow>
        if i \<noteq> 0
        then ret @ bytes_to_string (take (i - 1) (decode_head (find_upto i a4)))
        else ret)"

section \<open>Reference meanings\<close>

text \<open>
  RFC 4648: three bytes are a 24-bit number, read as four digits of base 64; one or two bytes at the
  end are padded with zero bits and the missing digits are written \<open>=\<close>.
\<close>

definition rfc_digits :: "nat \<Rightarrow> nat list" where
  "rfc_digits n = [n div 64 ^ 3, n div 64 ^ 2 mod 64, n div 64 mod 64, n mod 64]"

definition rfc_group :: "uchar \<Rightarrow> uchar \<Rightarrow> uchar \<Rightarrow> string" where
  "rfc_group a b c =
     map (\<lambda>d. base64_chars ! d) (rfc_digits (unat a * 256 ^ 2 + unat b * 256 + unat c))"

fun rfc4648 :: "uchar list \<Rightarrow> string" where
  "rfc4648 (a # b # c # bs) = rfc_group a b c @ rfc4648 bs"
| "rfc4648 [a, b] = take 3 (rfc_group a b 0) @ ''=''"
| "rfc4648 [a] = take 2 (rfc_group a 0 0) @ ''==''"
| "rfc4648 [] = []"

text \<open>Sextets back to bytes: complete groups, then what two or three sextets at the end determine.\<close>

fun decode_sextets :: "uchar list \<Rightarrow> uchar list" where
  "decode_sextets (w # x # y # z # r) = decode_group [w, x, y, z] @ decode_sextets r"
| "decode_sextets [w, x, y] = decode_head [w, x, y]"
| "decode_sextets [w, x] = take 1 (decode_head [w, x, 0])"
| "decode_sextets [w] = []"
| "decode_sextets [] = []"

definition sextet :: "char \<Rightarrow> uchar" where
  "sextet c = base64_find (of_nat (byte c))"

section \<open>The encoder is RFC 4648\<close>

lemma sextet_values:
  "unat (drop_bit 2 (a AND 0xfc) :: uchar) = unat a div 4"
  "unat (push_bit 4 (a AND 0x03) + drop_bit 4 (b AND 0xf0) :: uchar) = unat a mod 4 * 16 + unat b div 16"
  "unat (push_bit 2 (b AND 0x0f) + drop_bit 6 (c AND 0xc0) :: uchar) = unat b mod 16 * 4 + unat c div 64"
  "unat (c AND 0x3f :: uchar) = unat c mod 64"
proof -
  have a: "unat a mod 4 * 16 < 64" "unat b mod 16 * 4 < 64" "unat b div 16 < 16" "unat c div 64 < 4"
    using unat8_less [of b] unat8_less [of c] by linarith+
  show "unat (drop_bit 2 (a AND 0xfc)) = unat a div 4"
    by (simp only: word8_masks unat8_shifts) simp
  show "unat (c AND 0x3f) = unat c mod 64"
    by (simp only: word8_masks unat8_shifts) simp
  show "unat (push_bit 4 (a AND 0x03) + drop_bit 4 (b AND 0xf0)) = unat a mod 4 * 16 + unat b div 16"
    using a by (simp only: word8_masks unat_word_ariths unat8_shifts) simp
  show "unat (push_bit 2 (b AND 0x0f) + drop_bit 6 (c AND 0xc0)) = unat b mod 16 * 4 + unat c div 64"
    using a by (simp only: word8_masks unat_word_ariths unat8_shifts) simp
qed

text \<open>The four digits of a 24-bit number, from the pieces of its three bytes.\<close>

lemma rfc_digits_pieces:
  assumes "ra < 4" "qb < 16" "rb < 16" "qc < 4" "rc < (64 :: nat)"
  shows "rfc_digits ((4 * qa + ra) * 256 ^ 2 + (16 * qb + rb) * 256 + (64 * qc + rc))
       = [qa, ra * 16 + qb, rb * 4 + qc, rc]" (is "rfc_digits ?n = _")
proof -
  have "?n div 262144 = qa"
    using assms by (intro div_nat_eqI) simp_all
  moreover have "?n div 4096 = 64 * qa + (ra * 16 + qb)"
    using assms by (intro div_nat_eqI) simp_all
  then have "?n div 4096 mod 64 = ra * 16 + qb"
    using assms by simp
  moreover have "?n div 64 = 64 * (64 * qa + (ra * 16 + qb)) + (rb * 4 + qc)"
    using assms by (intro div_nat_eqI) simp_all
  then have "?n div 64 mod 64 = (rb * 4 + qc) mod 64"
    by (simp only: mod_mult_self4)
  then have "?n div 64 mod 64 = rb * 4 + qc"
    using assms by simp
  moreover have "?n = 64 * (64 * (64 * qa + (ra * 16 + qb)) + (rb * 4 + qc)) + rc"
    by simp
  then have "?n mod 64 = rc"
    using assms by (metis mod_mult_self4 mod_less)
  ultimately show ?thesis by (simp add: rfc_digits_def)
qed

lemma encode_group_rfc: "map unat (encode_group [a, b, c]) = rfc_digits (unat a * 256 ^ 2 + unat b * 256 + unat c)"
proof -
  have "unat b div 16 < 16" "unat c div 64 < 4"
    using unat8_less [of b] unat8_less [of c] by linarith+
  from rfc_digits_pieces [of "unat a mod 4" "unat b div 16" "unat b mod 16" "unat c div 64"
      "unat c mod 64" "unat a div 4"] this
  show ?thesis
    by (simp add: encode_group_def encode_head_def sextet_values del: drop_bit_and push_bit_and)
qed

lemma map_base64_char: "map base64_char ks = map (\<lambda>d. base64_chars ! d) (map unat ks)"
  by (simp add: base64_char_def)

lemma encode_group_chars: "map base64_char (encode_group [a, b, c]) = rfc_group a b c"
  by (simp only: map_base64_char encode_group_rfc rfc_group_def)

lemma encode_head_chars: "n \<le> 3 \<Longrightarrow> map base64_char (take n (encode_head [a, b, c])) = take n (rfc_group a b c)"
  using encode_group_chars [of a b c, symmetric]
  by (cases "n = 3"; cases "n = 2"; cases "n = 1"; cases "n = 0") (simp_all add: encode_group_def encode_head_def)

definition base64_encode_finish :: "nat \<times> uchar list \<times> string \<Rightarrow> string" where
  "base64_encode_finish = (\<lambda>(i, a3, ret).
     if i \<noteq> 0
     then let a3 = zero_from (3 - i) i a3
          in ret @ map base64_char (take (i + 1) (encode_head a3)) @ replicate (3 - i) (CHR ''='')
     else ret)"

lemma length_3_cases: "length xs = 3 \<Longrightarrow> (\<And>x y z. xs = [x, y, z] \<Longrightarrow> P) \<Longrightarrow> P"
  by (auto simp: numeral_eq_Suc length_Suc_conv)

lemma base64_encode_loop_rfc:
  "length a3 = 3 \<Longrightarrow> base64_encode_finish (base64_encode_loop bs 0 a3 ret) = ret @ rfc4648 bs"
proof (induction bs arbitrary: a3 ret rule: rfc4648.induct)
  case (1 a b c bs)
  from 1 show ?case
    by (elim length_3_cases) (simp add: encode_group_chars [symmetric] Let_def)
next
  case (2 a b)
  then show ?case
    by (elim length_3_cases)
       (simp add: base64_encode_finish_def encode_head_chars numeral_2_eq_2 numeral_3_eq_3)
next
  case (3 a)
  then show ?case
    by (elim length_3_cases)
       (simp add: base64_encode_finish_def encode_head_chars numeral_2_eq_2 numeral_3_eq_3)
next
  case 4
  then show ?case by (simp add: base64_encode_finish_def)
qed

lemma base64_encode_rfc: "length junk3 = 3 \<Longrightarrow> base64_encode junk3 bs = rfc4648 bs"
  using base64_encode_loop_rfc [of junk3 bs "[]"]
  by (simp add: base64_encode_def base64_encode_finish_def)

section \<open>The decoder reads the longest valid prefix\<close>

definition base64_decode_finish :: "nat \<times> uchar list \<times> string \<Rightarrow> string" where
  "base64_decode_finish = (\<lambda>(i, a4, ret).
     if i \<noteq> 0 then ret @ bytes_to_string (take (i - 1) (decode_head (find_upto i a4))) else ret)"

lemma is_base64_not_pad: "is_base64 c \<Longrightarrow> c \<noteq> CHR ''=''"
  by (auto simp: is_base64_def isalnum_def isdigit_def isupper_def islower_def)

lemma length_4_cases: "length xs = 4 \<Longrightarrow> (\<And>w x y z. xs = [w, x, y, z] \<Longrightarrow> P) \<Longrightarrow> P"
  by (auto simp: numeral_eq_Suc length_Suc_conv)

fun quads :: "string \<Rightarrow> string list" where
  "quads (a # b # c # d # r) = [a, b, c, d] # quads r"
| "quads r = [r]"

lemma bytes_to_string_simps [simp]:
  "bytes_to_string [] = []"
  "bytes_to_string (a @ b) = bytes_to_string a @ bytes_to_string b"
  by (simp_all add: bytes_to_string_def)

lemma base64_decode_loop_stop:
  "rest = [] \<or> \<not> is_base64 (hd rest) \<Longrightarrow> base64_decode_loop rest i a4 ret = (i, a4, ret)"
  by (cases rest) auto

lemma decode_head_ignores:
  "decode_head [w, x, y, z] = decode_head [w, x, y]"
  "take (Suc (Suc 0)) (decode_head a4) = decode_head a4"
  by (simp_all add: decode_head_def)

lemma take_1_decode_head: "take (Suc 0) (decode_head [w, x, y]) = take (Suc 0) (decode_head [w, x, 0])"
  by (simp add: decode_head_def)

lemma base64_decode_loop_prefix:
  assumes "rest = [] \<or> \<not> is_base64 (hd rest)"
  shows "\<forall>c \<in> set s. is_base64 c \<Longrightarrow> length a4 = 4 \<Longrightarrow>
     base64_decode_finish (base64_decode_loop (s @ rest) 0 a4 ret)
       = ret @ bytes_to_string (decode_sextets (map sextet s))"
proof (induction s arbitrary: a4 ret rule: quads.induct)
  case (1 a b c d r)
  from 1 show ?case
    by (elim length_4_cases) (simp add: sextet_def is_base64_not_pad Let_def)
qed (insert base64_decode_loop_stop [OF assms],
    auto elim!: length_4_cases simp: base64_decode_finish_def sextet_def is_base64_not_pad
      decode_head_ignores numeral_2_eq_2 numeral_3_eq_3 intro: arg_cong [OF take_1_decode_head])

lemma base64_decode_spec:
  assumes "length junk4 = 4"
  shows "base64_decode junk4 s = bytes_to_string (decode_sextets (map sextet (takeWhile is_base64 s)))"
proof -
  have "dropWhile is_base64 s = [] \<or> \<not> is_base64 (hd (dropWhile is_base64 s))"
    using hd_dropWhile by blast
  moreover have "\<forall>c \<in> set (takeWhile is_base64 s). is_base64 c"
    by (auto dest: set_takeWhileD)
  ultimately have "base64_decode_finish (base64_decode_loop (takeWhile is_base64 s @ dropWhile is_base64 s) 0 junk4 [])
      = bytes_to_string (decode_sextets (map sextet (takeWhile is_base64 s)))"
    using assms by (simp only: base64_decode_loop_prefix append_Nil)
  then show ?thesis
    by (simp only: takeWhile_dropWhile_id base64_decode_def base64_decode_finish_def)
qed

section \<open>Round trip\<close>

lemma find_char_base64: "n < 64 \<Longrightarrow> find_char (base64_chars ! n) base64_chars = Some n"
  by (simp add: numeral_eq_Suc less_Suc_eq) (elim disjE; simp add: base64_chars_def)

lemma is_base64_chars: "c \<in> set base64_chars \<Longrightarrow> is_base64 c"
  by (simp add: base64_chars_def)
     (elim disjE; simp add: is_base64_def isalnum_def isdigit_def isupper_def islower_def)

lemma length_base64_chars: "length base64_chars = 64"
  by (simp add: base64_chars_def)

lemma sextet_base64_char: "unat k < 64 \<Longrightarrow> sextet (base64_char k) = k"
  by (simp add: sextet_def base64_char_def base64_find_def find_char_base64)

lemma is_base64_base64_char: "unat k < 64 \<Longrightarrow> is_base64 (base64_char k)"
  unfolding base64_char_def by (rule is_base64_chars) (simp add: length_base64_chars)

lemma encode_group_small: "k \<in> set (encode_group [a, b, c]) \<Longrightarrow> unat k < 64"
proof -
  assume "k \<in> set (encode_group [a, b, c])"
  then have "unat k \<in> set (map unat (encode_group [a, b, c]))" by simp
  moreover have "unat a * 65536 + unat b * 256 + unat c < 16777216"
    using unat8_less [of a] unat8_less [of b] unat8_less [of c] by linarith
  then have "(unat a * 256 ^ 2 + unat b * 256 + unat c) div 64 ^ 3 < 64"
    by (simp add: div_less_iff_less_mult)
  ultimately show ?thesis
    unfolding encode_group_rfc by (auto simp: rfc_digits_def)
qed

lemma encode_group_texts:
  "\<forall>k \<in> set ks. unat k < 64 \<Longrightarrow> map sextet (map base64_char ks) = ks"
  "\<forall>k \<in> set ks. unat k < 64 \<Longrightarrow> \<forall>c \<in> set (map base64_char ks). is_base64 c"
  by (induction ks) (auto simp: sextet_base64_char is_base64_base64_char)

lemma rfc_group_sextets:
  "map sextet (rfc_group a b c) = encode_group [a, b, c]"
  "c' \<in> set (rfc_group a b c) \<Longrightarrow> is_base64 c'"
  using encode_group_texts [of "encode_group [a, b, c]"]
  by (auto simp: encode_group_chars [symmetric] encode_group_small)

lemma decode_encode_group: "decode_group (encode_group [a, b, c]) = [a, b, c]"
  by (simp add: decode_group_def decode_head_def encode_group_def encode_head_def word8_bits)

lemma decode_encode_tail:
  "decode_head (take 3 (encode_group [a, b, 0])) = [a, b]"
  "take 1 (decode_head (take 2 (encode_group [a, 0, 0]) @ [0])) = [a]"
  by (simp_all add: decode_head_def encode_group_def encode_head_def word8_bits)

lemma takeWhile_stop: "\<forall>x \<in> set xs. P x \<Longrightarrow> \<not> P y \<Longrightarrow> takeWhile P (xs @ y # ys) = xs"
  by (induction xs) auto

lemma pad_not_base64: "\<not> is_base64 (CHR ''='')"
  using is_base64_not_pad by blast

lemma length_encode_group: "length (encode_group a3) = 4"
  by (simp add: encode_group_def encode_head_def)

lemma decode_rfc4648: "decode_sextets (map sextet (takeWhile is_base64 (rfc4648 bs))) = bs"
proof (induction bs rule: rfc4648.induct)
  case (1 a b c bs)
  have "takeWhile is_base64 (rfc4648 (a # b # c # bs)) = rfc_group a b c @ takeWhile is_base64 (rfc4648 bs)"
    by (simp add: takeWhile_append2 rfc_group_sextets(2))
  with 1 length_encode_group [of "[a, b, c]"] decode_encode_group [of a b c] show ?case
    by (auto simp: rfc_group_sextets elim!: length_4_cases)
next
  case (2 a b)
  have "takeWhile is_base64 (rfc4648 [a, b]) = take 3 (rfc_group a b 0)"
    by (auto intro!: takeWhile_stop simp: pad_not_base64 rfc_group_sextets(2) dest: in_set_takeD)
  with length_encode_group [of "[a, b, 0]"] decode_encode_tail(1) [of a b] show ?case
    by (auto simp: rfc_group_sextets take_map [symmetric] elim!: length_4_cases)
next
  case (3 a)
  have "takeWhile is_base64 (rfc4648 [a]) = take 2 (rfc_group a 0 0)"
    by (auto intro!: takeWhile_stop simp: pad_not_base64 rfc_group_sextets(2) dest: in_set_takeD)
  with length_encode_group [of "[a, 0, 0]"] decode_encode_tail(2) [of a] show ?case
    by (auto simp: rfc_group_sextets take_map [symmetric] elim!: length_4_cases)
next
  case 4
  then show ?case by simp
qed

lemma length_decode_sextets:
  "length (decode_sextets xs) = 3 * (length xs div 4) + (length xs mod 4 - 1)"
  by (induction xs rule: decode_sextets.induct) (auto simp: decode_group_def decode_head_def div_add_self1)

lemma inj_char_of_unat: "inj (\<lambda>b :: uchar. char_of (unat b) :: char)"
  by (rule injI) (metis unat8_less of_char_of mod_less unsigned_word_eqI)

interpretation cpp_base64: codec "base64_encode [x, y, z]" "base64_decode [p, q, r, s]"
  "\<lambda>_. True" bytes_to_string for x y z p q r s
proof unfold_locales
  show "base64_decode [p, q, r, s] (base64_encode [x, y, z] bs) = bytes_to_string bs" for bs
    by (simp add: base64_encode_rfc base64_decode_spec decode_rfc4648)
next
  fix bs cs
  assume "bytes_to_string bs = bytes_to_string cs"
  then show "bs = cs"
    using inj_char_of_unat by (simp add: bytes_to_string_def inj_map_eq_map)
qed

section \<open>Properties\<close>

text \<open>
  C5. Decoding what the encoder wrote gives the bytes back, whatever the uninitialised working
  arrays of either function held at the start.
\<close>

theorem base64_roundtrip:
  "base64_decode [p, q, r, s] (base64_encode [x, y, z] bytes) = bytes_to_string bytes"
  by (rule cpp_base64.decode_encode) (rule TrueI)

text \<open>
  The encoder writes the RFC 4648 text of its input: base-64 digits of the bits, three bytes
  at a time, padded with \<open>=\<close>.
\<close>

lemma base64_encode_rfc4648: "base64_encode [x, y, z] bytes = rfc4648 bytes"
  by (simp add: base64_encode_rfc)

text \<open>
  The decoder reads the longest prefix of alphabet characters and ignores everything from the
  first other character on: the result does not depend on the rest of the input nor on the
  uninitialised array, and it has three bytes for every four characters and one or two for a last
  group of two or three.
\<close>

lemma base64_decode_prefix:
  assumes "\<forall>c \<in> set text. is_base64 c" and "rest = [] \<or> \<not> is_base64 (hd rest)"
  shows "base64_decode [p, q, r, s] (text @ rest) = base64_decode [p', q', r', s'] text \<and>
    length (base64_decode [p, q, r, s] (text @ rest)) = 3 * (length text div 4) + (length text mod 4 - 1)"
proof -
  have tw: "takeWhile is_base64 (text @ rest) = text" "takeWhile is_base64 text = text"
    using assms by (cases rest; simp add: takeWhile_append2 takeWhile_eq_all_conv)+
  have "base64_decode [p, q, r, s] (text @ rest) = bytes_to_string (decode_sextets (map sextet text))"
    by (subst base64_decode_spec) (simp, simp only: tw)
  moreover have "base64_decode [p', q', r', s'] text = bytes_to_string (decode_sextets (map sextet text))"
    by (subst base64_decode_spec) (simp, simp only: tw)
  ultimately show ?thesis
    by (simp add: length_decode_sextets bytes_to_string_def)
qed

end
