(* ===== verification/Webcc_Base64.thy ===== *)
theory Webcc_Base64
  imports Base64_Cpp
begin

text \<open>
  The codec of \<open>webcc/base64.cc\<close>, which writes the credentials of Basic authorization. It works on
  a buffer of fixed size: the model returns the characters written through \<open>out++\<close>, and a result of
  \<^const>\<open>None\<close> is a write past the end of the destination string.
\<close>

definition kAlphabet :: string where
  "kAlphabet = ''ABCDEFGHIJKLMNOPQRSTUVWXYZ'' @ ''abcdefghijklmnopqrstuvwxyz'' @ ''0123456789+/''"

definition kInverse :: "int list" where
  "kInverse =
     [-1, -1, -1, -1, -1, -1, -1, -1, -1, -1, -1, -1, -1, -1, -1, -1,
      -1, -1, -1, -1, -1, -1, -1, -1, -1, -1, -1, -1, -1, -1, -1, -1,
      -1, -1, -1, -1, -1, -1, -1, -1, -1, -1, -1, 62, -1, -1, -1, 63,
      52, 53, 54, 55, 56, 57, 58, 59, 60, 61, -1, -1, -1, -1, -1, -1,
      -1,  0,  1,  2,  3,  4,  5,  6,  7,  8,  9, 10, 11, 12, 13, 14,
      15, 16, 17, 18, 19, 20, 21, 22, 23, 24, 25, -1, -1, -1, -1, -1,
      -1, 26, 27, 28, 29, 30, 31, 32, 33, 34, 35, 36, 37, 38, 39, 40,
      41, 42, 43, 44, 45, 46, 47, 48, 49, 50, 51, -1, -1, -1, -1, -1]
     @ replicate 128 (-1)"

definition EncodedSize :: "nat \<Rightarrow> nat" where
  "EncodedSize n = 4 * ((n + 2) div 3)"

definition DecodedSize :: "nat \<Rightarrow> nat" where
  "DecodedSize n = n div 4 * 3"

definition alphabet_char :: "uchar \<Rightarrow> char" where
  "alphabet_char k = kAlphabet ! unat k"

text \<open>\<open>Encode\<close>: \<open>len / 3\<close> groups of three bytes, then the switch on \<open>len % 3\<close>.\<close>

fun Encode :: "uchar list \<Rightarrow> string" where
  "Encode (a # b # c # rest) =
     [alphabet_char (drop_bit 2 (a AND 0xfc)),
      alphabet_char (push_bit 4 (a AND 0x03) + drop_bit 4 (b AND 0xf0)),
      alphabet_char (push_bit 2 (b AND 0x0f) + drop_bit 6 (c AND 0xc0)),
      alphabet_char (c AND 0x3f)] @ Encode rest"
| "Encode [a, b] =
     [alphabet_char (drop_bit 2 (a AND 0xfc)),
      alphabet_char (push_bit 4 (a AND 0x03) + drop_bit 4 (b AND 0xf0)),
      alphabet_char (push_bit 2 (b AND 0x0f)),
      CHR ''='']"
| "Encode [a] =
     [alphabet_char (drop_bit 2 (a AND 0xfc)),
      alphabet_char (push_bit 4 (a AND 0x03)),
      CHR ''='',
      CHR ''='']"
| "Encode [] = []"

text \<open>
  \<open>Decode\<close>: the loop keeps the array \<open>c4\<close>, its fill level \<open>i\<close>, the bytes written and the number
  of characters consumed.
\<close>

definition decode_c3 :: "uchar list \<Rightarrow> uchar list" where
  "decode_c3 c4 =
     [push_bit 2 (c4 ! 0) + drop_bit 4 (c4 ! 1 AND 0x30),
      push_bit 4 (c4 ! 1 AND 0xf) + drop_bit 2 (c4 ! 2 AND 0x3c),
      push_bit 6 (c4 ! 2 AND 0x3) + c4 ! 3]"

fun Decode_loop :: "string \<Rightarrow> nat \<Rightarrow> uchar list \<Rightarrow> uchar list \<Rightarrow> nat \<Rightarrow> nat \<times> uchar list \<times> uchar list \<times> nat" where
  "Decode_loop [] i c4 out consumed = (i, c4, out, consumed)"
| "Decode_loop (c # cs) i c4 out consumed =
     (if c \<noteq> CHR ''=''
      then let v = kInverse ! byte c
           in if v = - 1 then (i, c4, out, consumed)
              else let c4 = c4[i := of_int v]
                   in if Suc i = 4
                      then Decode_loop cs 0 c4 (out @ decode_c3 c4) (Suc consumed)
                      else Decode_loop cs (Suc i) c4 out (Suc consumed)
      else (i, c4, out, consumed))"

definition Decode_base64 :: "uchar list \<Rightarrow> string \<Rightarrow> uchar list \<times> nat" where
  "Decode_base64 junk4 src =
     (case Decode_loop src 0 junk4 [] 0 of (i, c4, out, consumed) \<Rightarrow>
        (if i > 0 then out @ take (i - 1) (decode_c3 c4) else out, consumed))"

text \<open>The destination string is resized first, written to, and resized to what was written.\<close>

definition store_output :: "nat \<Rightarrow> string \<Rightarrow> string option" where
  "store_output n written = (if length written \<le> n then Some written else None)"

definition Base64Encode :: "uchar list \<Rightarrow> string option" where
  "Base64Encode data = store_output (EncodedSize (length data)) (Encode data)"

definition string_to_bytes :: "string \<Rightarrow> uchar list" where
  "string_to_bytes s = map (\<lambda>c. of_nat (byte c)) s"

definition Base64Encode_string :: "string \<Rightarrow> string option" where
  "Base64Encode_string input = Base64Encode (string_to_bytes input)"

definition Base64Decode :: "uchar list \<Rightarrow> string \<Rightarrow> string option" where
  "Base64Decode junk4 input =
     store_output (DecodedSize (length input)) (bytes_to_string (fst (Decode_base64 junk4 input)))"

section \<open>The two codecs of the repository agree\<close>

lemma alphabet_char_eq: "alphabet_char = base64_char"
  by (simp add: fun_eq_iff alphabet_char_def base64_char_def kAlphabet_def base64_chars_def)

lemma Encode_rfc4648: "Encode bs = rfc4648 bs"
  by (induction bs rule: Encode.induct)
     (simp_all add: encode_group_chars [symmetric] alphabet_char_eq encode_group_def encode_head_def)

text \<open>The table by ranges of codes, and its agreement with the search of the other codec.\<close>

definition inverse_entry :: "nat \<Rightarrow> int" where
  "inverse_entry n =
     (if 65 \<le> n \<and> n \<le> 90 then int n - 65
      else if 97 \<le> n \<and> n \<le> 122 then int n - 71
      else if 48 \<le> n \<and> n \<le> 57 then int n + 4
      else if n = 43 then 62
      else if n = 47 then 63
      else - 1)"

lemma upt_0_128: "[0..<128] = 0 # 1 # [2..<128 :: nat]"
  by (simp add: upt_conv_Cons)

lemma kInverse_table: "kInverse = map inverse_entry [0..<256]"
proof -
  have "map inverse_entry [0..<128] @ map inverse_entry [128..<256] = kInverse"
  proof -
    have "map inverse_entry [128..<256] = replicate 128 (- 1)"
      by (rule replicate_eqI) (auto simp: inverse_entry_def)
    moreover have "map inverse_entry [0..<128] @ replicate 128 (- 1) = kInverse"
      by (simp add: inverse_entry_def upt_rec_numeral kInverse_def upt_0_128)
    ultimately show ?thesis by simp
  qed
  moreover have "[0..<256] = [0..<128] @ [128..<256 :: nat]"
    using upt_add_eq_append [of 0 128 "128 :: nat"] by (simp del: upt_rec_numeral)
  ultimately show ?thesis by simp
qed

lemma base64_chars_entry: "k < 64 \<Longrightarrow> inverse_entry (byte (base64_chars ! k)) = int k"
  by (simp add: numeral_eq_Suc less_Suc_eq) (elim disjE; simp add: base64_chars_def inverse_entry_def)

lemma is_base64_in_chars: "is_base64 c \<Longrightarrow> c \<in> set base64_chars"
proof -
  assume "is_base64 c"
  then have "byte c \<in> {48..<58} \<union> {65..<91} \<union> {97..<123} \<union> {43, 47}"
    by (auto simp: is_base64_def isalnum_def isdigit_def isupper_def islower_def)
  then have "char_of (byte c) \<in> char_of ` ({48..<58} \<union> {65..<91} \<union> {97..<123} \<union> {43, 47 :: nat})"
    by (rule imageI)
  moreover have "char_of ` ({48..<58} \<union> {65..<91} \<union> {97..<123} \<union> {43, 47 :: nat}) \<subseteq> set base64_chars"
    by (simp add: atLeastLessThan_upt upt_rec_numeral base64_chars_def char_of_def bit_0)
  ultimately show ?thesis by auto
qed

lemma kInverse_eq: "kInverse ! byte c = (if is_base64 c then uint (sextet c) else - 1)"
proof -
  have entry: "kInverse ! byte c = inverse_entry (byte c)"
    by (simp add: kInverse_table)
  show ?thesis
  proof (cases "is_base64 c")
    case True
    then obtain k where k: "k < 64" "c = base64_chars ! k"
      using is_base64_in_chars length_base64_chars by (metis in_set_conv_nth)
    have "sextet c = of_nat k"
      using k by (simp add: sextet_def base64_find_def find_char_base64)
    with k entry True show ?thesis
      by (simp add: base64_chars_entry unsigned_of_nat take_bit_nat_eq_self)
  next
    case False
    then show ?thesis
      by (auto simp: entry inverse_entry_def is_base64_def isalnum_def isdigit_def isupper_def islower_def
          of_char_eq_iff [of c "CHR ''+''", simplified] of_char_eq_iff [of c "CHR ''/''", simplified])
  qed
qed

definition Decode_finish :: "nat \<times> uchar list \<times> uchar list \<times> nat \<Rightarrow> uchar list \<times> nat" where
  "Decode_finish = (\<lambda>(i, c4, out, consumed).
     (if i > 0 then out @ take (i - 1) (decode_c3 c4) else out, consumed))"

lemma decode_c3_group:
  "decode_c3 [w, x, y, z] = decode_group [w, x, y, z]"
  "take (Suc 0) (decode_group [w, x, y, z]) = take (Suc 0) (decode_head [w, x, 0])"
  "take (Suc (Suc 0)) (decode_group [w, x, y, z]) = decode_head [w, x, y]"
  by (simp_all add: decode_c3_def decode_group_def decode_head_def)

lemma uint_not_minus_1: "uint (w :: uchar) \<noteq> - 1"
  using uint_ge_0 [of w] by linarith

lemma Decode_loop_step:
  "is_base64 c \<Longrightarrow> Decode_loop (c # cs) i c4 out k =
     (let c4 = c4[i := sextet c]
      in if Suc i = 4 then Decode_loop cs 0 c4 (out @ decode_c3 c4) (Suc k)
         else Decode_loop cs (Suc i) c4 out (Suc k))"
  by (simp add: kInverse_eq is_base64_not_pad Let_def uint_not_minus_1)

lemma Decode_loop_stop:
  "rest = [] \<or> \<not> is_base64 (hd rest) \<Longrightarrow> Decode_loop rest i c4 out k = (i, c4, out, k)"
  by (cases rest) (auto simp: kInverse_eq)

lemma Decode_loop_prefix:
  assumes "rest = [] \<or> \<not> is_base64 (hd rest)"
  shows "\<forall>c \<in> set s. is_base64 c \<Longrightarrow> length c4 = 4 \<Longrightarrow>
     Decode_finish (Decode_loop (s @ rest) 0 c4 out k)
       = (out @ decode_sextets (map sextet s), k + length s)"
proof (induction s arbitrary: c4 out k rule: quads.induct)
  case (1 a b c d r)
  then show ?case
    by (elim length_4_cases) (simp add: Decode_loop_step decode_c3_group Let_def del: Decode_loop.simps)
qed (insert Decode_loop_stop [OF assms],
    auto elim!: length_4_cases simp: Decode_finish_def Decode_loop_step Let_def
      decode_c3_group numeral_2_eq_2 numeral_3_eq_3 simp del: Decode_loop.simps(2))

lemma Decode_spec:
  assumes "length junk4 = 4"
  shows "Decode_base64 junk4 s
       = (decode_sextets (map sextet (takeWhile is_base64 s)), length (takeWhile is_base64 s))"
proof -
  have "dropWhile is_base64 s = [] \<or> \<not> is_base64 (hd (dropWhile is_base64 s))"
    using hd_dropWhile by blast
  moreover have "\<forall>c \<in> set (takeWhile is_base64 s). is_base64 c"
    by (auto dest: set_takeWhileD)
  ultimately have "Decode_finish (Decode_loop (takeWhile is_base64 s @ dropWhile is_base64 s) 0 junk4 [] 0)
      = (decode_sextets (map sextet (takeWhile is_base64 s)), length (takeWhile is_base64 s))"
    using assms by (simp only: Decode_loop_prefix append_Nil add_0)
  then show ?thesis
    by (simp only: takeWhile_dropWhile_id Decode_base64_def Decode_finish_def)
qed

lemma length_rfc4648: "length (rfc4648 bs) = EncodedSize (length bs)"
proof (induction bs rule: rfc4648.induct)
  case (1 a b c bs)
  have "(length (a # b # c # bs) + 2) div 3 = Suc ((length bs + 2) div 3)" by simp
  with 1 show ?case by (simp add: EncodedSize_def rfc_group_def rfc_digits_def)
qed (simp_all add: EncodedSize_def rfc_group_def rfc_digits_def)

lemma Base64Encode_rfc: "Base64Encode bs = Some (rfc4648 bs)"
  by (simp add: Base64Encode_def store_output_def Encode_rfc4648 length_rfc4648)

lemma Base64Decode_spec:
  assumes "length junk4 = 4"
  shows "Base64Decode junk4 s =
     (if 3 * (length (takeWhile is_base64 s) div 4) + (length (takeWhile is_base64 s) mod 4 - 1)
           \<le> 3 * (length s div 4)
      then Some (bytes_to_string (decode_sextets (map sextet (takeWhile is_base64 s))))
      else None)"
  using assms
  by (simp add: Base64Decode_def store_output_def Decode_spec DecodedSize_def length_decode_sextets
      bytes_to_string_def mult.commute)

lemma bytes_of_string [simp]: "bytes_to_string (string_to_bytes s) = s"
  by (simp add: bytes_to_string_def string_to_bytes_def comp_def)

lemma string_to_bytes_inj: "string_to_bytes s = string_to_bytes t \<Longrightarrow> s = t"
  by (metis bytes_of_string)

lemma prefix_fits:
  "k \<le> n \<Longrightarrow> 3 * (k div 4) + (k mod 4 - 1) \<le> 3 * (n div 4) \<longleftrightarrow> \<not> (k div 4 = n div 4 \<and> 2 \<le> k mod 4)"
  for k n :: nat
proof -
  assume "k \<le> n"
  then have "k div 4 \<le> n div 4" by (rule div_le_mono)
  moreover have "k mod 4 < 4" by simp
  ultimately show ?thesis by linarith
qed

lemma whole_groups: "4 dvd n \<Longrightarrow> k \<le> n \<Longrightarrow> \<not> (k div 4 = n div 4 \<and> 2 \<le> k mod 4)" for k n :: nat
proof
  assume "4 dvd n" "k \<le> n" "k div 4 = n div 4 \<and> 2 \<le> k mod 4"
  moreover from \<open>4 dvd n\<close> have "n = 4 * (n div 4)" by simp
  ultimately show False
    using div_mult_mod_eq [of k 4] by linarith
qed

lemma Base64Decode_rfc4648:
  assumes "length junk4 = 4"
  shows "Base64Decode junk4 (rfc4648 bs) = Some (bytes_to_string bs)"
proof -
  have "4 dvd length (rfc4648 bs)"
    by (simp add: length_rfc4648 EncodedSize_def)
  from whole_groups [OF this length_takeWhile_le [of is_base64]] show ?thesis
    using prefix_fits [OF length_takeWhile_le [of is_base64 "rfc4648 bs"]]
    by (simp add: Base64Decode_spec [OF assms] decode_rfc4648)
qed

interpretation webcc_base64: codec "\<lambda>s. the (Base64Encode_string s)" "Base64Decode [p, q, r, t]"
  "\<lambda>_. True" Some for p q r t
  by unfold_locales (simp_all add: Base64Encode_string_def Base64Encode_rfc Base64Decode_rfc4648)

section \<open>Properties\<close>

text \<open>
  C21. Encoding never writes past its buffer and writes the same text as \<open>base64_encode\<close> of the other
  codec; decoding that text gives the string back, also without leaving the buffer.
\<close>

theorem webcc_base64_roundtrip:
  "Base64Encode_string s = Some (base64_encode [x, y, z] (string_to_bytes s)) \<and>
   Option.bind (Base64Encode_string s) (Base64Decode [p, q, r, t]) = Some s"
proof -
  have "Base64Encode_string s = Some (base64_encode [x, y, z] (string_to_bytes s))"
    by (simp add: Base64Encode_string_def Base64Encode_rfc base64_encode_rfc)
  with webcc_base64.decode_encode [where x = s and p = p and q = q and r = r and t = t] show ?thesis by simp
qed

text \<open>
  C36. \<open>Base64Decode\<close> writes past the end of its buffer exactly when the valid prefix of the input
  ends in a group of two or three characters that the size computation drops; otherwise it agrees
  with \<open>base64_decode\<close> of the other codec. A length divisible by four is always safe.
\<close>

theorem webcc_base64_decode_bounds:
  "Base64Decode [p, q, r, t] s =
     (let k = length (takeWhile is_base64 s)
      in if k div 4 = length s div 4 \<and> 2 \<le> k mod 4 then None
         else Some (base64_decode [p', q', r', t'] s)) \<and>
   (4 dvd length s \<longrightarrow> Base64Decode [p, q, r, t] s \<noteq> None)"
proof -
  note fits = prefix_fits [OF length_takeWhile_le [of is_base64 s]]
  have "4 dvd length s \<Longrightarrow>
      \<not> (length (takeWhile is_base64 s) div 4 = length s div 4 \<and> 2 \<le> length (takeWhile is_base64 s) mod 4)"
    using whole_groups [OF _ length_takeWhile_le [of is_base64 s]] by blast
  with fits show ?thesis
    by (simp add: Base64Decode_spec base64_decode_spec Let_def)
qed

theorem webcc_base64_decode_bounds_witness:
  "Base64Decode [0, 0, 0, 0] ''QUI='' \<noteq> None \<and> Base64Decode [0, 0, 0, 0] ''QUI'' = None"
  using webcc_base64_decode_bounds [of 0 0 0 0 "''QUI=''" 0 0 0 0]
    webcc_base64_decode_bounds [of 0 0 0 0 "''QUI''" 0 0 0 0]
  by (simp add: is_base64_def isalnum_def isdigit_def isupper_def islower_def)

end
