(* ===== verification/Webcc_Common.thy ===== *)
theory Webcc_Common
  imports Prelude
begin

text \<open>
  \<open>webcc/globals.h\<close>, \<open>globals.cc\<close>, \<open>utility.cc\<close>, \<open>common.h\<close> and \<open>common.cc\<close>: constants, errors, the
  header list, the parsers of \<open>Content-Type\<close> and \<open>Content-Disposition\<close>, and the parts of
  multipart forms. A \<open>Payload\<close> is the list of the byte strings its buffers point to.
\<close>

section \<open>Constants and errors (globals)\<close>

abbreviation kCRLF :: string where "kCRLF \<equiv> [CR, LF]"
definition kInvalidLength :: size_t where "kInvalidLength = npos"
definition kBufferSize :: size_t where "kBufferSize = 1024"
definition kMaxDumpSize :: nat where "kMaxDumpSize = 2048"
definition kGzipThreshold :: nat where "kGzipThreshold = 1400"

definition kGet :: string where "kGet = ''GET''"
definition kHead :: string where "kHead = ''HEAD''"
definition kPost :: string where "kPost = ''POST''"
definition kPut :: string where "kPut = ''PUT''"
definition kDelete :: string where "kDelete = ''DELETE''"
definition kPatch :: string where "kPatch = ''PATCH''"

datatype Status =
    kOK | kCreated | kAccepted | kNoContent | kNotModified | kBadRequest | kNotFound
  | kInternalServerError | kNotImplemented | kServiceUnavailable

fun status_code :: "Status \<Rightarrow> int" where
  "status_code kOK = 200"
| "status_code kCreated = 201"
| "status_code kAccepted = 202"
| "status_code kNoContent = 204"
| "status_code kNotModified = 304"
| "status_code kBadRequest = 400"
| "status_code kNotFound = 404"
| "status_code kInternalServerError = 500"
| "status_code kNotImplemented = 501"
| "status_code kServiceUnavailable = 503"

definition kHost :: string where "kHost = ''Host''"
definition kDate :: string where "kDate = ''Date''"
definition kAuthorization :: string where "kAuthorization = ''Authorization''"
definition kContentType :: string where "kContentType = ''Content-Type''"
definition kContentLength :: string where "kContentLength = ''Content-Length''"
definition kContentEncoding :: string where "kContentEncoding = ''Content-Encoding''"
definition kContentDisposition :: string where "kContentDisposition = ''Content-Disposition''"
definition kConnection :: string where "kConnection = ''Connection''"
definition kTransferEncoding :: string where "kTransferEncoding = ''Transfer-Encoding''"
definition kAccept :: string where "kAccept = ''Accept''"
definition kAcceptEncoding :: string where "kAcceptEncoding = ''Accept-Encoding''"
definition kUserAgent :: string where "kUserAgent = ''User-Agent''"
definition kServer :: string where "kServer = ''Server''"

definition kApplicationJson :: string where "kApplicationJson = ''application/json''"

lemmas header_name_defs =
  kHost_def kDate_def kAuthorization_def kContentType_def kContentLength_def kContentEncoding_def
  kContentDisposition_def kConnection_def kTransferEncoding_def kAccept_def kAcceptEncoding_def
  kUserAgent_def kServer_def

definition UserAgent :: string where
  "UserAgent = ''Webcc/'' @ ''0.1.0''"

definition InitMap :: "(string \<times> string) list" where
  "InitMap =
     [(''gif'', ''image/gif''), (''htm'', ''text/html''), (''html'', ''text/html''),
      (''jpg'', ''image/jpeg''), (''jpeg'', ''image/jpeg''), (''png'', ''image/png''),
      (''txt'', ''text/plain''), ([], [])]"

definition FromExtension :: "string \<Rightarrow> bool \<Rightarrow> string" where
  "FromExtension extension default_to_plain_text =
     (case map_of InitMap extension of
        Some media_type \<Rightarrow> media_type
      | None \<Rightarrow> if default_to_plain_text then ''text/plain'' else [])"

datatype Error =
    kNoError | kSchemaError | kHostResolveError | kEndpointConnectError | kHandshakeError
  | kSocketReadError | kSocketWriteError | kHttpError | kFileIOError

fun DescribeError :: "Error \<Rightarrow> string" where
  "DescribeError kSchemaError = ''Schema error''"
| "DescribeError kHostResolveError = ''Host resolve error''"
| "DescribeError kEndpointConnectError = ''Endpoint connect error''"
| "DescribeError kHandshakeError = ''Handshake error''"
| "DescribeError kSocketReadError = ''Socket read error''"
| "DescribeError kSocketWriteError = ''Socket write error''"
| "DescribeError kHttpError = ''HTTP error''"
| "DescribeError kFileIOError = ''File IO error''"
| "DescribeError _ = []"

record Exception =
  ex_error :: Error
  ex_msg :: string
  ex_timeout :: bool

definition make_Exception :: "Error \<Rightarrow> string \<Rightarrow> bool \<Rightarrow> Exception" where
  "make_Exception err details timeout =
     \<lparr>ex_error = err,
      ex_msg = DescribeError err
        @ (if details \<noteq> [] then '' ('' @ details @ '')'' else [])
        @ (if timeout then '' (timeout)'' else []),
      ex_timeout = timeout\<rparr>"

section \<open>Splitting (utility)\<close>

text \<open>\<open>Split2\<close>: cut at the first token and trim both parts; \<^const>\<open>None\<close> when there is no token.\<close>

definition Split2 :: "platform \<Rightarrow> string \<Rightarrow> char \<Rightarrow> (string \<times> string) option" where
  "Split2 B str token =
     (case find_char token str of
        None \<Rightarrow> None
      | Some pos \<Rightarrow> Some (boost_trim B (take pos str), boost_trim B (drop (pos + 1) str)))"

section \<open>Headers (common)\<close>

type_synonym header = "string \<times> string"
type_synonym headers = "header list"
type_synonym payload = "string list"

text \<open>\<open>Find\<close> returns an iterator: the position of the first matching entry, or the end.\<close>

fun Headers_Find :: "platform \<Rightarrow> string \<Rightarrow> headers \<Rightarrow> nat" where
  "Headers_Find B key [] = 0"
| "Headers_Find B key (h # hs) =
     (if boost_iequals B (fst h) key then 0 else Suc (Headers_Find B key hs))"

definition Headers_Set :: "platform \<Rightarrow> string \<Rightarrow> string \<Rightarrow> headers \<Rightarrow> headers" where
  "Headers_Set B key value hs =
     (let it = Headers_Find B key hs
      in if it < length hs then hs[it := (fst (hs ! it), value)] else hs @ [(key, value)])"

definition Headers_Has :: "platform \<Rightarrow> string \<Rightarrow> headers \<Rightarrow> bool" where
  "Headers_Has B key hs \<longleftrightarrow> Headers_Find B key hs \<noteq> length hs"

text \<open>\<open>Get\<close> returns the value, empty if there is none, and sets \<open>existed\<close>.\<close>

definition Headers_Get :: "platform \<Rightarrow> string \<Rightarrow> headers \<Rightarrow> string \<times> bool" where
  "Headers_Get B key hs =
     (let it = Headers_Find B key hs
      in if it \<noteq> length hs then (snd (hs ! it), True) else ([], False))"

section \<open>Content-Type\<close>

record ContentType =
  ct_media_type :: string
  ct_additional :: string
  ct_multipart :: bool

text \<open>\<open>ParseValue\<close> stores the value as soon as there is one, also when the key is not the expected one.\<close>

definition ParseValue :: "platform \<Rightarrow> string \<Rightarrow> string \<Rightarrow> string \<Rightarrow> bool \<times> string" where
  "ParseValue B str expected_key value =
     (case Split2 B str (CHR ''='') of
        None \<Rightarrow> (False, value)
      | Some (key, val) \<Rightarrow> if key \<noteq> expected_key then (False, val) else (val \<noteq> [], val))"

definition ContentType_Init :: "platform \<Rightarrow> string \<Rightarrow> ContentType \<Rightarrow> ContentType" where
  "ContentType_Init B str ct =
     (let (media_type, other) =
            (case find_char (CHR '';'') str of
               None \<Rightarrow> (str, [])
             | Some pos \<Rightarrow> (take pos str, drop (pos + 1) str));
          media_type = boost_trim B media_type;
          other = boost_trim B other
      in if media_type = ''multipart/form-data''
         then ct\<lparr>ct_media_type := media_type, ct_multipart := True,
                 ct_additional := snd (ParseValue B other ''boundary'' (ct_additional ct))\<rparr>
         else ct\<lparr>ct_media_type := media_type,
                 ct_additional := snd (ParseValue B other ''charset'' (ct_additional ct))\<rparr>)"

definition empty_ContentType :: ContentType where
  "empty_ContentType = \<lparr>ct_media_type = [], ct_additional = [], ct_multipart = False\<rparr>"

definition make_ContentType :: "platform \<Rightarrow> string \<Rightarrow> ContentType" where
  "make_ContentType B str = ContentType_Init B str empty_ContentType"

definition ContentType_Parse :: "platform \<Rightarrow> string \<Rightarrow> ContentType \<Rightarrow> ContentType" where
  "ContentType_Parse B str ct =
     ContentType_Init B str (ct\<lparr>ct_media_type := [], ct_additional := [], ct_multipart := False\<rparr>)"

definition ContentType_Valid :: "ContentType \<Rightarrow> bool" where
  "ContentType_Valid ct \<longleftrightarrow>
     ct_media_type ct \<noteq> [] \<and> (ct_multipart ct \<longrightarrow> ct_additional ct \<noteq> [])"

section \<open>Content-Disposition\<close>

record ContentDisposition =
  cd_name :: string
  cd_file_name :: string
  cd_valid :: bool

definition Unquote :: "platform \<Rightarrow> string \<Rightarrow> string" where
  "Unquote B str = boost_trim_if B (\<lambda>c. c = DQUOTE) str"

fun ContentDisposition_parts ::
  "platform \<Rightarrow> string list \<Rightarrow> ContentDisposition \<Rightarrow> bool \<times> ContentDisposition" where
  "ContentDisposition_parts B [] cd = (True, cd)"
| "ContentDisposition_parts B (p # ps) cd =
     (case Split2 B p (CHR ''='') of
        None \<Rightarrow> (False, cd)
      | Some (key, value) \<Rightarrow>
          ContentDisposition_parts B ps
            (if key = ''name'' then cd\<lparr>cd_name := Unquote B value\<rparr>
             else if key = ''filename'' then cd\<lparr>cd_file_name := Unquote B value\<rparr>
             else cd))"

definition ContentDisposition_Init ::
  "platform \<Rightarrow> string \<Rightarrow> ContentDisposition \<Rightarrow> bool \<times> ContentDisposition" where
  "ContentDisposition_Init B str cd =
     (case boost_split B (\<lambda>c. c = CHR '';'') False str of
        [] \<Rightarrow> (False, cd)
      | p # ps \<Rightarrow> if p \<noteq> ''form-data'' then (False, cd) else ContentDisposition_parts B ps cd)"

definition make_ContentDisposition :: "platform \<Rightarrow> string \<Rightarrow> ContentDisposition" where
  "make_ContentDisposition B str =
     (let (valid, cd) = ContentDisposition_Init B str \<lparr>cd_name = [], cd_file_name = [], cd_valid = False\<rparr>
      in cd\<lparr>cd_valid := valid\<rparr>)"

section \<open>Parts of a multipart form\<close>

record FormPart =
  fp_name :: string
  fp_file_name :: string
  fp_media_type :: string
  fp_headers :: headers
  fp_data :: string

definition empty_FormPart :: FormPart where
  "empty_FormPart = \<lparr>fp_name = [], fp_file_name = [], fp_media_type = [], fp_headers = [], fp_data = []\<rparr>"

text \<open>
  The file constructor: \<open>read\<close> is what \<open>ReadFile\<close> finds at the path, \<open>filename\<close> and \<open>extension\<close> are
  \<open>path.filename()\<close> and \<open>path.extension()\<close> (the extension starts with its dot).
\<close>

definition make_FormPart_file ::
  "string \<Rightarrow> string option \<Rightarrow> string \<Rightarrow> string \<Rightarrow> string \<Rightarrow> Exception + FormPart" where
  "make_FormPart_file name read filename extension media_type =
     (case read of
        None \<Rightarrow> Inl (make_Exception kFileIOError ''Cannot read the file.'' False)
      | Some data \<Rightarrow>
          Inr (empty_FormPart\<lparr>fp_name := name, fp_data := data, fp_file_name := filename,
                 fp_media_type := (if media_type = [] then FromExtension extension False else media_type)\<rparr>))"

definition make_FormPart :: "string \<Rightarrow> string \<Rightarrow> string \<Rightarrow> FormPart" where
  "make_FormPart name data media_type =
     empty_FormPart\<lparr>fp_name := name, fp_data := data, fp_media_type := media_type\<rparr>"

definition AppendData :: "string \<Rightarrow> FormPart \<Rightarrow> FormPart" where
  "AppendData d part = part\<lparr>fp_data := fp_data part @ d\<rparr>"

definition FormPart_SetHeaders :: "platform \<Rightarrow> FormPart \<Rightarrow> FormPart" where
  "FormPart_SetHeaders B part =
     (let cd = ''form-data''
            @ (if fp_name part \<noteq> [] then ''; name='' @ [DQUOTE] @ fp_name part @ [DQUOTE] else [])
            @ (if fp_file_name part \<noteq> [] then ''; filename='' @ [DQUOTE] @ fp_file_name part @ [DQUOTE] else []);
          hs = Headers_Set B kContentDisposition cd (fp_headers part);
          hs = (if fp_media_type part \<noteq> [] then Headers_Set B kContentType (fp_media_type part) hs else hs)
      in part\<lparr>fp_headers := hs\<rparr>)"

definition header_payload :: "headers \<Rightarrow> payload" where
  "header_payload hs = concat (map (\<lambda>h. [fst h, '': '', snd h, kCRLF]) hs)"

definition FormPart_Prepare :: "platform \<Rightarrow> FormPart \<Rightarrow> payload \<Rightarrow> FormPart \<times> payload" where
  "FormPart_Prepare B part payload =
     (let part = (if fp_headers part = [] then FormPart_SetHeaders B part else part)
      in (part, payload @ header_payload (fp_headers part) @ [kCRLF]
            @ (if fp_data part \<noteq> [] then [fp_data part] else []) @ [kCRLF]))"

section \<open>A header list is a map with case-insensitive keys\<close>

abbreviation upper :: "string \<Rightarrow> string" where
  "upper s \<equiv> map toupper s"

definition headers_map :: "headers \<Rightarrow> string \<rightharpoonup> string" where
  "headers_map hs = map_of (map (\<lambda>(k, v). (upper k, v)) hs)"

definition headers_inv :: "headers \<Rightarrow> bool" where
  "headers_inv hs \<longleftrightarrow> distinct (map (upper \<circ> fst) hs)"

definition headers_look :: "platform \<Rightarrow> string \<Rightarrow> headers \<Rightarrow> string option" where
  "headers_look B key hs = (let (value, existed) = Headers_Get B key hs in if existed then Some value else None)"

lemma Headers_Find_le: "Headers_Find B key hs \<le> length hs"
  by (induction hs) auto

context boost_string begin

lemma Headers_Find_none: "Headers_Find B key hs = length hs \<longleftrightarrow> headers_map hs (upper key) = None"
  by (induction hs) (auto simp: headers_map_def iequals)

lemma Headers_Find_some:
  "Headers_Find B key hs < length hs \<Longrightarrow>
     headers_map hs (upper key) = Some (snd (hs ! Headers_Find B key hs)) \<and>
     upper (fst (hs ! Headers_Find B key hs)) = upper key"
  by (induction hs) (auto simp: headers_map_def iequals)

lemma headers_map_update:
  "i < length hs \<Longrightarrow> i = Headers_Find B key hs \<Longrightarrow>
     headers_map (hs[i := (fst (hs ! i), value)]) = (headers_map hs)(upper key \<mapsto> value)"
proof (induction hs arbitrary: i)
  case (Cons h hs)
  obtain k v where h: "h = (k, v)" by (cases h)
  show ?case
  proof (cases "boost_iequals B k key")
    case True
    with Cons.prems h show ?thesis by (simp add: headers_map_def iequals fun_eq_iff)
  next
    case False
    with Cons.prems h obtain j where j: "i = Suc j" "j = Headers_Find B key hs" "j < length hs" by simp
    with Cons.IH [of j] False h show ?thesis
      by (auto simp: headers_map_def iequals fun_eq_iff)
  qed
qed simp

lemma headers_map_Set: "headers_map (Headers_Set B key value hs) = (headers_map hs)(upper key \<mapsto> value)"
proof (cases "Headers_Find B key hs < length hs")
  case True
  then show ?thesis by (simp add: Headers_Set_def headers_map_update Let_def)
next
  case False
  with Headers_Find_le [of B key hs] have "headers_map hs (upper key) = None"
    by (simp add: Headers_Find_none [symmetric])
  with False show ?thesis
    by (auto simp: Headers_Set_def headers_map_def map_add_def fun_eq_iff split: option.splits)
qed

lemma Headers_Get_map:
  "Headers_Get B key hs = (case headers_map hs (upper key) of Some v \<Rightarrow> (v, True) | None \<Rightarrow> ([], False))"
  using Headers_Find_some [of key hs] Headers_Find_none [of key hs] Headers_Find_le [of B key hs]
  by (auto simp: Headers_Get_def Let_def split: option.splits)

lemma Headers_Has_map: "Headers_Has B key hs \<longleftrightarrow> upper key \<in> dom (headers_map hs)"
  using Headers_Find_none [of key hs] by (auto simp: Headers_Has_def)

lemma headers_look_map: "headers_look B key hs = headers_map hs (upper key)"
  by (simp add: headers_look_def Headers_Get_map split: option.splits)

lemma headers_inv_Set: "headers_inv hs \<Longrightarrow> headers_inv (Headers_Set B key value hs)"
proof (cases "Headers_Find B key hs < length hs")
  case True
  then have "map (upper \<circ> fst) (Headers_Set B key value hs) = map (upper \<circ> fst) hs"
    by (simp add: Headers_Set_def map_update list_update_same_conv Let_def)
  then show "headers_inv hs \<Longrightarrow> ?thesis" by (simp add: headers_inv_def)
next
  case False
  with Headers_Find_le [of B key hs] Headers_Find_none [of key hs] have "upper key \<notin> dom (headers_map hs)"
    by auto
  then have "upper key \<notin> set (map (upper \<circ> fst) hs)"
    by (auto simp: headers_map_def dom_map_of_conv_image_fst image_iff)
  with False show "headers_inv hs \<Longrightarrow> ?thesis"
    by (simp add: headers_inv_def Headers_Set_def)
qed

end

sublocale boost_string \<subseteq> hdr: keyed_store "Headers_Set B" "headers_look B" "boost_iequals B" headers_inv
  by unfold_locales
     (auto simp: headers_look_map headers_map_Set headers_inv_Set iequals)

text \<open>
  C20. The header list refines a finite map with case-insensitive names: \<open>Set\<close> updates the map,
  \<open>Has\<close> is membership, \<open>Get\<close> returns the value or the empty string and reports whether the name was
  there, and no two entries ever have the same name up to case.
\<close>

theorem headers_refine_map:
  "boost_string B \<Longrightarrow>
     headers_map (Headers_Set B key value hs) = (headers_map hs)(map toupper key \<mapsto> value)
     \<and> Headers_Has B key hs = (map toupper key \<in> dom (headers_map hs))
     \<and> Headers_Get B key hs =
         (case headers_map hs (map toupper key) of Some v \<Rightarrow> (v, True) | None \<Rightarrow> ([], False))
     \<and> (headers_inv hs \<longrightarrow> headers_inv (Headers_Set B key value hs))"
  using boost_string.headers_map_Set boost_string.Headers_Has_map boost_string.Headers_Get_map
    boost_string.headers_inv_Set by blast

theorem headers_refine_map_witness:
  "Headers_Get reference_platform ''HOST'' (Headers_Set reference_platform ''Host'' ''h'' []) = (''h'', True)"
  using headers_refine_map [OF ref.boost_string_axioms, of "''Host''" "''h''" "[]"]
    headers_refine_map [OF ref.boost_string_axioms, of "''HOST''" "''x''"
      "Headers_Set reference_platform ''Host'' ''h'' []"]
  by (simp add: toupper_def islower_def char_of_def bit_0)

section \<open>Reading back what the writers produce\<close>

text \<open>A token survives trimming: it is not empty and has no white space.\<close>

definition token :: "string \<Rightarrow> bool" where
  "token s \<longleftrightarrow> s \<noteq> [] \<and> (\<forall>c \<in> set s. \<not> isspace c)"

lemma token_trim: "token s \<Longrightarrow> trim_by isspace s = s"
  by (rule trim_by_id) (auto simp: token_def)

lemma trim_by_space: "P c \<Longrightarrow> trim_by P (c # s) = trim_by P s"
  by (simp add: trim_by_def)

context boost_string begin

lemma Split2_token:
  "token k \<Longrightarrow> t \<notin> set k \<Longrightarrow> Split2 B (k @ t # v) t = Some (k, trim_by isspace v)"
  by (simp add: Split2_def find_char_append trim token_trim)

lemma ContentType_multipart:
  assumes "token k" "CHR ''='' \<notin> set k" "token v"
  shows "make_ContentType B (''multipart/form-data; '' @ k @ CHR ''='' # v)
    = \<lparr>ct_media_type = ''multipart/form-data'', ct_additional = v, ct_multipart = True\<rparr>"
proof -
  have f: "find_char (CHR '';'') (''multipart/form-data; '' @ k @ CHR ''='' # v) = Some 19"
    by simp
  have m: "trim_by isspace ''multipart/form-data'' = ''multipart/form-data''"
    by (rule trim_by_id) (simp add: isspace_def)
  have "trim_by isspace (CHR '' '' # k @ CHR ''='' # v) = k @ CHR ''='' # v"
    using assms by (subst trim_by_space) (auto simp: isspace_def token_def intro!: trim_by_id)
  then show ?thesis
    using assms f m
    by (simp add: make_ContentType_def ContentType_Init_def empty_ContentType_def trim ParseValue_def
      Split2_token token_trim)
qed

end

text \<open>
  A multipart content type written with any parameter name, not only \<open>boundary\<close>, is read as valid
  and the parameter's value becomes the boundary: \<open>ParseValue\<close> stores the value before it compares
  the key.
\<close>

lemma content_type_any_key:
  "boost_string B \<Longrightarrow> token k \<Longrightarrow> CHR ''='' \<notin> set k \<Longrightarrow> token v \<Longrightarrow>
     make_ContentType B (''multipart/form-data; '' @ k @ CHR ''='' # v)
       = \<lparr>ct_media_type = ''multipart/form-data'', ct_additional = v, ct_multipart = True\<rparr>
     \<and> ContentType_Valid (make_ContentType B (''multipart/form-data; '' @ k @ CHR ''='' # v))"
  using boost_string.ContentType_multipart [of B k v] by (simp add: ContentType_Valid_def token_def)


text \<open>What a quoted parameter can carry: no semicolon, and no quote at either end.\<close>

definition quotable :: "string \<Rightarrow> bool" where
  "quotable s \<longleftrightarrow> CHR '';'' \<notin> set s \<and> (s = [] \<or> hd s \<noteq> DQUOTE \<and> last s \<noteq> DQUOTE)"

text \<open>The parameters of the disposition that \<open>SetHeaders\<close> writes, as the pieces between semicolons.\<close>

definition disposition_params :: "FormPart \<Rightarrow> string list" where
  "disposition_params part =
     (if fp_name part \<noteq> [] then ['' name='' @ [DQUOTE] @ fp_name part @ [DQUOTE]] else [])
     @ (if fp_file_name part \<noteq> [] then ['' filename='' @ [DQUOTE] @ fp_file_name part @ [DQUOTE]] else [])"

definition disposition_text :: "FormPart \<Rightarrow> string" where
  "disposition_text part = ''form-data'' @ concat (map (\<lambda>p. CHR '';'' # p) (disposition_params part))"

lemma split_by_pieces:
  "\<forall>c \<in> set w. \<not> P c \<Longrightarrow> \<forall>p \<in> set ps. \<forall>c \<in> set p. \<not> P c \<Longrightarrow> P d \<Longrightarrow>
     split_by P (w @ concat (map (\<lambda>p. d # p) ps)) = w # ps"
  by (induction ps arbitrary: w) (auto simp: split_by_word split_by_append)

lemma trim_by_quotes:
  "s = [] \<or> \<not> P (hd s) \<and> \<not> P (last s) \<Longrightarrow> P q \<Longrightarrow> trim_by P (q # s @ [q]) = s"
  using trim_by_id [of s P] by (cases "s = []") (auto simp: trim_by_def dropWhile_append3 dropWhile_hd)

context boost_string begin

lemma Split2_quoted:
  assumes "token k" "CHR ''='' \<notin> set k"
  shows "Split2 B (CHR '' '' # k @ CHR ''='' # DQUOTE # v @ [DQUOTE]) (CHR ''='')
    = Some (k, DQUOTE # v @ [DQUOTE])"
proof -
  have f: "find_char (CHR ''='') ((CHR '' '' # k) @ CHR ''='' # DQUOTE # v @ [DQUOTE]) = Some (Suc (length k))"
    using assms by (subst find_char_append) auto
  have t: "trim_by isspace (CHR '' '' # k) = k"
    using assms by (subst trim_by_space) (simp_all add: isspace_def token_trim)
  have "trim_by isspace (DQUOTE # v @ [DQUOTE]) = DQUOTE # v @ [DQUOTE]"
    by (rule trim_by_id) (simp add: isspace_def)
  with f t show ?thesis by (simp add: Split2_def trim)
qed

lemma Unquote_quoted: "quotable s \<Longrightarrow> Unquote B (DQUOTE # s @ [DQUOTE]) = s"
  by (simp add: Unquote_def trim_if quotable_def trim_by_quotes)

lemmas Split2_params =
  Split2_quoted [of "''name''", simplified] Split2_quoted [of "''filename''", simplified]

lemma disposition_parts:
  assumes "quotable (fp_name part)" "quotable (fp_file_name part)"
  shows "ContentDisposition_parts B (disposition_params part) \<lparr>cd_name = [], cd_file_name = [], cd_valid = v\<rparr>
    = (True, \<lparr>cd_name = fp_name part, cd_file_name = fp_file_name part, cd_valid = v\<rparr>)"
  using assms by (simp add: disposition_params_def Split2_params Unquote_quoted token_def isspace_def)

lemma make_ContentDisposition_text:
  assumes "quotable (fp_name part)" "quotable (fp_file_name part)"
  shows "make_ContentDisposition B (disposition_text part)
    = \<lparr>cd_name = fp_name part, cd_file_name = fp_file_name part, cd_valid = True\<rparr>"
proof -
  have "split_by (\<lambda>c. c = CHR '';'') (disposition_text part) = ''form-data'' # disposition_params part"
    unfolding disposition_text_def
    by (rule split_by_pieces) (use assms in \<open>auto simp: disposition_params_def quotable_def\<close>)
  with disposition_parts [OF assms] show ?thesis
    by (simp add: make_ContentDisposition_def ContentDisposition_Init_def split)
qed

lemma SetHeaders_disposition:
  "headers_inv (fp_headers part) \<Longrightarrow>
     Headers_Get B kContentDisposition (fp_headers (FormPart_SetHeaders B part)) = (disposition_text part, True)"
  by (simp add: FormPart_SetHeaders_def disposition_text_def disposition_params_def Headers_Get_map
    headers_map_Set header_name_defs Let_def)

end

text \<open>
  The name and the file name of a form part survive the \<open>Content-Disposition\<close> header: reading the
  header that \<open>SetHeaders\<close> wrote gives both back, when they hold no semicolon and do not start or end
  with a quote.
\<close>

lemma content_disposition_roundtrip:
  "boost_string B \<Longrightarrow> headers_inv (fp_headers part) \<Longrightarrow>
     quotable (fp_name part) \<Longrightarrow> quotable (fp_file_name part) \<Longrightarrow>
     make_ContentDisposition B
       (fst (Headers_Get B kContentDisposition (fp_headers (FormPart_SetHeaders B part))))
     = \<lparr>cd_name = fp_name part, cd_file_name = fp_file_name part, cd_valid = True\<rparr>"
  by (simp add: boost_string.SetHeaders_disposition boost_string.make_ContentDisposition_text)


end
