(* ===== verification/Webcc_Url.thy ===== *)
theory Webcc_Url
  imports Prelude
begin

text \<open>
  \<open>webcc/url.h\<close> and \<open>url.cc\<close>: percent-decoding and -encoding, the list of query parameters and the
  URL parser. \<open>char\<close> is signed: a byte of 128 or more is a negative \<open>char\<close>.
\<close>

section \<open>Percent-decoding and -encoding\<close>

definition HexToDecimal :: "char \<Rightarrow> nat option" where
  "HexToDecimal hex =
     (if 48 \<le> byte hex \<and> byte hex \<le> 57 then Some (byte hex - 48)
      else if 65 \<le> byte hex \<and> byte hex \<le> 70 then Some (10 + (byte hex - 65))
      else if 97 \<le> byte hex \<and> byte hex \<le> 102 then Some (10 + (byte hex - 97))
      else None)"

text \<open>
  \<open>Decode\<close> reads the iterator forward; \<open>raw\<close> is the string appended to so far. The text after an
  error is not returned by the caller, so failure is \<^const>\<open>None\<close>.
\<close>

fun Decode :: "string \<Rightarrow> string \<Rightarrow> string option" where
  "Decode [] raw = Some raw"
| "Decode (c # cs) raw =
     (if c = CHR ''%'' then
        (case cs of
           [] \<Rightarrow> None
         | h # cs' \<Rightarrow>
             (case HexToDecimal h of
                None \<Rightarrow> None
              | Some h_decimal \<Rightarrow>
                  (case cs' of
                     [] \<Rightarrow> None
                   | l # cs'' \<Rightarrow>
                       (case HexToDecimal l of
                          None \<Rightarrow> None
                        | Some l_decimal \<Rightarrow>
                            Decode cs'' (raw @ [char_of (push_bit 4 h_decimal + l_decimal)])))))
      else if byte c > 127 then None
      else Decode cs (raw @ [c]))"

definition hex_digits :: string where
  "hex_digits = ''0123456789ABCDEF''"

fun EncodeImpl :: "string \<Rightarrow> (nat \<Rightarrow> bool) \<Rightarrow> string" where
  "EncodeImpl [] should_encode = []"
| "EncodeImpl (c # raw) should_encode =
     (let ch = byte c
      in (if should_encode ch
          then [CHR ''%'', hex_digits ! (drop_bit 4 ch AND 0xF), hex_digits ! (ch AND 0xF)]
          else [char_of ch])
         @ EncodeImpl raw should_encode)"

definition IsAlphaNumeric :: "nat \<Rightarrow> bool" where
  "IsAlphaNumeric c \<longleftrightarrow> (48 \<le> c \<and> c \<le> 57) \<or> (65 \<le> c \<and> c \<le> 90) \<or> (97 \<le> c \<and> c \<le> 122)"

definition IsUnreserved :: "nat \<Rightarrow> bool" where
  "IsUnreserved c \<longleftrightarrow>
     IsAlphaNumeric c \<or> c = byte CHR ''-'' \<or> c = byte CHR ''.'' \<or> c = byte CHR ''_'' \<or> c = byte CHR ''~''"

definition SubDelimiter :: "nat \<Rightarrow> bool" where
  "SubDelimiter c \<longleftrightarrow> c \<in> {33, 36, 38, 39, 40, 41, 42, 43, 44, 59, 61}"

definition IsPathChar :: "nat \<Rightarrow> bool" where
  "IsPathChar c \<longleftrightarrow>
     IsUnreserved c \<or> SubDelimiter c
     \<or> c = byte CHR ''%'' \<or> c = byte CHR ''/'' \<or> c = byte CHR '':'' \<or> c = byte CHR ''@''"

definition IsQueryChar :: "nat \<Rightarrow> bool" where
  "IsQueryChar c \<longleftrightarrow> IsPathChar c \<or> c = byte CHR ''?''"

definition query_should_encode :: "nat \<Rightarrow> bool" where
  "query_should_encode c \<longleftrightarrow> \<not> IsQueryChar c \<or> c = byte CHR ''%'' \<or> c = byte CHR ''+''"

definition EncodeQuery :: "string \<Rightarrow> string" where
  "EncodeQuery query = EncodeImpl query query_should_encode"

definition SplitKeyValue :: "string \<Rightarrow> (string \<times> string) option" where
  "SplitKeyValue kv =
     (case find_char (CHR ''='') kv of
        None \<Rightarrow> None
      | Some i \<Rightarrow> if i = 0 then None else Some (take i kv, drop (i + 1) kv))"

section \<open>Query parameters\<close>

type_synonym UrlQuery = "(string \<times> string) list"

fun UrlQuery_Find :: "string \<Rightarrow> UrlQuery \<Rightarrow> nat" where
  "UrlQuery_Find key [] = 0"
| "UrlQuery_Find key (p # ps) = (if fst p = key then 0 else Suc (UrlQuery_Find key ps))"

definition UrlQuery_Has :: "string \<Rightarrow> UrlQuery \<Rightarrow> bool" where
  "UrlQuery_Has key q \<longleftrightarrow> UrlQuery_Find key q \<noteq> length q"

definition UrlQuery_Add :: "string \<Rightarrow> string \<Rightarrow> UrlQuery \<Rightarrow> UrlQuery" where
  "UrlQuery_Add key value q = (if \<not> UrlQuery_Has key q then q @ [(key, value)] else q)"

definition UrlQuery_Remove :: "string \<Rightarrow> UrlQuery \<Rightarrow> UrlQuery" where
  "UrlQuery_Remove key q =
     (let it = UrlQuery_Find key q
      in if it \<noteq> length q then take it q @ drop (it + 1) q else q)"

definition UrlQuery_Get :: "string \<Rightarrow> UrlQuery \<Rightarrow> string" where
  "UrlQuery_Get key q =
     (let it = UrlQuery_Find key q
      in if it \<noteq> length q then snd (q ! it) else [])"

definition add_pair :: "string \<Rightarrow> UrlQuery \<Rightarrow> UrlQuery" where
  "add_pair kv q = (case SplitKeyValue kv of Some (key, value) \<Rightarrow> UrlQuery_Add key value q | None \<Rightarrow> q)"

text \<open>The loop of the constructor over the rest of the string, one pair per ampersand.\<close>

function UrlQuery_loop :: "string \<Rightarrow> UrlQuery \<Rightarrow> UrlQuery" where
  "UrlQuery_loop str q =
     (case find_char (CHR ''&'') str of
        None \<Rightarrow> add_pair str q
      | Some j \<Rightarrow> UrlQuery_loop (drop (j + 1) str) (add_pair (take j str) q))"
  by pat_completeness auto
termination
  by (relation "measure (length \<circ> fst)") (auto dest: find_char_SomeD)

declare UrlQuery_loop.simps [simp del]

definition make_UrlQuery :: "string \<Rightarrow> UrlQuery" where
  "make_UrlQuery str = (if str \<noteq> [] then UrlQuery_loop str [] else [])"

fun UrlQuery_rest :: "UrlQuery \<Rightarrow> string" where
  "UrlQuery_rest [] = []"
| "UrlQuery_rest (p # ps) = ''&'' @ fst p @ ''='' @ snd p @ UrlQuery_rest ps"

definition UrlQuery_ToString :: "UrlQuery \<Rightarrow> string" where
  "UrlQuery_ToString q =
     (case q of
        [] \<Rightarrow> []
      | p # ps \<Rightarrow> EncodeQuery (fst p @ ''='' @ snd p @ UrlQuery_rest ps))"

section \<open>URLs\<close>

record Url =
  url_scheme :: string
  url_host :: string
  url_port :: string
  url_path :: string
  url_query :: string

definition empty_Url :: Url where
  "empty_Url = \<lparr>url_scheme = [], url_host = [], url_port = [], url_path = [], url_query = []\<rparr>"

definition Url_Clear :: "Url \<Rightarrow> Url" where
  "Url_Clear u = u\<lparr>url_scheme := [], url_host := [], url_port := [], url_path := [], url_query := []\<rparr>"

text \<open>The three steps of \<open>Parse\<close>: the scheme, then host, path and query, then the port of the host.\<close>

definition Url_parse_scheme :: "string \<Rightarrow> Url \<Rightarrow> string \<times> Url" where
  "Url_parse_scheme tmp u =
     (case find_str ''://'' tmp of
        Some pos \<Rightarrow> (drop (pos + 3) tmp, u\<lparr>url_scheme := take pos tmp\<rparr>)
      | None \<Rightarrow> (tmp, u))"

definition Url_parse_path :: "string \<Rightarrow> Url \<Rightarrow> Url" where
  "Url_parse_path tmp u =
     (case find_char (CHR ''/'') tmp of
        Some pos \<Rightarrow>
          (let u = u\<lparr>url_host := take pos tmp\<rparr>;
               tmp = drop (pos + 1) tmp
           in case find_char (CHR ''?'') tmp of
                Some pos \<Rightarrow> u\<lparr>url_path := take pos tmp, url_query := drop (pos + 1) tmp\<rparr>
              | None \<Rightarrow> u\<lparr>url_path := tmp\<rparr>)
      | None \<Rightarrow>
          (let u = u\<lparr>url_path := []\<rparr>
           in case find_char (CHR ''?'') tmp of
                Some pos \<Rightarrow> u\<lparr>url_host := take pos tmp, url_query := drop (pos + 1) tmp\<rparr>
              | None \<Rightarrow> u\<lparr>url_host := tmp\<rparr>))"

definition Url_parse_port :: "Url \<Rightarrow> Url" where
  "Url_parse_port u =
     (if url_host u \<noteq> [] then
        (case find_char (CHR '':'') (url_host u) of
           Some pos \<Rightarrow> u\<lparr>url_port := drop (pos + 1) (url_host u), url_host := take pos (url_host u)\<rparr>
         | None \<Rightarrow> u)
      else u)"

definition Url_Parse :: "platform \<Rightarrow> string \<Rightarrow> Url \<Rightarrow> Url" where
  "Url_Parse B str u =
     (let (tmp, u) = Url_parse_scheme (boost_trim_left B str) u
      in Url_parse_port (Url_parse_path tmp u))"

definition Url_Init :: "platform \<Rightarrow> string \<Rightarrow> bool \<Rightarrow> bool \<Rightarrow> Url \<Rightarrow> Url" where
  "Url_Init B str decode clear u =
     (let u = (if clear then Url_Clear u else u)
      in if \<not> decode \<or> find_char (CHR ''%'') str = None then Url_Parse B str u
         else (case Decode str [] of
                 Some decoded \<Rightarrow> Url_Parse B decoded u
               | None \<Rightarrow> Url_Parse B str u))"

definition make_Url :: "platform \<Rightarrow> string \<Rightarrow> bool \<Rightarrow> Url" where
  "make_Url B str decode = Url_Init B str decode True empty_Url"

definition Url_AddQuery :: "string \<Rightarrow> string \<Rightarrow> Url \<Rightarrow> Url" where
  "Url_AddQuery key value u =
     u\<lparr>url_query := (if url_query u \<noteq> [] then url_query u @ ''&'' else url_query u) @ key @ ''='' @ value\<rparr>"

section \<open>Decoding inverts encoding\<close>

lemma less_16_cases: "n < 16 \<Longrightarrow> n \<in> {0, 1, 2, 3, 4, 5, 6, 7, 8, 9, 10, 11, 12, 13, 14, 15 :: nat}"
  by (auto simp: eval_nat_numeral less_Suc_eq)

lemma HexToDecimal_hex_digit: "n < 16 \<Longrightarrow> HexToDecimal (hex_digits ! n) = Some n"
  by (drule less_16_cases) (auto simp: hex_digits_def HexToDecimal_def)

lemma byte_nibbles:
  "drop_bit 4 (byte c) AND 0xF < 16" "byte c AND 0xF < 16"
  "push_bit 4 (drop_bit 4 (byte c) AND 0xF) + (byte c AND 0xF) = byte c"
proof -
  have m: "n AND 0xF = n mod 16" for n :: nat
    using take_bit_eq_mask [of 4 n] by (simp add: mask_eq_exp_minus_1 take_bit_eq_mod)
  have "byte c div 16 < 16" using nat_of_char_less_256 [of c] by linarith
  then show "drop_bit 4 (byte c) AND 0xF < 16" "byte c AND 0xF < 16"
    "push_bit 4 (drop_bit 4 (byte c) AND 0xF) + (byte c AND 0xF) = byte c"
    by (simp_all add: m drop_bit_eq_div push_bit_eq_mult del: push_bit_and)
qed

lemma query_char_ascii: "\<not> query_should_encode n \<Longrightarrow> n \<le> 127 \<and> n \<noteq> 37"
  by (auto simp: query_should_encode_def IsQueryChar_def IsPathChar_def IsUnreserved_def
    IsAlphaNumeric_def SubDelimiter_def)

lemma Decode_EncodeQuery: "Decode (EncodeQuery s @ t) raw = Decode t (raw @ s)"
proof (induction s arbitrary: raw)
  case (Cons c s)
  show ?case
  proof (cases "query_should_encode (byte c)")
    case True
    with Cons show ?thesis
      by (simp add: EncodeQuery_def HexToDecimal_hex_digit byte_nibbles Let_def del: push_bit_and)
  next
    case False
    with query_char_ascii [of "byte c"] Cons show ?thesis
      by (auto simp: EncodeQuery_def)
  qed
qed (simp add: EncodeQuery_def)

interpretation percent: codec EncodeQuery "\<lambda>s. Decode s []" "\<lambda>_. True" Some
  by unfold_locales (use Decode_EncodeQuery [where t = "[]"] in auto)

text \<open>
  C34. Percent-encoding a query and decoding it gives the query back, for every byte string; what is
  sent holds only legal query characters and escapes, never a \<open>+\<close>, white space or a non-ASCII byte.
\<close>

theorem url_encode_roundtrip:
  "Decode (EncodeQuery s) [] = Some s
   \<and> list_all (\<lambda>c. (IsQueryChar (byte c) \<and> c \<noteq> CHR ''+'') \<or> c = CHR ''%'') (EncodeQuery s)"
proof -
  have hex: "IsQueryChar (byte (hex_digits ! n)) \<and> hex_digits ! n \<noteq> CHR ''+''" if "n < 16" for n
    using less_16_cases [OF that]
    by (auto simp: hex_digits_def IsQueryChar_def IsPathChar_def IsUnreserved_def IsAlphaNumeric_def)
  have "list_all (\<lambda>c. (IsQueryChar (byte c) \<and> c \<noteq> CHR ''+'') \<or> c = CHR ''%'') (EncodeQuery s)"
    by (induction s) (auto simp: EncodeQuery_def hex byte_nibbles query_should_encode_def Let_def)
  then show ?thesis using percent.decode_encode by simp
qed

section \<open>Query parameters as a map\<close>

lemma UrlQuery_Find_le: "UrlQuery_Find key q \<le> length q"
  by (induction q) auto

lemma UrlQuery_Find_none: "UrlQuery_Find key q = length q \<longleftrightarrow> key \<notin> fst ` set q"
  by (induction q) auto

lemma UrlQuery_Has_iff: "UrlQuery_Has key q \<longleftrightarrow> key \<in> fst ` set q"
  using UrlQuery_Find_none [of key q] by (auto simp: UrlQuery_Has_def)

lemma UrlQuery_Get_map: "UrlQuery_Get key q = (case map_of q key of Some v \<Rightarrow> v | None \<Rightarrow> [])"
  by (induction q) (auto simp: UrlQuery_Get_def Let_def)

lemma map_of_UrlQuery_Add:
  "map_of (UrlQuery_Add key value q) = (if key \<in> dom (map_of q) then map_of q else (map_of q)(key \<mapsto> value))"
  by (induction q) (auto simp: UrlQuery_Add_def UrlQuery_Has_iff fun_eq_iff split: if_splits)

lemma UrlQuery_Remove_filter:
  "distinct (map fst q) \<Longrightarrow> UrlQuery_Remove key q = filter (\<lambda>p. fst p \<noteq> key) q"
proof (induction q)
  case (Cons p q)
  then have "fst p = key \<Longrightarrow> filter (\<lambda>p. fst p \<noteq> key) q = q"
    by (auto simp: filter_id_conv image_iff)
  with Cons show ?case by (auto simp: UrlQuery_Remove_def Let_def split: if_splits)
qed (simp add: UrlQuery_Remove_def)

lemma distinct_UrlQuery_Add: "distinct (map fst q) \<Longrightarrow> distinct (map fst (UrlQuery_Add key value q))"
  by (auto simp: UrlQuery_Add_def UrlQuery_Has_iff)

lemma distinct_add_pair: "distinct (map fst q) \<Longrightarrow> distinct (map fst (add_pair kv q))"
  by (auto simp: add_pair_def distinct_UrlQuery_Add split: option.splits)

lemma distinct_UrlQuery_loop: "distinct (map fst q) \<Longrightarrow> distinct (map fst (UrlQuery_loop str q))"
  by (induction str q rule: UrlQuery_loop.induct)
     (subst UrlQuery_loop.simps, auto simp: distinct_add_pair split: option.splits)

text \<open>
  The query parameters are a map from keys to values that never overwrites: every query string
  is read into a list with distinct keys; on such a list \<open>Add\<close> keeps the first value of a key, \<open>Remove\<close>
  deletes exactly that key, \<open>Get\<close> looks it up, and all of them keep the keys distinct.
\<close>

lemma url_query_refines_map:
  "distinct (map fst (make_UrlQuery str))
   \<and> (distinct (map fst q) \<longrightarrow>
        map_of (UrlQuery_Add key val q)
          = (if UrlQuery_Has key q then map_of q else (map_of q)(key \<mapsto> val))
        \<and> map_of (UrlQuery_Remove key q) = (map_of q)(key := None)
        \<and> UrlQuery_Get key q = (case map_of q key of Some v \<Rightarrow> v | None \<Rightarrow> [])
        \<and> distinct (map fst (UrlQuery_Add key val q))
        \<and> distinct (map fst (UrlQuery_Remove key q)))"
proof -
  have "map_of (filter (\<lambda>p. fst p \<noteq> key) q) = (map_of q)(key := None)"
    by (induction q) (auto simp: fun_eq_iff)
  then show ?thesis
    by (auto simp: make_UrlQuery_def distinct_UrlQuery_loop map_of_UrlQuery_Add UrlQuery_Has_iff
      dom_map_of_conv_image_fst UrlQuery_Remove_filter UrlQuery_Get_map distinct_UrlQuery_Add
      distinct_map_filter)
qed

section \<open>Printing and reading back a query\<close>

definition good_param :: "string \<times> string \<Rightarrow> bool" where
  "good_param p \<longleftrightarrow>
     fst p \<noteq> [] \<and> CHR ''&'' \<notin> set (fst p) \<and> CHR ''='' \<notin> set (fst p) \<and> CHR ''&'' \<notin> set (snd p)"

lemma add_pair_good:
  "good_param (k, v) \<Longrightarrow> k \<notin> fst ` set q \<Longrightarrow> add_pair (k @ CHR ''='' # v) q = q @ [(k, v)]"
  by (simp add: add_pair_def SplitKeyValue_def find_char_append good_param_def UrlQuery_Add_def UrlQuery_Has_iff)

lemma UrlQuery_loop_text:
  "list_all good_param ((k, v) # ps) \<Longrightarrow> distinct (map fst (q @ (k, v) # ps)) \<Longrightarrow>
     UrlQuery_loop (k @ CHR ''='' # v @ UrlQuery_rest ps) q = q @ (k, v) # ps"
proof (induction ps arbitrary: k v q)
  case Nil
  then have "find_char (CHR ''&'') (k @ CHR ''='' # v) = None"
    by (simp add: find_char_None_iff good_param_def)
  with Nil show ?case
    by (subst UrlQuery_loop.simps) (auto simp: add_pair_good)
next
  case (Cons p ps)
  obtain k' v' where p: "p = (k', v')" by force
  have f: "find_char (CHR ''&'') ((k @ CHR ''='' # v) @ CHR ''&'' # k' @ CHR ''='' # v' @ UrlQuery_rest ps)
      = Some (length (k @ CHR ''='' # v))"
    using Cons.prems by (subst find_char_append) (auto simp: good_param_def)
  have a: "add_pair (k @ CHR ''='' # v) q = q @ [(k, v)]"
    using Cons.prems by (auto simp: add_pair_good)
  have "UrlQuery_loop ((k @ CHR ''='' # v) @ CHR ''&'' # k' @ CHR ''='' # v' @ UrlQuery_rest ps) q
      = UrlQuery_loop (k' @ CHR ''='' # v' @ UrlQuery_rest ps) (q @ [(k, v)])"
    by (subst UrlQuery_loop.simps) (simp only: f option.simps, simp add: a)
  with Cons.IH [of k' v' "q @ [(k, v)]"] Cons.prems p show ?case by simp
qed

text \<open>
  The query that \<open>ToString\<close> prints, percent-decoded and read again, is the same list of
  parameters, when the keys are distinct and not empty and neither keys nor values hold the
  delimiters. Other bytes are free.
\<close>

lemma url_query_roundtrip:
  "distinct (map fst q) \<Longrightarrow> list_all good_param q \<Longrightarrow>
     map_option make_UrlQuery (Decode (UrlQuery_ToString q) []) = Some q"
proof (cases q)
  case (Cons p ps)
  assume "distinct (map fst q)" "list_all good_param q"
  with Cons UrlQuery_loop_text [of "fst p" "snd p" ps "[]"] show ?thesis
    by (simp add: UrlQuery_ToString_def percent.decode_encode make_UrlQuery_def)
qed (simp add: UrlQuery_ToString_def make_UrlQuery_def)


section \<open>Reading a URL\<close>

text \<open>A URL as a client writes it, and the parts for which the reading is unambiguous.\<close>

definition url_text :: "Url \<Rightarrow> string" where
  "url_text u = url_scheme u @ ''://'' @ url_host u
     @ (if url_port u \<noteq> [] then '':'' @ url_port u else [])
     @ ''/'' @ url_path u @ (if url_query u \<noteq> [] then ''?'' @ url_query u else [])"

definition url_parts_ok :: "Url \<Rightarrow> bool" where
  "url_parts_ok u \<longleftrightarrow>
     url_scheme u \<noteq> [] \<and> \<not> isspace (hd (url_scheme u)) \<and> CHR '':'' \<notin> set (url_scheme u)
     \<and> url_host u \<noteq> [] \<and> CHR '':'' \<notin> set (url_host u) \<and> CHR ''/'' \<notin> set (url_host u)
     \<and> CHR ''/'' \<notin> set (url_port u) \<and> CHR ''?'' \<notin> set (url_path u)"

lemma Url_parse_scheme_text:
  "CHR '':'' \<notin> set s \<Longrightarrow> Url_parse_scheme (s @ ''://'' @ t) u = (t, u\<lparr>url_scheme := s\<rparr>)"
  using find_str_fresh [of "CHR '':''" s "''//''" t] by (simp add: Url_parse_scheme_def)

lemma Url_parse_path_text:
  "CHR ''/'' \<notin> set h \<Longrightarrow> CHR ''?'' \<notin> set p \<Longrightarrow>
     Url_parse_path (h @ CHR ''/'' # p @ (if q \<noteq> [] then CHR ''?'' # q else [])) u
       = u\<lparr>url_host := h, url_path := p, url_query := (if q \<noteq> [] then q else url_query u)\<rparr>"
  using find_char_None_iff [of "CHR ''?''" p]
  by (auto simp: Url_parse_path_def find_char_append Let_def)

text \<open>
  C35. A URL without escapes is taken apart into exactly the scheme, host, port, path (without its
  first slash) and query it was written from.
\<close>

theorem url_parse_text:
  "boost_string B \<Longrightarrow> url_parts_ok u \<Longrightarrow> make_Url B (url_text u) False = u"
proof -
  assume B: "boost_string B" and ok: "url_parts_ok u"
  let ?h = "url_host u @ (if url_port u \<noteq> [] then '':'' @ url_port u else [])"
  let ?r = "?h @ CHR ''/'' # url_path u @ (if url_query u \<noteq> [] then CHR ''?'' # url_query u else [])"
  have tx: "url_text u = url_scheme u @ ''://'' @ ?r"
    by (simp add: url_text_def)
  have t: "boost_trim_left B (url_text u) = url_text u"
    using ok by (simp add: boost_string.trim_left [OF B] trim_left_by_def tx url_parts_ok_def dropWhile_hd)
  have s: "Url_parse_scheme (url_text u) v = (?r, v\<lparr>url_scheme := url_scheme u\<rparr>)" for v
    unfolding tx by (rule Url_parse_scheme_text) (use ok in \<open>simp add: url_parts_ok_def\<close>)
  have p: "Url_parse_path ?r v
      = v\<lparr>url_host := ?h, url_path := url_path u, url_query := (if url_query u \<noteq> [] then url_query u else url_query v)\<rparr>" for v
    by (rule Url_parse_path_text) (use ok in \<open>auto simp: url_parts_ok_def\<close>)
  have "Url_Parse B (url_text u) v = Url_parse_port (v\<lparr>url_scheme := url_scheme u, url_host := ?h,
      url_path := url_path u, url_query := (if url_query u \<noteq> [] then url_query u else url_query v)\<rparr>)" for v
    unfolding Url_Parse_def t s Let_def prod.case p by simp
  then have "make_Url B (url_text u) False = \<lparr>url_scheme = url_scheme u, url_host = url_host u,
      url_port = url_port u, url_path = url_path u, url_query = url_query u\<rparr>"
    using ok find_char_None_iff [of "CHR '':''" "url_host u"]
    by (simp add: make_Url_def Url_Init_def Url_Clear_def empty_Url_def url_parts_ok_def
      Url_parse_port_def find_char_append)
  then show ?thesis by (cases u) simp
qed

theorem url_parse_text_witness:
  "make_Url reference_platform (url_text \<lparr>url_scheme = ''http'', url_host = ''h'', url_port = ''80'',
     url_path = ''a/b'', url_query = ''x=1''\<rparr>) False
   = \<lparr>url_scheme = ''http'', url_host = ''h'', url_port = ''80'', url_path = ''a/b'', url_query = ''x=1''\<rparr>"
  by (rule url_parse_text [OF ref.boost_string_axioms]) (simp add: url_parts_ok_def isspace_def)

end
