(* ===== verification/Webcc_Message.thy ===== *)
theory Webcc_Message
  imports Webcc_Common Webcc_Url
begin

text \<open>
  \<open>webcc/message\<close>, \<open>request\<close> and \<open>response\<close>: the message base class as a record, requests and responses as
  its extensions, and how each is turned into the bytes that go on the wire. The date
  of \<open>GetTimestamp\<close> (the system clock) and the boundary of \<open>RandomUuid\<close> (a Boost generator) are
  arguments. The library is built in release mode, without assertions.
\<close>

section \<open>Messages\<close>

record Message =
  msg_start_line :: string
  msg_content :: string
  msg_content_type :: ContentType
  msg_content_length :: size_t
  msg_headers :: headers
  msg_payload :: payload

datatype ContentEncoding = kUnknown | kGzip | kDeflate

definition SetHeader ::
  "platform \<Rightarrow> string \<Rightarrow> string \<Rightarrow> 'a Message_scheme \<Rightarrow> 'a Message_scheme" where
  "SetHeader B key value m = m\<lparr>msg_headers := Headers_Set B key value (msg_headers m)\<rparr>"

definition GetHeader :: "platform \<Rightarrow> string \<Rightarrow> 'a Message_scheme \<Rightarrow> string \<times> bool" where
  "GetHeader B key m = Headers_Get B key (msg_headers m)"

definition HasHeader :: "platform \<Rightarrow> string \<Rightarrow> 'a Message_scheme \<Rightarrow> bool" where
  "HasHeader B key m = Headers_Has B key (msg_headers m)"

definition IsConnectionKeepAlive :: "platform \<Rightarrow> 'a Message_scheme \<Rightarrow> bool" where
  "IsConnectionKeepAlive B m =
     (let (connection, existed) = GetHeader B kConnection m
      in if \<not> existed then True else if boost_iequals B connection ''Keep-Alive'' then True else False)"

definition GetContentEncoding :: "platform \<Rightarrow> 'a Message_scheme \<Rightarrow> ContentEncoding" where
  "GetContentEncoding B m =
     (let encoding = fst (GetHeader B kContentEncoding m)
      in if encoding = ''gzip'' then kGzip else if encoding = ''deflate'' then kDeflate else kUnknown)"

definition AcceptEncodingGzip :: "platform \<Rightarrow> 'a Message_scheme \<Rightarrow> bool" where
  "AcceptEncodingGzip B m \<longleftrightarrow> find_str ''gzip'' (fst (GetHeader B kAcceptEncoding m)) \<noteq> None"

definition SetContentType_charset ::
  "platform \<Rightarrow> string \<Rightarrow> string \<Rightarrow> 'a Message_scheme \<Rightarrow> 'a Message_scheme" where
  "SetContentType_charset B media_type charset m =
     (if charset = [] then SetHeader B kContentType media_type m
      else SetHeader B kContentType (media_type @ '';charset='' @ charset) m)"

definition SetContentType :: "platform \<Rightarrow> string \<Rightarrow> 'a Message_scheme \<Rightarrow> 'a Message_scheme" where
  "SetContentType B content_type m = SetHeader B kContentType content_type m"

definition SetContentLength :: "platform \<Rightarrow> size_t \<Rightarrow> 'a Message_scheme \<Rightarrow> 'a Message_scheme" where
  "SetContentLength B content_length m =
     SetHeader B kContentLength (to_string (unat content_length)) (m\<lparr>msg_content_length := content_length\<rparr>)"

definition SetContent :: "platform \<Rightarrow> string \<Rightarrow> bool \<Rightarrow> 'a Message_scheme \<Rightarrow> 'a Message_scheme" where
  "SetContent B content set_length m =
     (let m = m\<lparr>msg_content := content\<rparr>
      in if set_length then SetContentLength B (of_nat (length (msg_content m))) m else m)"

definition Message_Prepare :: "'a Message_scheme \<Rightarrow> 'a Message_scheme" where
  "Message_Prepare m =
     m\<lparr>msg_payload :=
        [msg_start_line m, kCRLF] @ header_payload (msg_headers m) @ [kCRLF]
        @ (if msg_content m \<noteq> [] then [msg_content m] else [])\<rparr>"

definition CopyPayload :: "'a Message_scheme \<Rightarrow> string" where
  "CopyPayload m = concat (msg_payload m)"

text \<open>\<open>Dump\<close>, the text of the log: \<open>std::endl\<close> is a line feed.\<close>

fun Dump_lines :: "string \<Rightarrow> nat \<Rightarrow> string list \<Rightarrow> string" where
  "Dump_lines indent_str written [] = []"
| "Dump_lines indent_str written (line # lines) =
     indent_str
     @ (if length line + written > kMaxDumpSize
        then take (kMaxDumpSize - written) line @ ''...'' @ [LF]
        else line @ [LF] @ Dump_lines indent_str (written + length line) lines)"

definition Dump :: "platform \<Rightarrow> nat \<Rightarrow> string \<Rightarrow> 'a Message_scheme \<Rightarrow> string" where
  "Dump B indent prefix m =
     (let indent_str = replicate indent (CHR '' '') @ prefix
      in indent_str @ msg_start_line m @ [LF]
         @ concat (map (\<lambda>h. indent_str @ fst h @ '': '' @ snd h @ [LF]) (msg_headers m))
         @ indent_str @ [LF]
         @ (if msg_content m \<noteq> [] then
              if indent = 0 then
                if length (msg_content m) > kMaxDumpSize
                then take kMaxDumpSize (msg_content m) @ ''...'' @ [LF]
                else msg_content m @ [LF]
              else Dump_lines indent_str 0 (boost_split B (\<lambda>c. c = LF) False (msg_content m))
            else []))"

section \<open>Requests\<close>

record Request = Message +
  req_method :: string
  req_url :: Url
  req_form_parts :: "FormPart list"
  req_boundary :: string

definition empty_Request :: Request where
  "empty_Request =
     \<lparr>msg_start_line = [], msg_content = [], msg_content_type = empty_ContentType,
      msg_content_length = kInvalidLength, msg_headers = [], msg_payload = [],
      req_method = [], req_url = empty_Url, req_form_parts = [], req_boundary = []\<rparr>"

definition make_Request :: "platform \<Rightarrow> string \<Rightarrow> string \<Rightarrow> Request" where
  "make_Request B method url = empty_Request\<lparr>req_method := method, req_url := make_Url B url True\<rparr>"

definition set_url :: "platform \<Rightarrow> string \<Rightarrow> Request \<Rightarrow> Request" where
  "set_url B url r = r\<lparr>req_url := Url_Init B url True True (req_url r)\<rparr>"

definition Request_AddQuery :: "string \<Rightarrow> string \<Rightarrow> Request \<Rightarrow> Request" where
  "Request_AddQuery key value r = r\<lparr>req_url := Url_AddQuery key value (req_url r)\<rparr>"

definition port :: "string \<Rightarrow> Request \<Rightarrow> string" where
  "port default_port r = (if url_port (req_url r) = [] then default_port else url_port (req_url r))"

definition AddFormPart :: "FormPart \<Rightarrow> Request \<Rightarrow> Request" where
  "AddFormPart form_part r = r\<lparr>req_form_parts := req_form_parts r @ [form_part]\<rparr>"

definition CreateStartLine :: "Request \<Rightarrow> Exception + Request" where
  "CreateStartLine r =
     (if msg_start_line r \<noteq> [] then Inr r
      else if url_host (req_url r) = [] then
        Inl (make_Exception kSchemaError ''Invalid request: host is missing.'' False)
      else
        let target = ''/'' @ url_path (req_url r);
            target = (if url_query (req_url r) \<noteq> [] then target @ ''?'' @ url_query (req_url r) else target)
        in Inr (r\<lparr>msg_start_line := req_method r @ '' '' @ target @ '' HTTP/1.1''\<rparr>))"

fun Prepare_parts :: "platform \<Rightarrow> string \<Rightarrow> FormPart list \<Rightarrow> payload \<Rightarrow> FormPart list \<times> payload" where
  "Prepare_parts B boundary [] data_payload = ([], data_payload)"
| "Prepare_parts B boundary (part # parts) data_payload =
     (let (part, data_payload) = FormPart_Prepare B part (data_payload @ [''--'', boundary, kCRLF]);
          (parts, data_payload) = Prepare_parts B boundary parts data_payload
      in (part # parts, data_payload))"

definition Request_Prepare :: "platform \<Rightarrow> string \<Rightarrow> Request \<Rightarrow> Exception + Request" where
  "Request_Prepare B uuid r =
     (case CreateStartLine r of
        Inl e \<Rightarrow> Inl e
      | Inr r \<Rightarrow>
          let r = (if url_port (req_url r) = []
                   then SetHeader B kHost (url_host (req_url r)) r
                   else SetHeader B kHost (url_host (req_url r) @ '':'' @ url_port (req_url r)) r)
          in if req_form_parts r = [] then Inr (Message_Prepare r)
             else
               let r = (if req_boundary r = [] then r\<lparr>req_boundary := uuid\<rparr> else r);
                   r = SetContentType B (''multipart/form-data; boundary='' @ req_boundary r) r;
                   (parts, data_payload) = Prepare_parts B (req_boundary r) (req_form_parts r) [];
                   r = r\<lparr>req_form_parts := parts\<rparr>;
                   data_payload = data_payload @ [''--'', req_boundary r, ''--'', kCRLF];
                   content_length = foldl (\<lambda>n b. n + of_nat (length b)) 0 data_payload;
                   r = Message_Prepare (SetContentLength B content_length r)
               in Inr (r\<lparr>msg_payload := msg_payload r @ data_payload\<rparr>))"

section \<open>Responses\<close>

record Response = Message +
  res_status :: int

definition empty_Response :: "int \<Rightarrow> Response" where
  "empty_Response status =
     \<lparr>msg_start_line = [], msg_content = [], msg_content_type = empty_ContentType,
      msg_content_length = kInvalidLength, msg_headers = [], msg_payload = [], res_status = status\<rparr>"

definition status_string :: "int \<Rightarrow> string" where
  "status_string status =
     (if status = status_code kOK then ''HTTP/1.1 200 OK''
      else if status = status_code kCreated then ''HTTP/1.1 201 Created''
      else if status = status_code kAccepted then ''HTTP/1.1 202 Accepted''
      else if status = status_code kNoContent then ''HTTP/1.1 204 No Content''
      else if status = status_code kNotModified then ''HTTP/1.1 304 Not Modified''
      else if status = status_code kBadRequest then ''HTTP/1.1 400 Bad Request''
      else if status = status_code kNotFound then ''HTTP/1.1 404 Not Found''
      else if status = status_code kInternalServerError then ''HTTP/1.1 500 Internal Server Error''
      else if status = status_code kNotImplemented then ''HTTP/1.1 501 Not Implemented''
      else if status = status_code kServiceUnavailable then ''HTTP/1.1 503 Service Unavailable''
      else ''HTTP/1.1 501 Not Implemented'')"

definition Response_Prepare :: "platform \<Rightarrow> string \<Rightarrow> Response \<Rightarrow> Response" where
  "Response_Prepare B date r =
     (let r = (if msg_start_line r = [] then r\<lparr>msg_start_line := status_string (res_status r)\<rparr> else r)
      in Message_Prepare (SetHeader B kDate date (SetHeader B kServer UserAgent r)))"

section \<open>The bytes on the wire\<close>

definition header_text :: "headers \<Rightarrow> string" where
  "header_text hs = concat (map (\<lambda>h. fst h @ '': '' @ snd h @ kCRLF) hs)"

lemma concat_header_payload [simp]: "concat (header_payload hs) = header_text hs"
  by (induction hs) (auto simp: header_payload_def header_text_def)

lemma CopyPayload_Message_Prepare:
  "CopyPayload (Message_Prepare m) = msg_start_line m @ kCRLF @ header_text (msg_headers m) @ kCRLF @ msg_content m"
  by (simp add: CopyPayload_def Message_Prepare_def)

lemma foldl_sizes: "foldl (\<lambda>n b. n + of_nat (length b)) a bs = a + (of_nat (length (concat bs)) :: size_t)"
  by (induction bs arbitrary: a) (auto simp: algebra_simps)

lemma SetHeader_simps [simp]:
  "msg_start_line (SetHeader B k v m) = msg_start_line m"
  "msg_content (SetHeader B k v m) = msg_content m"
  "msg_content_length (SetHeader B k v m) = msg_content_length m"
  "msg_headers (SetHeader B k v m) = Headers_Set B k v (msg_headers m)"
  "msg_payload (SetHeader B k v m) = msg_payload m"
  by (simp_all add: SetHeader_def)

lemma SetHeader_Request [simp]:
  "req_method (SetHeader B k v r) = req_method r"
  "req_url (SetHeader B k v r) = req_url r"
  "req_form_parts (SetHeader B k v r) = req_form_parts r"
  "req_boundary (SetHeader B k v r) = req_boundary r"
  by (simp_all add: SetHeader_def)

lemma Message_Prepare_simps [simp]:
  "msg_start_line (Message_Prepare m) = msg_start_line m"
  "msg_content (Message_Prepare m) = msg_content m"
  "msg_headers (Message_Prepare m) = msg_headers m"
  "msg_content_length (Message_Prepare m) = msg_content_length m"
  by (simp_all add: Message_Prepare_def)

end
