(* ===== verification/Webcc_Parser.thy ===== *)
theory Webcc_Parser
  imports Webcc_Message
begin

text \<open>
  \<open>webcc/parser\<close> and \<open>response_parser\<close>: the incremental HTTP parser that both sides of a connection
  run on the bytes they read. The two virtual functions of the class, \<open>ParseStartLine\<close> and
  \<open>ParseContent\<close>, are arguments of the operations that call them. An exception that leaves a
  function is \<^const>\<open>Inl\<close>; the Boolean result of the code is the first component otherwise. The library
  is configured without gzip (\<open>config.h\<close>), so compressed content is left as it is.
\<close>

section \<open>State\<close>

record 'a Parser =
  message :: "'a Message_scheme"
  pending_data :: string
  content_length :: size_t
  content :: string
  start_line_parsed :: bool
  content_length_parsed :: bool
  header_ended :: bool
  chunked :: bool
  chunk_size :: size_t
  finished :: bool

definition make_Parser :: "'a Message_scheme \<Rightarrow> 'a Parser" where
  "make_Parser m =
     \<lparr>message = m, pending_data = [], content_length = kInvalidLength, content = [],
      start_line_parsed = False, content_length_parsed = False, header_ended = False,
      chunked = False, chunk_size = kInvalidLength, finished = False\<rparr>"

definition Reset :: "('a, 'b) Parser_scheme \<Rightarrow> ('a, 'b) Parser_scheme" where
  "Reset p = p\<lparr>pending_data := [], content := [], content_length := kInvalidLength,
     start_line_parsed := False, content_length_parsed := False, header_ended := False,
     chunked := False, chunk_size := kInvalidLength, finished := False\<rparr>"

definition Parser_Init :: "'a Message_scheme \<Rightarrow> ('a, 'b) Parser_scheme \<Rightarrow> ('a, 'b) Parser_scheme" where
  "Parser_Init m p = (Reset p)\<lparr>message := m\<rparr>"

section \<open>Lines and headers\<close>

definition StringToSizeT :: "string \<Rightarrow> nat \<Rightarrow> size_t option" where
  "StringToSizeT str base = (case stoul base str of Inl e \<Rightarrow> None | Inr n \<Rightarrow> Some n)"

text \<open>\<open>GetNextLine\<close>: the line that starts at an offset, and the pending data, shortened on request.\<close>

definition GetNextLine :: "string \<Rightarrow> nat \<Rightarrow> bool \<Rightarrow> (string \<times> string) option" where
  "GetNextLine pending off erase =
     (case find_from kCRLF pending off of
        None \<Rightarrow> None
      | Some pos \<Rightarrow>
          let count = pos - off;
              line = (if count > 0 then take count (drop off pending) else [])
          in Some (line, if erase then take off pending @ drop (off + count + 2) pending else pending))"

definition ParseHeaderLine ::
  "platform \<Rightarrow> string \<Rightarrow> ('a, 'b) Parser_scheme \<Rightarrow> bool \<times> ('a, 'b) Parser_scheme" where
  "ParseHeaderLine B line p =
     (case Split2 B line (CHR '':'') of
        None \<Rightarrow> (False, p)
      | Some (key, value) \<Rightarrow>
          let set = (\<lambda>p. (True, p\<lparr>message := SetHeader B key value (message p)\<rparr>))
          in if boost_iequals B key kContentLength then
               let p = p\<lparr>content_length_parsed := True\<rparr>
               in (case StringToSizeT value 10 of
                     None \<Rightarrow> (False, p)
                   | Some n \<Rightarrow>
                       let p = p\<lparr>content_length := n\<rparr>
                       in if reserve_ok B n then set p else (False, p))
             else if boost_iequals B key kContentType then
               let content_type = make_ContentType B value
               in if \<not> ContentType_Valid content_type then (False, p)
                  else set (p\<lparr>message := (message p)\<lparr>msg_content_type := content_type\<rparr>\<rparr>)
             else if boost_iequals B key kTransferEncoding then
               set (if value = ''chunked'' then p\<lparr>chunked := True\<rparr> else p)
             else set p)"

text \<open>
  The loop of \<open>ParseHeaders\<close>: the result, the offset behind the last complete line, and the parser.
  \<open>psl\<close> is the start line parser of the subclass; it acts on the message only.
\<close>

function ParseHeaders_loop ::
  "platform \<Rightarrow> (string \<Rightarrow> 'a Message_scheme \<Rightarrow> bool \<times> 'a Message_scheme) \<Rightarrow> string \<Rightarrow> nat
    \<Rightarrow> ('a, 'b) Parser_scheme \<Rightarrow> bool \<times> nat \<times> ('a, 'b) Parser_scheme" where
  "ParseHeaders_loop B psl pending off p =
     (case GetNextLine pending off False of
        None \<Rightarrow> (True, off, p)
      | Some (line, pending') \<Rightarrow>
          let off = off + length line + 2
          in if line = [] then (True, off, p\<lparr>header_ended := True\<rparr>)
             else if \<not> start_line_parsed p then
               let p = p\<lparr>start_line_parsed := True, message := (message p)\<lparr>msg_start_line := line\<rparr>\<rparr>;
                   (ok, m) = psl line (message p);
                   p = p\<lparr>message := m\<rparr>
               in if \<not> ok then (False, off, p) else ParseHeaders_loop B psl pending off p
             else
               let (ok, p) = ParseHeaderLine B line p
               in if \<not> ok then (False, off, p) else ParseHeaders_loop B psl pending off p)"
  by pat_completeness auto
termination
  by (relation "measure (\<lambda>(B, psl, pending, off, p). length pending - off)")
     (auto simp: GetNextLine_def Let_def split: option.splits if_splits dest!: find_from_SomeD)

declare ParseHeaders_loop.simps [simp del]

definition ParseHeaders ::
  "platform \<Rightarrow> (string \<Rightarrow> 'a Message_scheme \<Rightarrow> bool \<times> 'a Message_scheme)
    \<Rightarrow> ('a, 'b) Parser_scheme \<Rightarrow> bool \<times> ('a, 'b) Parser_scheme" where
  "ParseHeaders B psl p =
     (let (ok, off, p) = ParseHeaders_loop B psl (pending_data p) 0 p
      in if \<not> ok then (False, p) else (True, p\<lparr>pending_data := drop off (pending_data p)\<rparr>))"

section \<open>Content\<close>

text \<open>\<open>std::string::append(data, count)\<close>: the length check of the library.\<close>

definition string_max_size :: nat where
  "string_max_size = 2 ^ 62 - 1"

definition string_append_n :: "string \<Rightarrow> string \<Rightarrow> size_t \<Rightarrow> string result" where
  "string_append_n s data count =
     (if unat count > string_max_size - length s then Inl LengthError
      else Inr (s @ take (unat count) data))"

definition AppendContent :: "string \<Rightarrow> ('a, 'b) Parser_scheme \<Rightarrow> ('a, 'b) Parser_scheme" where
  "AppendContent data p = p\<lparr>content := content p @ data\<rparr>"

definition AppendContent_n ::
  "string \<Rightarrow> size_t \<Rightarrow> ('a, 'b) Parser_scheme \<Rightarrow> ('a, 'b) Parser_scheme result" where
  "AppendContent_n data count p =
     bind_result (string_append_n (content p) data count) (\<lambda>s. Inr (p\<lparr>content := s\<rparr>))"

definition IsContentFull :: "('a, 'b) Parser_scheme \<Rightarrow> bool" where
  "IsContentFull p \<longleftrightarrow>
     content_length p \<noteq> kInvalidLength \<and> unat (content_length p) \<le> length (content p)"

definition IsContentCompressed :: "platform \<Rightarrow> ('a, 'b) Parser_scheme \<Rightarrow> bool" where
  "IsContentCompressed B p \<longleftrightarrow> GetContentEncoding B (message p) \<noteq> kUnknown"

text \<open>
  \<open>Finish\<close> hands the content over by a move, which leaves the string of the parser empty. Without
  gzip compressed content is handed over too, so both branches are the same.
\<close>

definition Finish :: "platform \<Rightarrow> ('a, 'b) Parser_scheme \<Rightarrow> bool \<times> ('a, 'b) Parser_scheme" where
  "Finish B p =
     (let p = p\<lparr>finished := True\<rparr>
      in if content p = [] then (True, p)
         else
           let p = p\<lparr>message := (message p)\<lparr>msg_content_length := content_length p\<rparr>\<rparr>
           in if \<not> IsContentCompressed B p
              then (True, p\<lparr>message := SetContent B (content p) False (message p), content := []\<rparr>)
              else (True, p\<lparr>message := SetContent B (content p) False (message p), content := []\<rparr>))"

definition ParseFixedContent ::
  "platform \<Rightarrow> string \<Rightarrow> ('a, 'b) Parser_scheme \<Rightarrow> bool \<times> ('a, 'b) Parser_scheme" where
  "ParseFixedContent B data p =
     (if \<not> content_length_parsed p then (True, snd (Finish B p))
      else if content_length p = kInvalidLength then (False, p)
      else
        let p = (if pending_data p \<noteq> [] then (AppendContent (pending_data p) p)\<lparr>pending_data := []\<rparr> else p);
            p = AppendContent data p
        in if IsContentFull p then (True, snd (Finish B p)) else (True, p))"

definition ParseChunkSize :: "('a, 'b) Parser_scheme \<Rightarrow> bool \<times> ('a, 'b) Parser_scheme" where
  "ParseChunkSize p =
     (case GetNextLine (pending_data p) 0 True of
        None \<Rightarrow> (True, p)
      | Some (line, pending) \<Rightarrow>
          let p = p\<lparr>pending_data := pending\<rparr>;
              hex_str = (case find_char (CHR '' '') line of Some pos \<Rightarrow> take pos line | None \<Rightarrow> line)
          in (case StringToSizeT hex_str 16 of
                None \<Rightarrow> (False, p)
              | Some n \<Rightarrow> (True, p\<lparr>chunk_size := n\<rparr>)))"

lemma ParseChunkSize_pending: "length (pending_data (snd (ParseChunkSize p))) \<le> length (pending_data p)"
  by (auto simp: ParseChunkSize_def GetNextLine_def Let_def split: option.splits prod.splits if_splits
    dest!: find_from_SomeD)

text \<open>
  The loop of \<open>ParseChunkedContent\<close> ends: a pass that continues has removed at least one chunk of the pending data. A size so
  large that adding two wraps around does not pass the length check of the append.
\<close>

lemma chunk_size_no_wrap:
  fixes n :: size_t
  assumes "unat n \<le> string_max_size"
  shows "unat (n + 2) = unat n + 2"
proof -
  have "unat n + unat (2 :: size_t) < 2 ^ 64"
    using assms by (simp add: string_max_size_def)
  then show ?thesis by (subst unat_add_lem [THEN iffD1]) (simp_all)
qed

function ParseChunks ::
  "platform \<Rightarrow> ('a, 'b) Parser_scheme \<Rightarrow> (bool \<times> ('a, 'b) Parser_scheme) result" where
  "ParseChunks B p =
     (let (ok, p) = (if chunk_size p = kInvalidLength then ParseChunkSize p else (True, p))
      in if \<not> ok then Inr (False, p)
         else if chunk_size p = 0 then Inr (True, snd (Finish B p))
         else if unat (chunk_size p + 2) \<le> length (pending_data p) then
           (case AppendContent_n (pending_data p) (chunk_size p) p of
              Inl e \<Rightarrow> Inl e
            | Inr p \<Rightarrow> ParseChunks B (p\<lparr>pending_data := drop (unat (chunk_size p + 2)) (pending_data p),
                                     chunk_size := kInvalidLength\<rparr>))
         else if unat (chunk_size p) > length (pending_data p) then
           Inr (True, (AppendContent (pending_data p) p)
             \<lparr>chunk_size := chunk_size p - of_nat (length (pending_data p)), pending_data := []\<rparr>)
         else Inr (True, p))"
  by pat_completeness auto
termination
proof (relation "measure (\<lambda>(B, p). length (pending_data p))", goal_cases)
  case (2 B p x ok q r)
  from 2(6) have "unat (chunk_size q) \<le> string_max_size" "pending_data r = pending_data q"
      "chunk_size r = chunk_size q"
    by (auto simp: AppendContent_n_def string_append_n_def split: if_splits)
  moreover have "length (pending_data q) \<le> length (pending_data p)"
    using 2(1,2) ParseChunkSize_pending [of p] by (cases "ParseChunkSize p") (auto split: if_splits)
  ultimately show ?case using 2(5) by (simp add: chunk_size_no_wrap)
qed simp

declare ParseChunks.simps [simp del]

definition ParseChunkedContent ::
  "platform \<Rightarrow> string \<Rightarrow> ('a, 'b) Parser_scheme \<Rightarrow> (bool \<times> ('a, 'b) Parser_scheme) result" where
  "ParseChunkedContent B data p = ParseChunks B (p\<lparr>pending_data := pending_data p @ data\<rparr>)"

definition ParseContent ::
  "platform \<Rightarrow> string \<Rightarrow> ('a, 'b) Parser_scheme \<Rightarrow> (bool \<times> ('a, 'b) Parser_scheme) run" where
  "ParseContent B data p =
     Some (if chunked p then ParseChunkedContent B data p else Inr (ParseFixedContent B data p))"

text \<open>\<open>Parse\<close>, with the start line parser and the content parser of the subclass.\<close>

definition Parse ::
  "platform \<Rightarrow> (string \<Rightarrow> 'a Message_scheme \<Rightarrow> bool \<times> 'a Message_scheme)
    \<Rightarrow> (string \<Rightarrow> ('a, 'b) Parser_scheme \<Rightarrow> (bool \<times> ('a, 'b) Parser_scheme) run)
    \<Rightarrow> string \<Rightarrow> ('a, 'b) Parser_scheme \<Rightarrow> (bool \<times> ('a, 'b) Parser_scheme) run" where
  "Parse B psl pc data p =
     (if header_ended p then pc data p
      else
        let p = p\<lparr>pending_data := pending_data p @ data\<rparr>;
            (ok, p) = ParseHeaders B psl p
        in if \<not> ok then Some (Inr (False, p))
           else if \<not> header_ended p then Some (Inr (True, p))
           else pc [] p)"

section \<open>Responses\<close>

type_synonym ResponseParser = "unit Response_ext Parser"

definition Response_ParseStartLine :: "platform \<Rightarrow> string \<Rightarrow> Response \<Rightarrow> bool \<times> Response" where
  "Response_ParseStartLine B line r =
     (let parts = boost_split B (\<lambda>c. c = CHR '' '') True line
      in if length parts < 3 then (False, r)
         else (case stoi (parts ! 1) of
                 Inl e \<Rightarrow> (False, r)
               | Inr status \<Rightarrow> (True, r\<lparr>res_status := status\<rparr>)))"

definition ResponseParser_Parse ::
  "platform \<Rightarrow> string \<Rightarrow> ResponseParser \<Rightarrow> (bool \<times> ResponseParser) run" where
  "ResponseParser_Parse B = Parse B (Response_ParseStartLine B) (ParseContent B)"

definition ResponseParser_Init :: "Response \<Rightarrow> ResponseParser \<Rightarrow> ResponseParser" where
  "ResponseParser_Init r p = Parser_Init r p"

section \<open>The header loop on the remaining text\<close>

text \<open>
  The same loop, on what is left of the data instead of an offset: a reference definition that the
  code's loop is equivalent to and that is easier to reason about.
\<close>

definition header_step ::
  "platform \<Rightarrow> (string \<Rightarrow> 'a Message_scheme \<Rightarrow> bool \<times> 'a Message_scheme) \<Rightarrow> string
    \<Rightarrow> ('a, 'b) Parser_scheme \<Rightarrow> bool \<times> ('a, 'b) Parser_scheme" where
  "header_step B psl line p =
     (if \<not> start_line_parsed p then
        let (ok, m) = psl line ((message p)\<lparr>msg_start_line := line\<rparr>)
        in (ok, p\<lparr>start_line_parsed := True, message := m\<rparr>)
      else ParseHeaderLine B line p)"

function header_lines ::
  "platform \<Rightarrow> (string \<Rightarrow> 'a Message_scheme \<Rightarrow> bool \<times> 'a Message_scheme) \<Rightarrow> string
    \<Rightarrow> ('a, 'b) Parser_scheme \<Rightarrow> bool \<times> string \<times> ('a, 'b) Parser_scheme" where
  "header_lines B psl rest p =
     (case find_str kCRLF rest of
        None \<Rightarrow> (True, rest, p)
      | Some n \<Rightarrow>
          let line = take n rest; rest = drop (n + 2) rest
          in if line = [] then (True, rest, p\<lparr>header_ended := True\<rparr>)
             else
               let (ok, p) = header_step B psl line p
               in if \<not> ok then (False, rest, p) else header_lines B psl rest p)"
  by pat_completeness auto
termination
  by (relation "measure (\<lambda>(B, psl, rest, p). length rest)") (auto dest: find_str_SomeD)

declare header_lines.simps [simp del]

lemma ParseHeaders_loop_header_lines:
  "off \<le> length pending \<Longrightarrow>
     (let (ok, off', q) = ParseHeaders_loop B psl pending off p in (ok, drop off' pending, q))
     = header_lines B psl (drop off pending) p"
proof (induction B psl pending off p rule: ParseHeaders_loop.induct)
  case (1 B psl pending off p)
  show ?case
  proof (cases "find_str kCRLF (drop off pending)")
    case None
    then show ?thesis
      by (subst ParseHeaders_loop.simps, subst header_lines.simps)
         (use 1 in \<open>simp add: GetNextLine_def find_from_def\<close>)
  next
    case (Some n)
    from find_str_SomeD [OF Some] have n: "n + 2 \<le> length pending - off" by simp
    then have line: "GetNextLine pending off False = Some (take n (drop off pending), pending)"
      using Some 1(3) by (auto simp: GetNextLine_def find_from_def)
    have off: "off + length (take n (drop off pending)) + 2 = off + n + 2"
      using n by simp
    have le: "off + n + 2 \<le> length pending" using n 1(3) by simp
    show ?thesis
    proof (cases "n = 0")
      case True
      with line Some show ?thesis
        by (subst ParseHeaders_loop.simps, subst header_lines.simps) (simp add: Let_def)
    next
      case False
      with n have ne: "take n (drop off pending) \<noteq> []" by auto
      note IH = 1(1) [OF line refl off [symmetric] ne] 1(2) [OF line refl off [symmetric] ne]
      show ?thesis
      proof (cases "start_line_parsed p")
        case True
        with line Some ne off le IH(2) show ?thesis
          by (subst ParseHeaders_loop.simps, subst header_lines.simps)
             (auto simp: Let_def header_step_def add.commute add.left_commute split: prod.splits)
      next
        case False
        with line Some ne off le IH(1) show ?thesis
          by (subst ParseHeaders_loop.simps, subst header_lines.simps)
             (auto simp: Let_def header_step_def add.commute add.left_commute split: prod.splits)
      qed
    qed
  qed
qed

lemma ParseHeaderLine_pending:
  "ParseHeaderLine B line (p\<lparr>pending_data := d\<rparr>) = map_prod id (\<lambda>q. q\<lparr>pending_data := d\<rparr>) (ParseHeaderLine B line p)"
  by (simp add: ParseHeaderLine_def Let_def split: option.splits prod.splits)

lemma header_step_pending:
  "header_step B psl line (p\<lparr>pending_data := d\<rparr>) = map_prod id (\<lambda>q. q\<lparr>pending_data := d\<rparr>) (header_step B psl line p)"
  by (simp add: header_step_def ParseHeaderLine_pending split: prod.splits)

text \<open>The loop by cases: no complete line, the empty line, a line that is refused, a line that is taken.\<close>

lemma header_lines_none: "find_str kCRLF rest = None \<Longrightarrow> header_lines B psl rest p = (True, rest, p)"
  by (subst header_lines.simps) simp

lemma header_lines_end:
  "find_str kCRLF rest = Some 0 \<Longrightarrow> header_lines B psl rest p = (True, drop 2 rest, p\<lparr>header_ended := True\<rparr>)"
  by (subst header_lines.simps) (simp add: Let_def numeral_2_eq_2)

lemma header_lines_line:
  "find_str kCRLF rest = Some (Suc n) \<Longrightarrow>
     header_lines B psl rest p =
       (case header_step B psl (take (Suc n) rest) p of
          (True, q) \<Rightarrow> header_lines B psl (drop (n + 3) rest) q
        | (False, q) \<Rightarrow> (False, drop (n + 3) rest, q))"
  using find_str_SomeD [of kCRLF rest "Suc n"]
  by (subst header_lines.simps) (auto simp: Let_def numeral_3_eq_3 split: prod.splits bool.splits)

lemma header_lines_cons:
  assumes "l \<noteq> []" "CR \<notin> set l"
  shows "header_lines B psl (l @ kCRLF @ t) p =
    (case header_step B psl l p of (True, q) \<Rightarrow> header_lines B psl t q | (False, q) \<Rightarrow> (False, t, q))"
proof -
  obtain c l' where l: "l = c # l'" using assms(1) by (cases l) auto
  have f: "find_str kCRLF (l @ kCRLF @ t) = Some (Suc (length l'))"
    using find_str_CRLF [OF assms(2), of t] l by simp
  have td: "take (Suc (length l')) (l @ kCRLF @ t) = l" "drop (length l' + 3) (l @ kCRLF @ t) = t"
    using l by (simp_all add: numeral_3_eq_3)
  show ?thesis unfolding header_lines_line [OF f] td ..
qed

lemmas header_lines_cases = header_lines_none header_lines_end header_lines_line

lemma header_lines_induct [case_names none stop bad line]:
  assumes "\<And>rest p. find_str kCRLF rest = None \<Longrightarrow> P rest p"
    and "\<And>rest p. find_str kCRLF rest = Some 0 \<Longrightarrow> P rest p"
    and "\<And>rest p n q. find_str kCRLF rest = Some (Suc n) \<Longrightarrow>
           header_step B psl (take (Suc n) rest) p = (False, q) \<Longrightarrow> P rest p"
    and "\<And>rest p n q. find_str kCRLF rest = Some (Suc n) \<Longrightarrow>
           header_step B psl (take (Suc n) rest) p = (True, q) \<Longrightarrow> P (drop (n + 3) rest) q \<Longrightarrow> P rest p"
  shows "P rest p"
proof (induction rest arbitrary: p rule: length_induct)
  case (1 rest)
  consider "find_str kCRLF rest = None" | "find_str kCRLF rest = Some 0"
    | n where "find_str kCRLF rest = Some (Suc n)"
    by (metis not0_implies_Suc option.exhaust)
  then show ?case
  proof cases
    case 3
    obtain ok q where st: "header_step B psl (take (Suc n) rest) p = (ok, q)" by force
    have "length (drop (n + 3) rest) < length rest" using find_str_SomeD [OF 3] by auto
    with 1 have "P (drop (n + 3) rest) q" by blast
    with assms(3,4) 3 st show ?thesis by (cases ok) auto
  qed (use assms in auto)
qed

lemma header_lines_pending:
  "header_lines B psl rest (p\<lparr>pending_data := d\<rparr>)
     = map_prod id (map_prod id (\<lambda>q. q\<lparr>pending_data := d\<rparr>)) (header_lines B psl rest p)"
  by (induction rest p rule: header_lines_induct [where B = B and psl = psl])
     (simp_all add: header_lines_cases header_step_pending)

text \<open>More data behind a text: the loop goes on from where it stopped.\<close>

lemma ParseHeaderLine_flags:
  "ParseHeaderLine B line p = (ok, q) \<Longrightarrow>
     header_ended q = header_ended p \<and> start_line_parsed q = start_line_parsed p \<and>
     finished q = finished p \<and> content q = content p \<and> chunk_size q = chunk_size p \<and>
     pending_data q = pending_data p"
  by (auto simp: ParseHeaderLine_def Let_def split: option.splits prod.splits if_splits)

lemma header_step_flags:
  "header_step B psl line p = (ok, q) \<Longrightarrow>
     header_ended q = header_ended p \<and> start_line_parsed q \<and>
     finished q = finished p \<and> content q = content p \<and> chunk_size q = chunk_size p \<and>
     pending_data q = pending_data p"
  by (auto simp: header_step_def dest: ParseHeaderLine_flags split: prod.splits if_splits)

lemma header_lines_flags:
  "header_lines B psl rest p = (ok, r, q) \<Longrightarrow>
     finished q = finished p \<and> content q = content p \<and> chunk_size q = chunk_size p \<and>
     pending_data q = pending_data p"
  by (induction rest p rule: header_lines_induct [where B = B and psl = psl])
     (auto simp: header_lines_cases dest: header_step_flags)

lemma header_lines_append:
  "\<not> header_ended p \<Longrightarrow> header_lines B psl (a @ b) p =
     (case header_lines B psl a p of
        (ok, r, q) \<Rightarrow> if ok \<and> \<not> header_ended q then header_lines B psl (r @ b) q else (ok, r @ b, q))"
proof (induction a p rule: header_lines_induct [where B = B and psl = psl])
  case (stop rest p)
  with find_str_append [OF stop(1), of b] find_str_SomeD [OF stop(1)] show ?case
    by (simp add: header_lines_end)
next
  case (bad rest p n q)
  with find_str_append [OF bad(1), of b] find_str_SomeD [OF bad(1)] show ?case
    by (simp add: header_lines_line)
next
  case (line rest p n q)
  with find_str_append [OF line(1), of b] find_str_SomeD [OF line(1)]
    header_step_flags [OF line(2)] show ?case
    by (simp add: header_lines_line)
qed (simp add: header_lines_none)

lemma ParseHeaders_header_lines:
  "ParseHeaders B psl p =
     (case header_lines B psl (pending_data p) p of
        (ok, r, q) \<Rightarrow> (ok, if ok then q\<lparr>pending_data := r\<rparr> else q))"
proof -
  obtain ok off q where l: "ParseHeaders_loop B psl (pending_data p) 0 p = (ok, off, q)"
    by (metis prod_cases3)
  with ParseHeaders_loop_header_lines [of 0 "pending_data p" B psl p]
  have h: "header_lines B psl (pending_data p) p = (ok, drop off (pending_data p), q)" by simp
  with header_lines_flags [OF h] l show ?thesis by (simp add: ParseHeaders_def)
qed

section \<open>Reading a message in pieces\<close>

text \<open>
  What the split theorem needs of a content parser: it can be interrupted anywhere, data that
  waits in the buffer counts as data in front, and it keeps the flags of the header phase.
\<close>

text \<open>A refused message leaves what it had in the buffer; the connection is closed, so it is not compared.\<close>

definition outcome ::
  "(bool \<times> ('a, 'b) Parser_scheme) run \<Rightarrow> (bool \<times> ('a, 'b) Parser_scheme) run" where
  "outcome r = map_option (map_sum id (\<lambda>(ok, q). (ok, if ok then q else q\<lparr>pending_data := []\<rparr>))) r"

text \<open>Reading a list of pieces, one after the other, until one is refused or throws.\<close>

fun feed :: "('d \<Rightarrow> 'p \<Rightarrow> (bool \<times> 'p) run) \<Rightarrow> 'd list \<Rightarrow> 'p \<Rightarrow> (bool \<times> 'p) run" where
  "feed parse [] p = Some (Inr (True, p))"
| "feed parse (d # ds) p =
     (case parse d p of
        Some (Inr (True, q)) \<Rightarrow> feed parse ds q
      | r \<Rightarrow> r)"

lemma outcome_True:
  assumes "outcome r = outcome (Some (Inr (True, q)))"
  shows "r = Some (Inr (True, q))"
proof -
  from assms obtain x where x: "r = Some x" by (cases r) (auto simp: outcome_def)
  with assms obtain y where y: "x = Inr y" by (cases x) (auto simp: outcome_def)
  with assms x show ?thesis by (cases y) (auto simp: outcome_def split: if_splits)
qed

lemma feed_snoc:
  "feed parse ds p = Some (Inr (True, q)) \<Longrightarrow> feed parse (ds @ [d]) p = feed parse [d] q"
  by (induction ds arbitrary: p) (auto split: option.splits sum.splits prod.splits bool.splits)

locale content_parser =
  fixes pc :: "string \<Rightarrow> ('a, 'b) Parser_scheme \<Rightarrow> (bool \<times> ('a, 'b) Parser_scheme) run"
    and good :: "('a, 'b) Parser_scheme \<Rightarrow> bool"
  assumes pc_split:
      "good q \<Longrightarrow> header_ended p \<Longrightarrow> pc a p = Some (Inr (True, q)) \<Longrightarrow> \<not> finished q \<Longrightarrow> pc b q = pc (a @ b) p"
    and pc_pending:
      "good q \<Longrightarrow> header_ended p \<Longrightarrow> pc [] p = Some (Inr (True, q)) \<Longrightarrow> \<not> finished q \<Longrightarrow>
         pc [] (p\<lparr>pending_data := pending_data p @ b\<rparr>) = pc b q"
    and pc_flags: "pc a p = Some (Inr (True, q)) \<Longrightarrow>
         header_ended q = header_ended p \<and> good q = good p \<and> (finished p \<longrightarrow> finished q)"
begin

lemma Parse_split:
  assumes a: "Parse B psl pc a p = Some (Inr (True, q))" and fin: "\<not> finished q" and g: "header_ended q \<Longrightarrow> good q"
  shows "outcome (Parse B psl pc b q) = outcome (Parse B psl pc (a @ b) p)"
proof (cases "header_ended p")
  case True
  with a have "pc a p = Some (Inr (True, q))" by (simp add: Parse_def)
  with True fin g pc_split [of q p a b] pc_flags [of a p q] show ?thesis by (simp add: Parse_def)
next
  case False
  obtain ok r s where h: "header_lines B psl (pending_data p @ a) p = (ok, r, s)" by (metis prod_cases3)
  have all: "ParseHeaders B psl (p\<lparr>pending_data := d\<rparr>) =
      (case header_lines B psl d p of (ok, r, q) \<Rightarrow> (ok, q\<lparr>pending_data := (if ok then r else d)\<rparr>))" for d
    by (simp add: ParseHeaders_header_lines header_lines_pending split: prod.splits)
  have ok: "ok"
    using a False h by (auto simp: Parse_def all split: if_splits)
  have ab: "header_lines B psl (pending_data p @ a @ b) p =
      (if \<not> header_ended s then header_lines B psl (r @ b) s else (True, r @ b, s))"
    using header_lines_append [of p B psl "pending_data p @ a" b] False h ok by simp
  show ?thesis
  proof (cases "header_ended s")
    case True
    with a False h ok have "pc [] (s\<lparr>pending_data := r\<rparr>) = Some (Inr (True, q))"
      by (simp add: Parse_def all)
    with pc_pending [of q "s\<lparr>pending_data := r\<rparr>" b] pc_flags [of "[]" "s\<lparr>pending_data := r\<rparr>" q] True fin g
    show ?thesis using False ok ab by (simp add: Parse_def all)
  next
    case not_ended: False
    with a False h ok have q: "q = s\<lparr>pending_data := r\<rparr>" by (simp add: Parse_def all)
    have "ParseHeaders B psl (s\<lparr>pending_data := r @ b\<rparr>) =
        (case header_lines B psl (r @ b) s of (ok, r', q) \<Rightarrow> (ok, q\<lparr>pending_data := (if ok then r' else r @ b)\<rparr>))"
      by (simp add: ParseHeaders_header_lines header_lines_pending split: prod.splits)
    moreover obtain ok' r' s' where "header_lines B psl (r @ b) s = (ok', r', s')" by (metis prod_cases3)
    ultimately show ?thesis
      using not_ended False ab q by (cases ok') (simp_all add: Parse_def all outcome_def)
  qed
qed

lemma Parse_flags:
  "Parse B psl pc a p = Some (Inr (True, q)) \<Longrightarrow>
     (finished p \<longrightarrow> finished q) \<and> (header_ended p \<longrightarrow> header_ended q \<and> good q = good p)"
  by (auto simp: Parse_def ParseHeaders_header_lines split: if_splits prod.splits
    dest!: pc_flags header_lines_flags)

lemma feed_flags:
  "feed (Parse B psl pc) ds p = Some (Inr (True, q)) \<Longrightarrow>
     (finished p \<longrightarrow> finished q) \<and> (header_ended p \<longrightarrow> header_ended q \<and> good q = good p)"
  by (induction ds arbitrary: p) (auto dest!: Parse_flags split: option.splits sum.splits prod.splits bool.splits)

lemma feed_Parse:
  "feed (Parse B psl pc) ds p = Some (Inr (True, q)) \<Longrightarrow> \<not> finished q \<Longrightarrow> (header_ended q \<Longrightarrow> good q) \<Longrightarrow>
     outcome (Parse B psl pc d q) = outcome (Parse B psl pc (concat ds @ d) p)"
proof (induction ds arbitrary: p)
  case (Cons a ds)
  then obtain p' where a: "Parse B psl pc a p = Some (Inr (True, p'))" and f: "feed (Parse B psl pc) ds p' = Some (Inr (True, q))"
    by (auto split: option.splits sum.splits prod.splits bool.splits)
  from feed_flags [OF f] Cons.prems have "\<not> finished p'" "header_ended p' \<Longrightarrow> good p'" by auto
  from Parse_split [OF a this, of "concat ds @ d"] Cons.IH [OF f] Cons.prems show ?case by simp
qed simp

end

lemma Finish_simps [simp]:
  "finished (snd (Finish B p))" "header_ended (snd (Finish B p)) = header_ended p"
  "chunked (snd (Finish B p)) = chunked p" "pending_data (snd (Finish B p)) = pending_data p"
  by (simp_all add: Finish_def Let_def)

lemma AppendContent_simps [simp]:
  "content (AppendContent d p) = content p @ d" "finished (AppendContent d p) = finished p"
  "header_ended (AppendContent d p) = header_ended p" "chunked (AppendContent d p) = chunked p"
  "pending_data (AppendContent d p) = pending_data p"
  "content_length_parsed (AppendContent d p) = content_length_parsed p"
  "content_length (AppendContent d p) = content_length p"
  by (simp_all add: AppendContent_def)

text \<open>Fixed content in one formula: the buffer and the new data are appended, and the length decides.\<close>

lemma ParseFixedContent_append:
  "ParseFixedContent B data p =
     (if \<not> content_length_parsed p then (True, snd (Finish B p))
      else if content_length p = kInvalidLength then (False, p)
      else let q = p\<lparr>pending_data := [], content := content p @ pending_data p @ data\<rparr>
           in (True, if IsContentFull q then snd (Finish B q) else q))"
proof (cases "pending_data p = []")
  case True
  then have e: "p\<lparr>pending_data := [], content := c\<rparr> = p\<lparr>content := c\<rparr>" for c by simp
  from True show ?thesis by (simp add: ParseFixedContent_def AppendContent_def Let_def e)
qed (simp add: ParseFixedContent_def AppendContent_def Let_def)

lemma ParseChunkSize_flags:
  "header_ended (snd (ParseChunkSize p)) = header_ended p" "chunked (snd (ParseChunkSize p)) = chunked p"
  "finished (snd (ParseChunkSize p)) = finished p" "content (snd (ParseChunkSize p)) = content p"
  by (simp_all add: ParseChunkSize_def Let_def split: option.splits prod.splits)

lemma ParseChunks_flags:
  "ParseChunks B p = Inr (ok, q) \<Longrightarrow>
     header_ended q = header_ended p \<and> chunked q = chunked p \<and> (finished p \<longrightarrow> finished q)"
proof (induction B p rule: ParseChunks.induct)
  case (1 B p)
  obtain c p' where s: "(if chunk_size p = kInvalidLength then ParseChunkSize p else (True, p)) = (c, p')"
    by force
  then have f: "header_ended p' = header_ended p" "chunked p' = chunked p" "finished p' = finished p"
    using ParseChunkSize_flags [of p] by (auto split: if_splits)
  show ?case
  proof (cases "c \<and> chunk_size p' \<noteq> 0 \<and> unat (chunk_size p' + 2) \<le> length (pending_data p')")
    case True
    with 1(2) s obtain r where r: "AppendContent_n (pending_data p') (chunk_size p') p' = Inr r"
      by (subst (asm) ParseChunks.simps) (auto split: sum.splits)
    then have fr: "header_ended r = header_ended p'" "chunked r = chunked p'" "finished r = finished p'"
      by (auto simp: AppendContent_n_def string_append_n_def split: if_splits)
    from 1(2) True s r have
      "ParseChunks B (r\<lparr>pending_data := drop (unat (chunk_size r + 2)) (pending_data r), chunk_size := kInvalidLength\<rparr>)
        = Inr (ok, q)"
      by (subst (asm) ParseChunks.simps) simp
    with 1(1) [OF s [symmetric] refl _ _ _ r] True f fr show ?thesis by simp
  next
    case False
    with 1(2) s f show ?thesis
      by (subst (asm) ParseChunks.simps) (auto split: if_splits)
  qed
qed

interpretation pc: content_parser "ParseContent B" "\<lambda>p. \<not> chunked p"
proof
  fix p q :: "('a, 'b) Parser_scheme" and a
  assume "ParseContent B a p = Some (Inr (True, q))"
  then show fl: "header_ended q = header_ended p \<and> (\<not> chunked q) = (\<not> chunked p) \<and> (finished p \<longrightarrow> finished q)"
    by (auto simp: ParseContent_def ParseChunkedContent_def ParseFixedContent_append Let_def
      split: if_splits dest!: ParseChunks_flags)
next
  fix p q :: "('a, 'b) Parser_scheme" and a b
  assume c: "\<not> chunked q" and r: "ParseContent B a p = Some (Inr (True, q))" and f: "\<not> finished q"
  have "\<not> chunked p"
    using r c by (auto simp: ParseContent_def ParseChunkedContent_def dest!: ParseChunks_flags)
  with r f c show "ParseContent B b q = ParseContent B (a @ b) p"
    by (auto simp: ParseContent_def ParseFixedContent_append Let_def split: if_splits)
next
  fix p q :: "('a, 'b) Parser_scheme" and b
  assume c: "\<not> chunked q" and r: "ParseContent B [] p = Some (Inr (True, q))" and f: "\<not> finished q"
  have "\<not> chunked p"
    using r c by (auto simp: ParseContent_def ParseChunkedContent_def dest!: ParseChunks_flags)
  with r f c show "ParseContent B [] (p\<lparr>pending_data := pending_data p @ b\<rparr>) = ParseContent B b q"
    by (auto simp: ParseContent_def ParseFixedContent_append Let_def split: if_splits)
qed

text \<open>
  C19. Where the reads of a connection cut a message does not matter: feeding the response parser any
  list of pieces and then one more gives the same outcome as all bytes at once, as long as the message
  is not complete before the last piece and its content is not chunked.
\<close>

theorem response_parse_split:
  "feed (ResponseParser_Parse B) ds p = Some (Inr (True, q)) \<Longrightarrow> \<not> finished q \<Longrightarrow> \<not> chunked q \<Longrightarrow>
     outcome (ResponseParser_Parse B d q) = outcome (ResponseParser_Parse B (concat ds @ d) p)"
  unfolding ResponseParser_Parse_def by (rule pc.feed_Parse)

theorem response_parse_split_witness:
  "outcome (ResponseParser_Parse reference_platform [LF]
     (make_Parser (empty_Response 200)\<lparr>pending_data := ''HTTP/1.1 200 OK'' @ [CR]\<rparr>))
   = outcome (ResponseParser_Parse reference_platform (''HTTP/1.1 200 OK'' @ [CR] @ [LF]) (make_Parser (empty_Response 200)))"
proof -
  have f: "find_from kCRLF (''HTTP/1.1 200 OK'' @ [CR]) 0 = None" by (simp add: find_from_def)
  have "feed (ResponseParser_Parse reference_platform) [''HTTP/1.1 200 OK'' @ [CR]] (make_Parser (empty_Response 200))
      = Some (Inr (True, make_Parser (empty_Response 200)\<lparr>pending_data := ''HTTP/1.1 200 OK'' @ [CR]\<rparr>))"
    by (simp add: ResponseParser_Parse_def Parse_def make_Parser_def ParseHeaders_header_lines header_lines_none)
  from response_parse_split [OF this, of "[LF]"] show ?thesis by (simp add: make_Parser_def)
qed

section \<open>Reading back the headers that a message writes\<close>

definition key_ok :: "string \<Rightarrow> bool" where
  "key_ok k \<longleftrightarrow> token k \<and> CHR '':'' \<notin> set k"

definition value_ok :: "string \<Rightarrow> bool" where
  "value_ok v \<longleftrightarrow> CR \<notin> set v \<and> (v = [] \<or> \<not> isspace (hd v) \<and> \<not> isspace (last v))"

definition header_ok :: "header \<Rightarrow> bool" where
  "header_ok h \<longleftrightarrow> key_ok (fst h) \<and> value_ok (snd h)"

text \<open>The headers the parser interprets: a content length \<open>n\<close>, a valid content type, no transfer encoding.\<close>

definition header_accept :: "platform \<Rightarrow> nat \<Rightarrow> header \<Rightarrow> bool" where
  "header_accept B n h \<longleftrightarrow>
     (upper (fst h) = upper kContentLength \<longrightarrow> snd h = to_string n \<and> n < 2 ^ 64 \<and> reserve_ok B (of_nat n))
     \<and> (upper (fst h) = upper kContentType \<longrightarrow> ContentType_Valid (make_ContentType B (snd h)))
     \<and> upper (fst h) \<noteq> upper kTransferEncoding"

definition header_effect ::
  "platform \<Rightarrow> nat \<Rightarrow> header \<Rightarrow> ('a, 'b) Parser_scheme \<Rightarrow> ('a, 'b) Parser_scheme" where
  "header_effect B n h p =
     (let cl = (upper (fst h) = upper kContentLength);
          ct = (\<not> cl \<and> upper (fst h) = upper kContentType)
      in p\<lparr>content_length_parsed := content_length_parsed p \<or> cl,
           content_length := (if cl then of_nat n else content_length p),
           message := SetHeader B (fst h) (snd h)
             ((message p)\<lparr>msg_content_type :=
                (if ct then make_ContentType B (snd h) else msg_content_type (message p))\<rparr>)\<rparr>)"

definition has_length :: "headers \<Rightarrow> bool" where
  "has_length hs \<longleftrightarrow> (\<exists>h \<in> set hs. upper (fst h) = upper kContentLength)"

lemma fold_header_effect [simp]:
  "content_length_parsed (fold (header_effect B n) hs p) = (content_length_parsed p \<or> has_length hs)"
  "content_length (fold (header_effect B n) hs p) = (if has_length hs then of_nat n else content_length p)"
  "chunked (fold (header_effect B n) hs p) = chunked p"
  "content (fold (header_effect B n) hs p) = content p"
  "finished (fold (header_effect B n) hs p) = finished p"
  "pending_data (fold (header_effect B n) hs p) = pending_data p"
  "start_line_parsed (fold (header_effect B n) hs p) = start_line_parsed p"
  "header_ended (fold (header_effect B n) hs p) = header_ended p"
  "msg_headers (message (fold (header_effect B n) hs p)) = fold (\<lambda>(k, v). Headers_Set B k v) hs (msg_headers (message p))"
  "msg_content (message (fold (header_effect B n) hs p)) = msg_content (message p)"
  "msg_start_line (message (fold (header_effect B n) hs p)) = msg_start_line (message p)"
  "msg_content_type (message (fold (header_effect B n) hs p)) =
     fold (\<lambda>h ct. if upper (fst h) \<noteq> upper kContentLength \<and> upper (fst h) = upper kContentType
                 then make_ContentType B (snd h) else ct) hs (msg_content_type (message p))"
  "Message.more (message (fold (header_effect B n) hs p)) = Message.more (message p)"
  by (induction hs arbitrary: p)
     (auto simp: header_effect_def has_length_def Let_def SetHeader_def split_beta)

lemma Headers_Set_fresh: "headers_inv (acc @ [h]) \<Longrightarrow> boost_string B \<Longrightarrow> Headers_Set B (fst h) v acc = acc @ [(fst h, v)]"
proof -
  assume inv: "headers_inv (acc @ [h])" and B: "boost_string B"
  then have "headers_map acc (upper (fst h)) = None"
    by (auto simp: headers_inv_def headers_map_def map_of_eq_None_iff image_iff)
  with boost_string.Headers_Find_none [OF B, of "fst h" acc] show ?thesis
    by (simp add: Headers_Set_def)
qed

lemma fold_Headers_Set:
  "boost_string B \<Longrightarrow> headers_inv (acc @ hs) \<Longrightarrow> fold (\<lambda>(k, v). Headers_Set B k v) hs acc = acc @ hs"
proof (induction hs arbitrary: acc)
  case (Cons h hs)
  have "headers_inv (acc @ [h])" using Cons.prems(2) by (auto simp: headers_inv_def)
  with Cons.prems Cons.IH [of "acc @ [h]"] Headers_Set_fresh [of acc h B "snd h"] show ?case
    by (simp add: split_beta)
qed simp

lemma Headers_Set_member:
  "h \<in> set (Headers_Set B k v hs) \<Longrightarrow> boost_string B \<Longrightarrow>
     h \<in> set hs \<or> (\<exists>k'. (k' = k \<or> k' \<in> fst ` set hs) \<and> upper k' = upper k \<and> h = (k', v))"
proof -
  assume h: "h \<in> set (Headers_Set B k v hs)" and B: "boost_string B"
  show ?thesis
  proof (cases "Headers_Find B k hs < length hs")
    case True
    let ?i = "Headers_Find B k hs"
    have "h \<in> insert (fst (hs ! ?i), v) (set hs)"
      using h True set_update_subset_insert [of hs ?i "(fst (hs ! ?i), v)"]
      by (auto simp: Headers_Set_def Let_def)
    with True boost_string.Headers_Find_some [OF B True] show ?thesis by force
  qed (use h in \<open>auto simp: Headers_Set_def Let_def\<close>)
qed

context boost_string begin

lemma Split2_header:
  assumes "header_ok (k, v)"
  shows "Split2 B (k @ '': '' @ v) (CHR '':'') = Some (k, v)"
proof -
  have "trim_by isspace (CHR '' '' # v) = v"
    using assms by (subst trim_by_space) (auto simp: isspace_def header_ok_def value_ok_def intro: trim_by_id)
  with assms show ?thesis
    using Split2_token [of k "CHR '':''" "CHR '' '' # v"] by (simp add: header_ok_def key_ok_def)
qed

lemma ParseHeaderLine_ok:
  assumes "header_ok h" "header_accept B n h"
  shows "ParseHeaderLine B (fst h @ '': '' @ snd h) p = (True, header_effect B n h p)"
proof -
  obtain k v where h: "h = (k, v)" by force
  show ?thesis
    unfolding ParseHeaderLine_def h fst_conv snd_conv Split2_header [OF assms(1) [unfolded h]] option.case prod.case
    using assms(2)
    by (simp add: h header_accept_def header_effect_def iequals Let_def StringToSizeT_def stoul_to_string)
qed

lemma header_lines_text:
  "start_line_parsed p \<Longrightarrow> list_all header_ok hs \<Longrightarrow> list_all (header_accept B n) hs \<Longrightarrow>
     header_lines B psl (header_text hs @ kCRLF @ rest) p
       = (True, rest, (fold (header_effect B n) hs p)\<lparr>header_ended := True\<rparr>)"
proof (induction hs arbitrary: p)
  case Nil
  then show ?case by (simp add: header_text_def header_lines_end)
next
  case (Cons h hs)
  let ?l = "fst h @ '': '' @ snd h"
  let ?t = "header_text hs @ kCRLF @ rest"
  have l: "?l \<noteq> []" "CR \<notin> set ?l"
    using Cons.prems by (auto simp: header_ok_def key_ok_def value_ok_def token_def isspace_def)
  have s: "header_step B psl ?l p = (True, header_effect B n h p)"
    using Cons.prems ParseHeaderLine_ok [of h n p] by (simp add: header_step_def)
  have "header_lines B psl (?l @ kCRLF @ ?t) p = header_lines B psl ?t (header_effect B n h p)"
    unfolding header_lines_cons [OF l] using s by simp
  moreover have "start_line_parsed (header_effect B n h p)"
    using Cons.prems by (simp add: header_effect_def Let_def)
  ultimately show ?case using Cons by (simp add: header_text_def)
qed

lemma header_lines_message:
  assumes "\<not> start_line_parsed p" "sl \<noteq> []" "CR \<notin> set sl"
    and psl: "psl sl ((message p)\<lparr>msg_start_line := sl\<rparr>) = (True, m)"
    and "list_all header_ok hs" "list_all (header_accept B n) hs"
  shows "header_lines B psl (sl @ kCRLF @ header_text hs @ kCRLF @ rest) p
    = (True, rest, (fold (header_effect B n) hs (p\<lparr>start_line_parsed := True, message := m\<rparr>))\<lparr>header_ended := True\<rparr>)"
proof -
  let ?t = "header_text hs @ kCRLF @ rest"
  have s: "header_step B psl sl p = (True, p\<lparr>start_line_parsed := True, message := m\<rparr>)"
    using assms(1) psl by (simp add: header_step_def)
  show ?thesis
    unfolding header_lines_cons [OF assms(2,3)]
    using s assms(2,5,6) header_lines_text [of "p\<lparr>start_line_parsed := True, message := m\<rparr>" hs n psl rest]
    by simp
qed

end

section \<open>Responses survive the wire\<close>

text \<open>
  A response that the server sends and a client understands: header fields in a legal form, the
  content length announced when there is content, no transfer encoding.
\<close>

definition response_ok :: "platform \<Rightarrow> string \<Rightarrow> Response \<Rightarrow> bool" where
  "response_ok B date r \<longleftrightarrow>
     msg_start_line r = [] \<and> headers_inv (msg_headers r) \<and> list_all header_ok (msg_headers r) \<and> value_ok date
     \<and> list_all (header_accept B (length (msg_content r))) (msg_headers r)
     \<and> (msg_content r \<noteq> [] \<longrightarrow> has_length (msg_headers r)) \<and> length (msg_content r) < 2 ^ 62"

lemma kInvalidLength_unat: "unat kInvalidLength = 2 ^ 64 - 1"
  by (simp add: kInvalidLength_def npos_def unsigned_minus_1_eq_mask mask_eq_exp_minus_1)

lemma size_t_valid: "n < 2 ^ 62 \<Longrightarrow> unat (of_nat n :: size_t) = n \<and> (of_nat n :: size_t) \<noteq> kInvalidLength"
proof -
  assume "n < 2 ^ 62"
  then have "unat (of_nat n :: size_t) = n" by (simp add: unat_of_nat)
  with \<open>n < 2 ^ 62\<close> show ?thesis using kInvalidLength_unat by auto
qed

text \<open>Complete content in the buffer, with its length announced, is handed over and finishes the message.\<close>

lemma ParseFixedContent_complete:
  assumes "content p = []" "n = length (pending_data p)" "n < 2 ^ 62"
    and "pending_data p \<noteq> [] \<longrightarrow> content_length_parsed p"
    and "content_length_parsed p \<Longrightarrow> content_length p = of_nat n"
    and "msg_content (message p) = []"
  shows "\<exists>q. ParseFixedContent B [] p = (True, q) \<and> finished q
     \<and> msg_content (message q) = pending_data p \<and> msg_headers (message q) = msg_headers (message p)
     \<and> msg_start_line (message q) = msg_start_line (message p)
     \<and> Message.more (message q) = Message.more (message p)"
  using assms size_t_valid [of n]
  by (auto simp: ParseFixedContent_append IsContentFull_def Finish_def SetContent_def Let_def)

lemma status_line_parse:
  "boost_string B \<Longrightarrow> Response_ParseStartLine B (status_string (status_code s)) r = (True, r\<lparr>res_status := status_code s\<rparr>)"
  by (cases s) (simp_all add: Response_ParseStartLine_def boost_string.split status_string_def stoi_def
    isspace_def isdigit_def digits_val_def digit_val_def)

lemma status_string_line: "status_string n \<noteq> [] \<and> CR \<notin> set (status_string n)"
  by (simp add: status_string_def)

lemma Headers_Set_keys: "map fst (Headers_Set B k v hs) = map fst hs \<or> map fst (Headers_Set B k v hs) = map fst hs @ [k]"
  by (auto simp: Headers_Set_def Let_def map_update list_update_same_conv)

lemma has_length_Set: "has_length hs \<Longrightarrow> has_length (Headers_Set B k v hs)"
proof -
  have "fst ` set hs \<subseteq> fst ` set (Headers_Set B k v hs)"
    using Headers_Set_keys [of B k v hs] by (metis Un_upper1 order_refl set_append set_map)
  moreover have "has_length xs \<longleftrightarrow> upper kContentLength \<in> upper ` (fst ` set xs)" for xs
    unfolding has_length_def image_image image_iff by metis
  ultimately show "has_length hs \<Longrightarrow> ?thesis" by (metis image_mono subsetD)
qed

text \<open>The headers a message can carry: distinct names, legal form, an announced length \<open>n\<close> if any.\<close>

definition headers_good :: "platform \<Rightarrow> nat \<Rightarrow> headers \<Rightarrow> bool" where
  "headers_good B n hs \<longleftrightarrow> headers_inv hs \<and> list_all header_ok hs \<and> list_all (header_accept B n) hs"

lemma headers_good_Set:
  assumes B: "boost_string B" and g: "headers_good B n hs" and kv: "header_ok (k, v)" "header_accept B n (k, v)"
  shows "headers_good B n (Headers_Set B k v hs)"
proof -
  have "header_ok h \<and> header_accept B n h" if h: "h \<in> set (Headers_Set B k v hs)" for h
    using Headers_Set_member [OF h B]
  proof
    assume "\<exists>k'. (k' = k \<or> k' \<in> fst ` set hs) \<and> upper k' = upper k \<and> h = (k', v)"
    then obtain k' where k': "k' = k \<or> k' \<in> fst ` set hs" "upper k' = upper k" "h = (k', v)" by blast
    have "key_ok k'"
      using k'(1) g kv(1) by (auto simp: headers_good_def header_ok_def list_all_iff)
    with k' kv show ?thesis by (simp add: header_ok_def header_accept_def)
  qed (use g in \<open>simp add: headers_good_def list_all_iff\<close>)
  with g boost_string.headers_inv_Set [OF B] show ?thesis by (simp add: headers_good_def list_all_iff)
qed

lemma header_accept_plain:
  "upper (fst h) \<notin> upper ` {kContentLength, kContentType, kTransferEncoding} \<Longrightarrow> header_accept B n h"
  by (simp add: header_accept_def)

lemma Server_Date_plain:
  "header_ok (kServer, UserAgent)" "header_accept B n (kServer, v)" "header_accept B n (kDate, v)" "key_ok kDate"
  by (auto simp: header_ok_def key_ok_def value_ok_def token_def header_name_defs UserAgent_def isspace_def
    header_accept_def)

lemma Response_Prepare_headers:
  assumes "boost_string B" "response_ok B date r"
  shows "headers_good B (length (msg_content r)) (msg_headers (Response_Prepare B date r))
    \<and> (msg_content r \<noteq> [] \<longrightarrow> has_length (msg_headers (Response_Prepare B date r)))"
proof -
  have "msg_headers (Response_Prepare B date r) =
      Headers_Set B kDate date (Headers_Set B kServer UserAgent (msg_headers r))"
    by (simp add: Response_Prepare_def Let_def)
  moreover have "headers_good B (length (msg_content r)) (msg_headers r)"
    using assms(2) by (simp add: response_ok_def headers_good_def)
  ultimately show ?thesis
    using assms Server_Date_plain
    by (auto simp: response_ok_def header_ok_def intro!: headers_good_Set has_length_Set)
qed

lemma CopyPayload_Response_Prepare:
  "msg_start_line r = [] \<Longrightarrow> CopyPayload (Response_Prepare B date r) =
     status_string (res_status r) @ kCRLF @ header_text (msg_headers (Response_Prepare B date r)) @ kCRLF @ msg_content r"
  by (simp add: Response_Prepare_def CopyPayload_Message_Prepare Let_def)

lemma response_header_lines:
  assumes B: "boost_string B" and r: "response_ok B date r" and st: "res_status r = status_code s"
  shows "header_lines B (Response_ParseStartLine B) (CopyPayload (Response_Prepare B date r)) (make_Parser (empty_Response 200))
    = (True, msg_content r,
       (fold (header_effect B (length (msg_content r))) (msg_headers (Response_Prepare B date r))
         ((make_Parser (empty_Response 200))\<lparr>start_line_parsed := True,
           message := (empty_Response 200)\<lparr>msg_start_line := status_string (res_status r), res_status := res_status r\<rparr>\<rparr>))
       \<lparr>header_ended := True\<rparr>)"
proof -
  have "msg_start_line r = []" using r by (simp add: response_ok_def)
  with Response_Prepare_headers [OF B r] status_string_line [of "res_status r"] status_line_parse [OF B, of s] st
  show ?thesis
    unfolding CopyPayload_Response_Prepare [OF \<open>msg_start_line r = []\<close>]
    by (intro boost_string.header_lines_message [OF B]) (auto simp: make_Parser_def headers_good_def)
qed

lemma response_text_parse:
  assumes B: "boost_string B" and r: "response_ok B date r" and st: "res_status r = status_code s"
  shows "\<exists>q. ResponseParser_Parse B (CopyPayload (Response_Prepare B date r)) (make_Parser (empty_Response 200)) = Some (Inr (True, q))
       \<and> finished q \<and> res_status (message q) = res_status r \<and> msg_content (message q) = msg_content r
       \<and> msg_headers (message q) = msg_headers (Response_Prepare B date r)"
proof -
  let ?hs = "msg_headers (Response_Prepare B date r)" and ?n = "length (msg_content r)"
  let ?sl = "status_string (res_status r)"
  let ?m = "(empty_Response 200)\<lparr>msg_start_line := ?sl, res_status := res_status r\<rparr>"
  let ?p = "(fold (header_effect B ?n) ?hs
      ((make_Parser (empty_Response 200))\<lparr>start_line_parsed := True, message := ?m\<rparr>))\<lparr>header_ended := True\<rparr>"
  from Response_Prepare_headers [OF B r] have g: "headers_good B ?n ?hs" "msg_content r \<noteq> [] \<longrightarrow> has_length ?hs" by auto
  from response_header_lines [OF B r st] have h: "ParseHeaders B (Response_ParseStartLine B)
      ((make_Parser (empty_Response 200))\<lparr>pending_data := CopyPayload (Response_Prepare B date r)\<rparr>)
      = (True, ?p\<lparr>pending_data := msg_content r\<rparr>)"
    by (simp add: ParseHeaders_header_lines header_lines_pending)
  have "\<exists>q. ParseFixedContent B [] (?p\<lparr>pending_data := msg_content r\<rparr>) = (True, q) \<and> finished q
      \<and> msg_content (message q) = msg_content r \<and> msg_headers (message q) = ?hs
      \<and> msg_start_line (message q) = ?sl \<and> Message.more (message q) = Message.more ?m"
    using g r fold_Headers_Set [OF B, of "[]" ?hs]
      ParseFixedContent_complete [of "?p\<lparr>pending_data := msg_content r\<rparr>" ?n B]
    by (auto simp: make_Parser_def empty_Response_def headers_good_def response_ok_def)
  then obtain q where q: "ParseFixedContent B [] (?p\<lparr>pending_data := msg_content r\<rparr>) = (True, q)" "finished q"
      "msg_content (message q) = msg_content r" "msg_headers (message q) = ?hs" "Message.more (message q) = Message.more ?m"
    by blast
  then have "res_status (message q) = res_status r"
    by (cases "message q") (simp add: empty_Response_def)
  moreover have "ResponseParser_Parse B (CopyPayload (Response_Prepare B date r)) (make_Parser (empty_Response 200)) = Some (Inr (True, q))"
    using h q(1) by (simp add: ResponseParser_Parse_def Parse_def ParseContent_def make_Parser_def)
  ultimately show ?thesis using q by blast
qed

text \<open>
  C18. A response survives the wire: the client's parser, given the bytes of a prepared response at
  once, finishes with the same status, the same header list and the same content. (By the split
  theorem the same holds for any cut of these bytes.)
\<close>

theorem response_roundtrip:
  "boost_string B \<Longrightarrow> response_ok B date r \<Longrightarrow> res_status r = status_code s \<Longrightarrow>
     \<exists>q. ResponseParser_Parse B (CopyPayload (Response_Prepare B date r)) (make_Parser (empty_Response 200)) = Some (Inr (True, q))
       \<and> finished q \<and> res_status (message q) = res_status r \<and> msg_content (message q) = msg_content r
       \<and> msg_headers (message q) = msg_headers (Response_Prepare B date r)"
  by (rule response_text_parse)

theorem response_roundtrip_witness:
  "\<exists>q. ResponseParser_Parse reference_platform
       (CopyPayload (Response_Prepare reference_platform ''today''
         ((empty_Response 404)\<lparr>msg_content := ''hi'', msg_headers := [(''Content-Length'', ''2'')]\<rparr>)))
       (make_Parser (empty_Response 200)) = Some (Inr (True, q))
     \<and> res_status (message q) = 404 \<and> msg_content (message q) = ''hi''"
proof -
  let ?r = "(empty_Response 404)\<lparr>msg_content := ''hi'', msg_headers := [(''Content-Length'', ''2'')]\<rparr>"
  have "response_ok reference_platform ''today'' ?r"
    by (auto simp: response_ok_def empty_Response_def headers_inv_def header_ok_def key_ok_def value_ok_def
      token_def isspace_def header_accept_def has_length_def header_name_defs to_string.simps digit_char_def
      char_of_def bit_0 reference_platform_def unat_of_nat)
  from response_roundtrip [OF ref.boost_string_axioms this, of kNotFound] show ?thesis
    by (auto simp: empty_Response_def)
qed

section \<open>Chunked content\<close>

text \<open>The size that a chunk-size line announces: the hexadecimal number in front of the first blank.\<close>

definition chunk_line_size :: "string \<Rightarrow> size_t option" where
  "chunk_line_size line =
     StringToSizeT (case find_char (CHR '' '') line of Some pos \<Rightarrow> take pos line | None \<Rightarrow> line) 16"

definition chunk_ok :: "string \<times> string \<Rightarrow> bool" where
  "chunk_ok c \<longleftrightarrow>
     CR \<notin> set (fst c) \<and> snd c \<noteq> [] \<and> chunk_line_size (fst c) = Some (of_nat (length (snd c)))"

definition chunks_text :: "(string \<times> string) list \<Rightarrow> string" where
  "chunks_text cs = concat (map (\<lambda>c. fst c @ kCRLF @ snd c @ kCRLF) cs)"

lemma ParseChunkSize_line:
  assumes "CR \<notin> set l" "pending_data p = l @ kCRLF @ r" "chunk_line_size l = Some n"
  shows "ParseChunkSize p = (True, p\<lparr>pending_data := r, chunk_size := n\<rparr>)"
proof -
  have "GetNextLine (pending_data p) 0 True = Some (l, r)"
    using find_from_CRLF [OF assms(1), of "[]" r] assms(2) by (auto simp: GetNextLine_def)
  with assms(3) show ?thesis by (simp add: ParseChunkSize_def chunk_line_size_def Let_def)
qed

lemma ParseChunks_chunk:
  assumes p: "chunk_size p = kInvalidLength" "pending_data p = fst c @ kCRLF @ snd c @ kCRLF @ r"
    and c: "chunk_ok c" and l: "length (content p) + length (snd c) \<le> string_max_size"
  shows "ParseChunks B p = ParseChunks B (p\<lparr>pending_data := r, content := content p @ snd c\<rparr>)"
proof -
  let ?n = "of_nat (length (snd c)) :: size_t"
  let ?p = "p\<lparr>pending_data := snd c @ kCRLF @ r, chunk_size := ?n\<rparr>"
  have n: "unat ?n = length (snd c)"
    using l by (auto simp: string_max_size_def unat_of_nat)
  have s: "ParseChunkSize p = (True, ?p)"
    using c p ParseChunkSize_line [of "fst c" p "snd c @ kCRLF @ r" ?n] by (simp add: chunk_ok_def)
  have n0: "?n \<noteq> 0" using n c by (auto simp: chunk_ok_def)
  have n2: "unat (?n + 2) = length (snd c) + 2" using chunk_size_no_wrap [of ?n] n l by simp
  have a: "AppendContent_n (snd c @ kCRLF @ r) ?n ?p = Inr (?p\<lparr>content := content p @ snd c\<rparr>)"
    using n l by (simp add: AppendContent_n_def string_append_n_def)
  have e: "p\<lparr>content := content p @ snd c, pending_data := r, chunk_size := kInvalidLength\<rparr>
      = p\<lparr>pending_data := r, content := content p @ snd c\<rparr>" using p(1) by simp
  show ?thesis
    by (subst ParseChunks.simps) (use p(1) s n0 n2 a in \<open>simp add: e\<close>)
qed

text \<open>
  C31. Chunked content is put together: on a complete sequence of chunks followed by the last chunk
  the loop ends, the message is finished and its content is the concatenation of the chunk data.
\<close>

theorem chunked_content:
  "chunk_size p = kInvalidLength \<Longrightarrow> pending_data p = chunks_text cs @ ''0'' @ kCRLF @ rest \<Longrightarrow>
     list_all chunk_ok cs \<Longrightarrow> length (content p) + length (concat (map snd cs)) \<le> string_max_size \<Longrightarrow>
     msg_content (message p) = [] \<Longrightarrow>
     \<exists>q. ParseChunks B p = Inr (True, q) \<and> finished q \<and> pending_data q = rest
       \<and> msg_content (message q) = content p @ concat (map snd cs)"
proof (induction cs arbitrary: p)
  case Nil
  have "chunk_line_size ''0'' = Some 0"
    by (simp add: chunk_line_size_def StringToSizeT_def stoul_def isspace_def digits_val_def digit_val_def isdigit_def)
  with Nil have "ParseChunkSize p = (True, p\<lparr>pending_data := rest, chunk_size := 0\<rparr>)"
    using ParseChunkSize_line [of "''0''" p rest 0] by (simp add: chunks_text_def)
  with Nil show ?case
    by (subst ParseChunks.simps) (auto simp: Finish_def SetContent_def Let_def)
next
  case (Cons c cs)
  let ?p = "p\<lparr>pending_data := chunks_text cs @ ''0'' @ kCRLF @ rest, content := content p @ snd c\<rparr>"
  have "ParseChunks B p = ParseChunks B ?p"
    by (rule ParseChunks_chunk) (use Cons.prems in \<open>auto simp: chunks_text_def\<close>)
  with Cons.IH [of ?p] Cons.prems show ?case by (auto simp: chunks_text_def)
qed

theorem chunked_content_witness:
  "\<exists>q. ParseChunks reference_platform
         ((make_Parser (empty_Response 200))\<lparr>pending_data := chunks_text [(''3'', ''abc'')] @ ''0'' @ kCRLF @ kCRLF\<rparr>) = Inr (True, q)
     \<and> msg_content (message q) = ''abc''"
proof -
  have "chunk_ok (''3'', ''abc'')"
    by (simp add: chunk_ok_def chunk_line_size_def StringToSizeT_def stoul_def isspace_def digits_val_def digit_val_def isdigit_def)
  with chunked_content [of "(make_Parser (empty_Response 200))\<lparr>pending_data := chunks_text [(''3'', ''abc'')] @ ''0'' @ kCRLF @ kCRLF\<rparr>"
      "[(''3'', ''abc'')]" kCRLF reference_platform]
  show ?thesis by (auto simp: make_Parser_def empty_Response_def string_max_size_def)
qed

text \<open>
  C33. A chunk-size line that is cut between two reads is not waited for: the unread size, the largest
  value of its type, passes the comparison after adding two wraps it to one, and the append of that
  many bytes throws \<open>std::length_error\<close> out of \<open>Parse\<close>.
\<close>

theorem chunk_size_cut_throws:
  "header_ended p \<Longrightarrow> chunked p \<Longrightarrow> chunk_size p = kInvalidLength \<Longrightarrow> pending_data p @ data \<noteq> [] \<Longrightarrow>
     find_str kCRLF (pending_data p @ data) = None \<Longrightarrow>
     Parse B psl (ParseContent B) data p = Some (Inl LengthError)"
proof -
  assume p: "header_ended p" "chunked p" "chunk_size p = kInvalidLength" "pending_data p @ data \<noteq> []"
    and f: "find_str kCRLF (pending_data p @ data) = None"
  let ?p = "p\<lparr>pending_data := pending_data p @ data\<rparr>"
  have s: "ParseChunkSize ?p = (True, ?p)"
    using f by (simp add: ParseChunkSize_def GetNextLine_def find_from_def)
  have w: "kInvalidLength \<noteq> 0" "unat (kInvalidLength + 2) = 1"
    by (simp_all add: kInvalidLength_def npos_def)
  have "AppendContent_n (pending_data p @ data) kInvalidLength ?p = Inl LengthError"
    by (simp add: AppendContent_n_def string_append_n_def kInvalidLength_unat string_max_size_def)
  with p s w have "ParseChunks B ?p = Inl LengthError"
    by (subst ParseChunks.simps) (auto simp: Suc_le_eq)
  with p show ?thesis by (simp add: Parse_def ParseContent_def ParseChunkedContent_def)
qed

theorem chunk_size_cut_throws_witness:
  "Parse reference_platform (Response_ParseStartLine reference_platform) (ParseContent reference_platform) ''1''
     ((make_Parser (empty_Response 200))\<lparr>header_ended := True, chunked := True\<rparr>) = Some (Inl LengthError)"
  by (rule chunk_size_cut_throws) (simp_all add: make_Parser_def)

end
