(* ===== verification/Webcc_Request_Parser.thy ===== *)
theory Webcc_Request_Parser
  imports Webcc_Parser
begin

text \<open>
  \<open>webcc/request_parser\<close>: the server's parser, with multipart form data as a state machine over the
  pending data. One pass of its loop is a function; the loop itself is a partial function, and
  \<^const>\<open>None\<close> means that it does not return. The class extends the parser by its step and by the part
  being read.
\<close>

section \<open>State\<close>

datatype Step = kStart | kBoundaryParsed | kHeadersParsed | kEnded

record RequestParser = "unit Request_ext Parser" +
  step :: Step
  part :: "FormPart option"

definition make_RequestParser :: "Request \<Rightarrow> RequestParser" where
  "make_RequestParser r =
     \<lparr>message = r, pending_data = [], content_length = kInvalidLength, content = [],
      start_line_parsed = False, content_length_parsed = False, header_ended = False,
      chunked = False, chunk_size = kInvalidLength, finished = False, step = kStart, part = None\<rparr>"

definition RequestParser_Init :: "Request \<Rightarrow> RequestParser \<Rightarrow> RequestParser" where
  "RequestParser_Init r p = Parser_Init r p"

definition Request_ParseStartLine :: "platform \<Rightarrow> string \<Rightarrow> Request \<Rightarrow> bool \<times> Request" where
  "Request_ParseStartLine B line r =
     (let strs = boost_split B (\<lambda>c. c = CHR '' '') True line
      in if length strs \<noteq> 3 then (False, r)
         else (True, set_url B (strs ! 1) (r\<lparr>req_method := strs ! 0\<rparr>)))"

section \<open>Boundaries\<close>

text \<open>\<open>strncmp(a, b, n) == 0\<close>: equal up to \<open>n\<close> characters or a common NUL.\<close>

fun strncmp_eq :: "string \<Rightarrow> string \<Rightarrow> nat \<Rightarrow> bool" where
  "strncmp_eq (a # as) (b # bs) (Suc n) = (a = b \<and> (a = CHR 0x00 \<or> strncmp_eq as bs n))"
| "strncmp_eq [] (b # bs) (Suc n) = (b = CHR 0x00)"
| "strncmp_eq (a # as) [] (Suc n) = (a = CHR 0x00)"
| "strncmp_eq [] [] (Suc n) = True"
| "strncmp_eq as bs 0 = True"

text \<open>\<open>IsBoundary\<close>: the result, and whether \<open>*end\<close> has been set, which happens before the text is compared.\<close>

definition IsBoundary :: "string \<Rightarrow> string \<Rightarrow> nat \<Rightarrow> nat \<Rightarrow> bool \<times> bool" where
  "IsBoundary boundary str off count =
     (if count \<noteq> length boundary + 2 \<and> count \<noteq> length boundary + 4 then (False, False)
      else if str ! off \<noteq> CHR ''-'' \<or> str ! (off + 1) \<noteq> CHR ''-'' then (False, False)
      else if count = length boundary + 4
              \<and> (str ! (off + count - 1) \<noteq> CHR ''-'' \<or> str ! (off + count - 2) \<noteq> CHR ''-'') then (False, False)
      else (strncmp_eq boundary (drop (off + 2) str) (length boundary), count = length boundary + 4))"

text \<open>\<open>GetNextBoundaryLine\<close>: offset and length of the boundary line, and the flag \<open>*ended\<close>.\<close>

function GetNextBoundaryLine ::
  "string \<Rightarrow> string \<Rightarrow> nat \<Rightarrow> bool \<Rightarrow> (nat \<times> nat) option \<times> bool" where
  "GetNextBoundaryLine boundary pending off ended =
     (case find_from kCRLF pending off of
        None \<Rightarrow> (None, ended)
      | Some pos \<Rightarrow>
          let count = pos - off
          in if count = 0 then GetNextBoundaryLine boundary pending (pos + 2) ended
             else
               let (is_boundary, end) = IsBoundary boundary pending off count;
                   ended = (ended \<or> end)
               in if is_boundary then (Some (off, count), ended)
                  else GetNextBoundaryLine boundary pending (pos + 2) ended)"
  by pat_completeness auto
termination
  by (relation "measure (\<lambda>(boundary, pending, off, ended). length pending - off)")
     (auto dest!: find_from_SomeD)

declare GetNextBoundaryLine.simps [simp del]

section \<open>Headers of a part\<close>

text \<open>The loop of \<open>ParsePartHeaders\<close>: success, \<open>*need_more_data\<close>, the offset and the part.\<close>

function PartHeaders_loop ::
  "platform \<Rightarrow> string \<Rightarrow> nat \<Rightarrow> FormPart \<Rightarrow> bool \<times> bool \<times> nat \<times> FormPart" where
  "PartHeaders_loop B pending off prt =
     (case GetNextLine pending off False of
        None \<Rightarrow> (False, True, off, prt)
      | Some (line, pending') \<Rightarrow>
          let off = off + length line + 2
          in if line = [] then (True, False, off, prt)
             else
               (case Split2 B line (CHR '':'') of
                  None \<Rightarrow> (False, False, off, prt)
                | Some (key, value) \<Rightarrow>
                    if boost_iequals B key kContentDisposition then
                      let cd = make_ContentDisposition B value
                      in if \<not> cd_valid cd then (False, False, off, prt)
                         else PartHeaders_loop B pending off
                                (prt\<lparr>fp_name := cd_name cd, fp_file_name := cd_file_name cd\<rparr>)
                    else PartHeaders_loop B pending off prt))"
  by pat_completeness auto
termination
  by (relation "measure (\<lambda>(B, pending, off, prt). length pending - off)")
     (auto simp: GetNextLine_def Let_def split: option.splits if_splits dest!: find_from_SomeD)

declare PartHeaders_loop.simps [simp del]

definition ParsePartHeaders :: "platform \<Rightarrow> RequestParser \<Rightarrow> bool \<times> bool \<times> RequestParser" where
  "ParsePartHeaders B p =
     (let (ok, need_more_data, off, prt) =
            PartHeaders_loop B (pending_data p) 0 (case part p of Some prt \<Rightarrow> prt | None \<Rightarrow> empty_FormPart);
          p = p\<lparr>part := Some prt\<rparr>
      in if ok then (True, False, p\<lparr>pending_data := drop off (pending_data p)\<rparr>)
         else (False, need_more_data, p))"

section \<open>Multipart content\<close>

text \<open>What a pass of the loop does: leave the loop, return false, or go on.\<close>

datatype pass = Break RequestParser | ReturnFalse RequestParser | Continue RequestParser

definition boundary :: "RequestParser \<Rightarrow> string" where
  "boundary p = ct_additional (msg_content_type (message p))"

definition StartPass :: "RequestParser \<Rightarrow> pass" where
  "StartPass p =
     (case GetNextLine (pending_data p) 0 True of
        None \<Rightarrow> Break p
      | Some (line, pending) \<Rightarrow>
          let p = p\<lparr>pending_data := pending\<rparr>
          in if \<not> fst (IsBoundary (boundary p) line 0 (length line)) then ReturnFalse p
             else Continue (p\<lparr>step := kBoundaryParsed\<rparr>))"

definition HeadersPass :: "platform \<Rightarrow> RequestParser \<Rightarrow> pass" where
  "HeadersPass B p =
     (let p = (if part p = None then p\<lparr>part := Some empty_FormPart\<rparr> else p);
          (ok, need_more_data, p) = ParsePartHeaders B p
      in if ok then Continue (p\<lparr>step := kHeadersParsed\<rparr>)
         else if need_more_data then Break p else ReturnFalse p)"

definition DataPass :: "RequestParser \<Rightarrow> pass" where
  "DataPass p =
     (case GetNextBoundaryLine (boundary p) (pending_data p) 0 False of
        (None, ended) \<Rightarrow> Break p
      | (Some (off, count), ended) \<Rightarrow>
          if off > 2 then
            let prt = AppendData (take (off - 2) (pending_data p))
                        (case part p of Some prt \<Rightarrow> prt | None \<Rightarrow> empty_FormPart);
                p = p\<lparr>pending_data := drop (off + count + 2) (pending_data p),
                      message := AddFormPart prt (message p), part := None\<rparr>
            in if ended then Break (p\<lparr>step := kEnded\<rparr>) else Continue (p\<lparr>step := kBoundaryParsed\<rparr>)
          else ReturnFalse p)"

definition Multipart_pass :: "platform \<Rightarrow> RequestParser \<Rightarrow> pass" where
  "Multipart_pass B p =
     (if pending_data p = [] then Break p
      else case step p of
             kStart \<Rightarrow> StartPass p
           | kBoundaryParsed \<Rightarrow> HeadersPass B p
           | kHeadersParsed \<Rightarrow> DataPass p
           | kEnded \<Rightarrow> Continue p)"

partial_function (option) Multipart_loop :: "platform \<Rightarrow> RequestParser \<Rightarrow> (bool \<times> RequestParser) option" where
  "Multipart_loop B p =
     (case Multipart_pass B p of
        Break q \<Rightarrow> Some (True, q)
      | ReturnFalse q \<Rightarrow> Some (False, q)
      | Continue q \<Rightarrow> Multipart_loop B q)"

definition ParseMultipartContent ::
  "platform \<Rightarrow> string \<Rightarrow> RequestParser \<Rightarrow> (bool \<times> RequestParser) option" where
  "ParseMultipartContent B data p =
     (let p = p\<lparr>pending_data := pending_data p @ data\<rparr>
      in if \<not> content_length_parsed p \<or> content_length p = kInvalidLength then Some (False, p)
         else (case Multipart_loop B p of
                 None \<Rightarrow> None
               | Some (ok, p) \<Rightarrow>
                   if \<not> ok then Some (False, p)
                   else if step p = kEnded then Some (True, snd (Finish B p))
                   else Some (True, p)))"

definition Request_ParseContent ::
  "platform \<Rightarrow> string \<Rightarrow> RequestParser \<Rightarrow> (bool \<times> RequestParser) run" where
  "Request_ParseContent B data p =
     (if chunked p then Some (ParseChunkedContent B data p)
      else if ct_multipart (msg_content_type (message p)) then
        map_option Inr (ParseMultipartContent B data p)
      else Some (Inr (ParseFixedContent B data p)))"

definition RequestParser_Parse ::
  "platform \<Rightarrow> string \<Rightarrow> RequestParser \<Rightarrow> (bool \<times> RequestParser) run" where
  "RequestParser_Parse B = Parse B (Request_ParseStartLine B) (Request_ParseContent B)"

section \<open>The loop returns, and when it does not\<close>

lemma PartHeaders_loop_off:
  "PartHeaders_loop B pending off prt = (True, m, off', prt') \<Longrightarrow> off < off' \<and> off' \<le> length pending"
proof (induction B pending off prt rule: PartHeaders_loop.induct)
  case (1 B pending off prt)
  from 1(3) obtain line pending' where l: "GetNextLine pending off False = Some (line, pending')"
    by (subst (asm) PartHeaders_loop.simps) (auto split: option.splits)
  then have le: "off + length line + 2 \<le> length pending"
    by (auto simp: GetNextLine_def Let_def split: option.splits if_splits dest!: find_from_SomeD)
  show ?case
  proof (cases "line = []")
    case True
    with 1(3) l le show ?thesis by (subst (asm) PartHeaders_loop.simps) simp
  next
    case False
    with 1(3) l obtain k v where kv: "Split2 B line (CHR '':'') = Some (k, v)"
      by (subst (asm) PartHeaders_loop.simps) (auto simp: Let_def split: option.splits)
    show ?thesis
      using 1(1) [OF l refl refl False kv refl] 1(2) [OF l refl refl False kv refl] 1(3) l kv False
      by (subst (asm) (3) PartHeaders_loop.simps) (auto simp: Let_def split: if_splits)
  qed
qed

lemma Multipart_pass_Continue:
  assumes "Multipart_pass B p = Continue q" "step p \<noteq> kEnded"
  shows "length (pending_data q) < length (pending_data p) \<and> step q \<noteq> kEnded"
proof (cases "step p")
  case kStart
  with assms show ?thesis
    by (auto simp: Multipart_pass_def StartPass_def GetNextLine_def Let_def
      split: if_splits option.splits dest!: find_from_SomeD)
next
  case kBoundaryParsed
  with assms show ?thesis
    by (auto simp: Multipart_pass_def HeadersPass_def ParsePartHeaders_def Let_def
      split: if_splits option.splits prod.splits dest!: PartHeaders_loop_off)
next
  case kHeadersParsed
  with assms show ?thesis
    by (auto simp: Multipart_pass_def DataPass_def Let_def
      split: if_splits option.splits prod.splits)
qed (use assms in simp)

lemma Multipart_loop_returns: "step p \<noteq> kEnded \<Longrightarrow> \<exists>r. Multipart_loop B p = Some r"
proof (induction "length (pending_data p)" arbitrary: p rule: less_induct)
  case less
  show ?case
  proof (cases "Multipart_pass B p")
    case (Continue q)
    with less Multipart_pass_Continue [OF Continue] show ?thesis
      by (subst Multipart_loop.simps) simp
  qed (subst Multipart_loop.simps, simp; blast)+
qed

lemma Multipart_loop_hangs: "step p = kEnded \<Longrightarrow> pending_data p \<noteq> [] \<Longrightarrow> Multipart_loop B p = None"
proof (rule ccontr)
  assume p: "step p = kEnded" "pending_data p \<noteq> []" and "Multipart_loop B p \<noteq> None"
  then obtain r where "Multipart_loop B p = Some r" by blast
  then have "\<not> (step p = kEnded \<and> pending_data p \<noteq> [])"
    by (rule Multipart_loop.raw_induct [rotated])
       (auto simp: Multipart_pass_def split: pass.splits if_splits Step.splits)
  with p show False by simp
qed

text \<open>The header phase does not touch the step of the multipart machine.\<close>

lemma header_step_step: "step (snd (header_step B psl l (q :: RequestParser))) = step q"
  by (simp add: header_step_def ParseHeaderLine_def Let_def split: option.splits prod.splits)

lemma header_lines_step:
  "header_lines B psl d (q :: RequestParser) = (ok, r, q') \<Longrightarrow> step q' = step q"
proof (induction d q rule: header_lines_induct [where B = B and psl = psl])
  case (bad rest q n s)
  with header_step_step [of B psl "take (Suc n) rest" q] show ?case by (simp add: header_lines_line)
next
  case (line rest q n s)
  with header_step_step [of B psl "take (Suc n) rest" q] show ?case by (simp add: header_lines_line)
qed (auto simp: header_lines_none header_lines_end)

lemma ParseHeaders_step: "ParseHeaders B psl (q :: RequestParser) = (ok, q') \<Longrightarrow> step q' = step q"
  by (cases "header_lines B psl (pending_data q) q")
     (auto simp: ParseHeaders_header_lines dest: header_lines_step)

lemma Request_ParseContent_returns: "step q \<noteq> kEnded \<Longrightarrow> \<exists>r. Request_ParseContent B d q = Some r"
  using Multipart_loop_returns [of "q\<lparr>pending_data := pending_data q @ d\<rparr>" B]
  by (auto simp: Request_ParseContent_def ParseMultipartContent_def Let_def split: option.splits prod.splits)

text \<open>
  C17. A parser that has not completed a multipart body answers on every input: \<open>Parse\<close> returns, with
  success, refusal or an exception; the loops over headers, chunks and parts all end.
\<close>

theorem request_parse_returns:
  "step p \<noteq> kEnded \<Longrightarrow> \<exists>r. RequestParser_Parse B data p = Some r"
proof -
  assume p: "step p \<noteq> kEnded"
  obtain ok q where h: "ParseHeaders B (Request_ParseStartLine B) (p\<lparr>pending_data := pending_data p @ data\<rparr>) = (ok, q)"
    by force
  with p ParseHeaders_step [OF h] Request_ParseContent_returns show ?thesis
    by (simp add: RequestParser_Parse_def Parse_def)
qed

theorem request_parse_returns_witness:
  "\<exists>r. RequestParser_Parse reference_platform ''GET /'' (make_RequestParser empty_Request) = Some r"
  by (rule request_parse_returns) (simp add: make_RequestParser_def)

text \<open>
  C32. \<open>Init\<close> prepares the parser for the next request of a kept connection but not its multipart step:
  once a multipart body has been completed, a further multipart request whose body has begun to
  arrive makes \<open>Parse\<close> loop without end.
\<close>

theorem second_multipart_hangs:
  "step p = kEnded \<Longrightarrow> header_ended q \<Longrightarrow> step q = step (RequestParser_Init r p) \<Longrightarrow> \<not> chunked q \<Longrightarrow>
     ct_multipart (msg_content_type (message q)) \<Longrightarrow> content_length_parsed q \<Longrightarrow>
     content_length q \<noteq> kInvalidLength \<Longrightarrow> pending_data q @ data \<noteq> [] \<Longrightarrow>
     RequestParser_Parse B data q = None"
  using Multipart_loop_hangs [of "q\<lparr>pending_data := pending_data q @ data\<rparr>" B]
  by (simp add: RequestParser_Parse_def Parse_def Request_ParseContent_def ParseMultipartContent_def
    RequestParser_Init_def Parser_Init_def Reset_def)

theorem second_multipart_hangs_witness:
  "RequestParser_Parse reference_platform ''x''
     ((RequestParser_Init (empty_Request\<lparr>msg_content_type := make_ContentType reference_platform ''multipart/form-data; boundary=b''\<rparr>)
        ((make_RequestParser empty_Request)\<lparr>step := kEnded\<rparr>))
      \<lparr>header_ended := True, content_length_parsed := True, content_length := 1\<rparr>) = None"
proof -
  have "make_ContentType reference_platform ''multipart/form-data; boundary=b''
      = \<lparr>ct_media_type = ''multipart/form-data'', ct_additional = ''b'', ct_multipart = True\<rparr>"
    using ref.ContentType_multipart [of "''boundary''" "''b''"] by (simp add: token_def isspace_def)
  then show ?thesis
    by (intro second_multipart_hangs [where p = "(make_RequestParser empty_Request)\<lparr>step := kEnded\<rparr>" and r = empty_Request])
       (simp_all add: RequestParser_Init_def Parser_Init_def Reset_def make_RequestParser_def empty_Request_def
         kInvalidLength_def npos_def)
qed

section \<open>More data behind a multipart body\<close>

text \<open>
  Each search of the machine gives the same answer when more data is appended, once it has found
  what it looks for. The headers of a part are read again from their beginning after a break; this
  is idempotent, since they only overwrite the names.
\<close>

fun set_names :: "(string \<times> string) option \<Rightarrow> FormPart \<Rightarrow> FormPart" where
  "set_names None prt = prt"
| "set_names (Some (n, f)) prt = prt\<lparr>fp_name := n, fp_file_name := f\<rparr>"

definition part_step :: "platform \<Rightarrow> string \<Rightarrow> (string \<times> string) option \<Rightarrow> (string \<times> string) option option" where
  "part_step B line nm =
     (case Split2 B line (CHR '':'') of
        None \<Rightarrow> None
      | Some (key, value) \<Rightarrow>
          if boost_iequals B key kContentDisposition then
            let cd = make_ContentDisposition B value
            in if \<not> cd_valid cd then None else Some (Some (cd_name cd, cd_file_name cd))
          else Some nm)"

function part_lines ::
  "platform \<Rightarrow> string \<Rightarrow> (string \<times> string) option \<Rightarrow> bool \<times> bool \<times> string \<times> (string \<times> string) option" where
  "part_lines B rest nm =
     (case find_str kCRLF rest of
        None \<Rightarrow> (False, True, rest, nm)
      | Some n \<Rightarrow>
          if n = 0 then (True, False, drop 2 rest, nm)
          else (case part_step B (take n rest) nm of
                  None \<Rightarrow> (False, False, drop (n + 2) rest, nm)
                | Some nm' \<Rightarrow> part_lines B (drop (n + 2) rest) nm'))"
  by pat_completeness auto
termination
  by (relation "measure (\<lambda>(B, rest, nm). length rest)") (auto dest: find_str_SomeD)

declare part_lines.simps [simp del]

lemma part_lines_cases:
  "find_str kCRLF rest = None \<Longrightarrow> part_lines B rest nm = (False, True, rest, nm)"
  "find_str kCRLF rest = Some 0 \<Longrightarrow> part_lines B rest nm = (True, False, drop 2 rest, nm)"
  "find_str kCRLF rest = Some (Suc n) \<Longrightarrow> part_lines B rest nm =
     (case part_step B (take (Suc n) rest) nm of
        None \<Rightarrow> (False, False, drop (n + 3) rest, nm)
      | Some nm' \<Rightarrow> part_lines B (drop (n + 3) rest) nm')"
  by (subst part_lines.simps, auto simp: numeral_3_eq_3 numeral_2_eq_2 split: option.splits)+

lemma part_lines_induct [case_names none stop bad line]:
  assumes "\<And>rest nm. find_str kCRLF rest = None \<Longrightarrow> P rest nm"
    and "\<And>rest nm. find_str kCRLF rest = Some 0 \<Longrightarrow> P rest nm"
    and "\<And>rest nm n. find_str kCRLF rest = Some (Suc n) \<Longrightarrow> part_step B (take (Suc n) rest) nm = None \<Longrightarrow> P rest nm"
    and "\<And>rest nm n nm'. find_str kCRLF rest = Some (Suc n) \<Longrightarrow> part_step B (take (Suc n) rest) nm = Some nm' \<Longrightarrow>
           P (drop (n + 3) rest) nm' \<Longrightarrow> P rest nm"
  shows "P rest nm"
proof (induction rest arbitrary: nm rule: length_induct)
  case (1 rest)
  consider "find_str kCRLF rest = None" | "find_str kCRLF rest = Some 0"
    | n where "find_str kCRLF rest = Some (Suc n)"
    by (metis not0_implies_Suc option.exhaust)
  then show ?case
  proof cases
    case 3
    have "length (drop (n + 3) rest) < length rest" using find_str_SomeD [OF 3] by auto
    with 1 have "P (drop (n + 3) rest) nm'" for nm' by blast
    with assms(3,4) 3 show ?thesis by (cases "part_step B (take (Suc n) rest) nm") auto
  qed (use assms in auto)
qed

lemma GetNextLine_drop:
  "off \<le> length pending \<Longrightarrow>
     GetNextLine pending off False =
       map_option (\<lambda>n. (take n (drop off pending), pending)) (find_str kCRLF (drop off pending))"
  by (auto simp: GetNextLine_def find_from_def Let_def split: option.splits)

lemma PartHeaders_loop_line:
  assumes "find_str kCRLF (drop off pending) = Some (Suc n)" "off \<le> length pending"
  shows "PartHeaders_loop B pending off (set_names nm prt) =
    (case part_step B (take (Suc n) (drop off pending)) nm of
       None \<Rightarrow> (False, False, off + n + 3, set_names nm prt)
     | Some nm' \<Rightarrow> PartHeaders_loop B pending (off + n + 3) (set_names nm' prt))"
proof -
  define l where "l = take (Suc n) (drop off pending)"
  have l: "GetNextLine pending off False = Some (l, pending)"
    using assms by (simp add: GetNextLine_drop l_def)
  have len: "Suc (Suc (off + length l)) = off + n + 3" "l \<noteq> []"
    using find_str_SomeD [OF assms(1)] by (auto simp: l_def)
  have nm: "(set_names nm prt)\<lparr>fp_name := a, fp_file_name := b\<rparr> = set_names (Some (a, b)) prt" for a b
    by (cases "(nm, prt)" rule: set_names.cases) auto
  show ?thesis
    unfolding l_def [symmetric]
    by (subst PartHeaders_loop.simps)
       (auto simp: l len nm part_step_def Let_def simp del: set_names.simps split: option.splits)
qed

lemma PartHeaders_loop_part_lines:
  "off \<le> length pending \<Longrightarrow>
     (case PartHeaders_loop B pending off (set_names nm prt) of
        (ok, need, off', prt') \<Rightarrow> (ok, need, drop off' pending, prt'))
     = (case part_lines B (drop off pending) nm of
          (ok, need, rest, nm') \<Rightarrow> (ok, need, rest, set_names nm' prt))"
proof (induction "drop off pending" nm arbitrary: off rule: part_lines_induct [where B = B])
  case (none nm)
  then show ?case
    by (subst PartHeaders_loop.simps) (simp add: GetNextLine_drop part_lines_cases)
next
  case (stop nm)
  then show ?case
    by (subst PartHeaders_loop.simps) (simp add: GetNextLine_drop part_lines_cases add.commute)
next
  case (bad nm n)
  then show ?case
    by (simp add: PartHeaders_loop_line part_lines_cases ac_simps)
next
  case (line nm n nm')
  from find_str_SomeD [OF line(1)] have "n + 3 \<le> length pending - off" by simp
  with line(4) have "off + n + 3 \<le> length pending" by linarith
  with line show ?case
    by (simp add: PartHeaders_loop_line part_lines_cases ac_simps)
qed

lemma part_lines_append:
  "part_lines B rest nm = (ok, need, r, nm') \<Longrightarrow>
     part_lines B (rest @ b) nm = (if need then part_lines B (r @ b) nm' else (ok, need, r @ b, nm'))"
proof (induction rest nm rule: part_lines_induct [where B = B])
  case (stop rest nm)
  with find_str_append [OF stop(1), of b] find_str_SomeD [OF stop(1)] show ?case
    by (auto simp: part_lines_cases)
next
  case (bad rest nm n)
  with find_str_append [OF bad(1), of b] find_str_SomeD [OF bad(1)] show ?case
    by (auto simp: part_lines_cases)
next
  case (line rest nm n nm1)
  with find_str_append [OF line(1), of b] find_str_SomeD [OF line(1)] show ?case
    by (auto simp: part_lines_cases)
qed (auto simp: part_lines_cases)

lemma part_lines_names: "part_lines B rest nm = (ok, need, r, nm') \<Longrightarrow> nm' = nm \<or> nm' \<noteq> None"
proof (induction rest nm rule: part_lines_induct [where B = B])
  case (line rest nm n nm1)
  then have "nm1 = nm \<or> nm1 \<noteq> None"
    by (auto simp: part_step_def Let_def split: option.splits if_splits prod.splits)
  with line show ?case by (auto simp: part_lines_cases)
qed (auto simp: part_lines_cases)

lemma part_lines_need: "part_lines B rest nm = (ok, need, r, nm') \<Longrightarrow> need \<Longrightarrow> \<not> ok"
  by (induction rest nm rule: part_lines_induct [where B = B]) (auto simp: part_lines_cases)

lemma set_names_absorb: "nm' = nm \<or> nm' \<noteq> None \<Longrightarrow> set_names nm' (set_names nm prt) = set_names nm' prt"
  by (cases nm; cases nm') auto

lemma strncmp_eq_append: "n \<le> length bs \<Longrightarrow> strncmp_eq as (bs @ c) n = strncmp_eq as bs n"
  by (induction as bs n rule: strncmp_eq.induct) auto

lemma IsBoundary_append:
  assumes "off + count \<le> length str"
  shows "IsBoundary bd (str @ b) off count = IsBoundary bd str off count"
proof (cases "count = length bd + 2 \<or> count = length bd + 4")
  case True
  then have "strncmp_eq bd (drop (off + 2) str @ b) (length bd) = strncmp_eq bd (drop (off + 2) str) (length bd)"
    using assms by (intro strncmp_eq_append) auto
  with True assms show ?thesis by (auto simp: IsBoundary_def nth_append)
qed (simp add: IsBoundary_def)

lemma GetNextBoundaryLine_append:
  "GetNextBoundaryLine bd pending off e = (Some (boff, count), e') \<Longrightarrow>
     GetNextBoundaryLine bd (pending @ b) off e = (Some (boff, count), e')
     \<and> boff + count + 2 \<le> length pending"
proof (induction bd pending off e rule: GetNextBoundaryLine.induct)
  case (1 bd pending off e)
  from 1(3) obtain pos where f: "find_from kCRLF pending off = Some pos"
    by (subst (asm) GetNextBoundaryLine.simps) (auto split: option.splits)
  note pos = find_from_SomeD [OF f] and fb = find_from_append [OF f, of b]
  obtain is_b en where ib: "IsBoundary bd pending off (pos - off) = (is_b, en)" by force
  have ibb: "IsBoundary bd (pending @ b) off (pos - off) = (is_b, en)"
    using pos ib by (subst IsBoundary_append) auto
  consider "pos = off" | "pos \<noteq> off" "is_b" | "pos \<noteq> off" "\<not> is_b" by blast
  then show ?case
  proof cases
    case 1
    with "1.prems" f have "GetNextBoundaryLine bd pending (pos + 2) e = (Some (boff, count), e')"
      by (subst (asm) GetNextBoundaryLine.simps) simp
    with "1.IH"(1) [OF f refl] 1 fb show ?thesis by (subst GetNextBoundaryLine.simps) simp
  next
    case 2
    with "1.prems" f ib pos have "boff = off" "count = pos - off" "e' = (e \<or> en)"
      by (subst (asm) GetNextBoundaryLine.simps, auto)+
    with 2 fb ibb pos show ?thesis by (subst GetNextBoundaryLine.simps) auto
  next
    case 3
    with "1.prems" f ib pos have "GetNextBoundaryLine bd pending (pos + 2) (e \<or> en) = (Some (boff, count), e')"
      by (subst (asm) GetNextBoundaryLine.simps) auto
    with "1.IH"(2) [OF f refl _ ib [symmetric] refl] 3 fb ibb pos show ?thesis
      by (subst GetNextBoundaryLine.simps) auto
  qed
qed

text \<open>A pass that went on goes on in the same way when more data follows.\<close>

abbreviation with_data :: "string \<Rightarrow> RequestParser \<Rightarrow> RequestParser" where
  "with_data b p \<equiv> p\<lparr>pending_data := pending_data p @ b\<rparr>"

lemma StartPass_append:
  "StartPass p = Continue q \<Longrightarrow> StartPass (with_data b p) = Continue (with_data b q)"
  "StartPass p = ReturnFalse q \<Longrightarrow> StartPass (with_data b p) = ReturnFalse (with_data b q)"
  by (auto simp: StartPass_def GetNextLine_def Let_def boundary_def find_from_append
    split: option.splits if_splits dest!: find_from_SomeD)

lemma HeadersPass_part_lines:
  "HeadersPass B p =
     (case part_lines B (pending_data p) None of
        (ok, need, r, nm) \<Rightarrow>
          let prt = set_names nm (case part p of Some x \<Rightarrow> x | None \<Rightarrow> empty_FormPart)
          in if ok then Continue (p\<lparr>part := Some prt, pending_data := r, step := kHeadersParsed\<rparr>)
             else if need then Break (p\<lparr>part := Some prt\<rparr>) else ReturnFalse (p\<lparr>part := Some prt\<rparr>))"
  using PartHeaders_loop_part_lines [of 0 "pending_data p" B None "case part p of Some x \<Rightarrow> x | None \<Rightarrow> empty_FormPart"]
  by (cases "part p") (auto simp: HeadersPass_def ParsePartHeaders_def Let_def split: prod.splits)

lemma HeadersPass_append:
  "HeadersPass B p = Continue q \<Longrightarrow> HeadersPass B (with_data b p) = Continue (with_data b q)"
  "HeadersPass B p = Break q \<Longrightarrow> HeadersPass B (with_data b q) = HeadersPass B (with_data b p)"
proof -
  obtain ok need r nm where l: "part_lines B (pending_data p) None = (ok, need, r, nm)" by (metis prod_cases4)
  note lb = part_lines_append [OF l, of b]
  show "HeadersPass B p = Continue q \<Longrightarrow> HeadersPass B (with_data b p) = Continue (with_data b q)"
    using l lb part_lines_need [OF l] by (auto simp: HeadersPass_part_lines Let_def split: if_splits)
  assume br: "HeadersPass B p = Break q"
  then have need: "need" "\<not> ok" and q: "q = p\<lparr>part := Some (set_names nm (case part p of Some x \<Rightarrow> x | None \<Rightarrow> empty_FormPart))\<rparr>"
    using l by (auto simp: HeadersPass_part_lines Let_def split: if_splits)
  obtain ok' need' r' nm' where l': "part_lines B (r @ b) nm = (ok', need', r', nm')" by (metis prod_cases4)
  from part_lines_names [OF l'] q need lb l' show "HeadersPass B (with_data b q) = HeadersPass B (with_data b p)"
    by (simp add: HeadersPass_part_lines set_names_absorb Let_def)
qed

lemma DataPass_append:
  "DataPass p = Continue q \<Longrightarrow> DataPass (with_data b p) = Continue (with_data b q)"
  using GetNextBoundaryLine_append [of "boundary p" "pending_data p" 0 False _ _ _ b]
  by (fastforce simp: DataPass_def boundary_def Let_def split: option.splits prod.splits if_splits)

lemma DataPass_Break: "DataPass p = Break q \<Longrightarrow> step q = kEnded \<or> q = p"
  by (auto simp: DataPass_def Let_def split: option.splits prod.splits if_splits)

lemma StartPass_Break: "StartPass p = Break q \<Longrightarrow> q = p"
  by (auto simp: StartPass_def Let_def split: option.splits prod.splits if_splits)

lemma Multipart_pass_append:
  assumes "step p \<noteq> kEnded"
  shows "Multipart_pass B p = Continue q \<Longrightarrow> Multipart_pass B (with_data b p) = Continue (with_data b q)"
    and "Multipart_pass B p = Break q \<Longrightarrow> step q \<noteq> kEnded \<Longrightarrow> Multipart_pass B (with_data b q) = Multipart_pass B (with_data b p)"
proof -
  assume c: "Multipart_pass B p = Continue q"
  then have ne: "pending_data p \<noteq> []" by (auto simp: Multipart_pass_def split: if_splits)
  with c assms show "Multipart_pass B (with_data b p) = Continue (with_data b q)"
    by (cases "step p")
       (auto simp: Multipart_pass_def StartPass_append HeadersPass_append DataPass_append)
next
  assume br: "Multipart_pass B p = Break q" and q: "step q \<noteq> kEnded"
  consider "q = p" | "pending_data p \<noteq> []" "step p = kBoundaryParsed" "HeadersPass B p = Break q"
    using br q assms by (auto simp: Multipart_pass_def dest: StartPass_Break DataPass_Break split: if_splits Step.splits)
  then show "Multipart_pass B (with_data b q) = Multipart_pass B (with_data b p)"
  proof cases
    case 2
    then have "pending_data q = pending_data p" "step q = step p"
      by (auto simp: HeadersPass_part_lines Let_def split: prod.splits if_splits)
    with 2 HeadersPass_append(2) [OF 2(3), of b] show ?thesis by (simp add: Multipart_pass_def)
  qed simp
qed

lemma Multipart_loop_append:
  "Multipart_loop B p = Some (True, q) \<Longrightarrow> step q \<noteq> kEnded \<Longrightarrow>
     Multipart_loop B (with_data b q) = Multipart_loop B (with_data b p)"
proof (induction "length (pending_data p)" arbitrary: p rule: less_induct)
  case less
  have "step p \<noteq> kEnded"
  proof
    assume e: "step p = kEnded"
    show False
    proof (cases "pending_data p = []")
      case True
      with less.prems(1) have "q = p" by (subst (asm) Multipart_loop.simps) (simp add: Multipart_pass_def)
      with e less.prems(2) show False by simp
    next
      case False
      with e Multipart_loop_hangs less.prems(1) show False by simp
    qed
  qed
  note pass = Multipart_pass_append [OF this] and cont = Multipart_pass_Continue [OF _ this]
  show ?case
  proof (cases "Multipart_pass B p")
    case (Break q')
    with less.prems(1) have "q' = q" by (subst (asm) Multipart_loop.simps) simp
    with pass(2) [OF Break, of b] less.prems(2) show ?thesis
      by (subst (1 2) Multipart_loop.simps) simp
  next
    case (ReturnFalse q')
    with less.prems(1) show ?thesis by (subst (asm) Multipart_loop.simps) simp
  next
    case (Continue p')
    with less.prems(1) have "Multipart_loop B p' = Some (True, q)" by (subst (asm) Multipart_loop.simps) simp
    with less.hyps [of p'] cont [OF Continue] less.prems(2)
    have "Multipart_loop B (with_data b q) = Multipart_loop B (with_data b p')" by blast
    also have "\<dots> = Multipart_loop B (with_data b p)"
      by (subst (2) Multipart_loop.simps) (simp add: pass(1) [OF Continue])
    finally show ?thesis .
  qed
qed

text \<open>What the loop never changes.\<close>

definition frame :: "RequestParser \<Rightarrow> bool \<times> bool \<times> bool \<times> size_t \<times> bool \<times> ContentType" where
  "frame p = (header_ended p, chunked p, content_length_parsed p, content_length p, finished p,
     msg_content_type (message p))"

lemma Multipart_pass_frame:
  "Multipart_pass B p = Break q \<Longrightarrow> frame q = frame p"
  "Multipart_pass B p = Continue q \<Longrightarrow> frame q = frame p"
  by (auto simp: Multipart_pass_def StartPass_def HeadersPass_part_lines DataPass_def Let_def frame_def AddFormPart_def
    split: if_splits Step.splits option.splits prod.splits)

lemma Multipart_loop_frame: "Multipart_loop B p = Some r \<Longrightarrow> fst r \<longrightarrow> frame (snd r) = frame p"
  by (rule Multipart_loop.raw_induct)
     (auto split: pass.splits dest: Multipart_pass_frame)

lemma ParseMultipartContent_unfinished:
  assumes "ParseMultipartContent B a p = Some (True, q)" "\<not> finished q"
  shows "Multipart_loop B (with_data a p) = Some (True, q)" "step q \<noteq> kEnded" "frame q = frame p"
    "content_length_parsed p" "content_length p \<noteq> kInvalidLength"
  using assms Multipart_loop_frame [of B "with_data a p"]
  by (fastforce simp: ParseMultipartContent_def Let_def frame_def split: if_splits option.splits prod.splits)+

lemma ParseMultipartContent_flags:
  assumes "ParseMultipartContent B a p = Some (True, q)"
  shows "header_ended q = header_ended p" "chunked q = chunked p" "finished p \<Longrightarrow> finished q"
proof -
  from assms obtain p' where l: "Multipart_loop B (with_data a p) = Some (True, p')"
    and q: "q = (if step p' = kEnded then snd (Finish B p') else p')"
    by (auto simp: ParseMultipartContent_def Let_def split: if_splits option.splits prod.splits)
  from Multipart_loop_frame [OF l] q
  show "header_ended q = header_ended p" "chunked q = chunked p" "finished p \<Longrightarrow> finished q"
    by (auto simp: frame_def)
qed

lemma ParseMultipartContent_split:
  assumes "ParseMultipartContent B a p = Some (True, q)" "\<not> finished q"
  shows "ParseMultipartContent B b q = ParseMultipartContent B (a @ b) p"
proof -
  note u = ParseMultipartContent_unfinished [OF assms]
  from Multipart_loop_append [OF u(1,2), of b] u(3-5) show ?thesis
    by (simp add: ParseMultipartContent_def frame_def)
qed

interpretation rpc: content_parser "Request_ParseContent B" "\<lambda>p. \<not> chunked p"
proof
  fix p q :: RequestParser and a
  assume "Request_ParseContent B a p = Some (Inr (True, q))"
  then show "header_ended q = header_ended p \<and> (\<not> chunked q) = (\<not> chunked p) \<and> (finished p \<longrightarrow> finished q)"
    by (auto simp: Request_ParseContent_def ParseChunkedContent_def ParseFixedContent_append Let_def
      split: if_splits dest!: ParseChunks_flags dest: ParseMultipartContent_flags)
next
  fix p q :: RequestParser and a b
  assume c: "\<not> chunked q" and r: "Request_ParseContent B a p = Some (Inr (True, q))" and f: "\<not> finished q"
  have nc: "\<not> chunked p"
    using r c by (auto simp: Request_ParseContent_def ParseChunkedContent_def split: if_splits dest!: ParseChunks_flags)
  show "Request_ParseContent B b q = Request_ParseContent B (a @ b) p"
  proof (cases "ct_multipart (msg_content_type (message p))")
    case True
    with r nc have m: "ParseMultipartContent B a p = Some (True, q)" by (auto simp: Request_ParseContent_def)
    with ParseMultipartContent_unfinished(3) [OF m f] ParseMultipartContent_split [OF m f, of b] nc c True
    show ?thesis by (simp add: Request_ParseContent_def frame_def)
  next
    case False
    with r nc f c show ?thesis
      by (auto simp: Request_ParseContent_def ParseFixedContent_append Let_def split: if_splits)
  qed
next
  fix p q :: RequestParser and b
  assume c: "\<not> chunked q" and r: "Request_ParseContent B [] p = Some (Inr (True, q))" and f: "\<not> finished q"
  have nc: "\<not> chunked p"
    using r c by (auto simp: Request_ParseContent_def ParseChunkedContent_def split: if_splits dest!: ParseChunks_flags)
  show "Request_ParseContent B [] (p\<lparr>pending_data := pending_data p @ b\<rparr>) = Request_ParseContent B b q"
  proof (cases "ct_multipart (msg_content_type (message p))")
    case True
    with r nc have m: "ParseMultipartContent B [] p = Some (True, q)" by (auto simp: Request_ParseContent_def)
    with ParseMultipartContent_unfinished(3) [OF m f] ParseMultipartContent_split [OF m f, of b] nc c True
    show ?thesis by (simp add: Request_ParseContent_def frame_def ParseMultipartContent_def)
  next
    case False
    with r nc f c show ?thesis
      by (auto simp: Request_ParseContent_def ParseFixedContent_append Let_def split: if_splits)
  qed
qed

text \<open>
  C16. Where the reads of a connection cut a request does not matter, multipart bodies included: the
  server's parser, fed any list of pieces and then one more, has the same outcome as on all bytes at
  once, as long as the request is not complete before the last piece and its content is not chunked.
\<close>

theorem request_parse_split:
  "feed (RequestParser_Parse B) ds p = Some (Inr (True, q)) \<Longrightarrow> \<not> finished q \<Longrightarrow> \<not> chunked q \<Longrightarrow>
     outcome (RequestParser_Parse B d q) = outcome (RequestParser_Parse B (concat ds @ d) p)"
  unfolding RequestParser_Parse_def by (rule rpc.feed_Parse)

theorem request_parse_split_witness:
  "outcome (RequestParser_Parse reference_platform ''T / HTTP/1.1''
      ((make_RequestParser empty_Request)\<lparr>pending_data := ''GE''\<rparr>))
   = outcome (RequestParser_Parse reference_platform ''GET / HTTP/1.1'' (make_RequestParser empty_Request))"
proof -
  have "feed (RequestParser_Parse reference_platform) [''GE''] (make_RequestParser empty_Request)
      = Some (Inr (True, (make_RequestParser empty_Request)\<lparr>pending_data := ''GE''\<rparr>))"
    by (simp add: RequestParser_Parse_def Parse_def make_RequestParser_def ParseHeaders_header_lines header_lines_none)
  from request_parse_split [OF this, of "''T / HTTP/1.1''"] show ?thesis by (simp add: make_RequestParser_def)
qed

end
