(* ===== verification/Webcc_Roundtrip.thy ===== *)
theory Webcc_Roundtrip
  imports Webcc_Request_Parser
begin

text \<open>
  Requests survive the wire: what a client writes with \<open>Request::Prepare\<close>, with a plain body or as a
  multipart form, is read back by the server's parser. The theory holds the lemmas on request lines,
  boundary lines and part headers that this needs, and no definitions of code.
\<close>

section \<open>Request lines\<close>

definition target :: "Request \<Rightarrow> string" where
  "target r = ''/'' @ url_path (req_url r) @ (if url_query (req_url r) \<noteq> [] then ''?'' @ url_query (req_url r) else [])"

definition request_line_ok :: "Request \<Rightarrow> bool" where
  "request_line_ok r \<longleftrightarrow>
     msg_start_line r = [] \<and> url_host (req_url r) \<noteq> [] \<and> req_method r \<noteq> []
     \<and> CHR '' '' \<notin> set (req_method r) \<and> CR \<notin> set (req_method r)
     \<and> CHR '' '' \<notin> set (target r) \<and> CR \<notin> set (target r) \<and> CHR ''%'' \<notin> set (target r)
     \<and> CHR ''?'' \<notin> set (url_path (req_url r)) \<and> find_str ''://'' (target r) = None"

text \<open>The URL that the server makes of the target: it has no scheme, host or port.\<close>

definition target_url :: "Request \<Rightarrow> Url" where
  "target_url r = \<lparr>url_scheme = [], url_host = [], url_port = [],
     url_path = url_path (req_url r), url_query = url_query (req_url r)\<rparr>"

lemma CreateStartLine_target:
  "request_line_ok r \<Longrightarrow> CreateStartLine r = Inr (r\<lparr>msg_start_line := req_method r @ '' '' @ target r @ '' HTTP/1.1''\<rparr>)"
  by (simp add: request_line_ok_def CreateStartLine_def target_def Let_def)

lemma Url_Init_target:
  assumes "boost_string B" "request_line_ok r"
  shows "Url_Init B (target r) True True u = target_url r"
proof -
  have "find_char (CHR ''%'') (target r) = None"
    using assms(2) by (simp add: find_char_None_iff request_line_ok_def)
  moreover have "boost_trim_left B (target r) = target r"
    by (simp add: boost_string.trim_left [OF assms(1)] trim_left_by_def target_def isspace_def)
  moreover have "find_char (CHR ''?'') (url_path (req_url r)) = None"
    using assms(2) by (simp add: find_char_None_iff request_line_ok_def)
  moreover have "find_char (CHR ''?'') (url_path (req_url r) @ CHR ''?'' # q) = Some (length (url_path (req_url r)))" for q
    using assms(2) by (intro find_char_append) (simp add: request_line_ok_def)
  moreover have "Url_parse_path (target r) v
      = v\<lparr>url_host := [], url_path := url_path (req_url r),
          url_query := (if url_query (req_url r) \<noteq> [] then url_query (req_url r) else url_query v)\<rparr>" for v
    using calculation by (simp add: Url_parse_path_def target_def Let_def)
  ultimately show ?thesis
    using assms(2)
    by (simp add: Url_Init_def Url_Parse_def Url_parse_scheme_def Url_parse_port_def Url_Clear_def
      request_line_ok_def target_url_def)
qed

lemma request_line_parse:
  assumes "boost_string B" "request_line_ok r"
  shows "Request_ParseStartLine B (req_method r @ '' '' @ target r @ '' HTTP/1.1'') m
    = (True, m\<lparr>req_method := req_method r, req_url := target_url r\<rparr>)"
proof -
  have d: "dropWhile (\<lambda>c. c = CHR '' '') (target r @ s) = target r @ s" for s
    by (simp add: target_def)
  have m: "\<forall>c \<in> set (req_method r). \<not> c = CHR '' ''" and t: "\<forall>c \<in> set (target r). \<not> c = CHR '' ''"
    using assms(2) by (auto simp: request_line_ok_def)
  have "split_compress_by (\<lambda>c. c = CHR '' '') (req_method r @ CHR '' '' # target r @ CHR '' '' # ''HTTP/1.1'')
      = [req_method r, target r, ''HTTP/1.1'']"
    using split_compress_append [OF m, of "CHR '' ''" "target r @ CHR '' '' # ''HTTP/1.1''"]
      split_compress_append [OF t, of "CHR '' ''" "''HTTP/1.1''"] d by simp
  then show ?thesis
    by (simp add: Request_ParseStartLine_def boost_string.split [OF assms(1)] set_url_def Url_Init_target [OF assms])
qed

section \<open>Boundary lines\<close>

lemma find_str_CRLF_none: "find_str kCRLF d = None \<Longrightarrow> find_str kCRLF (d @ CR # LF # r) = Some (length d)"
proof (induction d)
  case (Cons c d)
  then show ?case by (cases d) (auto split: if_splits)
qed simp

lemma strncmp_eq_refl [simp]: "strncmp_eq s s n"
proof (induction s arbitrary: n)
  case (Cons a s)
  then show ?case by (cases n) auto
next
  case Nil
  show ?case by (cases n) auto
qed

lemma IsBoundary_prefix:
  "c \<le> length s \<Longrightarrow> IsBoundary bd (pre @ s) (length pre) c = IsBoundary bd s 0 c"
  by (auto simp: IsBoundary_def nth_append numeral_2_eq_2)

definition plain_line :: "string \<Rightarrow> string \<Rightarrow> bool" where
  "plain_line bd l \<longleftrightarrow> l = [] \<or> IsBoundary bd l 0 (length l) = (False, False)"

text \<open>No line of the data is a boundary line, or has its length and dashes.\<close>

function data_ok :: "string \<Rightarrow> string \<Rightarrow> bool" where
  "data_ok bd d =
     (case find_str kCRLF d of
        None \<Rightarrow> plain_line bd d
      | Some n \<Rightarrow> plain_line bd (take n d) \<and> data_ok bd (drop (n + 2) d))"
  by pat_completeness auto
termination
  by (relation "measure (length \<circ> snd)") (auto dest: find_str_SomeD)

declare data_ok.simps [simp del]

definition boundary_line :: "string \<Rightarrow> bool \<Rightarrow> string" where
  "boundary_line bd fin = ''--'' @ bd @ (if fin then ''--'' else [])"

lemma IsBoundary_line: "IsBoundary bd (boundary_line bd fin) 0 (length (boundary_line bd fin)) = (True, fin)"
  using strncmp_eq_append [of "length bd" bd bd "''--''"]
  by (auto simp: IsBoundary_def boundary_line_def nth_append nth_Cons')

lemma GetNextBoundaryLine_line:
  assumes "find_from kCRLF pending off = Some pos"
  shows "GetNextBoundaryLine bd pending off e =
    (if pos = off then GetNextBoundaryLine bd pending (pos + 2) e
     else case IsBoundary bd pending off (pos - off) of
            (True, en) \<Rightarrow> (Some (off, pos - off), e \<or> en)
          | (False, en) \<Rightarrow> GetNextBoundaryLine bd pending (pos + 2) (e \<or> en))"
  using assms find_from_SomeD [OF assms]
  by (subst GetNextBoundaryLine.simps) (auto split: prod.splits bool.splits)

lemma find_from_prefix: "find_from p (pre @ s) (length pre) = map_option (\<lambda>n. length pre + n) (find_str p s)"
  by (simp add: find_from_def)

lemma boundary_line_CR: "CR \<notin> set bd \<Longrightarrow> CR \<notin> set (boundary_line bd fin)"
  by (simp add: boundary_line_def)

lemma GetNextBoundaryLine_found:
  assumes "CR \<notin> set bd"
  shows "GetNextBoundaryLine bd (pre @ boundary_line bd fin @ kCRLF @ rest) (length pre) e
    = (Some (length pre, length (boundary_line bd fin)), e \<or> fin)"
proof -
  let ?b = "boundary_line bd fin"
  have f: "find_from kCRLF (pre @ ?b @ kCRLF @ rest) (length pre) = Some (length pre + length ?b)"
    using find_from_CRLF [OF boundary_line_CR [OF assms], of pre fin rest] by simp
  have "IsBoundary bd (pre @ ?b @ kCRLF @ rest) (length pre) (length ?b) = (True, fin)"
    using IsBoundary_append [of 0 "length ?b" ?b bd "kCRLF @ rest"] IsBoundary_line [of bd fin]
    by (subst IsBoundary_prefix) auto
  moreover have "length ?b \<noteq> 0" by (simp add: boundary_line_def)
  ultimately show ?thesis unfolding GetNextBoundaryLine_line [OF f] by simp
qed

lemma GetNextBoundaryLine_skip:
  assumes "plain_line bd l" "find_str kCRLF (l @ kCRLF @ t) = Some (length l)"
  shows "GetNextBoundaryLine bd (pre @ l @ kCRLF @ t) (length pre) False
    = GetNextBoundaryLine bd ((pre @ l @ kCRLF) @ t) (length (pre @ l @ kCRLF)) False"
proof -
  have f: "find_from kCRLF (pre @ l @ kCRLF @ t) (length pre) = Some (length pre + length l)"
    using assms(2) by (simp add: find_from_prefix)
  have "l \<noteq> [] \<Longrightarrow> IsBoundary bd (pre @ l @ kCRLF @ t) (length pre) (length l) = (False, False)"
    using assms(1) IsBoundary_append [of 0 "length l" l bd "kCRLF @ t"]
    by (subst IsBoundary_prefix) (auto simp: plain_line_def)
  then show ?thesis unfolding GetNextBoundaryLine_line [OF f] by (simp add: add.commute)
qed

lemma GetNextBoundaryLine_data:
  assumes "CR \<notin> set bd" "data_ok bd d"
  shows "GetNextBoundaryLine bd (pre @ d @ kCRLF @ boundary_line bd fin @ kCRLF @ rest) (length pre) False
    = (Some (length pre + length d + 2, length (boundary_line bd fin)), fin)"
  using assms
proof (induction bd d arbitrary: pre rule: data_ok.induct)
  case (1 bd d)
  let ?t = "boundary_line bd fin @ kCRLF @ rest"
  show ?case
  proof (cases "find_str kCRLF d")
    case None
    with 1 have "plain_line bd d" by (subst (asm) data_ok.simps) simp
    with GetNextBoundaryLine_skip [of bd d ?t pre] find_str_CRLF_none [OF None, of ?t]
      GetNextBoundaryLine_found [OF 1(2), of "pre @ d @ kCRLF" fin rest]
    show ?thesis by simp
  next
    case (Some n)
    let ?l = "take n d" and ?d = "drop (n + 2) d"
    from find_str_SomeD [OF Some] have d: "d = ?l @ kCRLF @ ?d" and n: "length ?l = n" by simp_all
    from 1(3) Some have ok: "plain_line bd ?l" "data_ok bd ?d" by (subst (asm) data_ok.simps, simp)+
    have f: "find_str kCRLF (?l @ kCRLF @ ?d @ kCRLF @ ?t) = Some (length ?l)"
      using find_str_append [OF Some, of "kCRLF @ ?t"] d n by (metis append_assoc)
    have "GetNextBoundaryLine bd (pre @ ?l @ kCRLF @ ?d @ kCRLF @ ?t) (length pre) False
        = GetNextBoundaryLine bd ((pre @ ?l @ kCRLF) @ ?d @ kCRLF @ ?t) (length (pre @ ?l @ kCRLF)) False"
      by (rule GetNextBoundaryLine_skip [OF ok(1) f])
    also have "\<dots> = (Some (length (pre @ ?l @ kCRLF) + length ?d + 2, length (boundary_line bd fin)), fin)"
      by (rule 1(1) [OF Some 1(2) ok(2)])
    finally show ?thesis using d n by (metis (no_types, lifting) add.assoc append_assoc length_append)
  qed
qed

section \<open>Part headers\<close>

lemma part_lines_cons:
  assumes "l \<noteq> []" "CR \<notin> set l"
  shows "part_lines B (l @ kCRLF @ t) nm =
    (case part_step B l nm of None \<Rightarrow> (False, False, t, nm) | Some nm' \<Rightarrow> part_lines B t nm')"
proof -
  obtain c l' where l: "l = c # l'" using assms(1) by (cases l) auto
  have f: "find_str kCRLF (l @ kCRLF @ t) = Some (Suc (length l'))"
    using find_str_CRLF [OF assms(2), of t] l by simp
  have td: "take (Suc (length l')) (l @ kCRLF @ t) = l" "drop (length l' + 3) (l @ kCRLF @ t) = t"
    using l by (simp_all add: numeral_3_eq_3)
  show ?thesis unfolding part_lines_cases(3) [OF f] td ..
qed

lemma header_line_shape: "header_ok h \<Longrightarrow> fst h @ '': '' @ snd h \<noteq> [] \<and> CR \<notin> set (fst h @ '': '' @ snd h)"
  by (auto simp: header_ok_def key_ok_def value_ok_def token_def isspace_def)

text \<open>What \<open>SetHeaders\<close> writes for a fresh part.\<close>

definition part_headers :: "FormPart \<Rightarrow> headers" where
  "part_headers prt = (kContentDisposition, disposition_text prt)
     # (if fp_media_type prt \<noteq> [] then [(kContentType, fp_media_type prt)] else [])"

definition part_ok :: "string \<Rightarrow> FormPart \<Rightarrow> bool" where
  "part_ok bd prt \<longleftrightarrow>
     fp_headers prt = [] \<and> quotable (fp_name prt) \<and> quotable (fp_file_name prt)
     \<and> CR \<notin> set (fp_name prt) \<and> CR \<notin> set (fp_file_name prt) \<and> value_ok (fp_media_type prt)
     \<and> fp_data prt \<noteq> [] \<and> data_ok bd (fp_data prt)"

definition part_text :: "FormPart \<Rightarrow> string" where
  "part_text prt = header_text (part_headers prt) @ kCRLF @ fp_data prt @ kCRLF"

lemma disposition_text_ends: "hd (disposition_text prt) = CHR ''f'' \<and> (last (disposition_text prt) = CHR ''a'' \<or> last (disposition_text prt) = DQUOTE)"
  by (simp add: disposition_text_def disposition_params_def)

lemma disposition_text_ok:
  "CR \<notin> set (fp_name prt) \<Longrightarrow> CR \<notin> set (fp_file_name prt) \<Longrightarrow> value_ok (disposition_text prt)"
  using disposition_text_ends [of prt]
  by (auto simp: value_ok_def isspace_def disposition_text_def disposition_params_def split: if_splits)

context boost_string begin

lemma SetHeaders_fresh:
  assumes "fp_headers prt = []"
  shows "fp_headers (FormPart_SetHeaders B prt) = part_headers prt"
proof -
  have ne: "map toupper kContentDisposition \<noteq> map toupper kContentType"
    by (simp add: header_name_defs)
  have one: "Headers_Set B k v [] = [(k, v)]" for k v by (simp add: Headers_Set_def)
  have two: "Headers_Set B kContentType v [(kContentDisposition, w)] = [(kContentDisposition, w), (kContentType, v)]" for v w
    using ne by (simp add: Headers_Set_def iequals)
  show ?thesis
    using assms by (simp add: FormPart_SetHeaders_def part_headers_def one two disposition_text_def
      disposition_params_def Let_def)
qed

lemma part_step_disposition:
  assumes "part_ok bd prt"
  shows "part_step B (kContentDisposition @ '': '' @ disposition_text prt) nm = Some (Some (fp_name prt, fp_file_name prt))"
proof -
  have "header_ok (kContentDisposition, disposition_text prt)"
    using assms disposition_text_ok [of prt]
    by (simp add: header_ok_def part_ok_def key_ok_def token_def isspace_def header_name_defs)
  from Split2_header [OF this] make_ContentDisposition_text [of prt] assms show ?thesis
    by (simp add: part_step_def iequals part_ok_def)
qed

lemma part_step_type:
  assumes "value_ok mt"
  shows "part_step B (kContentType @ '': '' @ mt) nm = Some nm"
proof -
  have "header_ok (kContentType, mt)"
    using assms by (simp add: header_ok_def key_ok_def token_def isspace_def header_name_defs)
  from Split2_header [OF this] have "Split2 B (kContentType @ '': '' @ mt) (CHR '':'') = Some (kContentType, mt)" .
  moreover have "map toupper kContentType \<noteq> map toupper kContentDisposition" by (simp add: header_name_defs)
  ultimately show ?thesis by (simp add: part_step_def iequals)
qed

lemma part_lines_part:
  assumes "part_ok bd prt"
  shows "part_lines B (header_text (part_headers prt) @ kCRLF @ rest) None
    = (True, False, rest, Some (fp_name prt, fp_file_name prt))"
proof -
  let ?d = "kContentDisposition @ '': '' @ disposition_text prt"
  have d: "?d \<noteq> []" "CR \<notin> set ?d"
    using assms disposition_text_ok [of prt] by (auto simp: part_ok_def value_ok_def header_name_defs)
  have t: "kContentType @ '': '' @ m \<noteq> []" "value_ok m \<Longrightarrow> CR \<notin> set (kContentType @ '': '' @ m)" for m
    by (auto simp: value_ok_def header_name_defs)
  have stop: "part_lines B (kCRLF @ rest) nm = (True, False, rest, nm)" for nm
    using part_lines_cases(2) [of "kCRLF @ rest" B nm] by simp
  show ?thesis
  proof (cases "fp_media_type prt = []")
    case True
    with part_lines_cons [OF d, of B "kCRLF @ rest" None] stop part_step_disposition [OF assms] show ?thesis
      by (simp add: part_headers_def header_text_def)
  next
    case False
    let ?t = "kContentType @ '': '' @ fp_media_type prt"
    have v: "value_ok (fp_media_type prt)" using assms by (simp add: part_ok_def)
    from False part_lines_cons [OF d, of B "?t @ kCRLF @ kCRLF @ rest" None]
      part_lines_cons [OF t(1) t(2) [OF v], of B "kCRLF @ rest" "Some (fp_name prt, fp_file_name prt)"]
      stop part_step_disposition [OF assms] part_step_type [OF v]
    show ?thesis by (simp add: part_headers_def header_text_def)
  qed
qed

end

section \<open>Multipart bodies\<close>

text \<open>The rest of a body behind a boundary line: parts, each followed by a boundary line, the last one final.\<close>

fun parts_text :: "string \<Rightarrow> FormPart list \<Rightarrow> string" where
  "parts_text bd [] = []"
| "parts_text bd (prt # prts) = part_text prt @ boundary_line bd (prts = []) @ kCRLF @ parts_text bd prts"

text \<open>What the server sees of a part: its names and data.\<close>

definition received :: "FormPart \<Rightarrow> FormPart" where
  "received prt = empty_FormPart\<lparr>fp_name := fp_name prt, fp_file_name := fp_file_name prt, fp_data := fp_data prt\<rparr>"

lemma DataPass_part:
  assumes "pending_data p = d @ kCRLF @ boundary_line (boundary p) fin @ kCRLF @ rest" "d \<noteq> []"
    and "part p = Some prt" "CR \<notin> set (boundary p)" "data_ok (boundary p) d"
  shows "DataPass p =
    (let q = p\<lparr>pending_data := rest, message := AddFormPart (AppendData d prt) (message p), part := None\<rparr>
     in if fin then Break (q\<lparr>step := kEnded\<rparr>) else Continue (q\<lparr>step := kBoundaryParsed\<rparr>))"
proof -
  let ?b = "boundary_line (boundary p) fin"
  have g: "GetNextBoundaryLine (boundary p) (pending_data p) 0 False = (Some (length d + 2, length ?b), fin)"
    using GetNextBoundaryLine_data [OF assms(4,5), of "[]" fin rest] assms(1) by simp
  have "pending_data p = (d @ kCRLF @ ?b @ kCRLF) @ rest" using assms(1) by simp
  then have "rest = drop (length (d @ kCRLF @ ?b @ kCRLF)) (pending_data p)"
    by (metis append_eq_conv_conj)
  then have dr: "drop (length d + 2 + length ?b + 2) (pending_data p) = rest" by (simp add: add.commute)
  have "take (length d) (pending_data p) = d" using assms(1) by simp
  then show ?thesis
    unfolding DataPass_def g prod.case option.case dr using assms(2,3) by (simp add: Let_def)
qed

lemma Multipart_loop_parts:
  assumes B: "boost_string B"
  shows "step p = kBoundaryParsed \<Longrightarrow> part p = None \<Longrightarrow> pending_data p = parts_text (boundary p) prts \<Longrightarrow>
     prts \<noteq> [] \<Longrightarrow> CR \<notin> set (boundary p) \<Longrightarrow> list_all (part_ok (boundary p)) prts \<Longrightarrow>
     Multipart_loop B p = Some (True, p\<lparr>step := kEnded, pending_data := [],
       message := (message p)\<lparr>req_form_parts := req_form_parts (message p) @ map received prts\<rparr>\<rparr>)"
proof (induction prts arbitrary: p)
  case (Cons prt prts)
  let ?bd = "boundary p" and ?fin = "prts = []"
  let ?rest = "boundary_line ?bd ?fin @ kCRLF @ parts_text ?bd prts"
  have ok: "part_ok ?bd prt" using Cons.prems by simp
  let ?prt = "empty_FormPart\<lparr>fp_name := fp_name prt, fp_file_name := fp_file_name prt\<rparr>"
  let ?q = "p\<lparr>part := Some ?prt, pending_data := fp_data prt @ kCRLF @ ?rest, step := kHeadersParsed\<rparr>"
  have "Multipart_pass B p = Continue ?q"
    using Cons.prems boost_string.part_lines_part [OF B ok, of "fp_data prt @ kCRLF @ ?rest"]
    by (auto simp: Multipart_pass_def HeadersPass_part_lines part_text_def Let_def header_text_def part_headers_def)
  then have l1: "Multipart_loop B p = Multipart_loop B ?q"
    by (subst Multipart_loop.simps) simp
  have bq: "boundary ?q = ?bd" by (simp add: boundary_def)
  let ?r = "?q\<lparr>pending_data := parts_text ?bd prts, message := AddFormPart (received prt) (message p), part := None\<rparr>"
  have "DataPass ?q = (if ?fin then Break (?r\<lparr>step := kEnded\<rparr>) else Continue (?r\<lparr>step := kBoundaryParsed\<rparr>))"
    using DataPass_part [of ?q "fp_data prt" ?fin "parts_text ?bd prts" ?prt] ok Cons.prems bq
    by (simp add: part_ok_def received_def AppendData_def empty_FormPart_def)
  then have pass: "Multipart_pass B ?q = (if ?fin then Break (?r\<lparr>step := kEnded\<rparr>) else Continue (?r\<lparr>step := kBoundaryParsed\<rparr>))"
    using ok by (simp add: Multipart_pass_def part_ok_def)
  note loop = Multipart_loop.simps [of B ?q, unfolded pass]
  show ?case
  proof (cases ?fin)
    case True
    with loop have "Multipart_loop B ?q = Some (True, ?r\<lparr>step := kEnded\<rparr>)" by simp
    with True l1 Cons.prems show ?thesis by (simp add: AddFormPart_def)
  next
    case False
    let ?s = "?r\<lparr>step := kBoundaryParsed\<rparr>"
    have bs: "boundary ?s = ?bd" by (simp add: boundary_def AddFormPart_def)
    from loop False have "Multipart_loop B ?q = Multipart_loop B ?s" by simp
    with l1 Cons.IH [of ?s] False Cons.prems bs show ?thesis
      by (simp add: AddFormPart_def)
  qed
qed simp

section \<open>The header section of a request\<close>

definition host_value :: "Request \<Rightarrow> string" where
  "host_value r = (if url_port (req_url r) = [] then url_host (req_url r)
                   else url_host (req_url r) @ '':'' @ url_port (req_url r))"

definition start_line :: "Request \<Rightarrow> string" where
  "start_line r = req_method r @ '' '' @ target r @ '' HTTP/1.1''"

text \<open>The parser behind the headers \<open>hs\<close> of a request, with \<open>n\<close> as the announced length.\<close>

definition after_headers :: "platform \<Rightarrow> Request \<Rightarrow> nat \<Rightarrow> headers \<Rightarrow> RequestParser" where
  "after_headers B r n hs =
     (fold (header_effect B n) hs ((make_RequestParser empty_Request)
        \<lparr>start_line_parsed := True,
         message := empty_Request\<lparr>msg_start_line := start_line r, req_method := req_method r, req_url := target_url r\<rparr>\<rparr>))
     \<lparr>header_ended := True\<rparr>"

lemma fold_header_effect_request:
  "step (fold (header_effect B n) hs p) = step p" "part (fold (header_effect B n) hs p) = part p"
  by (induction hs arbitrary: p) (auto simp: header_effect_def Let_def)

lemma fold_header_effect_message:
  "req_method (message (fold (header_effect B n) hs p)) = req_method (message p)"
  "req_url (message (fold (header_effect B n) hs p)) = req_url (message p)"
  "req_form_parts (message (fold (header_effect B n) hs p)) = req_form_parts (message p)"
  by (induction hs arbitrary: p) (auto simp: header_effect_def Let_def)

lemma fold_content_type:
  "headers_inv hs \<Longrightarrow>
     fold (\<lambda>h ct. if upper (fst h) \<noteq> upper kContentLength \<and> upper (fst h) = upper kContentType
                 then make_ContentType B (snd h) else ct) hs ct
     = (case headers_map hs (upper kContentType) of Some v \<Rightarrow> make_ContentType B v | None \<Rightarrow> ct)"
proof (induction hs arbitrary: ct)
  case (Cons h hs)
  have ne: "upper kContentType \<noteq> upper kContentLength" by (simp add: header_name_defs)
  obtain k v where h: "h = (k, v)" by force
  have inv: "headers_inv hs" "upper k \<notin> set (map (upper \<circ> fst) hs)"
    using Cons.prems h by (auto simp: headers_inv_def)
  then have "upper k = upper kContentType \<Longrightarrow> headers_map hs (upper kContentType) = None"
    by (auto simp: headers_map_def map_of_eq_None_iff image_iff)
  with Cons.IH [OF inv(1)] ne h show ?case by (auto simp: headers_map_def)
qed (simp add: headers_map_def)

lemma after_headers_simps:
  assumes "boost_string B" "headers_inv hs"
  shows "msg_headers (message (after_headers B r n hs)) = hs"
    "msg_content_type (message (after_headers B r n hs))
       = (case headers_map hs (upper kContentType) of Some v \<Rightarrow> make_ContentType B v | None \<Rightarrow> empty_ContentType)"
  using fold_Headers_Set [OF assms(1), of "[]" hs] fold_content_type [OF assms(2), of B empty_ContentType] assms(2)
  by (simp_all add: after_headers_def make_RequestParser_def empty_Request_def)

lemma after_headers_fields [simp]:
  "req_method (message (after_headers B r n hs)) = req_method r"
  "req_url (message (after_headers B r n hs)) = target_url r"
  "req_form_parts (message (after_headers B r n hs)) = []"
  "msg_content (message (after_headers B r n hs)) = []"
  "step (after_headers B r n hs) = kStart" "part (after_headers B r n hs) = None"
  "content (after_headers B r n hs) = []" "chunked (after_headers B r n hs) = False"
  "header_ended (after_headers B r n hs)" "finished (after_headers B r n hs) = False"
  "content_length_parsed (after_headers B r n hs) = has_length hs"
  "has_length hs \<Longrightarrow> content_length (after_headers B r n hs) = of_nat n"
  by (simp_all add: after_headers_def make_RequestParser_def empty_Request_def
    fold_header_effect_request fold_header_effect_message)

lemma request_header_lines:
  assumes B: "boost_string B" and r: "request_line_ok r" and g: "headers_good B n hs"
  shows "header_lines B (Request_ParseStartLine B) (start_line r @ kCRLF @ header_text hs @ kCRLF @ rest)
      (make_RequestParser empty_Request) = (True, rest, after_headers B r n hs)"
proof -
  have sl: "start_line r \<noteq> []" "CR \<notin> set (start_line r)"
    using r by (auto simp: start_line_def request_line_ok_def)
  show ?thesis
    unfolding after_headers_def
    using sl g request_line_parse [OF B r]
    by (intro boost_string.header_lines_message [OF B]) (auto simp: make_RequestParser_def headers_good_def start_line_def)
qed

lemma Parse_request_headers:
  assumes B: "boost_string B" and r: "request_line_ok r" and g: "headers_good B n hs"
  shows "RequestParser_Parse B (start_line r @ kCRLF @ header_text hs @ kCRLF @ rest) (make_RequestParser empty_Request)
    = Request_ParseContent B [] ((after_headers B r n hs)\<lparr>pending_data := rest\<rparr>)"
proof -
  note request_header_lines [OF B r g, of rest]
  moreover have "\<not> header_ended (make_RequestParser empty_Request)" "pending_data (make_RequestParser empty_Request) = []"
    by (simp_all add: make_RequestParser_def)
  ultimately show ?thesis
    by (simp add: RequestParser_Parse_def Parse_def ParseHeaders_header_lines header_lines_pending)
qed

section \<open>Plain requests\<close>

definition request_ok :: "platform \<Rightarrow> Request \<Rightarrow> bool" where
  "request_ok B r \<longleftrightarrow>
     request_line_ok r \<and> req_form_parts r = [] \<and> value_ok (host_value r)
     \<and> headers_good B (length (msg_content r)) (msg_headers r)
     \<and> (msg_content r \<noteq> [] \<longrightarrow> has_length (msg_headers r)) \<and> length (msg_content r) < 2 ^ 62
     \<and> (case headers_map (msg_headers r) (upper kContentType) of
          Some v \<Rightarrow> \<not> ct_multipart (make_ContentType B v) | None \<Rightarrow> True)"

lemma Host_plain: "key_ok kHost" "header_accept B n (kHost, v)" "upper kHost \<noteq> upper kContentType"
  by (auto simp: key_ok_def token_def isspace_def header_name_defs header_accept_def)

lemma Request_Prepare_plain:
  assumes "request_ok B r"
  shows "Request_Prepare B uuid r = Inr (Message_Prepare (SetHeader B kHost (host_value r) (r\<lparr>msg_start_line := start_line r\<rparr>)))"
  using assms CreateStartLine_target [of r]
  by (auto simp: Request_Prepare_def request_ok_def host_value_def start_line_def Let_def)

lemma request_text_parse:
  "boost_string B \<Longrightarrow> request_ok B r \<Longrightarrow>
     \<exists>r' q. Request_Prepare B uuid r = Inr r'
       \<and> RequestParser_Parse B (CopyPayload r') (make_RequestParser empty_Request) = Some (Inr (True, q))
       \<and> finished q \<and> req_method (message q) = req_method r
       \<and> url_path (req_url (message q)) = url_path (req_url r) \<and> url_query (req_url (message q)) = url_query (req_url r)
       \<and> msg_headers (message q) = msg_headers r' \<and> msg_content (message q) = msg_content r"
proof -
  assume B: "boost_string B" and r: "request_ok B r"
  let ?n = "length (msg_content r)" and ?hs = "Headers_Set B kHost (host_value r) (msg_headers r)"
  let ?r = "Message_Prepare (SetHeader B kHost (host_value r) (r\<lparr>msg_start_line := start_line r\<rparr>))"
  have g: "headers_good B ?n ?hs"
    using r Host_plain by (intro headers_good_Set [OF B]) (auto simp: request_ok_def header_ok_def)
  have hl: "msg_content r \<noteq> [] \<longrightarrow> has_length ?hs"
    using r by (auto simp: request_ok_def intro: has_length_Set)
  let ?p = "(after_headers B r ?n ?hs)\<lparr>pending_data := msg_content r\<rparr>"
  have "headers_map ?hs (upper kContentType) = headers_map (msg_headers r) (upper kContentType)"
    using Host_plain(3) by (simp add: boost_string.headers_map_Set [OF B])
  with r g after_headers_simps(2) [OF B, of ?hs r ?n]
  have ct: "\<not> ct_multipart (msg_content_type (message ?p))"
    by (auto simp: headers_good_def request_ok_def empty_ContentType_def split: option.splits)
  have "\<exists>q. ParseFixedContent B [] ?p = (True, q) \<and> finished q \<and> msg_content (message q) = msg_content r
      \<and> msg_headers (message q) = ?hs \<and> Message.more (message q) = Message.more (message ?p)"
    using ParseFixedContent_complete [of ?p ?n B] hl r g after_headers_simps(1) [OF B, of ?hs r ?n]
    by (auto simp: request_ok_def headers_good_def)
  then obtain q where q: "ParseFixedContent B [] ?p = (True, q)" "finished q" "msg_content (message q) = msg_content r"
      "msg_headers (message q) = ?hs" and mo: "Message.more (message q) = Message.more (message ?p)" by blast
  have mu: "req_method (message q) = req_method (message ?p)" "req_url (message q) = req_url (message ?p)"
    using mo by (cases "message q"; cases "message ?p"; simp)+
  have "RequestParser_Parse B (CopyPayload ?r) (make_RequestParser empty_Request) = Some (Inr (True, q))"
    using Parse_request_headers [OF B _ g, of r "msg_content r"] r ct q(1)
    by (simp add: CopyPayload_Message_Prepare request_ok_def Request_ParseContent_def)
  with q mu Request_Prepare_plain [OF r, of uuid] show ?thesis by (auto simp: target_url_def)
qed

text \<open>A request that is not there in full is not complete for the parser, which then asks for more.\<close>

lemma request_prefix_parse:
  assumes B: "boost_string B" and r: "request_ok B r" and prep: "Request_Prepare B uuid r = Inr r'"
    and ab: "CopyPayload r' = a @ b" "b \<noteq> []"
  shows "\<exists>q. RequestParser_Parse B a (make_RequestParser empty_Request) = Some (Inr (True, q))
    \<and> \<not> finished q \<and> (header_ended q \<longrightarrow> \<not> chunked q)"
proof -
  let ?n = "length (msg_content r)" and ?hs = "Headers_Set B kHost (host_value r) (msg_headers r)"
  let ?psl = "Request_ParseStartLine B" and ?p = "make_RequestParser empty_Request"
  let ?s = "after_headers B r ?n ?hs"
  have r': "CopyPayload r' = start_line r @ kCRLF @ header_text ?hs @ kCRLF @ msg_content r"
    using prep Request_Prepare_plain [OF r, of uuid] by (auto simp: CopyPayload_Message_Prepare)
  have g: "headers_good B ?n ?hs"
    using r Host_plain by (intro headers_good_Set [OF B]) (auto simp: request_ok_def header_ok_def)
  have line: "request_line_ok r" using r by (simp add: request_ok_def)
  have ct: "\<not> ct_multipart (msg_content_type (message ?s))"
    using r g after_headers_simps(2) [OF B, of ?hs r ?n] Host_plain(3)
    by (auto simp: headers_good_def request_ok_def empty_ContentType_def boost_string.headers_map_Set [OF B] split: option.splits)
  have new: "\<not> header_ended ?p" "\<not> finished ?p" "pending_data ?p = []" by (simp_all add: make_RequestParser_def)
  have whole: "header_lines B ?psl (a @ b) ?p = (True, msg_content r, ?s)"
    unfolding ab(1) [symmetric] r' by (rule request_header_lines [OF B line g])
  obtain ok t q where h: "header_lines B ?psl a ?p = (ok, t, q)" by (metis prod_cases3)
  have all: "ParseHeaders B ?psl (?p\<lparr>pending_data := a\<rparr>) = (ok, q\<lparr>pending_data := (if ok then t else a)\<rparr>)"
    by (simp add: ParseHeaders_header_lines header_lines_pending h)
  show ?thesis
  proof (cases "ok \<and> \<not> header_ended q")
    case True
    with all new header_lines_flags [OF h] show ?thesis by (simp add: RequestParser_Parse_def Parse_def)
  next
    case False
    with whole h header_lines_append [OF new(1), of B ?psl a b] have q: "ok" "msg_content r = t @ b" "q = ?s" by auto
    then have len: "has_length ?hs" "?n < 2 ^ 62" "length t < ?n"
      using r ab(2) by (auto simp: request_ok_def intro: has_length_Set)
    then have "ParseFixedContent B [] (?s\<lparr>pending_data := t\<rparr>) = (True, ?s\<lparr>pending_data := [], content := t\<rparr>)"
      using size_t_valid [OF len(2)] by (simp add: ParseFixedContent_append IsContentFull_def Let_def)
    with all new q ct show ?thesis by (simp add: RequestParser_Parse_def Parse_def Request_ParseContent_def)
  qed
qed

text \<open>So the pieces of a request are read one after the other, and only the last completes it.\<close>

lemma request_pieces_parse:
  assumes B: "boost_string B" and r: "request_ok B r" and prep: "Request_Prepare B uuid r = Inr r'"
    and ds: "concat ds @ d = CopyPayload r'" "d \<noteq> []"
  shows "\<exists>q. feed (RequestParser_Parse B) ds (make_RequestParser empty_Request) = Some (Inr (True, q)) \<and> \<not> finished q
    \<and> outcome (RequestParser_Parse B d q) = outcome (RequestParser_Parse B (CopyPayload r') (make_RequestParser empty_Request))"
proof -
  have last: "outcome (RequestParser_Parse B e q) = outcome (RequestParser_Parse B (concat es @ e) (make_RequestParser empty_Request))"
    if "feed (RequestParser_Parse B) es (make_RequestParser empty_Request) = Some (Inr (True, q))" "\<not> finished q"
      "header_ended q \<longrightarrow> \<not> chunked q" for es e q
    using that unfolding RequestParser_Parse_def by (intro rpc.feed_Parse) auto
  have "\<exists>q. feed (RequestParser_Parse B) ds (make_RequestParser empty_Request) = Some (Inr (True, q)) \<and> \<not> finished q
      \<and> (header_ended q \<longrightarrow> \<not> chunked q)"
    using ds
  proof (induction ds arbitrary: d rule: rev_induct)
    case Nil
    show ?case by (simp add: make_RequestParser_def)
  next
    case (snoc e es)
    then obtain q where q: "feed (RequestParser_Parse B) es (make_RequestParser empty_Request) = Some (Inr (True, q))"
        "\<not> finished q" "header_ended q \<longrightarrow> \<not> chunked q"
      using snoc.IH [of "e @ d"] by auto
    have "CopyPayload r' = (concat es @ e) @ d" using snoc.prems by simp
    from request_prefix_parse [OF B r prep this snoc.prems(2)] obtain p where
      p: "RequestParser_Parse B (concat es @ e) (make_RequestParser empty_Request) = Some (Inr (True, p))" "\<not> finished p"
        "header_ended p \<longrightarrow> \<not> chunked p" by blast
    with last [OF q, of e] have "RequestParser_Parse B e q = Some (Inr (True, p))" by (intro outcome_True) simp
    with p(2,3) feed_snoc [OF q(1), of e] show ?case by auto
  qed
  with last [of ds _ d] ds(1) show ?thesis by auto
qed

text \<open>
  C22. A request without form parts survives the wire: the server's parser, given the bytes of the
  prepared request, finishes with the same method, path, query, headers and content.
\<close>

theorem request_roundtrip:
  "boost_string B \<Longrightarrow> request_ok B r \<Longrightarrow>
     \<exists>r' q. Request_Prepare B uuid r = Inr r'
       \<and> RequestParser_Parse B (CopyPayload r') (make_RequestParser empty_Request) = Some (Inr (True, q))
       \<and> finished q \<and> req_method (message q) = req_method r
       \<and> url_path (req_url (message q)) = url_path (req_url r) \<and> url_query (req_url (message q)) = url_query (req_url r)
       \<and> msg_headers (message q) = msg_headers r' \<and> msg_content (message q) = msg_content r"
  by (rule request_text_parse)

text \<open>A plain request to the service: no content, default headers.\<close>

definition sample_request :: Request where
  "sample_request = empty_Request\<lparr>req_method := ''POST'',
     req_url := \<lparr>url_scheme = ''http'', url_host = ''h'', url_port = ''8080'', url_path = ''facedetection'', url_query = ''a=1''\<rparr>,
     msg_content := ''{}'', msg_headers := [(''Content-Length'', ''2''), (''Content-Type'', ''application/json'')]\<rparr>"

lemma sample_content_type:
  "make_ContentType reference_platform ''application/json'' = \<lparr>ct_media_type = ''application/json'', ct_additional = [], ct_multipart = False\<rparr>"
proof -
  have t: "trim_by isspace ''application/json'' = ''application/json''" by (rule trim_by_id) (simp add: isspace_def)
  show ?thesis
    by (simp add: make_ContentType_def ContentType_Init_def empty_ContentType_def ParseValue_def Split2_def
      ref.trim t trim_by_def isspace_def)
qed

theorem request_roundtrip_witness:
  "\<exists>r' q. Request_Prepare reference_platform [] sample_request = Inr r'
     \<and> RequestParser_Parse reference_platform (CopyPayload r') (make_RequestParser empty_Request) = Some (Inr (True, q))
     \<and> req_method (message q) = ''POST'' \<and> url_path (req_url (message q)) = ''facedetection''
     \<and> msg_content (message q) = ''{}''"
proof -
  have line: "request_line_ok sample_request"
    by (simp add: request_line_ok_def sample_request_def empty_Request_def target_def)
  have "reserve_ok reference_platform 2" by (simp add: reference_platform_def)
  then have good: "headers_good reference_platform 2 (msg_headers sample_request)"
    by (simp add: headers_good_def sample_request_def headers_inv_def header_ok_def key_ok_def value_ok_def
      token_def isspace_def header_accept_def header_name_defs to_string.simps digit_char_def char_of_def bit_0
      ContentType_Valid_def sample_content_type)
  have len: "has_length (msg_headers sample_request)"
    by (simp add: has_length_def sample_request_def header_name_defs)
  have ct: "headers_map (msg_headers sample_request) (upper kContentType) = Some ''application/json''"
    by (simp add: headers_map_def sample_request_def header_name_defs)
  have two: "length (msg_content sample_request) = 2" by (simp add: sample_request_def)
  have "request_ok reference_platform sample_request"
    unfolding request_ok_def two
    using line good len ct sample_content_type
    by (simp add: value_ok_def host_value_def isspace_def sample_request_def empty_Request_def)
  from request_roundtrip [OF ref.boost_string_axioms this, of "[]"] show ?thesis
    by (auto simp: sample_request_def)
qed

section \<open>Multipart requests\<close>

definition boundary_of :: "string \<Rightarrow> Request \<Rightarrow> string" where
  "boundary_of uuid r = (if req_boundary r = [] then uuid else req_boundary r)"

definition body_text :: "string \<Rightarrow> FormPart list \<Rightarrow> string" where
  "body_text bd prts = boundary_line bd False @ kCRLF @ parts_text bd prts"

definition plain_header :: "header \<Rightarrow> bool" where
  "plain_header h \<longleftrightarrow> upper (fst h) \<notin> upper ` {kContentLength, kContentType, kTransferEncoding}"

definition multipart_ok :: "platform \<Rightarrow> string \<Rightarrow> Request \<Rightarrow> bool" where
  "multipart_ok B uuid r \<longleftrightarrow>
     (let bd = boundary_of uuid r; n = length (body_text bd (req_form_parts r))
      in request_line_ok r \<and> value_ok (host_value r) \<and> msg_content r = [] \<and> req_form_parts r \<noteq> []
         \<and> list_all (part_ok bd) (req_form_parts r) \<and> token bd
         \<and> headers_inv (msg_headers r) \<and> list_all header_ok (msg_headers r) \<and> list_all plain_header (msg_headers r)
         \<and> n < 2 ^ 62 \<and> reserve_ok B (of_nat n))"

lemma parts_body:
  "prts \<noteq> [] \<Longrightarrow> concat (map (\<lambda>p. ''--'' @ bd @ kCRLF @ part_text p) prts) @ ''--'' @ bd @ ''--'' @ kCRLF = body_text bd prts"
proof (induction prts)
  case (Cons p ps)
  then show ?case by (cases "ps = []") (auto simp: body_text_def boundary_line_def)
qed simp

context boost_string begin

lemma Prepare_parts_text:
  "list_all (part_ok bd') prts \<Longrightarrow>
     concat (snd (Prepare_parts B bd prts pl)) = concat pl @ concat (map (\<lambda>p. ''--'' @ bd @ kCRLF @ part_text p) prts)"
proof (induction prts arbitrary: pl)
  case (Cons prt prts)
  then have "fp_headers (FormPart_SetHeaders B prt) = part_headers prt" "fp_headers prt = []" "fp_data prt \<noteq> []"
    using SetHeaders_fresh [of prt] by (auto simp: part_ok_def)
  moreover have "fp_data (FormPart_SetHeaders B prt) = fp_data prt"
    by (simp add: FormPart_SetHeaders_def Let_def)
  ultimately show ?case
    using Cons by (simp add: FormPart_Prepare_def part_text_def split_beta)
qed simp

end

lemma Request_Prepare_multipart:
  assumes B: "boost_string B" and r: "multipart_ok B uuid r"
  defines "bd \<equiv> boundary_of uuid r"
  defines "n \<equiv> length (body_text bd (req_form_parts r))"
  defines "hs \<equiv> Headers_Set B kContentLength (to_string n)
    (Headers_Set B kContentType (''multipart/form-data; boundary='' @ bd) (Headers_Set B kHost (host_value r) (msg_headers r)))"
  shows "\<exists>r'. Request_Prepare B uuid r = Inr r' \<and>
    CopyPayload r' = start_line r @ kCRLF @ header_text hs @ kCRLF @ body_text bd (req_form_parts r)"
proof -
  let ?r1 = "SetHeader B kHost (host_value r) (r\<lparr>msg_start_line := start_line r\<rparr>)"
  let ?r2 = "?r1\<lparr>req_boundary := bd\<rparr>"
  let ?ps = "req_form_parts r"
  obtain prts pl where pp: "Prepare_parts B bd ?ps [] = (prts, pl)" by force
  let ?body = "pl @ [''--'', bd, ''--'', kCRLF]"
  have parts: "?ps \<noteq> []" "list_all (part_ok bd) ?ps" "n < 2 ^ 62" "msg_content r = []" "request_line_ok r"
    using r by (simp_all add: multipart_ok_def Let_def bd_def n_def)
  have body: "concat ?body = body_text bd ?ps"
    using boost_string.Prepare_parts_text [OF B parts(2), of bd "[]"] pp parts_body [OF parts(1), of bd] by simp
  then have len: "foldl (\<lambda>n b. n + of_nat (length b)) 0 ?body = (of_nat n :: size_t)"
    unfolding foldl_sizes n_def by simp
  let ?r3 = "SetContentLength B (of_nat n) ((SetContentType B (''multipart/form-data; boundary='' @ bd) ?r2)\<lparr>req_form_parts := prts\<rparr>)"
  let ?r' = "(Message_Prepare ?r3)\<lparr>msg_payload := msg_payload (Message_Prepare ?r3) @ ?body\<rparr>"
  have c: "CreateStartLine r = Inr (r\<lparr>msg_start_line := start_line r\<rparr>)"
    using CreateStartLine_target [OF parts(5)] by (simp add: start_line_def)
  have bdr: "(if req_boundary ?r1 = [] then ?r1\<lparr>req_boundary := uuid\<rparr> else ?r1) = ?r2"
    by (cases r) (simp add: bd_def boundary_of_def SetHeader_def)
  have host: "(if url_port (req_url q) = [] then SetHeader B kHost (url_host (req_url q)) q
      else SetHeader B kHost (url_host (req_url q) @ '':'' @ url_port (req_url q)) q) = ?r1"
    if "q = r\<lparr>msg_start_line := start_line r\<rparr>" for q
    using that by (simp add: host_value_def)
  have f: "req_form_parts ?r1 = ?ps" "req_boundary ?r2 = bd" by (simp_all add: SetHeader_def)
  have "Request_Prepare B uuid r = Inr ?r'"
    unfolding Request_Prepare_def c sum.case Let_def host [OF refl] bdr
    using parts(1) pp len f by (simp add: SetContentType_def)
  moreover have "CopyPayload ?r' = CopyPayload (Message_Prepare ?r3) @ body_text bd ?ps"
    using body by (simp add: CopyPayload_def)
  moreover have "CopyPayload (Message_Prepare ?r3) = start_line r @ kCRLF @ header_text hs @ kCRLF"
    using parts size_t_valid [OF parts(3)]
    by (simp add: CopyPayload_Message_Prepare SetContentLength_def SetContentType_def hs_def SetHeader_def)
  ultimately show ?thesis by auto
qed

lemma multipart_headers:
  assumes B: "boost_string B" and r: "multipart_ok B uuid r"
  defines "bd \<equiv> boundary_of uuid r"
  defines "n \<equiv> length (body_text bd (req_form_parts r))"
  defines "hs \<equiv> Headers_Set B kContentLength (to_string n)
    (Headers_Set B kContentType (''multipart/form-data; boundary='' @ bd) (Headers_Set B kHost (host_value r) (msg_headers r)))"
  shows "headers_good B n hs" "has_length hs"
    "headers_map hs (upper kContentType) = Some (''multipart/form-data; boundary='' @ bd)"
    "make_ContentType B (''multipart/form-data; boundary='' @ bd)
      = \<lparr>ct_media_type = ''multipart/form-data'', ct_additional = bd, ct_multipart = True\<rparr>"
proof -
  have ok: "token bd" "n < 2 ^ 62" "reserve_ok B (of_nat n)" "value_ok (host_value r)"
    using r by (simp_all add: multipart_ok_def Let_def bd_def n_def)
  show ct: "make_ContentType B (''multipart/form-data; boundary='' @ bd)
      = \<lparr>ct_media_type = ''multipart/form-data'', ct_additional = bd, ct_multipart = True\<rparr>"
    using boost_string.ContentType_multipart [OF B, of "''boundary''" bd] ok(1)
    by (simp add: token_def isspace_def)
  have ne: "upper kContentLength \<noteq> upper kContentType" "upper kContentLength \<noteq> upper kTransferEncoding"
      "upper kContentType \<noteq> upper kTransferEncoding"
    by (simp_all add: header_name_defs)
  have g0: "headers_good B n (msg_headers r)"
    using r by (auto simp: multipart_ok_def Let_def headers_good_def list_all_iff plain_header_def header_accept_def)
  have cl: "header_ok (kContentLength, to_string n)" "header_accept B n (kContentLength, to_string n)"
    using ok ne to_string_digits [of CR n] to_string_hd [of n] to_string_digits [of "last (to_string n)" n]
    by (auto simp: header_ok_def key_ok_def value_ok_def header_accept_def token_def header_name_defs isspace_def isdigit_def)
  have tbd: "bd \<noteq> []" "\<not> isspace (last bd)" "CR \<notin> set bd"
    using ok(1) by (auto simp: token_def isspace_def)
  have ctp: "header_ok (kContentType, ''multipart/form-data; boundary='' @ bd)"
      "header_accept B n (kContentType, ''multipart/form-data; boundary='' @ bd)"
    using tbd ct ne
    by (auto simp: header_ok_def key_ok_def value_ok_def header_accept_def token_def ContentType_Valid_def)
       (auto simp: header_name_defs isspace_def)
  show "headers_good B n hs"
    unfolding hs_def using g0 cl ctp Host_plain ok(4)
    by (intro headers_good_Set [OF B]) (auto simp: header_ok_def)
  show "headers_map hs (upper kContentType) = Some (''multipart/form-data; boundary='' @ bd)"
    using ne(1) by (simp add: hs_def boost_string.headers_map_Set [OF B])
  have "headers_map hs (upper kContentLength) = Some (to_string n)"
    by (simp add: hs_def boost_string.headers_map_Set [OF B])
  then show "has_length hs"
    by (auto simp: headers_map_def has_length_def dest!: map_of_SomeD) (metis fst_conv)
qed

lemma Multipart_loop_body:
  assumes B: "boost_string B" and p: "step p = kStart" "part p = None" "pending_data p = body_text (boundary p) prts"
    and "prts \<noteq> []" "CR \<notin> set (boundary p)" "list_all (part_ok (boundary p)) prts"
  shows "Multipart_loop B p = Some (True, p\<lparr>step := kEnded, pending_data := [],
    message := (message p)\<lparr>req_form_parts := req_form_parts (message p) @ map received prts\<rparr>\<rparr>)"
proof -
  let ?bl = "boundary_line (boundary p) False"
  have l: "GetNextLine (pending_data p) 0 True = Some (?bl, parts_text (boundary p) prts)"
    using find_from_CRLF [OF boundary_line_CR [OF assms(6)], of "[]" False "parts_text (boundary p) prts"] p(3)
    by (auto simp: GetNextLine_def body_text_def boundary_line_def)
  let ?q = "p\<lparr>pending_data := parts_text (boundary p) prts, step := kBoundaryParsed\<rparr>"
  have bq: "boundary ?q = boundary p" by (simp add: boundary_def)
  have "StartPass p = Continue ?q"
    using IsBoundary_line [of "boundary p" False] by (simp add: StartPass_def l boundary_def)
  moreover have "pending_data p \<noteq> []" using p(3) by (simp add: body_text_def)
  ultimately have "Multipart_loop B p = Multipart_loop B ?q"
    using p(1) by (subst Multipart_loop.simps) (simp add: Multipart_pass_def)
  with Multipart_loop_parts [OF B, of ?q prts] assms bq show ?thesis by simp
qed

text \<open>
  C23. A multipart form survives the wire: the parts that a client adds to a request arrive at the
  server with their names, file names and data, in order, when no data is empty or holds a line
  that looks like a boundary.
\<close>

theorem multipart_roundtrip:
  "boost_string B \<Longrightarrow> multipart_ok B uuid r \<Longrightarrow>
     \<exists>r' q. Request_Prepare B uuid r = Inr r'
       \<and> RequestParser_Parse B (CopyPayload r') (make_RequestParser empty_Request) = Some (Inr (True, q))
       \<and> finished q \<and> req_method (message q) = req_method r
       \<and> url_path (req_url (message q)) = url_path (req_url r)
       \<and> map (\<lambda>p. (fp_name p, fp_file_name p, fp_data p)) (req_form_parts (message q))
         = map (\<lambda>p. (fp_name p, fp_file_name p, fp_data p)) (req_form_parts r)"
proof -
  assume B: "boost_string B" and r: "multipart_ok B uuid r"
  define bd where "bd = boundary_of uuid r"
  define n where "n = length (body_text bd (req_form_parts r))"
  define hs where "hs = Headers_Set B kContentLength (to_string n)
    (Headers_Set B kContentType (''multipart/form-data; boundary='' @ bd) (Headers_Set B kHost (host_value r) (msg_headers r)))"
  note h = multipart_headers [OF B r, folded bd_def, folded n_def, folded hs_def]
  obtain r' where r': "Request_Prepare B uuid r = Inr r'"
    and t: "CopyPayload r' = start_line r @ kCRLF @ header_text hs @ kCRLF @ body_text bd (req_form_parts r)"
    using Request_Prepare_multipart [OF B r, folded bd_def, folded n_def, folded hs_def] by blast
  have ok: "request_line_ok r" "req_form_parts r \<noteq> []" "list_all (part_ok bd) (req_form_parts r)" "n < 2 ^ 62" "CR \<notin> set bd"
    using r by (auto simp: multipart_ok_def Let_def bd_def n_def token_def isspace_def)
  let ?p = "(after_headers B r n hs)\<lparr>pending_data := body_text bd (req_form_parts r)\<rparr>"
  have ct: "msg_content_type (message ?p) = \<lparr>ct_media_type = ''multipart/form-data'', ct_additional = bd, ct_multipart = True\<rparr>"
    using after_headers_simps(2) [OF B, of hs r n] h by (simp add: headers_good_def)
  let ?q = "?p\<lparr>step := kEnded, pending_data := [],
    message := (message ?p)\<lparr>req_form_parts := map received (req_form_parts r)\<rparr>\<rparr>"
  have loop: "Multipart_loop B ?p = Some (True, ?q)"
    using Multipart_loop_body [OF B, of ?p "req_form_parts r"] ok ct by (simp add: boundary_def)
  have "ParseMultipartContent B [] ?p = Some (True, snd (Finish B ?q))"
    using loop h(2) size_t_valid [OF ok(4)] by (simp add: ParseMultipartContent_def)
  then have "RequestParser_Parse B (CopyPayload r') (make_RequestParser empty_Request) = Some (Inr (True, snd (Finish B ?q)))"
    unfolding t Parse_request_headers [OF B ok(1) h(1)] using ct by (simp add: Request_ParseContent_def)
  moreover have "message (snd (Finish B ?q)) = message ?q" by (simp add: Finish_def Let_def)
  ultimately show ?thesis
    using r' by (auto simp: received_def target_url_def)
qed

definition sample_form :: Request where
  "sample_form = empty_Request\<lparr>req_method := ''POST'', req_url := empty_Url\<lparr>url_host := ''h'', url_path := ''up''\<rparr>,
     req_form_parts := [make_FormPart ''a'' ''1'' [], make_FormPart ''b'' ''2'' ''text/plain'']\<rparr>"

theorem multipart_roundtrip_witness:
  "\<exists>r' q. Request_Prepare reference_platform ''XX'' sample_form = Inr r'
     \<and> RequestParser_Parse reference_platform (CopyPayload r') (make_RequestParser empty_Request) = Some (Inr (True, q))
     \<and> map fp_data (req_form_parts (message q)) = [''1'', ''2'']"
proof -
  have data: "data_ok ''XX'' ''1''" "data_ok ''XX'' ''2''"
    by (simp_all add: data_ok.simps plain_line_def IsBoundary_def)
  have bd: "boundary_of ''XX'' sample_form = ''XX''"
    by (simp add: boundary_of_def sample_form_def empty_Request_def)
  have parts: "list_all (part_ok ''XX'') (req_form_parts sample_form)"
    using data by (simp add: sample_form_def part_ok_def make_FormPart_def empty_FormPart_def quotable_def value_ok_def isspace_def)
  have line: "request_line_ok sample_form"
    by (simp add: request_line_ok_def sample_form_def empty_Request_def empty_Url_def target_def)
  have "length (body_text ''XX'' (req_form_parts sample_form)) < 1000"
    by (simp add: body_text_def sample_form_def part_text_def part_headers_def header_text_def boundary_line_def
      disposition_text_def disposition_params_def make_FormPart_def empty_FormPart_def header_name_defs)
  then have "multipart_ok reference_platform ''XX'' sample_form"
    using parts line
    by (simp add: multipart_ok_def bd Let_def reference_platform_def unat_of_nat)
       (simp add: sample_form_def empty_Request_def empty_Url_def value_ok_def host_value_def isspace_def token_def headers_inv_def)
  from multipart_roundtrip [OF ref.boost_string_axioms this] show ?thesis
    by (fastforce simp: sample_form_def make_FormPart_def empty_FormPart_def map_eq_Cons_conv)
qed

section \<open>Where requests do not survive\<close>

text \<open>
  A part without data is refused, although \<open>FormPart::Prepare\<close> writes such parts: when the boundary
  line follows the part headers and an empty line at once, \<open>Parse\<close> fails.
\<close>

lemma empty_part_refused:
  "step p = kHeadersParsed \<Longrightarrow> CR \<notin> set (boundary p) \<Longrightarrow>
     pending_data p = kCRLF @ boundary_line (boundary p) fin @ kCRLF @ rest \<Longrightarrow>
     Multipart_loop B p = Some (False, p)"
proof -
  assume p: "step p = kHeadersParsed" "pending_data p = kCRLF @ boundary_line (boundary p) fin @ kCRLF @ rest"
    and cr: "CR \<notin> set (boundary p)"
  have "data_ok (boundary p) []" by (subst data_ok.simps) (simp add: plain_line_def)
  from GetNextBoundaryLine_data [OF cr this, of "[]" fin rest] p
  have "GetNextBoundaryLine (boundary p) (pending_data p) 0 False = (Some (2, length (boundary_line (boundary p) fin)), fin)"
    by simp
  then have "DataPass p = ReturnFalse p" by (simp add: DataPass_def)
  with p show ?thesis by (subst Multipart_loop.simps) (simp add: Multipart_pass_def)
qed


text \<open>
  A line of the data that has the length and the dashes of a final boundary, with any other
  text between them, ends the whole body at the next boundary line: the parts behind it are lost.
\<close>

lemma dashed_line_ends_body:
  "step p = kHeadersParsed \<Longrightarrow> part p = Some prt \<Longrightarrow> CR \<notin> set (boundary p) \<Longrightarrow> CR \<notin> set x \<Longrightarrow>
     length x = length (boundary p) \<Longrightarrow> \<not> strncmp_eq (boundary p) (x @ ''--'') (length (boundary p)) \<Longrightarrow>
     pending_data p = (''--'' @ x @ ''--'') @ kCRLF @ boundary_line (boundary p) False @ kCRLF @ rest \<Longrightarrow>
     Multipart_loop B p = Some (True, p\<lparr>step := kEnded, pending_data := rest, part := None,
       message := AddFormPart (AppendData (''--'' @ x @ ''--'') prt) (message p)\<rparr>)"
proof -
  assume p: "step p = kHeadersParsed" "part p = Some prt"
    and cr: "CR \<notin> set (boundary p)" "CR \<notin> set x" and len: "length x = length (boundary p)"
    and ne: "\<not> strncmp_eq (boundary p) (x @ ''--'') (length (boundary p))"
    and pd: "pending_data p = (''--'' @ x @ ''--'') @ kCRLF @ boundary_line (boundary p) False @ kCRLF @ rest"
  define l where "l = ''--'' @ x @ ''--''"
  let ?bl = "boundary_line (boundary p) False"
  have "CR \<notin> set l" using cr(2) by (simp add: l_def)
  from find_from_CRLF [OF this, of "[]" "?bl @ kCRLF @ rest"] pd
  have f: "find_from kCRLF (pending_data p) 0 = Some (length l)" by (simp add: l_def)
  have "IsBoundary (boundary p) l 0 (length l) = (False, True)"
    using ne len by (simp add: IsBoundary_def l_def nth_append)
  then have b: "IsBoundary (boundary p) (pending_data p) 0 (length l) = (False, True)"
    using IsBoundary_append [of 0 "length l" l "boundary p" "kCRLF @ ?bl @ kCRLF @ rest"] pd by (simp add: l_def)
  have "GetNextBoundaryLine (boundary p) (pending_data p) 0 False
      = GetNextBoundaryLine (boundary p) (pending_data p) (length l + 2) True"
    unfolding GetNextBoundaryLine_line [OF f] using b by (simp add: l_def)
  also have "\<dots> = (Some (length l + 2, length ?bl), True)"
    using GetNextBoundaryLine_found [OF cr(1), of "l @ kCRLF" False rest True] pd by (simp add: l_def)
  finally have g: "GetNextBoundaryLine (boundary p) (pending_data p) 0 False = (Some (length l + 2, length ?bl), True)" .
  have "pending_data p = (l @ kCRLF @ ?bl @ kCRLF) @ rest" using pd by (simp add: l_def)
  then have "rest = drop (length (l @ kCRLF @ ?bl @ kCRLF)) (pending_data p)" by (metis append_eq_conv_conj)
  then have dr: "drop (length l + 2 + length ?bl + 2) (pending_data p) = rest" by (simp add: add.commute)
  have "take (length l) (pending_data p) = l" using pd by (simp add: l_def)
  moreover have "length l > 0" by (simp add: l_def)
  ultimately have "DataPass p = Break (p\<lparr>pending_data := rest, message := AddFormPart (AppendData l prt) (message p),
      part := None, step := kEnded\<rparr>)"
    unfolding DataPass_def g prod.case option.case dr using p(2) by (simp add: Let_def)
  moreover have "pending_data p \<noteq> []" using pd by simp
  ultimately show ?thesis
    using p(1) by (subst Multipart_loop.simps) (simp add: Multipart_pass_def l_def)
qed


text \<open>
  A request target is parsed like a full URL: when its query holds \<open>://\<close>, everything before it
  is taken for the scheme, and the path that selects the service is what follows the next slash.
\<close>

lemma target_taken_for_url:
  "boost_string B \<Longrightarrow> CHR '':'' \<notin> set a \<Longrightarrow> h \<noteq> [] \<Longrightarrow> CHR '':'' \<notin> set h \<Longrightarrow> CHR ''/'' \<notin> set h \<Longrightarrow>
     CHR ''?'' \<notin> set x \<Longrightarrow> CHR ''%'' \<notin> set (a @ h @ x) \<Longrightarrow>
     Url_Init B (''/'' @ a @ ''://'' @ h @ ''/'' @ x) True True u
       = \<lparr>url_scheme = ''/'' @ a, url_host = h, url_port = [], url_path = x, url_query = []\<rparr>"
proof -
  assume B: "boost_string B" and s: "CHR '':'' \<notin> set a" "h \<noteq> []" "CHR '':'' \<notin> set h" "CHR ''/'' \<notin> set h"
      "CHR ''?'' \<notin> set x" and pc: "CHR ''%'' \<notin> set (a @ h @ x)"
  have "find_char (CHR ''%'') (''/'' @ a @ ''://'' @ h @ ''/'' @ x) = None"
    using pc by (simp add: find_char_None_iff)
  moreover have "boost_trim_left B (''/'' @ a @ ''://'' @ h @ ''/'' @ x) = ''/'' @ a @ ''://'' @ h @ ''/'' @ x"
    by (simp add: boost_string.trim_left [OF B] trim_left_by_def isspace_def)
  moreover have "Url_parse_scheme (''/'' @ a @ ''://'' @ h @ ''/'' @ x) v = (h @ ''/'' @ x, v\<lparr>url_scheme := ''/'' @ a\<rparr>)" for v
    using Url_parse_scheme_text [of "''/'' @ a" "h @ ''/'' @ x" v] s(1) by simp
  moreover have "Url_parse_path (h @ ''/'' @ x) v = v\<lparr>url_host := h, url_path := x\<rparr>" for v
    using Url_parse_path_text [OF s(4,5), of "[]" v] by simp
  moreover have "find_char (CHR '':'') h = None" using s(3) by (simp add: find_char_None_iff)
  ultimately show ?thesis
    unfolding Url_Init_def Url_Parse_def Let_def Url_parse_port_def using s(2) by (simp add: Url_Clear_def)
qed


end
