(* ===== verification/Webcc_Gzip.thy ===== *)
theory Webcc_Gzip
  imports Prelude
begin

text \<open>
  \<open>webcc/gzip.cc\<close>: the two loops around zlib. The library is an argument: a record of the functions that the loops call,
  each from a stream and the room in the output to a status, the bytes written and the new stream. What the manual
  of zlib promises of them is the contract \<open>zlib_contract\<close>. Sizes that are cast to \<open>uInt\<close> are taken modulo
  \<open>2 ^ 32\<close>; the buffers are smaller than that. The build of the service leaves this part out.
\<close>

section \<open>Compress and Decompress\<close>

datatype zstatus = Z_OK | Z_STREAM_END | Z_BUF_ERROR | Z_OTHER_ERROR

record 'z zlib =
  deflateInit2 :: "string \<Rightarrow> zstatus \<times> 'z"
  deflate :: "'z \<Rightarrow> nat \<Rightarrow> zstatus \<times> string \<times> 'z"
  deflateEnd :: "'z \<Rightarrow> zstatus"
  inflateInit2 :: "string \<Rightarrow> zstatus \<times> 'z"
  inflate :: "'z \<Rightarrow> nat \<Rightarrow> zstatus \<times> string \<times> 'z"
  inflateEnd :: "'z \<Rightarrow> zstatus"

definition uInt :: "nat \<Rightarrow> nat" where
  "uInt n = n mod 2 ^ 32"

text \<open>The loops return whether they succeeded and the output.\<close>

partial_function (option) Compress_loop :: "'z zlib \<Rightarrow> nat \<Rightarrow> 'z \<Rightarrow> string \<Rightarrow> (bool \<times> string) option" where
  "Compress_loop Z buf_size stream sofar =
     (let (err, written, stream) = deflate Z stream (uInt buf_size)
      in if err \<noteq> Z_OK \<and> err \<noteq> Z_STREAM_END then Some (False, sofar)
         else
           let sofar = sofar @ written
           in if uInt buf_size - length written = 0 then Compress_loop Z buf_size stream sofar
              else Some (deflateEnd Z stream = Z_OK, sofar))"

definition Compress :: "'z zlib \<Rightarrow> string \<Rightarrow> (bool \<times> string) option" where
  "Compress Z input =
     (if input = [] then Some (True, [])
      else
        let (ret, stream) = deflateInit2 Z (take (uInt (length input)) input)
        in if ret \<noteq> Z_OK then Some (False, []) else Compress_loop Z (length input div 2) stream [])"

text \<open>\<open>buf\<close> is what has been written to the buffer, whose size is \<open>buf_size\<close>.\<close>

partial_function (option) Decompress_loop :: "'z zlib \<Rightarrow> nat \<Rightarrow> nat \<Rightarrow> 'z \<Rightarrow> string \<Rightarrow> (bool \<times> string) option" where
  "Decompress_loop Z input_size buf_size stream buf =
     (let buf_size = (if length buf \<ge> buf_size then buf_size + input_size div 2 else buf_size);
          (err, written, stream) = inflate Z stream (uInt (buf_size - length buf));
          buf = buf @ written
      in if err = Z_STREAM_END then Some (inflateEnd Z stream = Z_OK, if inflateEnd Z stream = Z_OK then buf else [])
         else if err \<noteq> Z_OK then Some (False, [])
         else Decompress_loop Z input_size buf_size stream buf)"

definition Decompress :: "'z zlib \<Rightarrow> string \<Rightarrow> (bool \<times> string) option" where
  "Decompress Z input =
     (if input = [] then Some (True, [])
      else
        let (ret, stream) = inflateInit2 Z (take (uInt (length input)) input)
        in if ret \<noteq> Z_OK then Some (False, []) else Decompress_loop Z (length input) (length input) stream [])"

section \<open>The contract of zlib\<close>

text \<open>
  \<open>packed\<close> is the compressed form of a text; \<open>to_write\<close> and \<open>to_read\<close> are what a stream that compresses or
  decompresses has still to give. A call fills the room it gets or gives all that is left; without room it fails.
\<close>

locale zlib_contract =
  fixes Z :: "'z zlib" and packed :: "string \<Rightarrow> string" and to_write to_read :: "'z \<Rightarrow> string"
    and deflating inflating :: "'z \<Rightarrow> bool"
  assumes deflateInit2: "deflateInit2 Z s = (ret, z) \<Longrightarrow> ret = Z_OK \<and> deflating z \<and> to_write z = packed s"
    and deflate: "deflating z \<Longrightarrow> 0 < n \<Longrightarrow> deflate Z z n = (err, out, z') \<Longrightarrow>
      err \<in> {Z_OK, Z_STREAM_END} \<and> deflating z' \<and> to_write z = out @ to_write z' \<and> length out \<le> n \<and> (length out < n \<longrightarrow> to_write z' = [])"
    and deflate_no_room: "deflating z \<Longrightarrow> fst (deflate Z z 0) = Z_BUF_ERROR"
    and deflateEnd: "deflating z \<Longrightarrow> to_write z = [] \<Longrightarrow> deflateEnd Z z = Z_OK"
    and inflateInit2: "inflateInit2 Z (packed s) = (ret, z) \<Longrightarrow> ret = Z_OK \<and> inflating z \<and> to_read z = s"
    and inflate: "inflating z \<Longrightarrow> 0 < n \<Longrightarrow> inflate Z z n = (err, out, z') \<Longrightarrow>
      err \<in> {Z_OK, Z_STREAM_END} \<and> inflating z' \<and> to_read z = out @ to_read z' \<and> length out \<le> n
      \<and> (length out < n \<longrightarrow> err = Z_STREAM_END) \<and> (err = Z_STREAM_END \<longrightarrow> to_read z' = [])"
    and inflateEnd: "inflating z \<Longrightarrow> inflateEnd Z z = Z_OK"
begin

lemma Compress_loop_writes:
  assumes "0 < buf_size" "buf_size < 2 ^ 32" "deflating z"
  shows "Compress_loop Z buf_size z sofar = Some (True, sofar @ to_write z)"
  using assms(3)
proof (induction "length (to_write z)" arbitrary: z sofar rule: less_induct)
  case less
  obtain err out z' where d: "deflate Z z buf_size = (err, out, z')" by (metis prod_cases3)
  note r = deflate [OF less.prems assms(1) d]
  have u: "uInt buf_size = buf_size" using assms(2) by (simp add: uInt_def)
  show ?case
  proof (cases "length out = buf_size")
    case True
    with r assms(1) have "length (to_write z') < length (to_write z)" by auto
    with less.hyps [of z'] r d u True show ?thesis by (auto simp: Compress_loop.simps [of _ _ z])
  next
    case False
    with r d u deflateEnd [of z'] show ?thesis by (auto simp: Compress_loop.simps [of _ _ z])
  qed
qed

lemma compress_packs: "2 \<le> length s \<Longrightarrow> length s < 2 ^ 32 \<Longrightarrow> Compress Z s = Some (True, packed s)"
  using deflateInit2 [of s "fst (deflateInit2 Z s)" "snd (deflateInit2 Z s)"] Compress_loop_writes [of "length s div 2" "snd (deflateInit2 Z s)" "[]"]
  by (auto simp: Compress_def uInt_def split: prod.splits)

text \<open>The buffer of a text of one character has no room.\<close>

lemma compress_single: "Compress Z [c] = Some (False, [])"
proof -
  obtain ret z where z: "deflateInit2 Z [c] = (ret, z)" by force
  obtain err out z' where d: "deflate Z z 0 = (err, out, z')" by (metis prod_cases3)
  from deflateInit2 [OF z] deflate_no_room [of z] z d show ?thesis
    by (simp add: Compress_def uInt_def Compress_loop.simps [of _ _ z])
qed

lemma Decompress_loop_reads:
  assumes "2 \<le> input_size" "input_size < 2 ^ 32" "inflating z" "length buf \<le> buf_size" "buf_size \<le> length buf + input_size"
  shows "Decompress_loop Z input_size buf_size z buf = Some (True, buf @ to_read z)"
  using assms(3-5)
proof (induction "length (to_read z)" arbitrary: z buf buf_size rule: less_induct)
  case less
  define size where "size = (if length buf \<ge> buf_size then buf_size + input_size div 2 else buf_size)"
  define n where "n = size - length buf"
  have n: "0 < n" "n \<le> input_size" "size = length buf + n" "uInt n = n"
    using less.prems assms(1,2) by (auto simp: n_def size_def uInt_def)
  obtain err out z' where i: "inflate Z z n = (err, out, z')" by (metis prod_cases3)
  note r = inflate [OF less.prems(1) n(1) i]
  have unfold: "Decompress_loop Z input_size buf_size z buf =
      (if err = Z_STREAM_END then Some (inflateEnd Z z' = Z_OK, if inflateEnd Z z' = Z_OK then buf @ out else [])
       else if err \<noteq> Z_OK then Some (False, []) else Decompress_loop Z input_size size z' (buf @ out))"
    using i n(4) by (simp add: Decompress_loop.simps [of _ _ _ z] size_def n_def Let_def)
  show ?case
  proof (cases "err = Z_STREAM_END")
    case True
    with r inflateEnd [of z'] show ?thesis by (simp add: unfold)
  next
    case False
    with r n(1) have l: "length out = n" "err = Z_OK" "length (to_read z') < length (to_read z)" by auto
    with less.hyps [of z' "buf @ out" size] r n show ?thesis by (auto simp: unfold)
  qed
qed

lemma decompress_unpacks:
  "2 \<le> length (packed s) \<Longrightarrow> length (packed s) < 2 ^ 32 \<Longrightarrow> Decompress Z (packed s) = Some (True, s)"
  using inflateInit2 [of s "fst (inflateInit2 Z (packed s))" "snd (inflateInit2 Z (packed s))"]
    Decompress_loop_reads [of "length (packed s)" "snd (inflateInit2 Z (packed s))" "[]" "length (packed s)"]
  by (auto simp: Decompress_def uInt_def split: prod.splits)

end

section \<open>A library that fulfils the contract\<close>

text \<open>Texts are stored as they are, behind a mark of two characters.\<close>

definition store_step :: "string \<Rightarrow> nat \<Rightarrow> zstatus \<times> string \<times> string" where
  "store_step s n = (if n = 0 then Z_BUF_ERROR else if length s < n then Z_STREAM_END else Z_OK, take n s, drop n s)"

definition stored_zlib :: "string zlib" where
  "stored_zlib = \<lparr>deflateInit2 = (\<lambda>s. (Z_OK, ''gz'' @ s)), deflate = store_step, deflateEnd = (\<lambda>_. Z_OK),
     inflateInit2 = (\<lambda>s. (Z_OK, drop 2 s)), inflate = store_step, inflateEnd = (\<lambda>_. Z_OK)\<rparr>"

interpretation stored: zlib_contract stored_zlib "\<lambda>s. ''gz'' @ s" "\<lambda>z. z" "\<lambda>z. z" "\<lambda>_. True" "\<lambda>_. True"
  by unfold_locales (auto simp: stored_zlib_def store_step_def split: if_splits)

lemma gzip_roundtrip:
  assumes "zlib_contract Z packed to_write to_read deflating inflating" "2 \<le> length s" "length s < 2 ^ 32"
    "2 \<le> length (packed s)" "length (packed s) < 2 ^ 32"
  shows "Compress Z s = Some (True, packed s) \<and> Decompress Z (packed s) = Some (True, s)"
  using zlib_contract.compress_packs [OF assms(1-3)] zlib_contract.decompress_unpacks [OF assms(1,4,5)] by simp

text \<open>A text of one character is not compressed, since half its size is no room for the output.\<close>

lemma gzip_single_fails:
  "zlib_contract Z packed to_write to_read deflating inflating \<Longrightarrow> Compress Z [c] = Some (False, [])"
  by (rule zlib_contract.compress_single)

lemma stored_example: "Decompress stored_zlib ''gzab'' = Some (True, ''ab'')"
  using stored.decompress_unpacks [of "''ab''"] by simp

end
