(* ===== verification/Webcc_Rest.thy ===== *)
theory Webcc_Rest
  imports Webcc_Message
begin

text \<open>
  \<open>webcc/rest_service\<close>, \<open>rest_service_manager\<close> and \<open>rest_request_handler\<close>: services, their table, and how a
  request becomes a response. A compiled \<open>std::regex\<close> is the function that \<open>std::regex_match\<close> computes
  with it (the sub-matches, or no match), and compiling is an argument that may fail. The status of a
  \<open>RestResponse\<close> is not initialised by the code: the value that happens to be in memory is an argument.
\<close>

section \<open>Services\<close>

type_synonym UrlMatches = "string list"

record RestRequest =
  http :: Request
  url_matches :: UrlMatches

record RestResponse =
  rr_status :: int
  rr_content :: string
  rr_media_type :: string
  rr_charset :: string

definition uninitialized_RestResponse :: "int \<Rightarrow> RestResponse" where
  "uninitialized_RestResponse memory = \<lparr>rr_status = memory, rr_content = [], rr_media_type = [], rr_charset = []\<rparr>"

text \<open>\<open>Handle\<close> of a service, a virtual function: it fills in the response or throws.\<close>

type_synonym RestService = "RestRequest \<Rightarrow> RestResponse \<Rightarrow> RestResponse result"

definition RestListService_Handle ::
  "(UrlQuery \<Rightarrow> RestResponse \<Rightarrow> RestResponse result) \<Rightarrow> (string \<Rightarrow> RestResponse \<Rightarrow> RestResponse result) \<Rightarrow> RestService" where
  "RestListService_Handle Get Post request response =
     (let method = req_method (http request)
      in if method = kGet then Get (make_UrlQuery (url_query (req_url (http request)))) response
         else if method = kPost then Post (msg_content (http request)) response
         else Inr response)"

definition RestDetailService_Handle ::
  "(UrlMatches \<Rightarrow> UrlQuery \<Rightarrow> RestResponse \<Rightarrow> RestResponse result)
    \<Rightarrow> (UrlMatches \<Rightarrow> string \<Rightarrow> RestResponse \<Rightarrow> RestResponse result)
    \<Rightarrow> (UrlMatches \<Rightarrow> string \<Rightarrow> RestResponse \<Rightarrow> RestResponse result)
    \<Rightarrow> (UrlMatches \<Rightarrow> RestResponse \<Rightarrow> RestResponse result) \<Rightarrow> RestService" where
  "RestDetailService_Handle Get Put Patch Delete request response =
     (let method = req_method (http request); ms = url_matches request
      in if method = kGet then Get ms (make_UrlQuery (url_query (req_url (http request)))) response
         else if method = kPut then Put ms (msg_content (http request)) response
         else if method = kPatch then Patch ms (msg_content (http request)) response
         else if method = kDelete then Delete ms response
         else Inr response)"

section \<open>The service table\<close>

type_synonym regex = "string \<Rightarrow> UrlMatches option"

record ServiceItem =
  si_service :: RestService
  si_url :: string
  si_is_regex :: bool
  si_url_regex :: regex

definition AddService ::
  "(string \<Rightarrow> regex option) \<Rightarrow> RestService \<Rightarrow> string \<Rightarrow> bool \<Rightarrow> ServiceItem list \<Rightarrow> bool \<times> ServiceItem list" where
  "AddService compile service url is_regex items =
     (let item = \<lparr>si_service = service, si_url = url, si_is_regex = is_regex, si_url_regex = (\<lambda>_. None)\<rparr>
      in if \<not> is_regex then (True, items @ [item])
         else (case compile url of
                 Some re \<Rightarrow> (True, items @ [item\<lparr>si_url_regex := re\<rparr>])
               | None \<Rightarrow> (False, items)))"

fun GetService :: "string \<Rightarrow> ServiceItem list \<Rightarrow> UrlMatches \<Rightarrow> RestService option \<times> UrlMatches" where
  "GetService url [] ms = (None, ms)"
| "GetService url (item # items) ms =
     (if si_is_regex item then
        (case si_url_regex item url of
           Some sub \<Rightarrow> (Some (si_service item), ms @ sub)
         | None \<Rightarrow> GetService url items ms)
      else if si_url item = url then (Some (si_service item), ms)
      else GetService url items ms)"

section \<open>From a request to a response\<close>

definition RestRequestHandler_SetContent :: "platform \<Rightarrow> string \<Rightarrow> Response \<Rightarrow> Response" where
  "RestRequestHandler_SetContent B content response = SetContent B content True response"

text \<open>\<open>HandleConnection\<close>, up to the call of \<open>SendResponse\<close>: the response that is sent.\<close>

definition HandleConnection :: "platform \<Rightarrow> int \<Rightarrow> ServiceItem list \<Rightarrow> Request \<Rightarrow> Response result" where
  "HandleConnection B memory items request =
     (let path = ''/'' @ url_path (req_url request);
          (service, ms) = GetService path items []
      in case service of
           None \<Rightarrow> Inr (empty_Response (status_code kNotFound))
         | Some handle \<Rightarrow>
             (case handle \<lparr>http = request, url_matches = ms\<rparr> (uninitialized_RestResponse memory) of
                Inl e \<Rightarrow> Inl e
              | Inr rest_response \<Rightarrow>
                  let response = empty_Response (rr_status rest_response)
                  in Inr (if rr_content rest_response \<noteq> [] then
                       let response = (if rr_media_type rest_response \<noteq> []
                             then SetContentType_charset B (rr_media_type rest_response) (rr_charset rest_response) response
                             else response)
                       in RestRequestHandler_SetContent B (rr_content rest_response) response
                     else response)))"

section \<open>The first match wins\<close>

text \<open>Whether an item answers a URL, the same for both kinds of items.\<close>

definition answers :: "string \<Rightarrow> ServiceItem \<Rightarrow> bool" where
  "answers url item \<longleftrightarrow> (if si_is_regex item then si_url_regex item url \<noteq> None else si_url item = url)"

lemma GetService_spec:
  "GetService url items ms =
     (case dropWhile (\<lambda>i. \<not> answers url i) items of
        [] \<Rightarrow> (None, ms)
      | i # _ \<Rightarrow> (Some (si_service i), if si_is_regex i then ms @ the (si_url_regex i url) else ms))"
  by (induction items) (auto simp: answers_def split: option.splits)

lemma GetService_append:
  "list_ex (answers url) items \<Longrightarrow> GetService url (items @ more_items) ms = GetService url items ms"
  by (induction items) (auto simp: answers_def split: option.splits if_splits)

text \<open>
  A URL that already has a service keeps it: binding a service to the same URL again succeeds but
  has no effect, and the first service that answers a URL handles it.
\<close>

lemma bind_first_wins:
  "list_ex (answers url) items \<Longrightarrow>
     GetService url (snd (AddService compile service url False items)) ms = GetService url items ms
     \<and> fst (AddService compile service url False items)
     \<and> (\<exists>item \<in> set items. answers url item \<and> fst (GetService url items ms) = Some (si_service item))"
proof -
  assume a: "list_ex (answers url) items"
  then obtain i rest where d: "dropWhile (\<lambda>i. \<not> answers url i) items = i # rest"
    by (metis dropWhile_eq_Nil_conv list_ex_iff neq_Nil_conv)
  then have "answers url i" "i \<in> set items"
    by (metis hd_dropWhile list.distinct(1) list.sel(1), metis set_dropWhileD list.set_intros(1))
  with a d show ?thesis
    by (auto simp: AddService_def GetService_append GetService_spec [of url items])
qed


section \<open>What a handler answers\<close>

text \<open>The response that carries what a service has filled in.\<close>

definition rest_reply :: "RestResponse \<Rightarrow> Response" where
  "rest_reply rr = (empty_Response (rr_status rr))
     \<lparr>msg_content := rr_content rr,
      msg_content_length := (if rr_content rr \<noteq> [] then of_nat (length (rr_content rr)) else kInvalidLength),
      msg_headers :=
        (if rr_content rr \<noteq> [] then
           (if rr_media_type rr \<noteq> []
            then [(kContentType, rr_media_type rr @ (if rr_charset rr = [] then [] else '';charset='' @ rr_charset rr))]
            else [])
           @ [(kContentLength, to_string (unat (of_nat (length (rr_content rr)) :: size_t)))]
         else [])\<rparr>"

lemma build_reply:
  assumes B: "boost_string B"
  shows "(if rr_content rr \<noteq> [] then
       let response = (if rr_media_type rr \<noteq> []
             then SetContentType_charset B (rr_media_type rr) (rr_charset rr) (empty_Response (rr_status rr))
             else empty_Response (rr_status rr))
       in RestRequestHandler_SetContent B (rr_content rr) response
     else empty_Response (rr_status rr)) = rest_reply rr"
proof -
  have ne: "upper kContentType \<noteq> upper kContentLength" by (simp add: header_name_defs)
  have one: "Headers_Set B k v [] = [(k, v)]" for k v by (simp add: Headers_Set_def)
  have two: "Headers_Set B kContentLength v [(kContentType, w)] = [(kContentType, w), (kContentLength, v)]" for v w
    using ne by (simp add: Headers_Set_def boost_string.iequals [OF B])
  show ?thesis
    by (simp add: rest_reply_def Let_def empty_Response_def SetContentType_charset_def
      RestRequestHandler_SetContent_def SetContent_def SetContentLength_def SetHeader_def one two)
qed

lemma HandleConnection_reply:
  "boost_string B \<Longrightarrow> path = ''/'' @ url_path (req_url request) \<Longrightarrow>
     HandleConnection B memory items request =
       (case dropWhile (\<lambda>i. \<not> answers path i) items of
          [] \<Rightarrow> Inr (empty_Response 404)
        | i # _ \<Rightarrow>
            map_sum id rest_reply
              (si_service i \<lparr>http = request, url_matches = (if si_is_regex i then the (si_url_regex i path) else [])\<rparr>
                 (uninitialized_RestResponse memory)))"
proof -
  assume B: "boost_string B" and p: "path = ''/'' @ url_path (req_url request)"
  show ?thesis
  proof (cases "dropWhile (\<lambda>i. \<not> answers path i) items")
    case Nil
    then have "GetService path items [] = (None, [])" by (simp add: GetService_spec del: dropWhile_eq_Nil_conv)
    with Nil show ?thesis
      unfolding HandleConnection_def p [symmetric] Let_def by (simp del: dropWhile_eq_Nil_conv)
  next
    case (Cons i rest)
    let ?ms = "if si_is_regex i then the (si_url_regex i path) else []"
    have g: "GetService path items [] = (Some (si_service i), ?ms)"
      using Cons by (simp add: GetService_spec)
    show ?thesis
      unfolding HandleConnection_def p [symmetric] Let_def g prod.case option.case Cons list.case
        build_reply [OF B, unfolded Let_def]
      by (simp add: map_sum_def split: sum.splits)
  qed
qed

text \<open>
  C30. The handler answers 404 for paths without a service. Otherwise the first service that answers
  the path decides, also where a URL was bound more than once, although the comment on
  \<open>RestServer::Bind\<close> says that the last binding takes effect (see \<open>bind_first_wins\<close>): the response carries
  the status, content and content type it has set, with the length of the content in its header; an
  exception of the service leaves the handler.
\<close>

theorem handle_connection_response:
  "boost_string B \<Longrightarrow> path = ''/'' @ url_path (req_url request) \<Longrightarrow>
     HandleConnection B memory items request =
       (case dropWhile (\<lambda>i. \<not> answers path i) items of
          [] \<Rightarrow> Inr (empty_Response 404)
        | i # _ \<Rightarrow>
            map_sum id rest_reply
              (si_service i \<lparr>http = request, url_matches = (if si_is_regex i then the (si_url_regex i path) else [])\<rparr>
                 (uninitialized_RestResponse memory)))"
  by (rule HandleConnection_reply)

definition sample_service :: "int \<Rightarrow> RestService" where
  "sample_service n = (\<lambda>request rr. Inr (rr\<lparr>rr_status := n, rr_content := ''hi''\<rparr>))"

text \<open>The second binding of a URL, after one for another path: the first binding of the two answers.\<close>

definition sample_items :: "ServiceItem list" where
  "sample_items =
     snd (AddService (\<lambda>_. None) (sample_service 204) ''/x'' False
       (snd (AddService (\<lambda>_. None) (sample_service 201) ''/x'' False
         (snd (AddService (\<lambda>_. None) (sample_service 200) ''/y'' False [])))))"

theorem handle_connection_response_witness:
  "\<exists>response. HandleConnection reference_platform 77 sample_items (empty_Request\<lparr>req_url := empty_Url\<lparr>url_path := ''x''\<rparr>\<rparr>) = Inr response
     \<and> res_status response = 201 \<and> msg_content response = ''hi''"
proof -
  have i: "dropWhile (\<lambda>i. \<not> answers ''/x'' i) sample_items
      = [\<lparr>si_service = sample_service 201, si_url = ''/x'', si_is_regex = False, si_url_regex = (\<lambda>_. None)\<rparr>,
         \<lparr>si_service = sample_service 204, si_url = ''/x'', si_is_regex = False, si_url_regex = (\<lambda>_. None)\<rparr>]"
    by (simp add: sample_items_def AddService_def answers_def Let_def)
  show ?thesis
    using handle_connection_response [OF ref.boost_string_axioms,
        of "''/x''" "empty_Request\<lparr>req_url := empty_Url\<lparr>url_path := ''x''\<rparr>\<rparr>" 77 sample_items]
    by (simp add: i sample_service_def rest_reply_def empty_Response_def)
qed

end
