(* ===== verification/Webcc_Server.thy ===== *)
theory Webcc_Server
  imports Webcc_Rest Webcc_Request_Parser
begin

text \<open>
  \<open>webcc/connection\<close>, \<open>connection_pool\<close>, \<open>queue\<close>, \<open>request_handler\<close> and \<open>server\<close>: the running server as a step
  relation. The main thread runs the completion handlers of Boost.Asio (accept, read, write, signal);
  worker threads take connections from the queue. Every handler and every step of a worker between two
  accesses to shared state is one step, so that runs interleave as the threads do. What a read
  delivers, error codes, the clock and uninitialised memory are arguments of the steps.
\<close>

section \<open>Connections\<close>

text \<open>The asynchronous operation that a connection waits for; at most one by construction of the code.\<close>

datatype operation = NoOperation | Reading | Writing payload | Queued

datatype error_code = NoError | OperationAborted | OtherError

text \<open>The request of a connection is the message its parser fills: both point to the same object.\<close>

record Connection =
  request_parser :: RequestParser
  response :: "Response option"
  socket_open :: bool
  operation :: operation

definition make_Connection :: Connection where
  "make_Connection = \<lparr>request_parser = make_RequestParser empty_Request, response = None,
     socket_open = True, operation = NoOperation\<rparr>"

definition DoRead :: "Connection \<Rightarrow> Connection" where
  "DoRead c = c\<lparr>operation := Reading\<rparr>"

definition DoWrite :: "Connection \<Rightarrow> Connection" where
  "DoWrite c = c\<lparr>operation := Writing (case response c of Some r \<Rightarrow> msg_payload r | None \<Rightarrow> [])\<rparr>"

definition Connection_Start :: "Connection \<Rightarrow> Connection" where
  "Connection_Start c = DoRead (c\<lparr>request_parser := RequestParser_Init empty_Request (request_parser c)\<rparr>)"

definition Connection_Close :: "Connection \<Rightarrow> Connection" where
  "Connection_Close c = c\<lparr>socket_open := False\<rparr>"

definition SendResponse :: "platform \<Rightarrow> string \<Rightarrow> Response \<Rightarrow> Connection \<Rightarrow> Connection" where
  "SendResponse B date r c =
     (let r = (if IsConnectionKeepAlive B (message (request_parser c))
               then SetHeader B kConnection ''Keep-Alive'' r
               else SetHeader B kConnection ''Close'' r);
          r = Response_Prepare B date r
      in DoWrite (c\<lparr>response := Some r\<rparr>))"

definition SendResponse_status :: "platform \<Rightarrow> string \<Rightarrow> Status \<Rightarrow> Connection \<Rightarrow> Connection" where
  "SendResponse_status B date status c = SendResponse B date (empty_Response (status_code status)) c"

text \<open>What the handlers ask of the pool and of the request handler.\<close>

datatype effect = Keep | Enqueue | PoolClose

text \<open>
  \<open>data\<close> is what the read has put into the connection's buffer, which holds \<^const>\<open>kBufferSize\<close> bytes: the steps of
  the main thread deliver no more at a time, so that a longer request takes several reads.
\<close>

definition OnRead ::
  "platform \<Rightarrow> string \<Rightarrow> error_code \<Rightarrow> string \<Rightarrow> Connection \<Rightarrow> (Connection \<times> effect) run" where
  "OnRead B date ec data c =
     (let c = c\<lparr>operation := NoOperation\<rparr>
      in if ec \<noteq> NoError then
           Some (Inr (c, if ec \<noteq> OperationAborted then PoolClose else Keep))
         else
           (case RequestParser_Parse B data (request_parser c) of
              None \<Rightarrow> None
            | Some (Inl e) \<Rightarrow> Some (Inl e)
            | Some (Inr (ok, p)) \<Rightarrow>
                let c = c\<lparr>request_parser := p\<rparr>
                in Some (Inr
                     (if \<not> ok then (SendResponse_status B date kBadRequest c, Keep)
                      else if \<not> finished p then (DoRead c, Keep)
                      else (c\<lparr>operation := Queued\<rparr>, Enqueue)))))"

definition OnWrite :: "platform \<Rightarrow> error_code \<Rightarrow> Connection \<Rightarrow> Connection \<times> effect" where
  "OnWrite B ec c =
     (let c = c\<lparr>operation := NoOperation\<rparr>
      in if ec \<noteq> NoError then (c, if ec \<noteq> OperationAborted then PoolClose else Keep)
         else if IsConnectionKeepAlive B (message (request_parser c)) then (Connection_Start c, Keep)
         else (c, PoolClose))"

section \<open>Queue, workers and the server\<close>

text \<open>The queue of the request handler; a null connection is \<^const>\<open>None\<close>.\<close>

definition Push :: "'a \<Rightarrow> 'a list \<Rightarrow> 'a list" where
  "Push msg message_list = message_list @ [msg]"

definition PopOrWait :: "'a list \<Rightarrow> ('a \<times> 'a list) option" where
  "PopOrWait message_list = (case message_list of [] \<Rightarrow> None | m # ms \<Rightarrow> Some (m, ms))"

definition Pop :: "'a \<Rightarrow> 'a list \<Rightarrow> 'a \<times> 'a list" where
  "Pop dflt message_list = (case message_list of [] \<Rightarrow> (dflt, []) | m # ms \<Rightarrow> (m, ms))"

definition Clear :: "'a list \<Rightarrow> 'a list" where
  "Clear message_list = []"

text \<open>
  Where a worker stands in \<open>WorkerRoutine\<close>, and where the main thread stands: in the event loop, inside
  \<open>Stop\<close> (after \<open>Clear\<close>; at \<open>join\<close>), back in the loop after the stop, or in a parser that does not return.
\<close>

datatype worker = Waiting | Handling nat | Stopping | Finished

datatype main_thread = Running | Cleared | Joining | Stopped | Looping

record Server =
  acceptor_open :: bool
  pool :: "nat set"
  connections :: "nat \<Rightarrow> Connection option"
  queue :: "nat option list"
  workers :: "worker list"
  main :: main_thread
  terminated :: bool

definition Server_Run :: "nat \<Rightarrow> Server" where
  "Server_Run count =
     \<lparr>acceptor_open = True, pool = {}, connections = (\<lambda>_. None), queue = [],
      workers = replicate count Waiting, main = Running, terminated = False\<rparr>"

text \<open>
  The constructor of \<open>Server\<close> opens, binds and listens; the calls of the system are arguments. Setting the
  option is the one call without an error code: it throws. \<open>Run\<close> looks only at whether the acceptor is open.
\<close>

record acceptor_calls =
  open_fails :: bool
  option_error :: "cxx_exn option"
  bind_fails :: bool
  listen_fails :: bool

record Acceptor =
  is_open :: bool
  listening :: bool

definition make_Server :: "acceptor_calls \<Rightarrow> Acceptor result" where
  "make_Server sys =
     (if open_fails sys then Inr \<lparr>is_open = False, listening = False\<rparr>
      else case option_error sys of
             Some e \<Rightarrow> Inl e
           | None \<Rightarrow>
               if bind_fails sys then Inr \<lparr>is_open = True, listening = False\<rparr>
               else if listen_fails sys then Inr \<lparr>is_open = True, listening = False\<rparr>
               else Inr \<lparr>is_open = True, listening = True\<rparr>)"

definition Server_Run_open :: "Acceptor \<Rightarrow> nat \<Rightarrow> Server option" where
  "Server_Run_open acceptor count = (if \<not> is_open acceptor then None else Some (Server_Run count))"

definition Pool_Start :: "nat \<Rightarrow> Connection \<Rightarrow> Server \<Rightarrow> Server" where
  "Pool_Start c k s = s\<lparr>pool := insert c (pool s), connections := (connections s)(c \<mapsto> Connection_Start k)\<rparr>"

definition Pool_Close :: "nat \<Rightarrow> Server \<Rightarrow> Server" where
  "Pool_Close c s = s\<lparr>pool := pool s - {c}, connections := (connections s)(c := map_option Connection_Close (connections s c))\<rparr>"

definition Pool_CloseAll :: "Server \<Rightarrow> Server" where
  "Pool_CloseAll s =
     s\<lparr>connections := (\<lambda>c. if c \<in> pool s then map_option Connection_Close (connections s c) else connections s c), pool := {}\<rparr>"

text \<open>A handler's connection is stored and its effect carried out.\<close>

definition apply_effect :: "nat \<Rightarrow> Connection \<times> effect \<Rightarrow> Server \<Rightarrow> Server" where
  "apply_effect c ke s =
     (let s = s\<lparr>connections := (connections s)(c \<mapsto> fst ke)\<rparr>
      in case snd ke of
           Keep \<Rightarrow> s
         | Enqueue \<Rightarrow> s\<lparr>queue := Push (Some c) (queue s)\<rparr>
         | PoolClose \<Rightarrow> Pool_Close c s)"

definition event_loop :: "Server \<Rightarrow> bool" where
  "event_loop s \<longleftrightarrow> \<not> terminated s \<and> (main s = Running \<or> main s = Stopped)"

text \<open>Steps of the worker threads.\<close>

inductive worker_step :: "platform \<Rightarrow> ServiceItem list \<Rightarrow> Server \<Rightarrow> Server \<Rightarrow> bool" for B items where
  Take: "\<not> terminated s \<Longrightarrow> i < length (workers s) \<Longrightarrow> workers s ! i = Waiting \<Longrightarrow>
    PopOrWait (queue s) = Some (Some c, q) \<Longrightarrow>
    worker_step B items s (s\<lparr>queue := q, workers := (workers s)[i := Handling c]\<rparr>)"
| TakeNull: "\<not> terminated s \<Longrightarrow> i < length (workers s) \<Longrightarrow> workers s ! i = Waiting \<Longrightarrow>
    PopOrWait (queue s) = Some (None, q) \<Longrightarrow>
    worker_step B items s (s\<lparr>queue := q, workers := (workers s)[i := Stopping]\<rparr>)"
| PushNull: "\<not> terminated s \<Longrightarrow> i < length (workers s) \<Longrightarrow> workers s ! i = Stopping \<Longrightarrow>
    worker_step B items s (s\<lparr>queue := Push None (queue s), workers := (workers s)[i := Finished]\<rparr>)"
| Handle: "\<not> terminated s \<Longrightarrow> i < length (workers s) \<Longrightarrow> workers s ! i = Handling c \<Longrightarrow>
    connections s c = Some k \<Longrightarrow> HandleConnection B memory items (message (request_parser k)) = Inr r \<Longrightarrow>
    worker_step B items s (s\<lparr>connections := (connections s)(c \<mapsto> SendResponse B date r k),
      workers := (workers s)[i := Waiting]\<rparr>)"
| Uncaught: "\<not> terminated s \<Longrightarrow> i < length (workers s) \<Longrightarrow> workers s ! i = Handling c \<Longrightarrow>
    connections s c = Some k \<Longrightarrow> HandleConnection B memory items (message (request_parser k)) = Inl e \<Longrightarrow>
    worker_step B items s (s\<lparr>terminated := True\<rparr>)"

text \<open>Steps of the main thread: completion handlers, and the stages of the signal handler.\<close>

inductive main_step :: "platform \<Rightarrow> Server \<Rightarrow> Server \<Rightarrow> bool" for B where
  Accept: "event_loop s \<Longrightarrow> acceptor_open s \<Longrightarrow> connections s c = None \<Longrightarrow>
    main_step B s (Pool_Start c make_Connection s)"
| Read: "event_loop s \<Longrightarrow> connections s c = Some k \<Longrightarrow> operation k = Reading \<Longrightarrow>
    length data \<le> unat kBufferSize \<Longrightarrow> OnRead B date ec data k = Some (Inr ke) \<Longrightarrow> main_step B s (apply_effect c ke s)"
| ReadThrows: "event_loop s \<Longrightarrow> connections s c = Some k \<Longrightarrow> operation k = Reading \<Longrightarrow>
    length data \<le> unat kBufferSize \<Longrightarrow> OnRead B date ec data k = Some (Inl e) \<Longrightarrow> main_step B s (s\<lparr>terminated := True\<rparr>)"
| ReadLoops: "event_loop s \<Longrightarrow> connections s c = Some k \<Longrightarrow> operation k = Reading \<Longrightarrow>
    length data \<le> unat kBufferSize \<Longrightarrow> OnRead B date ec data k = None \<Longrightarrow> main_step B s (s\<lparr>main := Looping\<rparr>)"
| Write: "event_loop s \<Longrightarrow> connections s c = Some k \<Longrightarrow> operation k = Writing p \<Longrightarrow>
    main_step B s (apply_effect c (OnWrite B ec k) s)"
| StopClear: "\<not> terminated s \<Longrightarrow> main s = Running \<Longrightarrow>
    main_step B s (s\<lparr>acceptor_open := False, queue := Clear (queue s), main := Cleared\<rparr>)"
| StopPush: "\<not> terminated s \<Longrightarrow> main s = Cleared \<Longrightarrow>
    main_step B s (s\<lparr>queue := Push None (queue s), main := Joining\<rparr>)"
| StopJoined: "\<not> terminated s \<Longrightarrow> main s = Joining \<Longrightarrow> list_all (\<lambda>w. w = Finished) (workers s) \<Longrightarrow>
    main_step B s ((Pool_CloseAll s)\<lparr>main := Stopped\<rparr>)"

inductive server_reachable :: "platform \<Rightarrow> ServiceItem list \<Rightarrow> nat \<Rightarrow> Server \<Rightarrow> bool" for B items count where
  Init: "server_reachable B items count (Server_Run count)"
| Main: "server_reachable B items count s \<Longrightarrow> main_step B s s' \<Longrightarrow> server_reachable B items count s'"
| Worker: "server_reachable B items count s \<Longrightarrow> worker_step B items s s' \<Longrightarrow> server_reachable B items count s'"

inductive_cases worker_stepE: "worker_step B items s s'"
inductive_cases main_stepE: "main_step B s s'"

section \<open>One thread at a time\<close>

text \<open>
  The invariant: a connection that waits in the queue or is being handled is there once, and has no
  other operation outstanding; the null connection that stops the workers exists once after \<open>Stop\<close> has
  pushed it and not before; open sockets belong to the pool.
\<close>

definition exclusive :: "Server \<Rightarrow> bool" where
  "exclusive s \<longleftrightarrow>
     distinct (filter (\<lambda>m. m \<noteq> None) (queue s))
     \<and> (\<forall>i c. i < length (workers s) \<longrightarrow> workers s ! i = Handling c \<longrightarrow> Some c \<notin> set (queue s))
     \<and> (\<forall>i j c. i < length (workers s) \<longrightarrow> j < length (workers s) \<longrightarrow>
          workers s ! i = Handling c \<longrightarrow> workers s ! j = Handling c \<longrightarrow> i = j)"

definition waiting :: "Server \<Rightarrow> bool" where
  "waiting s \<longleftrightarrow>
     (\<forall>c. Some c \<in> set (queue s) \<or> Handling c \<in> set (workers s) \<longrightarrow>
        (\<exists>k. connections s c = Some k \<and> operation k = Queued))"

definition nulls :: "Server \<Rightarrow> nat" where
  "nulls s = count_list (queue s) None + count_list (workers s) Stopping"

definition null_once :: "Server \<Rightarrow> bool" where
  "null_once s \<longleftrightarrow>
     (main s = Joining \<longrightarrow> nulls s = 1)
     \<and> (main s = Running \<or> main s = Cleared \<longrightarrow> nulls s = 0 \<and> Finished \<notin> set (workers s))"

definition pool_owns :: "Server \<Rightarrow> bool" where
  "pool_owns s \<longleftrightarrow> (\<forall>c k. connections s c = Some k \<longrightarrow> socket_open k \<longrightarrow> c \<in> pool s)"

lemma count_list_update:
  "i < length xs \<Longrightarrow> count_list (xs[i := x]) y + (if xs ! i = y then 1 else 0) = count_list xs y + (if x = y then 1 else 0)"
proof (induction xs arbitrary: i)
  case (Cons a xs)
  show ?case
  proof (cases i)
    case (Suc j)
    with Cons.IH [of j] Cons.prems show ?thesis by auto
  qed simp
qed simp

lemma set_update_cases: "y \<in> set (xs[i := x]) \<Longrightarrow> y = x \<or> y \<in> set xs"
  using set_update_subset_insert [of xs i x] by auto

lemma PopOrWait_Some [simp]: "PopOrWait q = Some (m, ms) \<longleftrightarrow> q = m # ms"
  by (auto simp: PopOrWait_def split: list.splits)

lemma OnRead_operation:
  assumes "OnRead B date ec data k = Some (Inr (k', e))"
  shows "e = Enqueue \<longleftrightarrow> operation k' = Queued" "socket_open k' = socket_open k"
  using assms
  by (auto simp: OnRead_def Let_def SendResponse_status_def SendResponse_def DoWrite_def DoRead_def
    split: if_splits option.splits sum.splits prod.splits)

lemma OnWrite_operation:
  assumes "OnWrite B ec k = (k', e)"
  shows "e \<noteq> Enqueue" "operation k' \<noteq> Queued" "socket_open k' = socket_open k"
  using assms
  by (auto simp: OnWrite_def Let_def Connection_Start_def DoRead_def split: if_splits)

lemma apply_effect_simps [simp]:
  "workers (apply_effect c ke s) = workers s" "main (apply_effect c ke s) = main s"
  "terminated (apply_effect c ke s) = terminated s"
  "queue (apply_effect c ke s) = (if snd ke = Enqueue then queue s @ [Some c] else queue s)"
  "connections (apply_effect c ke s) d =
     (if d = c then Some (if snd ke = PoolClose then Connection_Close (fst ke) else fst ke) else connections s d)"
  "pool (apply_effect c ke s) = (if snd ke = PoolClose then pool s - {c} else pool s)"
  by (cases "snd ke"; simp add: apply_effect_def Pool_Close_def Push_def)+

lemma Close_simps [simp]:
  "operation (Connection_Close k) = operation k" "\<not> socket_open (Connection_Close k)"
  by (simp_all add: Connection_Close_def)

lemma SendResponse_simps [simp]:
  "operation (SendResponse B date r k) \<noteq> Queued" "socket_open (SendResponse B date r k) = socket_open k"
  by (simp_all add: SendResponse_def DoWrite_def Let_def)

lemma worker_keeps:
  assumes "worker_step B items s s'" "exclusive s" "waiting s"
  shows "exclusive s' \<and> waiting s'"
  using assms(1)
proof cases
  case (Take i c q)
  with assms(2,3) show ?thesis
    by (auto simp: exclusive_def waiting_def nth_list_update dest!: set_update_cases)
next
  case (TakeNull i q)
  with assms(2,3) show ?thesis
    by (auto simp: exclusive_def waiting_def nth_list_update dest!: set_update_cases)
next
  case (PushNull i)
  with assms(2,3) show ?thesis
    by (auto simp: exclusive_def waiting_def nth_list_update Push_def dest!: set_update_cases)
next
  case (Handle i c k memory r date)
  have other: "Handling c \<notin> set ((workers s)[i := Waiting])"
    using Handle assms(2) by (auto simp: exclusive_def in_set_conv_nth nth_list_update)
  have "exclusive s'"
    using Handle assms(2) by (auto simp: exclusive_def nth_list_update)
  moreover have "waiting s'"
    using Handle assms(2,3) other
    by (auto simp: exclusive_def waiting_def dest: set_update_cases)
  ultimately show ?thesis ..
next
  case (Uncaught i c k memory e)
  with assms(2,3) show ?thesis by (simp add: exclusive_def waiting_def)
qed

lemma worker_keeps_nulls:
  assumes "worker_step B items s s'" "null_once s"
  shows "null_once s'"
  using assms(1)
proof cases
  case (Take i c q)
  with assms(2) count_list_update [of i "workers s" "Handling c" Stopping] show ?thesis
    by (auto simp: null_once_def nulls_def dest!: set_update_cases)
next
  case (TakeNull i q)
  with assms(2) count_list_update [of i "workers s" Stopping Stopping] show ?thesis
    by (auto simp: null_once_def nulls_def dest!: set_update_cases)
next
  case (PushNull i)
  then have "0 < count_list (workers s) Stopping"
    by (metis count_list_0_iff neq0_conv nth_mem)
  with PushNull assms(2) count_list_update [of i "workers s" Finished Stopping] show ?thesis
    by (auto simp: null_once_def nulls_def Push_def dest!: set_update_cases)
next
  case (Handle i c k memory r date)
  with assms(2) count_list_update [of i "workers s" Waiting Stopping] show ?thesis
    by (auto simp: null_once_def nulls_def dest!: set_update_cases)
next
  case (Uncaught i c k memory e)
  with assms(2) show ?thesis by (simp add: null_once_def nulls_def)
qed

lemma worker_keeps_pool: "worker_step B items s s' \<Longrightarrow> pool_owns s \<Longrightarrow> pool_owns s'"
  by (erule worker_stepE) (auto simp: pool_owns_def split: if_splits)

lemma effect_keeps:
  assumes s: "exclusive s" "waiting s" and k: "connections s c = Some k" "operation k \<noteq> Queued"
    and e: "snd ke = Enqueue \<longleftrightarrow> operation (fst ke) = Queued"
  shows "exclusive (apply_effect c ke s) \<and> waiting (apply_effect c ke s)"
proof -
  have q: "Some c \<notin> set (queue s)" and h: "Handling c \<notin> set (workers s)"
    using s(2) k by (auto simp: waiting_def)
  have h': "workers s ! i \<noteq> Handling c" if "i < length (workers s)" for i
    using h that by (metis nth_mem)
  have "exclusive (apply_effect c ke s)"
    using s(1) q h' by (auto simp: exclusive_def)
  moreover have "waiting (apply_effect c ke s)"
    unfolding waiting_def
  proof (intro allI impI)
    fix d
    assume "Some d \<in> set (queue (apply_effect c ke s)) \<or> Handling d \<in> set (workers (apply_effect c ke s))"
    then show "\<exists>k. connections (apply_effect c ke s) d = Some k \<and> operation k = Queued"
      using s(2) q h e by (cases "d = c") (auto simp: waiting_def split: if_splits)
  qed
  ultimately show ?thesis ..
qed

lemma main_keeps:
  assumes "main_step B s s'" "exclusive s" "waiting s"
  shows "exclusive s' \<and> waiting s'"
  using assms(1)
proof cases
  case (Accept c)
  with assms(2,3) show ?thesis
    by (auto simp: exclusive_def waiting_def Pool_Start_def)
next
  case (Read c k data date ec ke)
  with effect_keeps [OF assms(2,3), of c k ke] OnRead_operation(1) [of B date ec data k "fst ke" "snd ke"]
  show ?thesis by simp
next
  case (Write c k p ec)
  with effect_keeps [OF assms(2,3), of c k "OnWrite B ec k"] OnWrite_operation [of B ec k "fst (OnWrite B ec k)" "snd (OnWrite B ec k)"]
  show ?thesis by simp
next
  case StopClear
  with assms(2,3) show ?thesis by (simp add: exclusive_def waiting_def Clear_def)
next
  case StopPush
  with assms(2,3) show ?thesis by (auto simp: exclusive_def waiting_def Push_def)
next
  case StopJoined
  then have "Handling c \<notin> set (workers s)" for c by (auto simp: list_all_iff)
  with StopJoined assms(2,3) show ?thesis
    by (fastforce simp: exclusive_def waiting_def Pool_CloseAll_def)
qed (use assms in \<open>simp_all add: exclusive_def waiting_def\<close>)

lemma main_keeps_nulls:
  assumes "main_step B s s'" "null_once s"
  shows "null_once s'"
  using assms(1)
  by cases (use assms(2) in \<open>auto simp: null_once_def nulls_def Pool_Start_def Push_def Clear_def Pool_CloseAll_def
    event_loop_def count_list_append\<close>)

lemma main_keeps_pool:
  assumes "main_step B s s'" "pool_owns s"
  shows "pool_owns s'"
  using assms(1)
proof cases
  case (Read c k data date ec ke)
  then have "socket_open (fst ke) = socket_open k" using OnRead_operation(2) [of B date ec data k "fst ke" "snd ke"] by simp
  with Read assms(2) show ?thesis by (auto simp: pool_owns_def split: if_splits)
next
  case (Write c k p ec)
  then have "socket_open (fst (OnWrite B ec k)) = socket_open k"
    using OnWrite_operation(3) [of B ec k "fst (OnWrite B ec k)" "snd (OnWrite B ec k)"] by simp
  with Write assms(2) show ?thesis by (auto simp: pool_owns_def split: if_splits)
next
  case StopJoined
  with assms(2) show ?thesis by (auto simp: pool_owns_def Pool_CloseAll_def split: if_splits)
qed (use assms(2) in \<open>auto simp: pool_owns_def Pool_Start_def split: if_splits\<close>)

lemma reachable_invariant:
  "server_reachable B items n s \<Longrightarrow> exclusive s \<and> waiting s \<and> null_once s \<and> pool_owns s"
proof (induction rule: server_reachable.induct)
  case Init
  show ?case
    by (auto simp: Server_Run_def exclusive_def waiting_def null_once_def nulls_def pool_owns_def count_list_0_iff)
next
  case (Main s s')
  then show ?case using main_keeps main_keeps_nulls main_keeps_pool by blast
next
  case (Worker s s')
  then show ?case using worker_keeps worker_keeps_nulls worker_keeps_pool by blast
qed

text \<open>
  C28. No connection is shared between threads: in every reachable state a connection is in the queue at
  most once; while it is there no worker handles it, and while a worker handles it no other worker does
  and it is not in the queue; and in both cases it has no read or write outstanding, so that no
  completion handler of the main thread can run for it. Open sockets always belong to the pool.
\<close>

theorem connection_exclusive:
  "server_reachable B items n s \<Longrightarrow>
     (\<forall>c k. connections s c = Some k \<longrightarrow> socket_open k \<longrightarrow> c \<in> pool s)
     \<and> distinct (filter (\<lambda>m. m \<noteq> None) (queue s))
     \<and> (\<forall>c. Some c \<in> set (queue s) \<longrightarrow>
          Handling c \<notin> set (workers s) \<and> (\<exists>k. connections s c = Some k \<and> operation k = Queued))
     \<and> (\<forall>i c. i < length (workers s) \<longrightarrow> workers s ! i = Handling c \<longrightarrow>
          Some c \<notin> set (queue s)
          \<and> (\<forall>j. j < length (workers s) \<longrightarrow> workers s ! j = Handling c \<longrightarrow> j = i)
          \<and> (\<exists>k. connections s c = Some k \<and> operation k = Queued))"
proof -
  assume "server_reachable B items n s"
  from reachable_invariant [OF this] have e: "exclusive s" and w: "waiting s" and o: "pool_owns s" by simp_all
  have q: "Handling c \<notin> set (workers s)" if "Some c \<in> set (queue s)" for c
    using e that by (auto simp: exclusive_def in_set_conv_nth)
  have h: "Some c \<notin> set (queue s) \<and> (\<forall>j. j < length (workers s) \<longrightarrow> workers s ! j = Handling c \<longrightarrow> j = i)
      \<and> (\<exists>k. connections s c = Some k \<and> operation k = Queued)"
    if i: "i < length (workers s)" "workers s ! i = Handling c" for i c
  proof (intro conjI)
    show "Some c \<notin> set (queue s)" "\<forall>j. j < length (workers s) \<longrightarrow> workers s ! j = Handling c \<longrightarrow> j = i"
      using e i unfolding exclusive_def by blast+
    have "Handling c \<in> set (workers s)" using i by (metis nth_mem)
    with w show "\<exists>k. connections s c = Some k \<and> operation k = Queued" by (simp add: waiting_def)
  qed
  have "distinct (filter (\<lambda>m. m \<noteq> None) (queue s))" using e by (simp add: exclusive_def)
  moreover have "\<forall>c k. connections s c = Some k \<longrightarrow> socket_open k \<longrightarrow> c \<in> pool s" using o unfolding pool_owns_def .
  moreover have "\<forall>c. Some c \<in> set (queue s) \<longrightarrow> Handling c \<notin> set (workers s) \<and> (\<exists>k. connections s c = Some k \<and> operation k = Queued)"
    using q w unfolding waiting_def by blast
  ultimately show ?thesis using h by (intro conjI allI impI) (assumption | blast)+
qed

section \<open>Stopping\<close>

lemma worker_progress:
  assumes r: "exclusive s" "waiting s" "null_once s" and j: "main s = Joining" "\<not> terminated s"
    and w: "i < length (workers s)" "workers s ! i \<noteq> Finished"
  shows "\<exists>s'. worker_step B items s s'"
proof (cases "workers s ! i")
  case (Handling c)
  then obtain k where k: "connections s c = Some k"
    using r(2) w(1) by (metis nth_mem waiting_def)
  show ?thesis
    using worker_step.Handle [OF j(2) w(1) Handling k] worker_step.Uncaught [OF j(2) w(1) Handling k]
    by (cases "HandleConnection B 0 items (message (request_parser k))") blast+
next
  case Stopping
  then show ?thesis using worker_step.PushNull [OF j(2) w(1)] by blast
next
  case Waiting
  show ?thesis
  proof (cases "queue s")
    case Nil
    with r(3) j(1) have "count_list (workers s) Stopping = 1" by (simp add: null_once_def nulls_def)
    then obtain l where "l < length (workers s)" "workers s ! l = Stopping"
      by (metis count_list_0_iff in_set_conv_nth zero_neq_one)
    then show ?thesis using worker_step.PushNull [OF j(2)] by blast
  next
    case (Cons m q)
    then show ?thesis
      using worker_step.Take [OF j(2) w(1) Waiting] worker_step.TakeNull [OF j(2) w(1) Waiting]
      by (cases m) auto
  qed
qed (use w in simp)

text \<open>A weight that every step of a worker decreases.\<close>

fun worker_weight :: "worker \<Rightarrow> nat" where
  "worker_weight Waiting = 2"
| "worker_weight (Handling c) = 3"
| "worker_weight Stopping = 1"
| "worker_weight Finished = 0"

definition weight :: "Server \<Rightarrow> nat" where
  "weight s = sum_list (map worker_weight (workers s)) + 2 * length (filter (\<lambda>m. m \<noteq> None) (queue s))
     + (if terminated s then 0 else 1)"

lemma sum_list_weight_update:
  "i < length ws \<Longrightarrow> sum_list (map worker_weight (ws[i := w])) + worker_weight (ws ! i) = sum_list (map worker_weight ws) + worker_weight w"
proof (induction ws arbitrary: i)
  case (Cons a ws)
  show ?case
  proof (cases i)
    case (Suc j)
    with Cons.IH [of j] Cons.prems show ?thesis by simp
  qed simp
qed simp

lemma worker_weight_decreases:
  assumes "worker_step B items s s'"
  shows "weight s' < weight s"
  using assms
proof cases
  case (Take i c q)
  with sum_list_weight_update [of i "workers s" "Handling c"] show ?thesis by (simp add: weight_def)
next
  case (TakeNull i q)
  with sum_list_weight_update [of i "workers s" Stopping] show ?thesis by (simp add: weight_def)
next
  case (PushNull i)
  with sum_list_weight_update [of i "workers s" Finished] show ?thesis by (simp add: weight_def Push_def)
next
  case (Handle i c k memory r date)
  with sum_list_weight_update [of i "workers s" Waiting] show ?thesis by (simp add: weight_def)
next
  case (Uncaught i c k memory e)
  then show ?thesis by (simp add: weight_def)
qed

text \<open>
  C29. \<open>Stop\<close> never waits in vain: from every reachable state in which the main thread joins the
  workers, every run of the workers is finite, and one that cannot go on has ended all of them,
  unless a service threw an exception and the process terminated. The single null connection
  reaches every worker because each one passes it on.
\<close>

theorem stop_completes:
  "server_reachable B items n s \<Longrightarrow> main s = Joining \<Longrightarrow>
     wfP (\<lambda>b a. worker_step B items a b)
     \<and> (\<forall>s'. (worker_step B items)\<^sup>*\<^sup>* s s' \<longrightarrow> \<not> (\<exists>s''. worker_step B items s' s'') \<longrightarrow>
          terminated s' \<or> list_all (\<lambda>w. w = Finished) (workers s'))"
proof -
  assume r: "server_reachable B items n s" and j: "main s = Joining"
  have wf: "wfP (\<lambda>b a. worker_step B items a b)"
    by (rule wfp_if_convertible_to_nat [of _ weight]) (rule worker_weight_decreases)
  have keep: "server_reachable B items n s' \<and> main s' = Joining" if "(worker_step B items)\<^sup>*\<^sup>* s s'" for s'
    using that
  proof (induction rule: rtranclp_induct)
    case base
    from r j show ?case by simp
  next
    case (step y z)
    from step(2) have "main z = main y" by (rule worker_stepE) simp_all
    with step show ?case by (auto intro: server_reachable.Worker)
  qed
  have "terminated s' \<or> list_all (\<lambda>w. w = Finished) (workers s')"
    if s': "(worker_step B items)\<^sup>*\<^sup>* s s'" and stuck: "\<not> (\<exists>s''. worker_step B items s' s'')" for s'
  proof (rule ccontr)
    assume n: "\<not> (terminated s' \<or> list_all (\<lambda>w. w = Finished) (workers s'))"
    then obtain i where "i < length (workers s')" "workers s' ! i \<noteq> Finished" by (auto simp: list_all_length)
    with worker_progress [of s' i B items] keep [OF s'] reachable_invariant n stuck show False by blast
  qed
  with wf show ?thesis by blast
qed

theorem stop_completes_witness:
  "\<exists>s. server_reachable reference_platform [] 2 s \<and> main s = Joining
     \<and> wfP (\<lambda>b a. worker_step reference_platform [] a b)"
proof -
  let ?s1 = "(Server_Run 2)\<lparr>acceptor_open := False, queue := Clear (queue (Server_Run 2)), main := Cleared\<rparr>"
  let ?s2 = "?s1\<lparr>queue := Push None (queue ?s1), main := Joining\<rparr>"
  have "main_step reference_platform (Server_Run 2) ?s1"
    by (rule main_step.StopClear) (simp_all add: Server_Run_def)
  moreover have "main_step reference_platform ?s1 ?s2"
    by (rule main_step.StopPush) (simp_all add: Server_Run_def)
  ultimately have r: "server_reachable reference_platform [] 2 ?s2"
    by (blast intro: server_reachable.intros)
  with stop_completes [OF r] show ?thesis by auto
qed

section \<open>The reads of a request\<close>

text \<open>
  What a connection makes of pieces that arrive one after the other: its read is completed with the first,
  and it has to read again for the next.
\<close>

fun receive :: "platform \<Rightarrow> string \<Rightarrow> nat \<Rightarrow> string list \<Rightarrow> Server \<Rightarrow> Server option" where
  "receive B date c [] s = Some s"
| "receive B date c (data # ds) s =
     (case connections s c of
        None \<Rightarrow> None
      | Some k \<Rightarrow>
          if event_loop s \<and> operation k = Reading \<and> length data \<le> unat kBufferSize
          then (case OnRead B date NoError data k of
                  Some (Inr ke) \<Rightarrow> receive B date c ds (apply_effect c ke s)
                | _ \<Rightarrow> None)
          else None)"

lemma receive_steps: "receive B date c ds s = Some s' \<Longrightarrow> (main_step B)\<^sup>*\<^sup>* s s'"
proof (induction ds arbitrary: s)
  case (Cons data ds)
  then obtain k ke where k: "connections s c = Some k" "event_loop s" "operation k = Reading" "length data \<le> unat kBufferSize"
      "OnRead B date NoError data k = Some (Inr ke)" "receive B date c ds (apply_effect c ke s) = Some s'"
    by (auto split: option.splits if_splits sum.splits)
  have "main_step B s (apply_effect c ke s)" by (rule main_step.Read [OF k(2,1,3,4,5)])
  then show ?case using Cons.IH [OF k(6)] by (rule converse_rtranclp_into_rtranclp)
qed simp

text \<open>As long as the pieces do not complete the request, the connection reads on with the parser that has seen them.\<close>

lemma receive_unfinished:
  assumes "event_loop s" "connections s c = Some k" "operation k = Reading" "\<forall>d \<in> set ds. length d \<le> unat kBufferSize"
    and "feed (RequestParser_Parse B) ds (request_parser k) = Some (Inr (True, q))" "\<not> finished q"
  shows "receive B date c (ds @ es) s = receive B date c es (s\<lparr>connections := (connections s)(c \<mapsto> k\<lparr>request_parser := q\<rparr>)\<rparr>)"
  using assms
proof (induction ds arbitrary: s k)
  case Nil
  then have "k\<lparr>request_parser := q\<rparr> = k" "(connections s)(c \<mapsto> k) = connections s" by auto
  then show ?case by simp
next
  case (Cons d ds)
  then obtain p where p: "RequestParser_Parse B d (request_parser k) = Some (Inr (True, p))"
      and f: "feed (RequestParser_Parse B) ds p = Some (Inr (True, q))"
    by (auto split: option.splits sum.splits prod.splits bool.splits)
  have "\<not> finished p"
    using rpc.feed_flags [OF f [unfolded RequestParser_Parse_def]] Cons.prems(6) by blast
  with p Cons.prems(3) have "OnRead B date NoError d k = Some (Inr (k\<lparr>request_parser := p\<rparr>, Keep))"
    by (simp add: OnRead_def DoRead_def)
  with Cons.prems have "receive B date c ((d # ds) @ es) s
      = receive B date c (ds @ es) (s\<lparr>connections := (connections s)(c \<mapsto> k\<lparr>request_parser := p\<rparr>)\<rparr>)"
    by (simp add: apply_effect_def)
  also have "\<dots> = receive B date c es (s\<lparr>connections := (connections s)(c \<mapsto> k\<lparr>request_parser := p\<rparr>, c \<mapsto> k\<lparr>request_parser := q\<rparr>)\<rparr>)"
    using Cons.IH [of "s\<lparr>connections := (connections s)(c \<mapsto> k\<lparr>request_parser := p\<rparr>)\<rparr>" "k\<lparr>request_parser := p\<rparr>"] Cons.prems f
    by (simp add: event_loop_def fun_upd_same del: fun_upd_apply)
  finally show ?case by (simp only: fun_upd_upd)
qed

section \<open>The next request on a connection\<close>

text \<open>
  After a response on a kept connection the server reads the next request with a parser that is
  fresh only if the last request was not multipart: \<open>Start\<close> resets everything except the step and the
  part of the multipart machine.
\<close>

lemma keep_alive_restart:
  "IsConnectionKeepAlive B (message (request_parser k)) \<Longrightarrow>
     operation (fst (OnWrite B NoError k)) = Reading \<and> snd (OnWrite B NoError k) = Keep
     \<and> request_parser (fst (OnWrite B NoError k))
       = (make_RequestParser empty_Request)\<lparr>step := step (request_parser k), part := part (request_parser k)\<rparr>"
  by (simp add: OnWrite_def Connection_Start_def DoRead_def RequestParser_Init_def Parser_Init_def Reset_def
    make_RequestParser_def Let_def)

end
