(* ===== verification/Webcc_Exchange.thy ===== *)
theory Webcc_Exchange
  imports Webcc_Server
begin

text \<open>
  What the server promises to its clients, without threads, queue and sockets: on every connection requests and
  answers alternate, and an answer is made from the request of its own connection. The server of \<open>Webcc_Server\<close>
  implements this, by a simulation.
\<close>

section \<open>Simulations\<close>

locale simulation =
  fixes step :: "'s \<Rightarrow> 's \<Rightarrow> bool" and start :: 's and sound :: "'s \<Rightarrow> bool"
    and abstraction :: "'s \<Rightarrow> 'a" and abstract_step :: "'a \<Rightarrow> 'a \<Rightarrow> bool"
  assumes sound_start: "sound start"
    and sound_step: "sound s \<Longrightarrow> step s s' \<Longrightarrow> sound s'"
    and simulates: "sound s \<Longrightarrow> step s s' \<Longrightarrow> abstract_step\<^sup>*\<^sup>* (abstraction s) (abstraction s')"
begin

lemma run_sound: "step\<^sup>*\<^sup>* start s \<Longrightarrow> sound s"
  by (induction rule: rtranclp_induct) (auto intro: sound_start sound_step)

lemma run_simulated: "step\<^sup>*\<^sup>* start s \<Longrightarrow> abstract_step\<^sup>*\<^sup>* (abstraction start) (abstraction s)"
proof (induction rule: rtranclp_induct)
  case (step s s')
  then show ?case using simulates [OF run_sound] by (meson rtranclp_trans)
qed simp

text \<open>What every abstract step keeps holds of every run.\<close>

lemma run_keeps:
  assumes "step\<^sup>*\<^sup>* start s" "P (abstraction start)" "\<And>a a'. P a \<Longrightarrow> abstract_step a a' \<Longrightarrow> P a'"
  shows "P (abstraction s)"
  using run_simulated [OF assms(1)] assms(2,3) by (induction rule: rtranclp_induct) auto

end

section \<open>Exchanges\<close>

datatype phase = Absent | Receiving | Received Request | Answering Request payload | Dropped

text \<open>The bytes of a response to a request, which the request's wish for the connection decides with.\<close>

definition reply_payload :: "platform \<Rightarrow> string \<Rightarrow> Request \<Rightarrow> Response \<Rightarrow> payload" where
  "reply_payload B date req r =
     msg_payload (Response_Prepare B date (SetHeader B kConnection
       (if IsConnectionKeepAlive B req then ''Keep-Alive'' else ''Close'') r))"

definition bad_request :: Response where
  "bad_request = empty_Response (status_code kBadRequest)"

inductive exchange :: "platform \<Rightarrow> ServiceItem list \<Rightarrow> (nat \<Rightarrow> phase) \<Rightarrow> (nat \<Rightarrow> phase) \<Rightarrow> bool" for B items where
  connects: "ph c = Absent \<Longrightarrow> exchange B items ph (ph(c := Receiving))"
| receives: "ph c = Receiving \<Longrightarrow> exchange B items ph (ph(c := Received req))"
| refuses: "ph c = Receiving \<Longrightarrow> exchange B items ph (ph(c := Answering req (reply_payload B date req bad_request)))"
| answers: "ph c = Received req \<Longrightarrow> HandleConnection B memory items req = Inr r \<Longrightarrow>
    exchange B items ph (ph(c := Answering req (reply_payload B date req r)))"
| goes_on: "ph c = Answering req p \<Longrightarrow> IsConnectionKeepAlive B req \<Longrightarrow> exchange B items ph (ph(c := Receiving))"
| drops: "ph c = Receiving \<or> ph c = Answering req p \<Longrightarrow> exchange B items ph (ph(c := Dropped))"

inductive_cases exchangeE: "exchange B items ph ph'"

text \<open>The phase of a connection of the server.\<close>

definition connection_phase :: "Connection option \<Rightarrow> phase" where
  "connection_phase x =
     (case x of
        None \<Rightarrow> Absent
      | Some k \<Rightarrow>
          (case operation k of
             NoOperation \<Rightarrow> Dropped
           | Reading \<Rightarrow> Receiving
           | Writing p \<Rightarrow> Answering (message (request_parser k)) p
           | Queued \<Rightarrow> Received (message (request_parser k))))"

definition phases :: "Server \<Rightarrow> nat \<Rightarrow> phase" where
  "phases s c = connection_phase (connections s c)"

lemma connection_phase_simps [simp]:
  "connection_phase None = Absent"
  "connection_phase (Some (Connection_Close k)) = connection_phase (Some k)"
  "connection_phase (map_option Connection_Close x) = connection_phase x"
  by (simp_all add: connection_phase_def Connection_Close_def split: option.split operation.split)

lemma phases_update: "connections s' = (connections s)(c := x) \<Longrightarrow> phases s' = (phases s)(c := connection_phase x)"
  by (auto simp: phases_def)

lemma phases_simps [simp]:
  "phases (s\<lparr>acceptor_open := a\<rparr>) = phases s" "phases (s\<lparr>queue := q\<rparr>) = phases s" "phases (s\<lparr>workers := ws\<rparr>) = phases s"
  "phases (s\<lparr>main := m\<rparr>) = phases s" "phases (s\<lparr>terminated := t\<rparr>) = phases s"
  by (simp_all add: phases_def [abs_def])

lemma phases_effect: "phases (apply_effect c ke s) = (phases s)(c := connection_phase (Some (fst ke)))"
  by (auto simp: phases_def)

lemma SendResponse_phase:
  "connection_phase (Some (SendResponse B date r k)) = Answering (message (request_parser k)) (reply_payload B date (message (request_parser k)) r)"
  by (simp add: connection_phase_def SendResponse_def DoWrite_def Let_def reply_payload_def)

lemma OnRead_exchange:
  assumes "connections s c = Some k" "operation k = Reading" "OnRead B date ec data k = Some (Inr ke)"
  shows "(exchange B items)\<^sup>*\<^sup>* (phases s) (phases (apply_effect c ke s))"
proof -
  have ph: "phases s c = Receiving" using assms(1,2) by (simp add: phases_def connection_phase_def)
  have stay: "(phases s)(c := Receiving) = phases s" using ph by auto
  consider (failed) "connection_phase (Some (fst ke)) = Dropped"
    | (refused) req where "connection_phase (Some (fst ke)) = Answering req (reply_payload B date req bad_request)"
    | (more) "connection_phase (Some (fst ke)) = Receiving"
    | (complete) req where "connection_phase (Some (fst ke)) = Received req"
    using assms(3)
    by (auto simp: OnRead_def Let_def SendResponse_status_def SendResponse_phase bad_request_def DoRead_def
      split: if_splits option.splits sum.splits prod.splits) (auto simp: connection_phase_def)
  then show ?thesis
    unfolding phases_effect
  proof cases
    case more
    then show "(exchange B items)\<^sup>*\<^sup>* (phases s) ((phases s)(c := connection_phase (Some (fst ke))))" by (simp only: stay rtranclp.rtrancl_refl)
  qed (simp_all add: r_into_rtranclp exchange.receives [where c = c] exchange.refuses [where c = c] exchange.drops [where c = c] ph)
qed

lemma OnWrite_exchange:
  assumes "connections s c = Some k" "operation k = Writing p"
  shows "(exchange B items)\<^sup>*\<^sup>* (phases s) (phases (apply_effect c (OnWrite B ec k) s))"
proof -
  have ph: "phases s c = Answering (message (request_parser k)) p" using assms by (simp add: phases_def connection_phase_def)
  have "connection_phase (Some (fst (OnWrite B ec k)))
      = (if ec = NoError \<and> IsConnectionKeepAlive B (message (request_parser k)) then Receiving else Dropped)"
    by (auto simp: OnWrite_def Let_def connection_phase_def Connection_Start_def DoRead_def)
  then show ?thesis
    unfolding phases_effect
    using exchange.goes_on [of "phases s", OF ph] exchange.drops [of "phases s" c, OF disjI2 [OF ph]] by (auto intro: r_into_rtranclp)
qed

lemma main_step_exchange: "main_step B s s' \<Longrightarrow> (exchange B items)\<^sup>*\<^sup>* (phases s) (phases s')"
proof (erule main_stepE)
  fix c
  assume "s' = Pool_Start c make_Connection s" "connections s c = None"
  then have "phases s c = Absent" "phases s' = (phases s)(c := Receiving)"
    by (auto simp: phases_def Pool_Start_def connection_phase_def Connection_Start_def DoRead_def)
  then show ?thesis by (auto intro: exchange.intros)
next
  assume "s' = (Pool_CloseAll s)\<lparr>main := Stopped\<rparr>"
  then have "phases s' = phases s" by (auto simp: phases_def Pool_CloseAll_def)
  then show ?thesis by simp
qed (simp_all add: OnRead_exchange OnWrite_exchange)

lemma worker_step_exchange:
  assumes "worker_step B items s s'" "waiting s"
  shows "(exchange B items)\<^sup>*\<^sup>* (phases s) (phases s')"
  using assms(1)
proof cases
  case (Handle i c k memory r date)
  have "Handling c \<in> set (workers s)" using Handle by (metis nth_mem)
  then have "operation k = Queued" using assms(2) Handle by (auto simp: waiting_def)
  then have "phases s c = Received (message (request_parser k))" using Handle by (simp add: phases_def connection_phase_def)
  moreover have "phases s' = (phases s)(c := Answering (message (request_parser k)) (reply_payload B date (message (request_parser k)) r))"
    unfolding SendResponse_phase [symmetric] by (rule phases_update) (simp add: Handle)
  ultimately show ?thesis using Handle by (auto intro: exchange.intros)
qed simp_all

section \<open>The server\<close>

text \<open>Main thread and workers together.\<close>

definition server_step :: "platform \<Rightarrow> ServiceItem list \<Rightarrow> Server \<Rightarrow> Server \<Rightarrow> bool" where
  "server_step B items s s' \<longleftrightarrow> main_step B s s' \<or> worker_step B items s s'"

interpretation exchanges: simulation "server_step B items" "Server_Run count" "\<lambda>s. exclusive s \<and> waiting s" phases "exchange B items"
  for B items count
proof unfold_locales
  show "exclusive (Server_Run count) \<and> waiting (Server_Run count)"
    by (auto simp: Server_Run_def exclusive_def waiting_def)
  show "exclusive s' \<and> waiting s'" if "exclusive s \<and> waiting s" "server_step B items s s'" for s s'
    using that main_keeps worker_keeps by (auto simp: server_step_def)
  show "(exchange B items)\<^sup>*\<^sup>* (phases s) (phases s')" if "exclusive s \<and> waiting s" "server_step B items s s'" for s s'
    using that main_step_exchange worker_step_exchange by (auto simp: server_step_def)
qed

lemma reachable_run: "server_reachable B items count s \<longleftrightarrow> (server_step B items)\<^sup>*\<^sup>* (Server_Run count) s"
proof
  show "server_reachable B items count s \<Longrightarrow> (server_step B items)\<^sup>*\<^sup>* (Server_Run count) s"
    by (induction rule: server_reachable.induct) (auto simp: server_step_def intro: rtranclp.rtrancl_into_rtrancl)
  show "(server_step B items)\<^sup>*\<^sup>* (Server_Run count) s \<Longrightarrow> server_reachable B items count s"
    by (induction rule: rtranclp_induct) (auto simp: server_step_def intro: server_reachable.intros)
qed

text \<open>An answer is made from its own request, by a service or as a refusal.\<close>

definition own_answer :: "platform \<Rightarrow> ServiceItem list \<Rightarrow> Request \<Rightarrow> payload \<Rightarrow> bool" where
  "own_answer B items req p \<longleftrightarrow>
     (\<exists>date r. p = reply_payload B date req r \<and> (r = bad_request \<or> (\<exists>memory. HandleConnection B memory items req = Inr r)))"

lemma exchange_own_answer:
  assumes "exchange B items ph ph'" "\<forall>c req p. ph c = Answering req p \<longrightarrow> own_answer B items req p"
  shows "\<forall>c req p. ph' c = Answering req p \<longrightarrow> own_answer B items req p"
  using assms by cases (auto simp: own_answer_def split: if_splits)

lemma phases_start: "phases (Server_Run count) = (\<lambda>_. Absent)"
  by (auto simp: phases_def Server_Run_def)

text \<open>
  C27. The server with its threads implements exchanges: whatever order the completion handlers and the workers run in, and whatever the
  network and the clients do, the connections only go from connecting to receiving, received, answering, and receiving again or
  being dropped; and the bytes that are being written on a connection are the answer of the services to the request received on
  this connection, or its refusal, never that of another connection.
\<close>

theorem server_refines_exchange:
  assumes "server_reachable B items count s"
  shows "(exchange B items)\<^sup>*\<^sup>* (\<lambda>_. Absent) (phases s)
    \<and> (\<forall>c k p. connections s c = Some k \<and> operation k = Writing p \<longrightarrow> own_answer B items (message (request_parser k)) p)"
proof -
  have run: "(server_step B items)\<^sup>*\<^sup>* (Server_Run count) s" using assms by (simp add: reachable_run)
  have "\<forall>c req p. phases s c = Answering req p \<longrightarrow> own_answer B items req p"
    by (rule exchanges.run_keeps [OF run, where P = "\<lambda>ph. \<forall>c req p. ph c = Answering req p \<longrightarrow> own_answer B items req p"])
      (auto simp: phases_start dest: exchange_own_answer)
  moreover have "phases s c = Answering (message (request_parser k)) p" if "connections s c = Some k" "operation k = Writing p" for c k p
    using that by (simp add: phases_def connection_phase_def)
  ultimately have "\<forall>c k p. connections s c = Some k \<and> operation k = Writing p \<longrightarrow> own_answer B items (message (request_parser k)) p"
    by blast
  with exchanges.run_simulated [OF run] show ?thesis by (auto simp: phases_start)
qed

end
