(* ===== verification/Webcc_Client.thy ===== *)
theory Webcc_Client
  imports Webcc_Parser Webcc_Base64
begin

text \<open>
  \<open>webcc/request_builder\<close>, \<open>client\<close>, \<open>client_pool\<close> and \<open>client_session\<close>: how a request is put together, sent, and
  its response read under a timeout. What the network does is an argument: whether a host resolves, a
  connection is made, a write succeeds, and the completions that \<open>io_context_.run_one\<close> delivers for the
  bytes that were written. A client that waits for a completion that never comes does not return.
\<close>

section \<open>Request builder\<close>

record RequestBuilder =
  rb_method :: string
  rb_url :: string
  rb_parameters :: "string list"
  rb_data :: string
  rb_json :: bool
  rb_form_parts :: "FormPart list"
  rb_gzip :: bool
  rb_headers :: "string list"
  rb_keep_alive :: bool

definition make_RequestBuilder :: RequestBuilder where
  "make_RequestBuilder =
     \<lparr>rb_method = [], rb_url = [], rb_parameters = [], rb_data = [], rb_json = False, rb_form_parts = [],
      rb_gzip = False, rb_headers = [], rb_keep_alive = True\<rparr>"

definition Method :: "string \<Rightarrow> RequestBuilder \<Rightarrow> RequestBuilder" where
  "Method method b = b\<lparr>rb_method := method\<rparr>"

definition Builder_Url :: "string \<Rightarrow> RequestBuilder \<Rightarrow> RequestBuilder" where
  "Builder_Url url b = b\<lparr>rb_url := url\<rparr>"

definition Query :: "string \<Rightarrow> string \<Rightarrow> RequestBuilder \<Rightarrow> RequestBuilder" where
  "Query key val b = b\<lparr>rb_parameters := rb_parameters b @ [key] @ [val]\<rparr>"

definition Builder_Data :: "string \<Rightarrow> RequestBuilder \<Rightarrow> RequestBuilder" where
  "Builder_Data data b = b\<lparr>rb_data := data\<rparr>"

definition Json :: "bool \<Rightarrow> RequestBuilder \<Rightarrow> RequestBuilder" where
  "Json json b = b\<lparr>rb_json := json\<rparr>"

definition Form_part :: "FormPart \<Rightarrow> RequestBuilder \<Rightarrow> RequestBuilder" where
  "Form_part part b = b\<lparr>rb_form_parts := rb_form_parts b @ [part]\<rparr>"

definition File ::
  "string \<Rightarrow> string option \<Rightarrow> string \<Rightarrow> string \<Rightarrow> string \<Rightarrow> RequestBuilder \<Rightarrow> Exception + RequestBuilder" where
  "File name read filename extension media_type b =
     map_sum id (\<lambda>part. b\<lparr>rb_form_parts := rb_form_parts b @ [part]\<rparr>)
       (make_FormPart_file name read filename extension media_type)"

definition Form :: "string \<Rightarrow> string \<Rightarrow> string \<Rightarrow> RequestBuilder \<Rightarrow> RequestBuilder" where
  "Form name data media_type b =
     b\<lparr>rb_form_parts := rb_form_parts b @ [make_FormPart name data media_type]\<rparr>"

definition Gzip :: "bool \<Rightarrow> RequestBuilder \<Rightarrow> RequestBuilder" where
  "Gzip gzip b = b\<lparr>rb_gzip := gzip\<rparr>"

definition Header :: "string \<Rightarrow> string \<Rightarrow> RequestBuilder \<Rightarrow> RequestBuilder" where
  "Header key val b = b\<lparr>rb_headers := rb_headers b @ [key] @ [val]\<rparr>"

definition KeepAlive :: "bool \<Rightarrow> RequestBuilder \<Rightarrow> RequestBuilder" where
  "KeepAlive keep_alive b = b\<lparr>rb_keep_alive := keep_alive\<rparr>"

definition Builder_Auth :: "string \<Rightarrow> string \<Rightarrow> RequestBuilder \<Rightarrow> RequestBuilder" where
  "Builder_Auth type credentials b =
     b\<lparr>rb_headers := rb_headers b @ [kAuthorization] @ [type @ '' '' @ credentials]\<rparr>"

text \<open>\<^const>\<open>None\<close> would be a write past the encoder's buffer.\<close>

definition Builder_AuthBasic :: "string \<Rightarrow> string \<Rightarrow> RequestBuilder \<Rightarrow> RequestBuilder option" where
  "Builder_AuthBasic login password b =
     map_option (\<lambda>credentials. Builder_Auth ''Basic'' credentials b)
       (Base64Encode_string (login @ '':'' @ password))"

definition Builder_AuthToken :: "string \<Rightarrow> RequestBuilder \<Rightarrow> RequestBuilder" where
  "Builder_AuthToken tok b = Builder_Auth ''Token'' tok b"

definition Builder_SetContent :: "platform \<Rightarrow> string \<Rightarrow> Request \<Rightarrow> Request" where
  "Builder_SetContent B data request = SetContent B data True request"

text \<open>The loops \<open>for (i = 1; i < size; i += 2)\<close> over a list of keys and values.\<close>

fun fold_pairs :: "(string \<Rightarrow> string \<Rightarrow> 'a \<Rightarrow> 'a) \<Rightarrow> string list \<Rightarrow> 'a \<Rightarrow> 'a" where
  "fold_pairs f (k # v # rest) a = fold_pairs f rest (f k v a)"
| "fold_pairs f _ a = a"

definition build :: "platform \<Rightarrow> RequestBuilder \<Rightarrow> Request" where
  "build B b =
     (let request = make_Request B (rb_method b) (rb_url b);
          request = fold_pairs Request_AddQuery (rb_parameters b) request;
          request = fold_pairs (SetHeader B) (rb_headers b) request;
          request = (if \<not> rb_keep_alive b then SetHeader B kConnection ''Close'' request else request)
      in if rb_data b \<noteq> [] then
           let request = Builder_SetContent B (rb_data b) request
           in if rb_json b then SetContentType_charset B kApplicationJson [] request else request
         else if rb_form_parts b \<noteq> [] then request\<lparr>req_form_parts := rb_form_parts b\<rparr>
         else request)"

section \<open>Client\<close>

definition kMaxReadSeconds :: int where "kMaxReadSeconds = 30"
definition kPort80 :: string where "kPort80 = ''80''"
definition kPort443 :: string where "kPort443 = ''443''"

text \<open>
  A completion that \<open>run_one\<close> delivers: of a timer wait, with whether it was aborted and whether the
  deadline has passed, or of a read, with its error and the bytes.
\<close>

datatype completion = TimerDone bool bool | ReadDone bool string

record network =
  net_resolve :: "string \<Rightarrow> string \<Rightarrow> bool"
  net_connect :: "bool \<Rightarrow> string \<Rightarrow> bool"
  net_write :: "string \<Rightarrow> bool"
  net_completions :: "string \<Rightarrow> completion list"

text \<open>
  The client; its response is the message of its parser, \<open>timer_waits\<close> counts the waits on the timer
  that are outstanding, \<open>socket_ssl\<close> tells the kind of its socket. \<open>Request\<close> without connecting is
  only called on a client that has a socket.
\<close>

record Client =
  response_parser :: ResponseParser
  socket_ssl :: bool
  timer_waits :: nat
  buffer_length :: size_t
  ssl_verify :: bool
  buffer_size :: size_t
  timeout :: int
  closed :: bool
  timer_canceled :: bool
  timed_out :: bool
  error :: Error

definition make_Client :: Client where
  "make_Client =
     \<lparr>response_parser = make_Parser (empty_Response 200), socket_ssl = False, timer_waits = 0, buffer_length = 0,
      ssl_verify = True, buffer_size = kBufferSize, timeout = kMaxReadSeconds, closed = False,
      timer_canceled = False, timed_out = False, error = kNoError\<rparr>"

definition set_buffer_size :: "size_t \<Rightarrow> Client \<Rightarrow> Client" where
  "set_buffer_size n c = (if n > 0 then c\<lparr>buffer_size := n\<rparr> else c)"

definition set_timeout :: "int \<Rightarrow> Client \<Rightarrow> Client" where
  "set_timeout n c = (if n > 0 then c\<lparr>timeout := n\<rparr> else c)"

definition Client_Close :: "Client \<Rightarrow> Client" where
  "Client_Close c = (if closed c then c else c\<lparr>closed := True\<rparr>)"

definition DoWaitTimer :: "Client \<Rightarrow> Client" where
  "DoWaitTimer c = c\<lparr>timer_waits := timer_waits c + 1\<rparr>"

definition CancelTimer :: "Client \<Rightarrow> Client" where
  "CancelTimer c = (if timer_canceled c then c else c\<lparr>timer_canceled := True\<rparr>)"

definition OnTimer :: "bool \<Rightarrow> bool \<Rightarrow> Client \<Rightarrow> Client" where
  "OnTimer aborted expired c =
     (if aborted then c
      else if closed c then c
      else if expired then Client_Close (c\<lparr>timed_out := True\<rparr>)
      else DoWaitTimer c)"

definition DoConnect :: "network \<Rightarrow> Request \<Rightarrow> string \<Rightarrow> Client \<Rightarrow> Error \<times> Client" where
  "DoConnect net request default_port c =
     (let p = port default_port request
      in if \<not> net_resolve net (url_host (req_url request)) p then (kHostResolveError, c)
         else if \<not> net_connect net (socket_ssl c) (url_host (req_url request)) then (kEndpointConnectError, Client_Close c)
         else (kNoError, c))"

definition Connect :: "network \<Rightarrow> Request \<Rightarrow> Client \<Rightarrow> Error \<times> Client" where
  "Connect net request c =
     (if url_scheme (req_url request) = ''https'' then DoConnect net request kPort443 (c\<lparr>socket_ssl := True\<rparr>)
      else DoConnect net request kPort80 (c\<lparr>socket_ssl := False\<rparr>))"

definition WriteReqeust :: "network \<Rightarrow> Request \<Rightarrow> Client \<Rightarrow> Error \<times> Client" where
  "WriteReqeust net request c =
     (if \<not> net_write net (CopyPayload request) then (kSocketWriteError, Client_Close c) else (kNoError, c))"

text \<open>
  \<open>DoReadResponse\<close> with its read handler: the list is what \<open>run_one\<close> delivers from now on; when it ends,
  the call blocks. A timer completion without an outstanding wait does not happen and is passed over.
  After an exception of the parser its state does not matter: \<open>Request\<close> starts it anew.
\<close>

fun DoReadResponse ::
  "platform \<Rightarrow> completion list \<Rightarrow> Error \<Rightarrow> Client \<Rightarrow> ((cxx_exn + Error) \<times> Client) option" where
  "DoReadResponse B [] err c = None"
| "DoReadResponse B (TimerDone aborted expired # rest) err c =
     (if timer_waits c = 0 then DoReadResponse B rest err c
      else DoReadResponse B rest err (OnTimer aborted expired (c\<lparr>timer_waits := timer_waits c - 1\<rparr>)))"
| "DoReadResponse B (ReadDone ec data # rest) err c =
     (let c = CancelTimer c
      in if ec \<or> data = [] then Some (Inr kSocketReadError, Client_Close c)
         else
           (case ResponseParser_Parse B data (response_parser c) of
              None \<Rightarrow> None
            | Some (Inl e) \<Rightarrow> Some (Inl e, c)
            | Some (Inr (ok, p)) \<Rightarrow>
                let c = c\<lparr>response_parser := p\<rparr>
                in if \<not> ok then Some (Inr kHttpError, Client_Close c)
                   else if finished p then
                     Some (Inr err, if IsConnectionKeepAlive B (message p) then c else Client_Close c)
                   else if \<not> closed c then DoReadResponse B rest err c
                   else Some (Inr err, c)))"

definition ReadResponse :: "platform \<Rightarrow> completion list \<Rightarrow> Client \<Rightarrow> ((cxx_exn + Error) \<times> Client) option" where
  "ReadResponse B cs c = DoReadResponse B cs kNoError (DoWaitTimer c)"

definition Client_Request ::
  "platform \<Rightarrow> network \<Rightarrow> Request \<Rightarrow> bool \<Rightarrow> Client \<Rightarrow> ((cxx_exn + bool) \<times> Client) option" where
  "Client_Request B net request connect c =
     (let c = c\<lparr>response_parser := ResponseParser_Init (empty_Response 200) (response_parser c), closed := False,
                timer_canceled := False, timed_out := False, error := kNoError\<rparr>;
          c = (if buffer_length c \<noteq> buffer_size c then c\<lparr>buffer_length := buffer_size c\<rparr> else c);
          (e, c) = (if connect then Connect net request c else (kNoError, c));
          c = c\<lparr>error := e\<rparr>
      in if e \<noteq> kNoError then Some (Inr False, c)
         else
           let (e, c) = WriteReqeust net request c;
               c = c\<lparr>error := e\<rparr>
           in if e \<noteq> kNoError then Some (Inr False, c)
              else
                (case ReadResponse B (net_completions net (CopyPayload request)) c of
                   None \<Rightarrow> None
                 | Some (Inl x, c) \<Rightarrow> Some (Inl x, c)
                 | Some (Inr e, c) \<Rightarrow> Some (Inr (e = kNoError), c\<lparr>error := e\<rparr>)))"

section \<open>Client pool and session\<close>

record Key =
  key_scheme :: string
  key_host :: string
  key_port :: string

definition make_Key :: "Url \<Rightarrow> Key" where
  "make_Key url = \<lparr>key_scheme = url_scheme url, key_host = url_host url, key_port = url_port url\<rparr>"

definition key_eq :: "Key \<Rightarrow> Key \<Rightarrow> bool" where
  "key_eq k rhs \<longleftrightarrow> key_scheme k = key_scheme rhs \<and> key_host k = key_host rhs \<and> key_port k = key_port rhs"

text \<open>\<open>operator<\<close> of strings compares unsigned characters from the left.\<close>

fun string_less :: "string \<Rightarrow> string \<Rightarrow> bool" where
  "string_less s [] = False"
| "string_less [] (y # ys) = True"
| "string_less (x # xs) (y # ys) = (byte x < byte y \<or> x = y \<and> string_less xs ys)"

definition key_less :: "Key \<Rightarrow> Key \<Rightarrow> bool" where
  "key_less k rhs =
     (if string_less (key_scheme k) (key_scheme rhs) then True
      else if string_less (key_host k) (key_host rhs) then True
      else if string_less (key_port k) (key_port rhs) then True
      else False)"

text \<open>
  The pool, a \<open>std::map\<close>, is the list of its entries in the order of the map. A key is looked up where
  \<open>lower_bound\<close> puts it, behind the entries that are below it, and it is there when it is not below
  the entry at that place; two keys of which neither is below the other are one to the map. The standard
  asks for a strict weak order; where \<^const>\<open>key_less\<close> is none on the keys in use
  (\<open>pool_key_order_broken\<close>), it promises nothing, and the search from the left is one that it allows.
\<close>

type_synonym ClientPool = "(Key \<times> Client) list"

definition pool_position :: "Key \<Rightarrow> ClientPool \<Rightarrow> nat" where
  "pool_position key clients = length (takeWhile (\<lambda>e. key_less (fst e) key) clients)"

definition pool_find :: "Key \<Rightarrow> ClientPool \<Rightarrow> nat option" where
  "pool_find key clients =
     (let i = pool_position key clients
      in if i < length clients \<and> \<not> key_less key (fst (clients ! i)) then Some i else None)"

definition ClientPool_Get :: "Key \<Rightarrow> ClientPool \<Rightarrow> Client option" where
  "ClientPool_Get key clients = map_option (\<lambda>i. snd (clients ! i)) (pool_find key clients)"

text \<open>\<open>operator[]\<close> inserts an entry where there is none; it is then assigned.\<close>

definition ClientPool_Add :: "Key \<Rightarrow> Client \<Rightarrow> ClientPool \<Rightarrow> ClientPool" where
  "ClientPool_Add key client clients =
     (case pool_find key clients of
        Some i \<Rightarrow> clients[i := (fst (clients ! i), client)]
      | None \<Rightarrow> take (pool_position key clients) clients @ (key, client) # drop (pool_position key clients) clients)"

text \<open>\<open>erase\<close> removes the entries from \<open>lower_bound\<close> up to the first that the key is below.\<close>

definition ClientPool_Remove :: "Key \<Rightarrow> ClientPool \<Rightarrow> ClientPool" where
  "ClientPool_Remove key clients =
     (let i = pool_position key clients
      in take i clients @ dropWhile (\<lambda>e. \<not> key_less key (fst e)) (drop i clients))"

text \<open>The destructor: the clients as it leaves them, which others may still point to.\<close>

definition ClientPool_destroy :: "ClientPool \<Rightarrow> ClientPool" where
  "ClientPool_destroy clients = map (\<lambda>e. (fst e, Client_Close (snd e))) clients"

lemma ClientPool_destroy_closed: "(key, c) \<in> set (ClientPool_destroy clients) \<Longrightarrow> closed c"
  by (auto simp: ClientPool_destroy_def Client_Close_def)

lemma ClientPool_Remove_absent:
  assumes "ClientPool_Get key clients = None"
  shows "ClientPool_Remove key clients = clients"
proof -
  let ?i = "pool_position key clients"
  have "dropWhile (\<lambda>e. \<not> key_less key (fst e)) (drop ?i clients) = drop ?i clients"
  proof (cases "?i < length clients")
    case True
    with assms have "key_less key (fst (clients ! ?i))"
      by (auto simp: ClientPool_Get_def pool_find_def Let_def split: if_splits)
    then show ?thesis by (simp add: Cons_nth_drop_Suc [OF True, symmetric])
  qed simp
  then show ?thesis by (simp add: ClientPool_Remove_def)
qed

record ClientSession =
  cs_content_type :: string
  cs_charset :: string
  cs_headers :: headers
  cs_ssl_verify :: bool
  cs_buffer_size :: size_t
  cs_timeout :: int
  cs_pool :: ClientPool

definition InitHeaders :: "platform \<Rightarrow> ClientSession \<Rightarrow> ClientSession" where
  "InitHeaders B s =
     s\<lparr>cs_headers :=
        Headers_Set B kConnection ''Keep-Alive''
          (Headers_Set B kAccept ''*/*''
            (Headers_Set B kAcceptEncoding ''identity''
              (Headers_Set B kUserAgent UserAgent (cs_headers s))))\<rparr>"

definition make_ClientSession :: "platform \<Rightarrow> ClientSession" where
  "make_ClientSession B = InitHeaders B
     \<lparr>cs_content_type = [], cs_charset = [], cs_headers = [], cs_ssl_verify = True, cs_buffer_size = 0,
      cs_timeout = 0, cs_pool = []\<rparr>"

definition Session_set_timeout :: "int \<Rightarrow> ClientSession \<Rightarrow> ClientSession" where
  "Session_set_timeout n s = (if n > 0 then s\<lparr>cs_timeout := n\<rparr> else s)"

definition Session_SetHeader :: "platform \<Rightarrow> string \<Rightarrow> string \<Rightarrow> ClientSession \<Rightarrow> ClientSession" where
  "Session_SetHeader B key val s = s\<lparr>cs_headers := Headers_Set B key val (cs_headers s)\<rparr>"

definition Session_Auth :: "platform \<Rightarrow> string \<Rightarrow> string \<Rightarrow> ClientSession \<Rightarrow> ClientSession" where
  "Session_Auth B type credentials s =
     s\<lparr>cs_headers := Headers_Set B kAuthorization (type @ '' '' @ credentials) (cs_headers s)\<rparr>"

definition Session_AuthBasic :: "platform \<Rightarrow> string \<Rightarrow> string \<Rightarrow> ClientSession \<Rightarrow> ClientSession option" where
  "Session_AuthBasic B login password s =
     map_option (\<lambda>credentials. Session_Auth B ''Basic'' credentials s)
       (Base64Encode_string (login @ '':'' @ password))"

definition Session_AuthToken :: "platform \<Rightarrow> string \<Rightarrow> ClientSession \<Rightarrow> ClientSession" where
  "Session_AuthToken B tok s = Session_Auth B ''Token'' tok s"

datatype thrown = WebccException Exception | StdException cxx_exn

text \<open>
  The attempts of \<open>Send\<close>: \<open>net\<close> is the network of the first, \<open>net'\<close> that of the second, which is made when
  the server has closed a connection that was kept.
\<close>

definition Send_attempts ::
  "platform \<Rightarrow> network \<Rightarrow> network \<Rightarrow> Request \<Rightarrow> bool \<Rightarrow> Client \<Rightarrow> ((cxx_exn + bool) \<times> Client) option" where
  "Send_attempts B net net' request reuse client =
     (case Client_Request B net request (\<not> reuse) client of
        None \<Rightarrow> None
      | Some (Inl x, client) \<Rightarrow> Some (Inl x, client)
      | Some (Inr ok, client) \<Rightarrow>
          if \<not> ok \<and> reuse \<and> error client = kSocketWriteError then Client_Request B net' request True client
          else Some (Inr ok, client))"

text \<open>
  \<open>Send\<close>. A client from the pool is the pool's own object, so its new state is stored in its entry.
\<close>

definition Send ::
  "platform \<Rightarrow> network \<Rightarrow> network \<Rightarrow> Request \<Rightarrow> ClientSession \<Rightarrow> ((thrown + Response) \<times> ClientSession) option" where
  "Send B net net' request s =
     (let key = make_Key (req_url request);
          found = ClientPool_Get key (cs_pool s);
          reuse = (found \<noteq> None);
          client = (case found of None \<Rightarrow> make_Client | Some client \<Rightarrow> client);
          client = client\<lparr>ssl_verify := cs_ssl_verify s\<rparr>;
          client = set_buffer_size (cs_buffer_size s) client;
          client = set_timeout (cs_timeout s) client;
          store = (\<lambda>client.
            case pool_find key (cs_pool s) of
              None \<Rightarrow> s
            | Some i \<Rightarrow> s\<lparr>cs_pool := (cs_pool s)[i := (fst (cs_pool s ! i), client)]\<rparr>)
      in case Send_attempts B net net' request reuse client of
           None \<Rightarrow> None
         | Some (Inl x, client) \<Rightarrow> Some (Inl (StdException x), store client)
         | Some (Inr ok, client) \<Rightarrow>
             if \<not> ok then
               Some (Inl (WebccException (make_Exception (error client) [] (timed_out client))),
                     if reuse then s\<lparr>cs_pool := ClientPool_Remove key (cs_pool s)\<rparr> else s)
             else
               Some (Inr (message (response_parser client)),
                     if reuse then
                       if closed client then s\<lparr>cs_pool := ClientPool_Remove key (cs_pool s)\<rparr> else store client
                     else
                       if \<not> closed client then s\<lparr>cs_pool := ClientPool_Add key client (cs_pool s)\<rparr> else s))"

text \<open>The session's headers are added to a request where they are missing.\<close>

definition default_headers :: "platform \<Rightarrow> ClientSession \<Rightarrow> Request \<Rightarrow> Request" where
  "default_headers B s request =
     (let request = fold (\<lambda>h request. if \<not> HasHeader B (fst h) request then SetHeader B (fst h) (snd h) request else request)
            (cs_headers s) request
      in if cs_content_type s \<noteq> [] \<and> \<not> HasHeader B kContentType request
         then SetContentType_charset B (cs_content_type s) (cs_charset s) request else request)"

definition Session_Request ::
  "platform \<Rightarrow> string \<Rightarrow> network \<Rightarrow> network \<Rightarrow> Request \<Rightarrow> ClientSession \<Rightarrow> ((thrown + Response) \<times> ClientSession) option" where
  "Session_Request B uuid net net' request s =
     (case Request_Prepare B uuid (default_headers B s request) of
        Inl e \<Rightarrow> Some (Inl (WebccException e), s)
      | Inr request \<Rightarrow> Send B net net' request s)"

definition Session_SetHeaders :: "string list \<Rightarrow> RequestBuilder \<Rightarrow> RequestBuilder" where
  "Session_SetHeaders hs b = fold_pairs Header hs b"

definition Session_Get ::
  "platform \<Rightarrow> string \<Rightarrow> network \<Rightarrow> network \<Rightarrow> string \<Rightarrow> string list \<Rightarrow> string list \<Rightarrow> ClientSession
    \<Rightarrow> ((thrown + Response) \<times> ClientSession) option" where
  "Session_Get B uuid net net' url parameters hs s =
     (let builder = Builder_Url url (Method kGet make_RequestBuilder);
          builder = fold_pairs Query parameters builder;
          builder = Session_SetHeaders hs builder
      in Session_Request B uuid net net' (build B builder) s)"

text \<open>\<open>Post\<close>, \<open>Put\<close> and \<open>Patch\<close> differ in the method only.\<close>

definition send_data ::
  "string \<Rightarrow> platform \<Rightarrow> string \<Rightarrow> network \<Rightarrow> network \<Rightarrow> string \<Rightarrow> string \<Rightarrow> bool \<Rightarrow> string list \<Rightarrow> ClientSession
    \<Rightarrow> ((thrown + Response) \<times> ClientSession) option" where
  "send_data method B uuid net net' url data json hs s =
     (let builder = Builder_Url url (Method method make_RequestBuilder);
          builder = Session_SetHeaders hs builder;
          builder = Json json (Builder_Data data builder)
      in Session_Request B uuid net net' (build B builder) s)"

definition Session_Post ::
  "platform \<Rightarrow> string \<Rightarrow> network \<Rightarrow> network \<Rightarrow> string \<Rightarrow> string \<Rightarrow> bool \<Rightarrow> string list \<Rightarrow> ClientSession
    \<Rightarrow> ((thrown + Response) \<times> ClientSession) option" where
  "Session_Post = send_data kPost"

definition Session_Put ::
  "platform \<Rightarrow> string \<Rightarrow> network \<Rightarrow> network \<Rightarrow> string \<Rightarrow> string \<Rightarrow> bool \<Rightarrow> string list \<Rightarrow> ClientSession
    \<Rightarrow> ((thrown + Response) \<times> ClientSession) option" where
  "Session_Put = send_data kPut"

definition Session_Patch ::
  "platform \<Rightarrow> string \<Rightarrow> network \<Rightarrow> network \<Rightarrow> string \<Rightarrow> string \<Rightarrow> bool \<Rightarrow> string list \<Rightarrow> ClientSession
    \<Rightarrow> ((thrown + Response) \<times> ClientSession) option" where
  "Session_Patch = send_data kPatch"

definition Session_Delete ::
  "platform \<Rightarrow> string \<Rightarrow> network \<Rightarrow> network \<Rightarrow> string \<Rightarrow> string list \<Rightarrow> ClientSession
    \<Rightarrow> ((thrown + Response) \<times> ClientSession) option" where
  "Session_Delete B uuid net net' url hs s =
     (let builder = Session_SetHeaders hs (Builder_Url url (Method kDelete make_RequestBuilder))
      in Session_Request B uuid net net' (build B builder) s)"

section \<open>A message in any cut\<close>

text \<open>A text that makes a fresh parser finish exactly at its end.\<close>

definition exact_text ::
  "platform \<Rightarrow> (string \<Rightarrow> 'a Message_scheme \<Rightarrow> bool \<times> 'a Message_scheme) \<Rightarrow> string \<Rightarrow> ('a, 'b) Parser_scheme \<Rightarrow> bool" where
  "exact_text B psl t p \<longleftrightarrow>
     \<not> header_ended p \<and> \<not> finished p \<and> content p = []
     \<and> (\<exists>body h. header_lines B psl (pending_data p @ t) p = (True, body, h) \<and> header_ended h \<and> \<not> chunked h
          \<and> (body \<noteq> [] \<longrightarrow> content_length_parsed h)
          \<and> (content_length_parsed h \<longrightarrow> content_length h = of_nat (length body)) \<and> length body < 2 ^ 62)"

lemma exact_text_prefix:
  assumes e: "exact_text B psl (a @ b) p" and b: "b \<noteq> []"
  shows "\<exists>q. Parse B psl (ParseContent B) a p = Some (Inr (True, q)) \<and> \<not> finished q \<and> (header_ended q \<longrightarrow> \<not> chunked q)"
proof -
  from e obtain body h where all: "header_lines B psl ((pending_data p @ a) @ b) p = (True, body, h)"
    and h: "header_ended h" "\<not> chunked h" "body \<noteq> [] \<longrightarrow> content_length_parsed h"
      "content_length_parsed h \<longrightarrow> content_length h = of_nat (length body)" "length body < 2 ^ 62"
    and p: "\<not> header_ended p" "\<not> finished p" "content p = []"
    by (auto simp: exact_text_def)
  obtain ok r q where l: "header_lines B psl (pending_data p @ a) p = (ok, r, q)" by (metis prod_cases3)
  with all header_lines_append [OF p(1), of B psl "pending_data p @ a" b] have ok: "ok"
    by (auto split: if_splits)
  have ph: "ParseHeaders B psl (p\<lparr>pending_data := pending_data p @ a\<rparr>) = (True, q\<lparr>pending_data := r\<rparr>)"
    using l ok by (simp add: ParseHeaders_header_lines header_lines_pending)
  note fl = header_lines_flags [OF l]
  show ?thesis
  proof (cases "header_ended q")
    case False
    with ph p fl show ?thesis by (simp add: Parse_def)
  next
    case True
    with all l ok header_lines_append [OF p(1), of B psl "pending_data p @ a" b]
    have body: "body = r @ b" and q: "h = q" by auto
    have len: "unat (of_nat (length body) :: size_t) = length body" "(of_nat (length body) :: size_t) \<noteq> kInvalidLength"
      using size_t_valid [OF h(5)] by auto
    have "content q = []" "content_length_parsed q" "content_length q = of_nat (length body)"
      using fl p h body b q by auto
    with len body b have "ParseFixedContent B [] (q\<lparr>pending_data := r\<rparr>) = (True, q\<lparr>pending_data := [], content := r\<rparr>)"
      by (simp add: ParseFixedContent_append IsContentFull_def Let_def)
    with True ph p h q fl show ?thesis by (simp add: Parse_def ParseContent_def)
  qed
qed

lemma feed_prefix:
  assumes "exact_text B psl (concat ds @ b) p" "b \<noteq> []"
  shows "\<exists>q. feed (Parse B psl (ParseContent B)) ds p = Some (Inr (True, q)) \<and> \<not> finished q \<and> (header_ended q \<longrightarrow> \<not> chunked q)"
  using assms
proof (induction ds arbitrary: b rule: rev_induct)
  case Nil
  then show ?case using exact_text_prefix [of B psl "[]" b p]
    by (auto simp: exact_text_def)
next
  case (snoc d ds)
  then obtain q where q: "feed (Parse B psl (ParseContent B)) ds p = Some (Inr (True, q))" "\<not> finished q" "header_ended q \<longrightarrow> \<not> chunked q"
    by force
  from snoc.prems obtain q' where q': "Parse B psl (ParseContent B) (concat ds @ d) p = Some (Inr (True, q'))"
      "\<not> finished q'" "header_ended q' \<longrightarrow> \<not> chunked q'"
    using exact_text_prefix [of B psl "concat ds @ d" b p] by auto
  with pc.feed_Parse [OF q(1,2), of d] q(3) have "Parse B psl (ParseContent B) d q = Some (Inr (True, q'))"
    by (intro outcome_True) auto
  with q' feed_snoc [OF q(1), of d] show ?case by auto
qed

lemma response_exact:
  assumes B: "boost_string B" and r: "response_ok B date r" and st: "res_status r = status_code s"
  shows "exact_text B (Response_ParseStartLine B) (CopyPayload (Response_Prepare B date r)) (make_Parser (empty_Response 200))"
  using response_header_lines [OF B r st] Response_Prepare_headers [OF B r] r
  by (simp add: exact_text_def make_Parser_def response_ok_def)

section \<open>Reading a response\<close>

text \<open>The data of the reads in a list of completions, and the completions of an undisturbed exchange.\<close>

fun read_data :: "completion list \<Rightarrow> string list" where
  "read_data [] = []"
| "read_data (TimerDone aborted expired # cs) = read_data cs"
| "read_data (ReadDone ec data # cs) = data # read_data cs"

fun undisturbed :: "completion \<Rightarrow> bool" where
  "undisturbed (TimerDone aborted expired) = (aborted \<or> \<not> expired)"
| "undisturbed (ReadDone ec data) = (\<not> ec \<and> data \<noteq> [])"

lemma OnTimer_undisturbed:
  "undisturbed (TimerDone aborted expired) \<Longrightarrow> \<not> closed c \<Longrightarrow>
     \<exists>n. OnTimer aborted expired c = c\<lparr>timer_waits := n\<rparr>"
proof -
  assume "undisturbed (TimerDone aborted expired)" "\<not> closed c"
  moreover have "c\<lparr>timer_waits := timer_waits c\<rparr> = c" by simp
  ultimately show ?thesis
    by (cases aborted) (auto simp: OnTimer_def DoWaitTimer_def intro: exI [of _ "timer_waits c"])
qed

lemma DoReadResponse_exact:
  assumes "exact_text B (Response_ParseStartLine B) (concat ds @ concat (read_data cs)) p"
    and "feed (ResponseParser_Parse B) ds p = Some (Inr (True, response_parser c))"
    and "\<not> finished (response_parser c)" "header_ended (response_parser c) \<longrightarrow> \<not> chunked (response_parser c)"
    and "ResponseParser_Parse B (concat ds @ concat (read_data cs)) p = Some (Inr (True, q))" "finished q"
    and "list_all undisturbed cs" "read_data cs \<noteq> []" "\<not> closed c"
  shows "\<exists>c'. DoReadResponse B cs err c = Some (Inr err, c') \<and> response_parser c' = q
    \<and> closed c' = (\<not> IsConnectionKeepAlive B (message q)) \<and> timed_out c' = timed_out c"
  using assms
proof (induction cs arbitrary: c ds)
  case (Cons x cs)
  show ?case
  proof (cases x)
    case (TimerDone aborted expired)
    with OnTimer_undisturbed [of aborted expired "c\<lparr>timer_waits := timer_waits c - 1\<rparr>"] Cons.prems obtain n where
      n: "OnTimer aborted expired (c\<lparr>timer_waits := timer_waits c - 1\<rparr>) = c\<lparr>timer_waits := n\<rparr>" by auto
    show ?thesis
    proof (cases "timer_waits c = 0")
      case True
      with TimerDone Cons.prems Cons.IH [of ds c] show ?thesis by simp
    next
      case False
      with TimerDone Cons.prems Cons.IH [of ds "c\<lparr>timer_waits := n\<rparr>"] n show ?thesis by simp
    qed
  next
    case (ReadDone ec data)
    let ?c = "CancelTimer c"
    have ec: "\<not> ec" "data \<noteq> []" using Cons.prems ReadDone by auto
    have cc: "response_parser ?c = response_parser c" "closed ?c = closed c" "timed_out ?c = timed_out c"
      by (simp_all add: CancelTimer_def)
    have step: "outcome (ResponseParser_Parse B data (response_parser c)) = outcome (ResponseParser_Parse B (concat ds @ data) p)"
      using Cons.prems(2-4) unfolding ResponseParser_Parse_def by (intro pc.feed_Parse) auto
    show ?thesis
    proof (cases "concat (read_data cs) = []")
      case True
      with Cons.prems(5) ReadDone have "ResponseParser_Parse B (concat ds @ data) p = Some (Inr (True, q))" by simp
      with step have "ResponseParser_Parse B data (response_parser c) = Some (Inr (True, q))" by (metis outcome_True)
      with ReadDone ec cc Cons.prems(6,9) show ?thesis by (simp add: Client_Close_def Let_def)
    next
      case False
      with Cons.prems(1) ReadDone obtain p' where p': "feed (ResponseParser_Parse B) (ds @ [data]) p = Some (Inr (True, p'))"
          "\<not> finished p'" "header_ended p' \<longrightarrow> \<not> chunked p'"
        using feed_prefix [of B "Response_ParseStartLine B" "ds @ [data]" "concat (read_data cs)" p]
        unfolding ResponseParser_Parse_def by auto
      with feed_snoc [OF Cons.prems(2), of data] have "ResponseParser_Parse B data (response_parser c) = Some (Inr (True, p'))"
        by (auto split: option.splits sum.splits prod.splits bool.splits)
      moreover have "read_data cs \<noteq> []" using False by auto
      ultimately show ?thesis
        using Cons.IH [of "ds @ [data]" "?c\<lparr>response_parser := p'\<rparr>"] Cons.prems p' ReadDone ec cc by simp
    qed
  qed
qed simp

lemma ResponseParser_Init_fresh [simp]: "ResponseParser_Init r p = make_Parser r"
  by (simp add: ResponseParser_Init_def Parser_Init_def Reset_def make_Parser_def)

lemma IsConnectionKeepAlive_headers:
  "msg_headers m = msg_headers m' \<Longrightarrow> IsConnectionKeepAlive B m = IsConnectionKeepAlive B m'"
  by (simp add: IsConnectionKeepAlive_def GetHeader_def)

text \<open>The network takes a request: the host resolves, accepts a connection if one is needed, and the bytes go out.\<close>

definition delivers :: "network \<Rightarrow> Request \<Rightarrow> bool \<Rightarrow> bool" where
  "delivers net request connect \<longleftrightarrow>
     (connect \<longrightarrow>
        net_resolve net (url_host (req_url request))
          (port (if url_scheme (req_url request) = ''https'' then kPort443 else kPort80) request)
        \<and> net_connect net (url_scheme (req_url request) = ''https'') (url_host (req_url request)))
     \<and> net_write net (CopyPayload request)"

lemma resize_buffer:
  "(if buffer_length c \<noteq> buffer_size c then c\<lparr>buffer_length := buffer_size c\<rparr> else c) = c\<lparr>buffer_length := buffer_size c\<rparr>"
proof -
  have "c = c\<lparr>buffer_length := buffer_length c\<rparr>" by simp
  then show ?thesis by (cases "buffer_length c = buffer_size c") auto
qed

lemma Connect_delivered:
  "delivers net request connect \<Longrightarrow>
     (if connect then Connect net request c else (kNoError, c)) =
       (kNoError, c\<lparr>socket_ssl := (if connect then url_scheme (req_url request) = ''https'' else socket_ssl c)\<rparr>)"
  by (cases "url_scheme (req_url request) = ''https''") (simp_all add: delivers_def Connect_def DoConnect_def)

text \<open>A request that is delivered: what is left is to read the response, with a fresh parser and an armed timer.\<close>

lemma Client_Request_delivered:
  assumes "delivers net request connect"
  shows "\<exists>c1. response_parser c1 = make_Parser (empty_Response 200) \<and> \<not> closed c1 \<and> \<not> timed_out c1
      \<and> \<not> timer_canceled c1 \<and> timer_waits c1 = timer_waits c + 1
      \<and> Client_Request B net request connect c =
          (case DoReadResponse B (net_completions net (CopyPayload request)) kNoError c1 of
             None \<Rightarrow> None
           | Some (Inl x, c) \<Rightarrow> Some (Inl x, c)
           | Some (Inr e, c) \<Rightarrow> Some (Inr (e = kNoError), c\<lparr>error := e\<rparr>))"
proof -
  let ?c = "c\<lparr>response_parser := make_Parser (empty_Response 200), closed := False, timer_canceled := False,
      timed_out := False, buffer_length := buffer_size c\<rparr>"
  let ?ssl = "if connect then url_scheme (req_url request) = ''https'' else socket_ssl c"
  have "Client_Request B net request connect c =
      (case ReadResponse B (net_completions net (CopyPayload request)) (?c\<lparr>socket_ssl := ?ssl, error := kNoError\<rparr>) of
         None \<Rightarrow> None
       | Some (Inl x, c) \<Rightarrow> Some (Inl x, c)
       | Some (Inr e, c) \<Rightarrow> Some (Inr (e = kNoError), c\<lparr>error := e\<rparr>))"
    using assms unfolding Client_Request_def Let_def resize_buffer
    by (simp add: delivers_def WriteReqeust_def Connect_delivered)
  then show ?thesis
    by (intro exI [of _ "DoWaitTimer (?c\<lparr>socket_ssl := ?ssl, error := kNoError\<rparr>)"]) (simp add: ReadResponse_def DoWaitTimer_def)
qed

lemma client_reads:
  "boost_string B \<Longrightarrow> response_ok B date r \<Longrightarrow> res_status r = status_code st \<Longrightarrow> delivers net request connect \<Longrightarrow>
     net_completions net (CopyPayload request) = cs \<Longrightarrow> list_all undisturbed cs \<Longrightarrow>
     concat (read_data cs) = CopyPayload (Response_Prepare B date r) \<Longrightarrow>
     \<exists>c'. Client_Request B net request connect c = Some (Inr True, c') \<and> error c' = kNoError \<and> \<not> timed_out c'
       \<and> res_status (message (response_parser c')) = res_status r
       \<and> msg_content (message (response_parser c')) = msg_content r
       \<and> msg_headers (message (response_parser c')) = msg_headers (Response_Prepare B date r)
       \<and> closed c' = (\<not> IsConnectionKeepAlive B (Response_Prepare B date r))"
proof -
  assume B: "boost_string B" and r: "response_ok B date r" and st: "res_status r = status_code st"
    and net: "delivers net request connect" "net_completions net (CopyPayload request) = cs"
    and cs: "list_all undisturbed cs" "concat (read_data cs) = CopyPayload (Response_Prepare B date r)"
  from response_text_parse [OF B r st] obtain q where
    q: "ResponseParser_Parse B (concat (read_data cs)) (make_Parser (empty_Response 200)) = Some (Inr (True, q))" "finished q"
      "res_status (message q) = res_status r" "msg_content (message q) = msg_content r"
      "msg_headers (message q) = msg_headers (Response_Prepare B date r)"
    unfolding cs(2) by blast
  from Client_Request_delivered [OF net(1), of c B] obtain c1 where
    c1: "response_parser c1 = make_Parser (empty_Response 200)" "\<not> closed c1" "\<not> timed_out c1"
      "Client_Request B net request connect c =
          (case DoReadResponse B cs kNoError c1 of None \<Rightarrow> None
           | Some (Inl x, c) \<Rightarrow> Some (Inl x, c) | Some (Inr e, c) \<Rightarrow> Some (Inr (e = kNoError), c\<lparr>error := e\<rparr>))"
    using net(2) by auto
  have "msg_start_line r = []" using r by (simp add: response_ok_def)
  with cs(2) have "read_data cs \<noteq> []"
    using status_string_line [of "res_status r"] by (auto simp: CopyPayload_Response_Prepare)
  then obtain c' where "DoReadResponse B cs kNoError c1 = Some (Inr kNoError, c')" "response_parser c' = q"
      "closed c' = (\<not> IsConnectionKeepAlive B (message q))" "timed_out c' = timed_out c1"
    using DoReadResponse_exact [of B "[]" cs "make_Parser (empty_Response 200)" c1 q kNoError]
      response_exact [OF B r st] q c1 cs by (auto simp: make_Parser_def)
  with c1 q IsConnectionKeepAlive_headers [OF q(5)] show ?thesis by auto
qed

text \<open>
  C24. A client gets the response that the server sends: when the network delivers the request, and
  then the bytes of a prepared response in any cut, with any completions of the timer before its
  deadline in between, \<open>Request\<close> returns true with the status, headers and content of that response,
  and the connection is kept exactly if the response says so.
\<close>

theorem client_reads_response:
  "boost_string B \<Longrightarrow> response_ok B date r \<Longrightarrow> res_status r = status_code st \<Longrightarrow> delivers net request connect \<Longrightarrow>
     net_completions net (CopyPayload request) = cs \<Longrightarrow> list_all undisturbed cs \<Longrightarrow>
     concat (read_data cs) = CopyPayload (Response_Prepare B date r) \<Longrightarrow>
     \<exists>c'. Client_Request B net request connect c = Some (Inr True, c') \<and> error c' = kNoError \<and> \<not> timed_out c'
       \<and> res_status (message (response_parser c')) = res_status r
       \<and> msg_content (message (response_parser c')) = msg_content r
       \<and> msg_headers (message (response_parser c')) = msg_headers (Response_Prepare B date r)
       \<and> closed c' = (\<not> IsConnectionKeepAlive B (Response_Prepare B date r))"
  by (rule client_reads)

definition sample_response :: Response where
  "sample_response = (empty_Response 201)\<lparr>msg_content := ''hi'', msg_headers := [(''Content-Length'', ''2'')]\<rparr>"

lemma sample_response_ok: "response_ok reference_platform ''today'' sample_response"
  by (auto simp: sample_response_def response_ok_def empty_Response_def headers_inv_def header_ok_def key_ok_def value_ok_def
    token_def isspace_def header_accept_def has_length_def header_name_defs to_string.simps digit_char_def
    char_of_def bit_0 reference_platform_def unat_of_nat)

text \<open>A network that delivers everything and answers with the sample response in two pieces.\<close>

definition sample_completions :: "completion list" where
  "sample_completions =
     (let t = CopyPayload (Response_Prepare reference_platform ''today'' sample_response)
      in [TimerDone False False, ReadDone False (take 1 t), TimerDone True False, ReadDone False (drop 1 t)])"

definition sample_network :: network where
  "sample_network = \<lparr>net_resolve = (\<lambda>_ _. True), net_connect = (\<lambda>_ _. True), net_write = (\<lambda>_. True),
     net_completions = (\<lambda>_. sample_completions)\<rparr>"

lemma sample_completions_ok:
  "list_all undisturbed sample_completions"
  "concat (read_data sample_completions) = CopyPayload (Response_Prepare reference_platform ''today'' sample_response)"
  by (simp_all add: sample_completions_def sample_response_def empty_Response_def CopyPayload_Response_Prepare
    status_string_def Let_def)

theorem client_reads_response_witness:
  "\<exists>c'. Client_Request reference_platform sample_network empty_Request True make_Client = Some (Inr True, c')
     \<and> res_status (message (response_parser c')) = 201 \<and> msg_content (message (response_parser c')) = ''hi''"
proof -
  have "delivers sample_network empty_Request True" by (simp add: delivers_def sample_network_def)
  moreover have "net_completions sample_network (CopyPayload empty_Request) = sample_completions"
    by (simp add: sample_network_def)
  ultimately show ?thesis
    using client_reads_response [OF ref.boost_string_axioms sample_response_ok, of kCreated sample_network empty_Request True
        sample_completions make_Client] sample_completions_ok
    by (auto simp: sample_response_def empty_Response_def)
qed

section \<open>Timeouts\<close>

lemma DoReadResponse_timeout:
  "timer_waits c > 0 \<Longrightarrow> \<not> closed c \<Longrightarrow>
     DoReadResponse B (replicate n (TimerDone False False) @ TimerDone False True # rest) err c
       = DoReadResponse B rest err (c\<lparr>timer_waits := timer_waits c - 1, timed_out := True, closed := True\<rparr>)"
  by (induction n) (simp_all add: OnTimer_def DoWaitTimer_def Client_Close_def)

lemma sent_in_vain:
  "delivers net request (ClientPool_Get (make_Key (req_url request)) (cs_pool s) = None) \<Longrightarrow>
     net_completions net (CopyPayload request) =
       replicate n (TimerDone False False) @ [TimerDone False True, ReadDone True []] \<Longrightarrow>
     Send B net net' request s =
       Some (Inl (WebccException (make_Exception kSocketReadError [] True)),
             s\<lparr>cs_pool := ClientPool_Remove (make_Key (req_url request)) (cs_pool s)\<rparr>)"
proof -
  let ?key = "make_Key (req_url request)"
  assume d: "delivers net request (ClientPool_Get ?key (cs_pool s) = None)"
    and cs: "net_completions net (CopyPayload request) = replicate n (TimerDone False False) @ [TimerDone False True, ReadDone True []]"
  have req: "\<exists>c'. Client_Request B net request (ClientPool_Get ?key (cs_pool s) = None) c = Some (Inr False, c')
      \<and> error c' = kSocketReadError \<and> timed_out c'" for c
    using Client_Request_delivered [OF d, of c B]
    by (auto simp: cs DoReadResponse_timeout CancelTimer_def Client_Close_def Let_def)
  let ?c = "set_timeout (cs_timeout s) (set_buffer_size (cs_buffer_size s)
      ((case ClientPool_Get ?key (cs_pool s) of None \<Rightarrow> make_Client | Some client \<Rightarrow> client)\<lparr>ssl_verify := cs_ssl_verify s\<rparr>))"
  from req [of ?c] obtain c' where "Client_Request B net request (ClientPool_Get ?key (cs_pool s) = None) ?c = Some (Inr False, c')"
      "error c' = kSocketReadError" "timed_out c'" by blast
  then show ?thesis using ClientPool_Remove_absent [of ?key "cs_pool s"]
    by (auto simp: Send_def Send_attempts_def Let_def split: option.splits)
qed

text \<open>
  C26. A response that does not start before the deadline is an error: the timer closes the socket, the
  read is aborted, and \<open>Send\<close> throws a read error marked as a timeout; a connection from the pool is
  taken out of it.
\<close>

theorem send_timeout:
  "delivers net request (ClientPool_Get (make_Key (req_url request)) (cs_pool s) = None) \<Longrightarrow>
     net_completions net (CopyPayload request) =
       replicate n (TimerDone False False) @ [TimerDone False True, ReadDone True []] \<Longrightarrow>
     Send B net net' request s =
       Some (Inl (WebccException (make_Exception kSocketReadError [] True)),
             s\<lparr>cs_pool := ClientPool_Remove (make_Key (req_url request)) (cs_pool s)\<rparr>)"
  by (rule sent_in_vain)

definition silent_network :: network where
  "silent_network = sample_network\<lparr>net_completions := (\<lambda>_. [TimerDone False True, ReadDone True []])\<rparr>"

theorem send_timeout_witness:
  "\<exists>s. Send reference_platform silent_network sample_network empty_Request (make_ClientSession reference_platform)
     = Some (Inl (WebccException (make_Exception kSocketReadError [] True)), s)"
  using send_timeout [of silent_network empty_Request "make_ClientSession reference_platform" 0]
  by (simp add: silent_network_def sample_network_def delivers_def)

text \<open>
  Data that has already arrived when the deadline passes turns the timeout into a success: the
  timer closes the socket, the completed read is parsed, and since the client is closed it stops there.
  \<open>Request\<close> returns true without an error, with a response that is not complete.
\<close>

lemma timeout_race_reports_success:
  "delivers net request connect \<Longrightarrow>
     net_completions net (CopyPayload request) = TimerDone False True # ReadDone False data # rest \<Longrightarrow> data \<noteq> [] \<Longrightarrow>
     ResponseParser_Parse B data (make_Parser (empty_Response 200)) = Some (Inr (True, q)) \<Longrightarrow> \<not> finished q \<Longrightarrow>
     \<exists>c'. Client_Request B net request connect c = Some (Inr True, c') \<and> error c' = kNoError
       \<and> response_parser c' = q \<and> closed c' \<and> timed_out c'"
  using Client_Request_delivered [of net request connect c B]
  by (auto simp: OnTimer_def CancelTimer_def Client_Close_def Let_def)


section \<open>The connections of a session\<close>

lemma Client_Request_failed_or_open:
  "Client_Request B net request connect c = Some (Inr ok, c') \<Longrightarrow> (ok \<longleftrightarrow> error c' = kNoError)"
  by (auto simp: Client_Request_def Let_def split: prod.splits if_splits option.splits sum.splits)

lemma Send_attempts_error:
  "Send_attempts B net net' request reuse c = Some (Inr ok, c') \<Longrightarrow> (ok \<longleftrightarrow> error c' = kNoError)"
  by (auto simp: Send_attempts_def split: prod.splits if_splits option.splits sum.splits
    dest: Client_Request_failed_or_open)

definition pool_open :: "ClientSession \<Rightarrow> bool" where
  "pool_open s \<longleftrightarrow> (\<forall>e \<in> set (cs_pool s). \<not> closed (snd e))"

text \<open>
  The order of the pool is none on all keys: each of two keys can be below the other, as soon as one
  has the smaller scheme and the other the smaller host.
\<close>

lemma pool_key_order_broken:
  "key_less \<lparr>key_scheme = ''http'', key_host = ''b'', key_port = []\<rparr> \<lparr>key_scheme = ''https'', key_host = ''a'', key_port = []\<rparr>
   \<and> key_less \<lparr>key_scheme = ''https'', key_host = ''a'', key_port = []\<rparr> \<lparr>key_scheme = ''http'', key_host = ''b'', key_port = []\<rparr>"
  by (simp add: key_less_def)

text \<open>On keys of which no two are below each other it is one.\<close>

definition keys_ordered :: "Key set \<Rightarrow> bool" where
  "keys_ordered K \<longleftrightarrow> (\<forall>k \<in> K. \<forall>l \<in> K. key_less k l \<longrightarrow> \<not> key_less l k)"

abbreviation pool_sorted :: "ClientPool \<Rightarrow> bool" where
  "pool_sorted clients \<equiv> sorted_wrt key_less (map fst clients)"

lemma string_less_irrefl: "\<not> string_less x x"
  by (induction x) auto

lemma string_less_total: "string_less x y \<or> x = y \<or> string_less y x"
proof (induction x y rule: string_less.induct)
  case (1 s)
  then show ?case by (cases s) simp_all
next
  case (3 x xs y ys)
  have "byte x < byte y \<or> x = y \<or> byte y < byte x" by (metis byte_eq_iff linorder_less_linear)
  with 3 show ?case by auto
qed simp

lemma string_less_trans: "string_less x y \<Longrightarrow> string_less y z \<Longrightarrow> string_less x z"
proof (induction x y arbitrary: z rule: string_less.induct)
  case (3 x xs y ys)
  then show ?case by (cases z) auto
next
  case (2 y ys)
  then show ?case by (cases z) simp_all
qed simp

lemma pool_less_irrefl: "\<not> key_less k k"
  by (simp add: key_less_def string_less_irrefl)

lemma pool_less_total: "\<not> key_less k l \<Longrightarrow> \<not> key_less l k \<Longrightarrow> k = l"
  unfolding key_less_def by (metis Key.equality old.unit.exhaust string_less_total)

lemma string_less_not_above: "string_less x y \<Longrightarrow> \<not> string_less z y \<Longrightarrow> string_less x z"
  using string_less_total [of y z] string_less_trans by blast

lemma keys_ordered_trans:
  assumes "keys_ordered K" "k \<in> K" "l \<in> K" "m \<in> K" "key_less k l" "key_less l m"
  shows "key_less k m"
proof -
  have "\<not> key_less m l" using assms by (auto simp: keys_ordered_def)
  with assms(5) show ?thesis by (auto simp: key_less_def dest: string_less_not_above split: if_splits)
qed

text \<open>
  Where a key stands in a pool that is in order: behind the smaller keys, before the greater ones.
\<close>

lemma pool_split:
  assumes "pool_sorted es" "keys_ordered (insert key (fst ` set es))"
  obtains es1 es2 where "\<forall>e \<in> set es1. key_less (fst e) key" "\<forall>e \<in> set es2. key_less key (fst e)"
    "pool_position key es = length es1"
    "es = es1 @ es2 \<and> pool_find key es = None \<or> (\<exists>c. es = es1 @ (key, c) # es2 \<and> pool_find key es = Some (length es1))"
proof -
  define es1 where "es1 = takeWhile (\<lambda>e. key_less (fst e) key) es"
  define r where "r = dropWhile (\<lambda>e. key_less (fst e) key) es"
  have es: "es = es1 @ r" by (simp add: es1_def r_def)
  have l: "\<forall>e \<in> set es1. key_less (fst e) key" unfolding es1_def by (meson set_takeWhileD)
  have p: "pool_position key es = length es1" by (simp add: pool_position_def es1_def)
  have so: "sorted_wrt key_less (map fst r)" using assms(1) by (simp add: es sorted_wrt_append)
  have h: "r \<noteq> [] \<Longrightarrow> \<not> key_less (fst (hd r)) key" unfolding r_def by (metis hd_dropWhile dropWhile_eq_Nil_conv)
  show thesis
  proof (cases r)
    case Nil
    with es l p show thesis by (intro that [of es1 "[]"]) (auto simp: pool_find_def)
  next
    case (Cons e r')
    have e: "fst e = key \<or> key_less key (fst e)" using h Cons pool_less_total [of "fst e" key] by auto
    have g: "\<forall>f \<in> set r'. key_less key (fst f)"
    proof
      fix f assume f: "f \<in> set r'"
      with so Cons have "key_less (fst e) (fst f)" by auto
      with e f keys_ordered_trans [OF assms(2), of key "fst e" "fst f"] show "key_less key (fst f)"
        using es Cons by auto
    qed
    show thesis
    proof (cases "fst e = key")
      case True
      then show thesis using es l p g Cons
        by (intro that [of es1 r']) (auto simp: pool_find_def nth_append pool_less_irrefl intro: exI [of _ "snd e"])
    next
      case False
      then show thesis using es l p g e Cons by (intro that [of es1 r]) (auto simp: pool_find_def nth_append)
    qed
  qed
qed

lemma key_not_below:
  "\<forall>e \<in> set es. key_less (fst e) key \<Longrightarrow> map_of es key = None" "\<forall>e \<in> set es. key_less key (fst e) \<Longrightarrow> map_of es key = None"
  using pool_less_irrefl by (force simp: map_of_eq_None_iff)+

text \<open>So the pool is a finite map while its keys are ordered.\<close>

lemma pool_refines_map:
  assumes "pool_sorted es" "keys_ordered (insert key (fst ` set es))"
  shows "ClientPool_Get key es = map_of es key"
    and "map_of (ClientPool_Add key c es) = (map_of es)(key \<mapsto> c)" "pool_sorted (ClientPool_Add key c es)"
    and "map_of (ClientPool_Remove key es) = (map_of es)(key := None)" "pool_sorted (ClientPool_Remove key es)"
proof -
  from pool_split [OF assms] obtain es1 es2 where
    l: "\<forall>e \<in> set es1. key_less (fst e) key" and g: "\<forall>e \<in> set es2. key_less key (fst e)"
    and p: "pool_position key es = length es1"
    and es: "es = es1 @ es2 \<and> pool_find key es = None \<or> (\<exists>d. es = es1 @ (key, d) # es2 \<and> pool_find key es = Some (length es1))"
    by metis
  note m = key_not_below(1) [OF l] key_not_below(2) [OF g]
  have t: "dropWhile (\<lambda>e. \<not> key_less key (fst e)) es2 = es2" using g by (cases es2) auto
  have lg: "key_less (fst e) (fst f)" if "e \<in> set es1" "f \<in> set es2" for e f
    using assms(1) es that by (auto simp: sorted_wrt_append)
  have so: "sorted_wrt key_less (map fst es1)" "sorted_wrt key_less (map fst es2)"
    using assms(1) es by (auto simp: sorted_wrt_append)
  show "ClientPool_Get key es = map_of es key"
    using es m by (auto simp: ClientPool_Get_def nth_append map_add_def)
  show "map_of (ClientPool_Add key c es) = (map_of es)(key \<mapsto> c)"
    using es m p by (auto simp: ClientPool_Add_def nth_append map_add_def fun_eq_iff list_update_append split: option.splits)
  show "pool_sorted (ClientPool_Add key c es)"
    using es l g lg so p by (auto simp: ClientPool_Add_def nth_append list_update_append sorted_wrt_append)
  show "map_of (ClientPool_Remove key es) = (map_of es)(key := None)"
    using es m p t by (auto simp: ClientPool_Remove_def Let_def map_add_def fun_eq_iff pool_less_irrefl split: option.splits)
  show "pool_sorted (ClientPool_Remove key es)"
    using es lg so p t by (auto simp: ClientPool_Remove_def Let_def pool_less_irrefl sorted_wrt_append)
qed

lemma pool_store:
  assumes "pool_find key es = Some i"
  shows "es[i := (fst (es ! i), c)] = ClientPool_Add key c es"
  by (simp add: ClientPool_Add_def assms)

lemma pool_entries:
  "set (ClientPool_Add key c es) \<subseteq> insert (key, c) (set es) \<union> {e. snd e = c}"
  "set (ClientPool_Remove key es) \<subseteq> set es"
proof -
  show "set (ClientPool_Add key c es) \<subseteq> insert (key, c) (set es) \<union> {e. snd e = c}"
    by (auto simp: ClientPool_Add_def dest: set_update_subset_insert [THEN subsetD] in_set_takeD in_set_dropD split: option.splits)
  show "set (ClientPool_Remove key es) \<subseteq> set es"
    by (auto simp: ClientPool_Remove_def Let_def dest!: set_dropWhileD dest: in_set_takeD in_set_dropD)
qed

text \<open>What \<open>Send\<close> does to the pool, in every case.\<close>

lemma Send_pool:
  assumes "Send B net net' request s = Some (res, s')" "key = make_Key (req_url request)"
  obtains (same) "s' = s" "ClientPool_Get key (cs_pool s) = None"
  | (removed) "s' = s\<lparr>cs_pool := ClientPool_Remove key (cs_pool s)\<rparr>" "\<And>x. res \<noteq> Inl (StdException x)"
  | (stored) c where "s' = s\<lparr>cs_pool := ClientPool_Add key c (cs_pool s)\<rparr>" "\<not> closed c"
      "res = Inr (message (response_parser c))" "error c = kNoError"
  | (failed) c x where "s' = s\<lparr>cs_pool := ClientPool_Add key c (cs_pool s)\<rparr>" "res = Inl (StdException x)"
      "ClientPool_Get key (cs_pool s) \<noteq> None"
proof (cases "pool_find key (cs_pool s)")
  case None
  then show thesis using assms that
    by (auto simp: Send_def ClientPool_Get_def Let_def split: prod.splits if_splits option.splits sum.splits
      dest: Send_attempts_error)
next
  case (Some i)
  then show thesis using assms that
    by (auto simp: Send_def ClientPool_Get_def Let_def pool_store split: prod.splits if_splits option.splits sum.splits
      dest: Send_attempts_error)
qed

text \<open>
  C25. The pool of a session only holds connections that are open: whatever a request and the network
  do, \<open>Send\<close> keeps its entries in order, changes no entry but the one of the request's host, holds only
  open connections again, and leaves an entry of that host only for the connection that has just
  delivered the response. If an exception of the standard library leaves \<open>Send\<close>, the host has an entry
  as before, but its connection may be closed. The keys in use are to be ordered by \<open>operator<\<close>, without
  which the standard promises nothing of the map (see \<open>pool_key_order_broken\<close>).
\<close>

theorem send_keeps_pool_open:
  assumes "Send B net net' request s = Some (res, s')" "key = make_Key (req_url request)"
    and "pool_open s" "pool_sorted (cs_pool s)" "keys_ordered (insert key (fst ` set (cs_pool s)))"
  shows "pool_sorted (cs_pool s') \<and> (\<forall>k. k \<noteq> key \<longrightarrow> map_of (cs_pool s') k = map_of (cs_pool s) k)
    \<and> (case res of
         Inl (StdException x) \<Rightarrow> (map_of (cs_pool s') key = None) = (map_of (cs_pool s) key = None)
       | _ \<Rightarrow> pool_open s' \<and> (\<forall>c. map_of (cs_pool s') key = Some c \<longrightarrow>
                res = Inr (message (response_parser c)) \<and> error c = kNoError))"
proof -
  note pool = pool_refines_map [OF assms(4,5)]
  from assms(1,2) show ?thesis
  proof (cases rule: Send_pool)
    case same
    with pool(1) assms show ?thesis by (auto split: sum.split thrown.split)
  next
    case removed
    with pool assms(3) show ?thesis
      by (auto simp: pool_open_def dest: pool_entries(2) [THEN subsetD] split: sum.split thrown.split)
  next
    case (stored c)
    with pool assms(3) show ?thesis
      by (auto simp: pool_open_def dest!: pool_entries(1) [THEN subsetD])
  next
    case (failed c x)
    with pool show ?thesis by simp
  qed
qed

definition sample_pool :: ClientPool where
  "sample_pool = [(\<lparr>key_scheme = [], key_host = [], key_port = []\<rparr>, make_Client\<lparr>closed := False\<rparr>),
     (\<lparr>key_scheme = ''http'', key_host = ''h'', key_port = []\<rparr>, make_Client\<lparr>closed := False\<rparr>)]"

text \<open>The request is served on the connection of the first entry, which its timer closes; the second stays.\<close>

theorem send_keeps_pool_open_witness:
  "\<exists>res s'. Send reference_platform silent_network sample_network empty_Request ((make_ClientSession reference_platform)\<lparr>cs_pool := sample_pool\<rparr>)
       = Some (res, s')
     \<and> pool_open s' \<and> map_of (cs_pool s') \<lparr>key_scheme = [], key_host = [], key_port = []\<rparr> = None
     \<and> map_of (cs_pool s') \<lparr>key_scheme = ''http'', key_host = ''h'', key_port = []\<rparr> = Some (make_Client\<lparr>closed := False\<rparr>)"
proof -
  let ?k = "make_Key (req_url empty_Request)"
  let ?s = "(make_ClientSession reference_platform)\<lparr>cs_pool := sample_pool\<rparr>"
  have k: "?k = \<lparr>key_scheme = [], key_host = [], key_port = []\<rparr>"
    by (simp add: make_Key_def empty_Request_def empty_Url_def)
  have d: "Send reference_platform silent_network sample_network empty_Request ?s =
      Some (Inl (WebccException (make_Exception kSocketReadError [] True)), ?s\<lparr>cs_pool := ClientPool_Remove ?k (cs_pool ?s)\<rparr>)"
    using sent_in_vain [of silent_network empty_Request ?s 0]
    by (simp add: silent_network_def sample_network_def delivers_def)
  from send_keeps_pool_open [OF d refl] show ?thesis
    unfolding d by (auto simp: k pool_open_def sample_pool_def keys_ordered_def key_less_def)
qed

section \<open>The headers of a session\<close>

lemma fold_default_headers:
  assumes B: "boost_string B"
  shows "headers_map (msg_headers (fold (\<lambda>h r. if \<not> HasHeader B (fst h) r then SetHeader B (fst h) (snd h) r else r) hs r))
    = headers_map hs ++ headers_map (msg_headers (r :: Request))"
proof (induction hs arbitrary: r)
  case Nil
  then show ?case by (simp add: headers_map_def)
next
  case (Cons h hs)
  have "headers_map (msg_headers (if \<not> HasHeader B (fst h) r then SetHeader B (fst h) (snd h) r else r))
      = [upper (fst h) \<mapsto> snd h] ++ headers_map (msg_headers r)"
    by (auto simp: HasHeader_def boost_string.Headers_Has_map [OF B] boost_string.headers_map_Set [OF B] map_add_def fun_eq_iff
      split: option.splits)
  moreover have "headers_map (h # hs) = headers_map hs ++ [upper (fst h) \<mapsto> snd h]"
    by (cases h) (simp add: headers_map_def fun_eq_iff)
  ultimately show ?case using Cons by (simp only: fold_simps map_add_assoc)
qed

lemma fold_default_frame:
  "let r' = fold (\<lambda>h r. if \<not> HasHeader B (fst h) r then SetHeader B (fst h) (snd h) r else r) hs (r :: Request)
   in req_method r' = req_method r \<and> req_url r' = req_url r \<and> msg_content r' = msg_content r
      \<and> req_form_parts r' = req_form_parts r \<and> msg_start_line r' = msg_start_line r"
  by (induction hs arbitrary: r) (simp_all add: Let_def)

text \<open>
  A session completes a request and never overrides it: the headers that go out are the session's
  with those of the request on top, names compared without case; the session's content type is used
  only if neither sets one; method, URL and content stay as they are.
\<close>

lemma session_default_headers:
  "boost_string B \<Longrightarrow> m = headers_map (cs_headers s) ++ headers_map (msg_headers r) \<Longrightarrow>
     headers_map (msg_headers (default_headers B s r)) =
       (if cs_content_type s \<noteq> [] \<and> map toupper kContentType \<notin> dom m
        then m(map toupper kContentType \<mapsto> cs_content_type s @ (if cs_charset s = [] then [] else '';charset='' @ cs_charset s))
        else m)
     \<and> req_method (default_headers B s r) = req_method r \<and> req_url (default_headers B s r) = req_url r
     \<and> msg_content (default_headers B s r) = msg_content r \<and> req_form_parts (default_headers B s r) = req_form_parts r"
  using fold_default_headers [of B "cs_headers s" r] fold_default_frame [of B "cs_headers s" r]
  by (auto simp: default_headers_def Let_def SetContentType_charset_def HasHeader_def
    boost_string.Headers_Has_map boost_string.headers_map_Set)


end
