(* ===== verification/Json_Value.thy ===== *)
theory Json_Value
  imports Prelude
begin

text \<open>
  \<open>json/jsoncpp.cpp\<close>: the values that the service builds and reads, and the texts of numbers and strings.
  Arrays are lists: the program only appends to them (\<open>Json_Arrays\<close> has all operations). The members of an object are a list in the
  order of \<open>std::map\<close>, by key. Comments and offsets of a value are never read by the program and are
  left out, as are texts of two gigabytes and more. A double is its bit pattern; how the C library
  scans doubles (\<open>sscanf\<close>, extraction from a string stream) and prints them is an argument. \<open>char\<close> is signed, as on the platform of the service.
\<close>

section \<open>Values\<close>

datatype Value =
    nullValue
  | intValue int
  | uintValue nat
  | realValue "64 word"
  | stringValue string
  | booleanValue bool
  | arrayValue "Value list"
  | objectValue "(string \<times> Value) list"

type_synonym members = "(string \<times> Value) list"

datatype PrecisionType = significantDigits | decimalPlaces

record c_double =
  scan_double :: "string \<Rightarrow> 64 word option"
  stream_double :: "string \<Rightarrow> 64 word option"
  print_double :: "PrecisionType \<Rightarrow> nat \<Rightarrow> 64 word \<Rightarrow> string"

text \<open>\<open>CZString::operator<\<close>: \<open>memcmp\<close> of the common length, then the length.\<close>

fun CZString_less :: "string \<Rightarrow> string \<Rightarrow> bool" where
  "CZString_less s [] = False"
| "CZString_less [] (c # cs) = True"
| "CZString_less (b # bs) (c # cs) = (byte b < byte c \<or> b = c \<and> CZString_less bs cs)"

text \<open>\<open>resolveReference\<close>: the member of a key, inserted as null in its place if it is not there.\<close>

fun members_resolve :: "string \<Rightarrow> members \<Rightarrow> members" where
  "members_resolve key [] = [(key, nullValue)]"
| "members_resolve key ((k, v) # ms) =
     (if CZString_less k key then (k, v) # members_resolve key ms
      else if k = key then (k, v) # ms
      else (key, nullValue) # (k, v) # ms)"

definition members_find :: "string \<Rightarrow> members \<Rightarrow> Value option" where
  "members_find key ms = map_of ms key"

text \<open>Writing to the member that a reference names.\<close>

fun members_store :: "string \<Rightarrow> Value \<Rightarrow> members \<Rightarrow> members" where
  "members_store key w [] = []"
| "members_store key w ((k, v) # ms) = (if k = key then (k, w) # ms else (k, v) # members_store key w ms)"

definition resolveReference :: "string \<Rightarrow> Value \<Rightarrow> members result" where
  "resolveReference key v =
     (case v of
        nullValue \<Rightarrow> Inr (members_resolve key [])
      | objectValue ms \<Rightarrow> Inr (members_resolve key ms)
      | _ \<Rightarrow> Inl (LogicError ''in Json::Value::resolveReference(key, end): requires objectValue''))"

text \<open>\<open>json[key] = w\<close>.\<close>

definition set_member :: "string \<Rightarrow> Value \<Rightarrow> Value \<Rightarrow> Value result" where
  "set_member key w v = bind_result (resolveReference key v) (\<lambda>ms. Inr (objectValue (members_store key w ms)))"

text \<open>\<open>find\<close> and \<open>operator[]\<close> of a constant value.\<close>

definition Value_find :: "string \<Rightarrow> Value \<Rightarrow> Value option result" where
  "Value_find key v =
     (case v of
        nullValue \<Rightarrow> Inr None
      | objectValue ms \<Rightarrow> Inr (members_find key ms)
      | _ \<Rightarrow> Inl (LogicError ''in Json::Value::find(begin, end): requires objectValue or nullValue''))"

definition Value_member :: "string \<Rightarrow> Value \<Rightarrow> Value result" where
  "Value_member key v =
     bind_result (Value_find key v) (\<lambda>found. Inr (case found of None \<Rightarrow> nullValue | Some w \<Rightarrow> w))"

definition append_value :: "Value \<Rightarrow> Value \<Rightarrow> Value result" where
  "append_value w v =
     (case v of
        nullValue \<Rightarrow> Inr (arrayValue [w])
      | arrayValue vs \<Rightarrow> Inr (arrayValue (vs @ [w]))
      | _ \<Rightarrow> Inl (LogicError ''in Json::Value::operator[](ArrayIndex): requires arrayValue''))"

definition isNull :: "Value \<Rightarrow> bool" where
  "isNull v \<longleftrightarrow> v = nullValue"

section \<open>Numbers and strings as text\<close>

function uintToString :: "nat \<Rightarrow> string \<Rightarrow> string" where
  "uintToString val current =
     (let current = digit_char (val mod 10) # current; val = val div 10
      in if val \<noteq> 0 then uintToString val current else current)"
  by pat_completeness auto
termination by (relation "measure fst") auto

declare uintToString.simps [simp del]

definition valueToString_int :: "int \<Rightarrow> string" where
  "valueToString_int val =
     (if val = - (2 ^ 63) then CHR ''-'' # uintToString (2 ^ 63 - 1 + 1) []
      else if val < 0 then CHR ''-'' # uintToString (nat (- val)) []
      else uintToString (nat val) [])"

definition valueToString_uint :: "nat \<Rightarrow> string" where
  "valueToString_uint val = uintToString val []"

definition valueToString_bool :: "bool \<Rightarrow> string" where
  "valueToString_bool val = (if val then ''true'' else ''false'')"

text \<open>
  Doubles: the words for what is not finite, otherwise what \<open>snprintf\<close> prints with the given number of significant
  digits or decimal places, with a decimal point for a comma, without zeros at the end in the second case, and
  with a fraction if it looks like an integer.
\<close>

definition isfinite :: "64 word \<Rightarrow> bool" where
  "isfinite d \<longleftrightarrow> drop_bit 52 d AND 0x7FF \<noteq> 0x7FF"

definition isnan :: "64 word \<Rightarrow> bool" where
  "isnan d \<longleftrightarrow> \<not> isfinite d \<and> take_bit 52 d \<noteq> 0"

definition fixNumericLocale :: "string \<Rightarrow> string" where
  "fixNumericLocale s = map (\<lambda>c. if c = CHR '','' then CHR ''.'' else c) s"

text \<open>The characters from the end on.\<close>

fun fixZeros_loop :: "string \<Rightarrow> string" where
  "fixZeros_loop [] = []"
| "fixZeros_loop (c # cs) =
     (if c \<noteq> CHR ''0'' then c # cs
      else if cs \<noteq> [] \<and> hd cs = CHR ''.'' then c # cs
      else fixZeros_loop cs)"

definition fixZerosInTheEnd :: "string \<Rightarrow> string" where
  "fixZerosInTheEnd s = rev (fixZeros_loop (rev s))"

definition valueToString_real :: "c_double \<Rightarrow> 64 word \<Rightarrow> bool \<Rightarrow> nat \<Rightarrow> PrecisionType \<Rightarrow> string" where
  "valueToString_real D d useSpecialFloats precision precisionType =
     (if \<not> isfinite d then
        if useSpecialFloats then if isnan d then ''NaN'' else if bit d 63 then ''-Infinity'' else ''Infinity''
        else if isnan d then ''null'' else if bit d 63 then ''-1e+9999'' else ''1e+9999''
      else
        let buffer = fixNumericLocale (print_double D precisionType precision d);
            buffer = (if precisionType = decimalPlaces then fixZerosInTheEnd buffer else buffer)
        in if CHR ''.'' \<notin> set buffer \<and> CHR ''e'' \<notin> set buffer then buffer @ ''.0'' else buffer)"

definition defaultRealPrecision :: nat where
  "defaultRealPrecision = 17"

definition valueToString_double :: "c_double \<Rightarrow> 64 word \<Rightarrow> string" where
  "valueToString_double D d = valueToString_real D d False defaultRealPrecision significantDigits"

text \<open>\<open>asString\<close>.\<close>

definition asString :: "c_double \<Rightarrow> Value \<Rightarrow> string result" where
  "asString D v =
     (case v of
        nullValue \<Rightarrow> Inr []
      | stringValue s \<Rightarrow> Inr s
      | booleanValue b \<Rightarrow> Inr (if b then ''true'' else ''false'')
      | intValue n \<Rightarrow> Inr (valueToString_int n)
      | uintValue n \<Rightarrow> Inr (valueToString_uint n)
      | realValue d \<Rightarrow> Inr (valueToString_double D d)
      | _ \<Rightarrow> Inl (LogicError ''Type is not convertible to string''))"

text \<open>UTF-8, on unsigned integers; a code point beyond the last plane gives no bytes.\<close>

definition codePointToUTF8 :: "nat \<Rightarrow> string" where
  "codePointToUTF8 cp =
     (if cp \<le> 0x7f then [char_of cp]
      else if cp \<le> 0x7FF then
        [char_of (0xC0 OR (0x1f AND drop_bit 6 cp)), char_of (0x80 OR (0x3f AND cp))]
      else if cp \<le> 0xFFFF then
        [char_of (0xE0 OR (0xf AND drop_bit 12 cp)), char_of (0x80 OR (0x3f AND drop_bit 6 cp)),
         char_of (0x80 OR (0x3f AND cp))]
      else if cp \<le> 0x10FFFF then
        [char_of (0xF0 OR (0x7 AND drop_bit 18 cp)), char_of (0x80 OR (0x3f AND drop_bit 12 cp)),
         char_of (0x80 OR (0x3f AND drop_bit 6 cp)), char_of (0x80 OR (0x3f AND cp))]
      else [])"

definition REPLACEMENT_CHARACTER :: nat where
  "REPLACEMENT_CHARACTER = 0xFFFD"

text \<open>The code point at the start of a text, and how many bytes the caller's pointer moves beyond the first.\<close>

definition utf8ToCodepoint :: "string \<Rightarrow> nat \<times> nat" where
  "utf8ToCodepoint s =
     (let firstByte = byte (s ! 0)
      in if firstByte < 0x80 then (firstByte, 0)
         else if firstByte < 0xE0 then
           if length s < 2 then (REPLACEMENT_CHARACTER, 0)
           else
             let calculated = push_bit 6 (firstByte AND 0x1F) OR (byte (s ! 1) AND 0x3F)
             in (if calculated < 0x80 then REPLACEMENT_CHARACTER else calculated, 1)
         else if firstByte < 0xF0 then
           if length s < 3 then (REPLACEMENT_CHARACTER, 0)
           else
             let calculated = push_bit 12 (firstByte AND 0x0F) OR push_bit 6 (byte (s ! 1) AND 0x3F) OR (byte (s ! 2) AND 0x3F)
             in (if calculated \<ge> 0xD800 \<and> calculated \<le> 0xDFFF then REPLACEMENT_CHARACTER
                 else if calculated < 0x800 then REPLACEMENT_CHARACTER else calculated, 2)
         else if firstByte < 0xF8 then
           if length s < 4 then (REPLACEMENT_CHARACTER, 0)
           else
             let calculated = push_bit 18 (firstByte AND 0x07) OR push_bit 12 (byte (s ! 1) AND 0x3F)
                   OR push_bit 6 (byte (s ! 2) AND 0x3F) OR (byte (s ! 3) AND 0x3F)
             in (if calculated < 0x10000 then REPLACEMENT_CHARACTER else calculated, 3)
         else (REPLACEMENT_CHARACTER, 0))"

text \<open>The table \<open>hex2\<close> holds the two hexadecimal digits of every byte.\<close>

definition hex_char :: "nat \<Rightarrow> char" where
  "hex_char d = (if d < 10 then char_of (48 + d) else char_of (87 + d))"

definition hex2 :: string where
  "hex2 = concat (map (\<lambda>n. [hex_char (n div 16), hex_char (n mod 16)]) [0..<256])"

definition toHex16Bit :: "nat \<Rightarrow> string" where
  "toHex16Bit x =
     (let hi = drop_bit 8 x AND 0xff; lo = x AND 0xff
      in [hex2 ! (2 * hi), hex2 ! (2 * hi + 1), hex2 ! (2 * lo), hex2 ! (2 * lo + 1)])"

text \<open>The value of a character as a signed number.\<close>

definition schar :: "char \<Rightarrow> int" where
  "schar c = (if byte c < 128 then int (byte c) else int (byte c) - 256)"

definition isAnyCharRequiredQuoting :: "string \<Rightarrow> bool" where
  "isAnyCharRequiredQuoting s =
     list_ex (\<lambda>c. c = CHR 0x5C \<or> c = DQUOTE \<or> schar c < 32 \<or> byte c < 0x80) s"

function quote_loop :: "string \<Rightarrow> string" where
  "quote_loop [] = []"
| "quote_loop (c # s) =
     (if c = DQUOTE then [CHR 0x5C, DQUOTE] @ quote_loop s
      else if c = CHR 0x5C then [CHR 0x5C, CHR 0x5C] @ quote_loop s
      else if c = CHR 0x08 then [CHR 0x5C, CHR ''b''] @ quote_loop s
      else if c = CHR 0x0C then [CHR 0x5C, CHR ''f''] @ quote_loop s
      else if c = LF then [CHR 0x5C, CHR ''n''] @ quote_loop s
      else if c = CR then [CHR 0x5C, CHR ''r''] @ quote_loop s
      else if c = CHR 0x09 then [CHR 0x5C, CHR ''t''] @ quote_loop s
      else
        let (cp, n) = utf8ToCodepoint (c # s)
        in (if cp < 0x80 \<and> cp \<ge> 0x20 then [char_of cp]
            else if cp < 0x10000 then [CHR 0x5C, CHR ''u''] @ toHex16Bit cp
            else
              [CHR 0x5C, CHR ''u''] @ toHex16Bit (drop_bit 10 (cp - 0x10000) + 0xD800)
              @ [CHR 0x5C, CHR ''u''] @ toHex16Bit (((cp - 0x10000) AND 0x3FF) + 0xDC00))
           @ quote_loop (drop n s))"
  by pat_completeness auto
termination by (relation "measure length") auto

declare quote_loop.simps [simp del]

definition valueToQuotedStringN :: "string \<Rightarrow> string" where
  "valueToQuotedStringN s =
     (if \<not> isAnyCharRequiredQuoting s then [DQUOTE] @ s @ [DQUOTE]
      else [DQUOTE] @ quote_loop s @ [DQUOTE])"

end
