(* ===== verification/Json_Reader.thy ===== *)
theory Json_Reader
  imports Json_Value
begin

text \<open>
  \<open>OurReader\<close> of \<open>json/jsoncpp.cpp\<close> with the settings of a default \<open>CharReaderBuilder\<close>, the ones the service
  uses: comments are allowed and collected, single quotes, special floats and numeric keys are not,
  at most 1000 levels. A position is the text that is left. Error messages and offsets only go to the
  log and are left out; comments matter because \<open>setComment\<close> may throw. The mutual recursion carries
  fuel; \<open>parse\<close> gives it enough for every document.
\<close>

section \<open>Tokens\<close>

datatype TokenType =
    tokenEndOfStream | tokenObjectBegin | tokenObjectEnd | tokenArrayBegin | tokenArrayEnd | tokenString
  | tokenNumber | tokenTrue | tokenFalse | tokenNull | tokenNaN | tokenPosInf | tokenNegInf
  | tokenArraySeparator | tokenMemberSeparator | tokenComment | tokenError

record Token =
  tok_type :: TokenType
  tok_text :: string

text \<open>
  The reader: what is left of the document, what was left when the last value ended, and the
  comments collected for the next value.
\<close>

record Reader =
  rest :: string
  lastValueEnd :: "string option"
  commentsBefore :: string

definition containsNewLine :: "string \<Rightarrow> bool" where
  "containsNewLine s = list_ex (\<lambda>c. c = LF \<or> c = CR) s"

text \<open>The text between two positions.\<close>

definition between :: "string \<Rightarrow> string \<Rightarrow> string" where
  "between from_pos to_pos = take (length from_pos - length to_pos) from_pos"

definition getNextChar :: "string \<Rightarrow> char \<times> string" where
  "getNextChar s = (case s of [] \<Rightarrow> (CHR 0x00, []) | c # r \<Rightarrow> (c, r))"

definition skipSpaces :: "string \<Rightarrow> string" where
  "skipSpaces s = dropWhile (\<lambda>c. c = CHR '' '' \<or> c = CHR 0x09 \<or> c = CR \<or> c = LF) s"

definition match_text :: "string \<Rightarrow> string \<Rightarrow> bool \<times> string" where
  "match_text pattern s =
     (if length s < length pattern then (False, s)
      else if take (length pattern) s \<noteq> pattern then (False, s)
      else (True, drop (length pattern) s))"

fun normalizeEOL :: "string \<Rightarrow> string" where
  "normalizeEOL [] = []"
| "normalizeEOL (c # s) =
     (if c = CR then LF # (case s of [] \<Rightarrow> [] | d # r \<Rightarrow> if d = LF then normalizeEOL r else normalizeEOL s)
      else c # normalizeEOL s)"

fun readCStyleComment :: "string \<Rightarrow> bool \<times> string" where
  "readCStyleComment (c # d # r) = (if c = CHR ''*'' \<and> d = CHR ''/'' then (True, r) else readCStyleComment (d # r))"
| "readCStyleComment [c] = (c = CHR ''/'', [])"
| "readCStyleComment [] = (False, [])"

fun readCppStyleComment :: "string \<Rightarrow> string" where
  "readCppStyleComment [] = []"
| "readCppStyleComment (c # r) =
     (if c = LF then r
      else if c = CR then (case r of [] \<Rightarrow> [] | d # r' \<Rightarrow> if d = LF then r' else r)
      else readCppStyleComment r)"

text \<open>\<open>setComment\<close> drops one trailing line feed and insists on a slash in front.\<close>

definition setComment :: "string \<Rightarrow> unit result" where
  "setComment comment =
     (let comment = (if comment \<noteq> [] \<and> last comment = LF then butlast comment else comment)
      in if comment = [] then Inl (LogicError ''assert json failed'')
         else if comment ! 0 = CHR 0x00 \<or> comment ! 0 = CHR ''/'' then Inr ()
         else Inl (LogicError ''in Json::Value::setComment(): Comments must start with /''))"

text \<open>\<open>readComment\<close> with \<open>addComment\<close>: \<open>begin_pos\<close> is where the comment starts, \<open>rest\<close> stands behind its first character.\<close>

definition readComment :: "string \<Rightarrow> Reader \<Rightarrow> (bool \<times> Reader) result" where
  "readComment begin_pos st =
     (let (c, s) = getNextChar (rest st);
          (successful, s) = (if c = CHR ''*'' then readCStyleComment s
                             else if c = CHR ''/'' then (True, readCppStyleComment s)
                             else (False, s));
          st = st\<lparr>rest := s\<rparr>
      in if \<not> successful then Inr (False, st)
         else
           let normalized = normalizeEOL (between begin_pos s);
               same_line = (case lastValueEnd st of
                   None \<Rightarrow> False
                 | Some e \<Rightarrow> \<not> containsNewLine (between e begin_pos)
                     \<and> (c \<noteq> CHR ''*'' \<or> \<not> containsNewLine (between begin_pos s)))
           in if same_line then bind_result (setComment normalized) (\<lambda>_. Inr (True, st))
              else Inr (True, st\<lparr>commentsBefore := commentsBefore st @ normalized\<rparr>))"

fun readString :: "string \<Rightarrow> bool \<times> string" where
  "readString [] = (False, [])"
| "readString (c # r) =
     (if c = CHR 0x5C then (case r of [] \<Rightarrow> (False, []) | d # r' \<Rightarrow> readString r')
      else if c = DQUOTE then (True, r)
      else readString r)"

definition readNumber :: "bool \<Rightarrow> string \<Rightarrow> bool \<times> string" where
  "readNumber checkInf p =
     (if checkInf \<and> p \<noteq> [] \<and> hd p = CHR ''I'' then (False, tl p)
      else
        let r = dropWhile isdigit p;
            r = (if r \<noteq> [] \<and> hd r = CHR ''.'' then dropWhile isdigit (tl r) else r);
            r = (if r \<noteq> [] \<and> (hd r = CHR ''e'' \<or> hd r = CHR ''E'') then
                   let r = tl r
                   in dropWhile isdigit (if r \<noteq> [] \<and> (hd r = CHR ''+'' \<or> hd r = CHR ''-'') then tl r else r)
                 else r)
        in (True, r))"

text \<open>One case of the big switch of \<open>readToken\<close>: the type, whether it is well-formed, and the new state.\<close>

definition token_case :: "char \<Rightarrow> string \<Rightarrow> Reader \<Rightarrow> (TokenType \<times> bool \<times> Reader) result" where
  "token_case c start_pos st =
     (let plain = (\<lambda>t. Inr (t, True, st));
          step = (\<lambda>t r. Inr (t, fst r, st\<lparr>rest := snd r\<rparr>))
      in if c = CHR ''{'' then plain tokenObjectBegin
         else if c = CHR ''}'' then plain tokenObjectEnd
         else if c = CHR ''['' then plain tokenArrayBegin
         else if c = CHR '']'' then plain tokenArrayEnd
         else if c = DQUOTE then step tokenString (readString (rest st))
         else if c = CHR 0x27 \<or> c = CHR ''/'' then
           bind_result (readComment start_pos st) (\<lambda>(ok, st). Inr (tokenComment, ok, st))
         else if isdigit c then step tokenNumber (True, snd (readNumber False (rest st)))
         else if c = CHR ''-'' then
           let (ok, r) = readNumber True (rest st)
           in if ok then step tokenNumber (True, r) else step tokenNegInf (False, r)
         else if c = CHR ''t'' then step tokenTrue (match_text ''rue'' (rest st))
         else if c = CHR ''f'' then step tokenFalse (match_text ''alse'' (rest st))
         else if c = CHR ''n'' then step tokenNull (match_text ''ull'' (rest st))
         else if c = CHR '','' then plain tokenArraySeparator
         else if c = CHR '':'' then plain tokenMemberSeparator
         else if c = CHR 0x00 then plain tokenEndOfStream
         else Inr (tokenError, False, st))"

definition readToken :: "Reader \<Rightarrow> (Token \<times> Reader) result" where
  "readToken st =
     (let start_pos = skipSpaces (rest st);
          (c, s) = getNextChar start_pos
      in bind_result (token_case c start_pos (st\<lparr>rest := s\<rparr>))
           (\<lambda>(t, ok, st). Inr (\<lparr>tok_type = (if ok then t else tokenError), tok_text = between start_pos (rest st)\<rparr>, st)))"

section \<open>Numbers and strings\<close>

definition decodeDouble :: "c_double \<Rightarrow> string \<Rightarrow> Value option" where
  "decodeDouble D token = map_option realValue (scan_double D token)"

text \<open>
  The loop of \<open>decodeNumber\<close>; the accumulated value stays below \<open>2 ^ 64\<close>. \<^const>\<open>None\<close> is the way to
  \<open>decodeDouble\<close>.
\<close>

fun decodeNumber_loop :: "nat \<Rightarrow> string \<Rightarrow> nat \<Rightarrow> nat option" where
  "decodeNumber_loop maxIntegerValue [] val = Some val"
| "decodeNumber_loop maxIntegerValue (c # current) val =
     (if \<not> isdigit c then None
      else
        let threshold = maxIntegerValue div 10; digit = byte c - 48
        in if val \<ge> threshold
              \<and> (val > threshold \<or> current \<noteq> [] \<or> digit > maxIntegerValue mod 10) then None
           else decodeNumber_loop maxIntegerValue current (val * 10 + digit))"

definition decodeNumber :: "c_double \<Rightarrow> string \<Rightarrow> Value option" where
  "decodeNumber D token =
     (let isNegative = (token \<noteq> [] \<and> hd token = CHR ''-'');
          current = (if isNegative then tl token else token);
          maxIntegerValue = (if isNegative then 2 ^ 63 else 2 ^ 64 - 1)
      in case decodeNumber_loop maxIntegerValue current 0 of
           None \<Rightarrow> decodeDouble D token
         | Some val \<Rightarrow>
             Some (if isNegative then intValue (- int val)
                   else if val \<le> 2 ^ 31 - 1 then intValue (int val)
                   else uintValue val))"

definition hex_digit_val :: "char \<Rightarrow> nat option" where
  "hex_digit_val c =
     (if isdigit c then Some (byte c - 48)
      else if 97 \<le> byte c \<and> byte c \<le> 102 then Some (byte c - 97 + 10)
      else if 65 \<le> byte c \<and> byte c \<le> 70 then Some (byte c - 65 + 10)
      else None)"

fun hex_digits_val :: "string \<Rightarrow> nat \<Rightarrow> nat option" where
  "hex_digits_val [] unicode = Some unicode"
| "hex_digits_val (c # cs) unicode =
     (case hex_digit_val c of None \<Rightarrow> None | Some d \<Rightarrow> hex_digits_val cs (unicode * 16 + d))"

definition decodeUnicodeEscapeSequence :: "string \<Rightarrow> (nat \<times> string) option" where
  "decodeUnicodeEscapeSequence current =
     (if length current < 4 then None
      else map_option (\<lambda>unicode. (unicode, drop 4 current)) (hex_digits_val (take 4 current) 0))"

definition decodeUnicodeCodePoint :: "string \<Rightarrow> (nat \<times> string) option" where
  "decodeUnicodeCodePoint current =
     (case decodeUnicodeEscapeSequence current of
        None \<Rightarrow> None
      | Some (unicode, current) \<Rightarrow>
          if unicode \<ge> 0xD800 \<and> unicode \<le> 0xDBFF then
            if length current < 6 then None
            else if current ! 0 = CHR 0x5C \<and> current ! 1 = CHR ''u'' then
              (case decodeUnicodeEscapeSequence (drop 2 current) of
                 None \<Rightarrow> None
               | Some (surrogatePair, current) \<Rightarrow>
                   Some (0x10000 + push_bit 10 (unicode AND 0x3FF) + (surrogatePair AND 0x3FF), current))
            else None
          else Some (unicode, current))"

lemma decodeUnicodeCodePoint_shorter:
  "decodeUnicodeCodePoint current = Some (cp, r) \<Longrightarrow> length r < length current"
  by (auto simp: decodeUnicodeCodePoint_def decodeUnicodeEscapeSequence_def split: option.splits if_splits)

text \<open>The loop of \<open>decodeString\<close>, between the quotes.\<close>

function decodeString_loop :: "string \<Rightarrow> string \<Rightarrow> string option" where
  "decodeString_loop [] decoded = Some decoded"
| "decodeString_loop (c # current) decoded =
     (if c = DQUOTE then Some decoded
      else if c = CHR 0x5C then
        (case current of
           [] \<Rightarrow> None
         | escape # current \<Rightarrow>
             if escape = DQUOTE then decodeString_loop current (decoded @ [DQUOTE])
             else if escape = CHR ''/'' then decodeString_loop current (decoded @ [CHR ''/''])
             else if escape = CHR 0x5C then decodeString_loop current (decoded @ [CHR 0x5C])
             else if escape = CHR ''b'' then decodeString_loop current (decoded @ [CHR 0x08])
             else if escape = CHR ''f'' then decodeString_loop current (decoded @ [CHR 0x0C])
             else if escape = CHR ''n'' then decodeString_loop current (decoded @ [LF])
             else if escape = CHR ''r'' then decodeString_loop current (decoded @ [CR])
             else if escape = CHR ''t'' then decodeString_loop current (decoded @ [CHR 0x09])
             else if escape = CHR ''u'' then
               (case decodeUnicodeCodePoint current of
                  None \<Rightarrow> None
                | Some (unicode, current) \<Rightarrow> decodeString_loop current (decoded @ codePointToUTF8 unicode))
             else None)
      else decodeString_loop current (decoded @ [c]))"
  by pat_completeness auto
termination
  by (relation "measure (\<lambda>(current, decoded). length current)") (auto dest: decodeUnicodeCodePoint_shorter)

declare decodeString_loop.simps(2) [simp del]

definition decodeString :: "string \<Rightarrow> string option" where
  "decodeString token = decodeString_loop (butlast (tl token)) []"

section \<open>Tokens get the reader on\<close>

lemma getNextChar_shorter: "getNextChar s = (c, r) \<Longrightarrow> length r \<le> length s"
  by (auto simp: getNextChar_def split: list.splits)

lemma skipSpaces_shorter: "length (skipSpaces s) \<le> length s"
  by (simp add: skipSpaces_def length_dropWhile_le)

lemma readCStyleComment_shorter: "length (snd (readCStyleComment s)) \<le> length s"
  by (induction s rule: readCStyleComment.induct) auto

lemma readCppStyleComment_shorter: "length (readCppStyleComment s) \<le> length s"
  by (induction s) (auto split: list.splits)

lemma readString_shorter: "length (snd (readString s)) \<le> length s"
proof (induction s rule: readString.induct)
  case (2 c r)
  then show ?case by (cases r) (simp_all add: le_SucI)
qed simp

lemma dropWhile_tl_shorter:
  "length (dropWhile P (tl s)) \<le> length s" "length (dropWhile P (tl (tl s))) \<le> length s"
  using length_dropWhile_le [of P "tl s"] length_dropWhile_le [of P "tl (tl s)"] by auto

lemma readNumber_shorter: "length (snd (readNumber b s)) \<le> length s"
proof (cases "b \<and> s \<noteq> [] \<and> hd s = CHR ''I''")
  case False
  define r1 where "r1 = dropWhile isdigit s"
  define r2 where "r2 = (if r1 \<noteq> [] \<and> hd r1 = CHR ''.'' then dropWhile isdigit (tl r1) else r1)"
  define r3 where "r3 = (if r2 \<noteq> [] \<and> (hd r2 = CHR ''e'' \<or> hd r2 = CHR ''E'')
    then dropWhile isdigit (if tl r2 \<noteq> [] \<and> (hd (tl r2) = CHR ''+'' \<or> hd (tl r2) = CHR ''-'') then tl (tl r2) else tl r2) else r2)"
  have "length r3 \<le> length r2" unfolding r3_def using dropWhile_tl_shorter [of isdigit r2] by simp
  also have "\<dots> \<le> length r1" unfolding r2_def using dropWhile_tl_shorter [of isdigit r1] by simp
  also have "\<dots> \<le> length s" unfolding r1_def by (rule length_dropWhile_le)
  finally have "length r3 \<le> length s" .
  moreover have "snd (readNumber b s) = r3"
    using False unfolding readNumber_def Let_def r3_def r2_def r1_def by (simp only: if_False snd_conv)
  ultimately show ?thesis by simp
qed (simp add: readNumber_def)

lemma match_text_shorter: "length (snd (match_text p s)) \<le> length s"
  by (simp add: match_text_def)

lemma readComment_shorter:
  "readComment b st = Inr (ok, st') \<Longrightarrow> length (rest st') \<le> length (rest st)"
  using readCStyleComment_shorter [of "snd (getNextChar (rest st))"] readCppStyleComment_shorter [of "snd (getNextChar (rest st))"]
    getNextChar_shorter [of "rest st"]
  by (auto simp: readComment_def Let_def bind_result_Inr_iff split: prod.splits if_splits dest!: spec)

lemma token_case_shorter:
  "token_case c b st = Inr (t, ok, st') \<Longrightarrow> length (rest st') \<le> length (rest st)"
  using readString_shorter [of "rest st"] readNumber_shorter [of True "rest st"] readNumber_shorter [of False "rest st"]
    match_text_shorter [of "''rue''" "rest st"] match_text_shorter [of "''alse''" "rest st"] match_text_shorter [of "''ull''" "rest st"]
  by (auto simp: token_case_def Let_def bind_result_Inr_iff split: if_splits prod.splits dest!: readComment_shorter)

text \<open>A token that is not the end of the stream takes at least one character.\<close>

lemma readToken_shorter:
  assumes "readToken st = Inr (tok, st')"
  shows "length (rest st') \<le> length (rest st) \<and> (tok_type tok \<noteq> tokenEndOfStream \<longrightarrow> length (rest st') < length (rest st))"
proof -
  obtain c s where c: "getNextChar (skipSpaces (rest st)) = (c, s)" by force
  from assms c obtain t ok where t: "token_case c (skipSpaces (rest st)) (st\<lparr>rest := s\<rparr>) = Inr (t, ok, st')"
    and tok: "tok_type tok = (if ok then t else tokenError)"
    by (auto simp: readToken_def bind_result_Inr_iff Let_def)
  from token_case_shorter [OF t] have le: "length (rest st') \<le> length s" by simp
  show ?thesis
  proof (cases "skipSpaces (rest st)")
    case Nil
    with c have "c = CHR 0x00" "s = []" by (simp_all add: getNextChar_def)
    with t have "t = tokenEndOfStream \<and> ok" by (auto simp: token_case_def isdigit_def)
    with tok le \<open>s = []\<close> show ?thesis by simp
  next
    case (Cons a r)
    with c have "s = r" by (simp add: getNextChar_def)
    with Cons le skipSpaces_shorter [of "rest st"] show ?thesis by simp
  qed
qed

section \<open>Values\<close>

text \<open>Reading on while the token is a comment.\<close>

function skipCommentTokens :: "Reader \<Rightarrow> (Token \<times> Reader) result" where
  "skipCommentTokens st =
     (case readToken st of
        Inl e \<Rightarrow> Inl e
      | Inr (token, st) \<Rightarrow> if tok_type token = tokenComment then skipCommentTokens st else Inr (token, st))"
  by pat_completeness auto
termination by (relation "measure (\<lambda>st. length (rest st))") (auto dest: readToken_shorter)

declare skipCommentTokens.simps [simp del]

text \<open>\<open>recoverFromError\<close>: tokens are skipped up to a closing one, or to the end.\<close>

function recoverFromError :: "TokenType \<Rightarrow> Reader \<Rightarrow> Reader result" where
  "recoverFromError skipUntilToken st =
     (case readToken st of
        Inl e \<Rightarrow> Inl e
      | Inr (skip, st) \<Rightarrow>
          if tok_type skip = skipUntilToken \<or> tok_type skip = tokenEndOfStream then Inr st
          else recoverFromError skipUntilToken st)"
  by pat_completeness auto
termination by (relation "measure (\<lambda>(t, st). length (rest st))") (auto dest: readToken_shorter)

declare recoverFromError.simps [simp del]

definition bind_run :: "'a run \<Rightarrow> ('a \<Rightarrow> 'b run) \<Rightarrow> 'b run" where
  "bind_run m f = (case m of None \<Rightarrow> None | Some (Inl e) \<Rightarrow> Some (Inl e) | Some (Inr x) \<Rightarrow> f x)"

lemma bind_run_simps [simp]:
  "bind_run None f = None" "bind_run (Some (Inl e)) f = Some (Inl e)" "bind_run (Some (Inr x)) f = f x"
  by (simp_all add: bind_run_def)

text \<open>The error returns of \<open>readObject\<close> and \<open>readArray\<close>: false, after recovery.\<close>

definition fail_until :: "TokenType \<Rightarrow> 'a \<Rightarrow> Reader \<Rightarrow> (bool \<times> 'a \<times> Reader) run" where
  "fail_until t x st = bind_run (Some (recoverFromError t st)) (\<lambda>st. Some (Inr (False, x, st)))"

definition stackLimit :: nat where
  "stackLimit = 1000"

text \<open>The comments collected so far become the comment of the current value.\<close>

definition attachComments :: "Reader \<Rightarrow> Reader result" where
  "attachComments st =
     (if commentsBefore st \<noteq> [] then bind_result (setComment (commentsBefore st)) (\<lambda>_. Inr (st\<lparr>commentsBefore := []\<rparr>))
      else Inr st)"

text \<open>
  The bodies of \<open>readValue\<close>, \<open>readObject\<close> and \<open>readArray\<close>, with the loops of the latter two, over the
  recursive calls they make. \<open>nodes\<close> is the size of the stack of nodes, \<open>v\<close> the current value, \<open>name\<close> the
  name of the last member.
\<close>

type_synonym value_reader = "nat \<Rightarrow> Value \<Rightarrow> Reader \<Rightarrow> (bool \<times> Value \<times> Reader) run"
type_synonym object_reader = "nat \<Rightarrow> string \<Rightarrow> members \<Rightarrow> Reader \<Rightarrow> (bool \<times> members \<times> Reader) run"
type_synonym array_reader = "nat \<Rightarrow> Value list \<Rightarrow> Reader \<Rightarrow> (bool \<times> Value list \<times> Reader) run"

text \<open>The switch over the type of the first token of a value.\<close>

definition readValue_switch ::
  "c_double \<Rightarrow> object_reader \<Rightarrow> array_reader \<Rightarrow> nat \<Rightarrow> Value \<Rightarrow> Token \<Rightarrow> Reader \<Rightarrow> (bool \<times> Value \<times> Reader) run" where
  "readValue_switch D read_object read_array nodes v token st =
     (let finish = (\<lambda>ok v st. Some (Inr (ok, v, st\<lparr>lastValueEnd := Some (rest st)\<rparr>)))
      in if tok_type token = tokenObjectBegin then
           bind_run (read_object nodes [] [] st) (\<lambda>(ok, ms, st). finish ok (objectValue ms) st)
         else if tok_type token = tokenArrayBegin then
           let s = skipSpaces (rest st)
           in if s \<noteq> [] \<and> hd s = CHR '']'' then
                bind_run (Some (readToken (st\<lparr>rest := s\<rparr>))) (\<lambda>(endArray, st). finish True (arrayValue []) st)
              else
                bind_run (read_array nodes [] (st\<lparr>rest := s\<rparr>)) (\<lambda>(ok, vs, st). finish ok (arrayValue vs) st)
         else if tok_type token = tokenNumber then
           (case decodeNumber D (tok_text token) of None \<Rightarrow> finish False v st | Some w \<Rightarrow> finish True w st)
         else if tok_type token = tokenString then
           (case decodeString (tok_text token) of None \<Rightarrow> finish False v st | Some s \<Rightarrow> finish True (stringValue s) st)
         else if tok_type token = tokenTrue then finish True (booleanValue True) st
         else if tok_type token = tokenFalse then finish True (booleanValue False) st
         else if tok_type token = tokenNull then finish True nullValue st
         else Some (Inr (False, v, st)))"

definition readValue_body :: "c_double \<Rightarrow> object_reader \<Rightarrow> array_reader \<Rightarrow> value_reader" where
  "readValue_body D read_object read_array nodes v st =
     (if nodes > stackLimit then Some (Inl (RuntimeError ''Exceeded stackLimit in readValue().''))
      else
        bind_run (Some (skipCommentTokens st)) (\<lambda>(token, st).
        bind_run (Some (attachComments st)) (readValue_switch D read_object read_array nodes v token)))"

text \<open>A member of an object: what follows its value, and what follows its name.\<close>

definition readObject_next :: "object_reader \<Rightarrow> object_reader" where
  "readObject_next read_object nodes name ms st =
     bind_run (Some (readToken st)) (\<lambda>(comma, st).
     if tok_type comma \<notin> {tokenObjectEnd, tokenArraySeparator, tokenComment} then fail_until tokenObjectEnd ms st
     else
       bind_run (Some (if tok_type comma = tokenComment then skipCommentTokens st else Inr (comma, st))) (\<lambda>(comma, st).
       if tok_type comma = tokenObjectEnd then Some (Inr (True, ms, st))
       else read_object nodes name ms st))"

definition readObject_member :: "value_reader \<Rightarrow> object_reader \<Rightarrow> object_reader" where
  "readObject_member read_value read_object nodes name ms st =
     bind_run (Some (readToken st)) (\<lambda>(colon, st).
     if tok_type colon \<noteq> tokenMemberSeparator then fail_until tokenObjectEnd ms st
     else if length name \<ge> 2 ^ 30 then Some (Inl (RuntimeError ''keylength >= 2^30''))
     else
       let ms = members_resolve name ms
       in bind_run (read_value (nodes + 1) (case members_find name ms of None \<Rightarrow> nullValue | Some v \<Rightarrow> v) st) (\<lambda>(ok, v, st).
          let ms = members_store name v ms
          in if \<not> ok then fail_until tokenObjectEnd ms st
             else readObject_next read_object nodes name ms st))"

definition readObject_body :: "value_reader \<Rightarrow> object_reader \<Rightarrow> object_reader" where
  "readObject_body read_value read_object nodes name ms st =
     bind_run (Some (skipCommentTokens st)) (\<lambda>(tokenName, st).
     if tok_type tokenName = tokenObjectEnd \<and> name = [] then Some (Inr (True, ms, st))
     else if tok_type tokenName = tokenString then
       (case decodeString (tok_text tokenName) of
          None \<Rightarrow> fail_until tokenObjectEnd ms st
        | Some name \<Rightarrow> readObject_member read_value read_object nodes name ms st)
     else fail_until tokenObjectEnd ms st)"

definition readArray_body :: "value_reader \<Rightarrow> array_reader \<Rightarrow> array_reader" where
  "readArray_body read_value read_array nodes vs st =
     bind_run (read_value (nodes + 1) nullValue st) (\<lambda>(ok, v, st).
     let vs = vs @ [v]
     in if \<not> ok then fail_until tokenArrayEnd vs st
        else
          bind_run (Some (skipCommentTokens st)) (\<lambda>(currentToken, st).
          if tok_type currentToken \<noteq> tokenArraySeparator \<and> tok_type currentToken \<noteq> tokenArrayEnd
          then fail_until tokenArrayEnd vs st
          else if tok_type currentToken = tokenArrayEnd then Some (Inr (True, vs, st))
          else read_array nodes vs st))"

text \<open>The recursion; fuel that runs out is \<^const>\<open>None\<close>.\<close>

fun readValue :: "c_double \<Rightarrow> nat \<Rightarrow> value_reader"
  and readObject :: "c_double \<Rightarrow> nat \<Rightarrow> object_reader"
  and readArray :: "c_double \<Rightarrow> nat \<Rightarrow> array_reader" where
  "readValue D 0 = (\<lambda>nodes v st. None)"
| "readValue D (Suc fuel) = readValue_body D (readObject D fuel) (readArray D fuel)"
| "readObject D 0 = (\<lambda>nodes name ms st. None)"
| "readObject D (Suc fuel) = readObject_body (readValue D fuel) (readObject D fuel)"
| "readArray D 0 = (\<lambda>nodes vs st. None)"
| "readArray D (Suc fuel) = readArray_body (readValue D fuel) (readArray D fuel)"

text \<open>\<open>parse\<close>: the value, then tokens behind it only to collect comments. Every fuel step takes a character or a level.\<close>

definition parse_fuel :: "string \<Rightarrow> nat" where
  "parse_fuel doc = 2 * length doc + 2"

definition OurReader_parse :: "c_double \<Rightarrow> string \<Rightarrow> Value \<Rightarrow> (bool \<times> Value) run" where
  "OurReader_parse D doc root =
     bind_run (readValue D (parse_fuel doc) 1 root \<lparr>rest = doc, lastValueEnd = None, commentsBefore = []\<rparr>)
       (\<lambda>(successful, root, st).
       bind_run (Some (skipCommentTokens st)) (\<lambda>(token, st).
       bind_run (Some (attachComments st)) (\<lambda>st. Some (Inr (successful, root)))))"

definition parseFromStream :: "c_double \<Rightarrow> string \<Rightarrow> Value \<Rightarrow> (bool \<times> Value) run" where
  "parseFromStream D sin root = OurReader_parse D sin root"

section \<open>The reader always returns\<close>

lemma skipCommentTokens_shorter:
  "skipCommentTokens st = Inr (tok, st') \<Longrightarrow>
     length (rest st') \<le> length (rest st) \<and> (tok_type tok \<noteq> tokenEndOfStream \<longrightarrow> length (rest st') < length (rest st))"
proof (induction st rule: skipCommentTokens.induct)
  case (1 st)
  then obtain t s where t: "readToken st = Inr (t, s)"
    by (subst (asm) (2) skipCommentTokens.simps) (auto split: sum.splits)
  show ?case
  proof (cases "tok_type t = tokenComment")
    case True
    with 1 t have "skipCommentTokens s = Inr (tok, st')" by (subst (asm) (2) skipCommentTokens.simps) simp
    with 1 t True readToken_shorter [OF t] show ?thesis by fastforce
  next
    case False
    with 1 t have "t = tok" "s = st'" by (subst (asm) (2) skipCommentTokens.simps, simp)+
    with readToken_shorter [OF t] show ?thesis by simp
  qed
qed

lemma recoverFromError_shorter: "recoverFromError t st = Inr st' \<Longrightarrow> length (rest st') \<le> length (rest st)"
proof (induction t st rule: recoverFromError.induct)
  case (1 u st)
  then obtain t s where t: "readToken st = Inr (t, s)"
    by (subst (asm) (2) recoverFromError.simps) (auto split: sum.splits)
  show ?case
  proof (cases "tok_type t = u \<or> tok_type t = tokenEndOfStream")
    case True
    with 1 t have "s = st'" by (subst (asm) (2) recoverFromError.simps) simp
    with readToken_shorter [OF t] show ?thesis by simp
  next
    case False
    with 1 t have "recoverFromError u s = Inr st'" by (subst (asm) (2) recoverFromError.simps) simp
    with 1 t False readToken_shorter [OF t] show ?thesis by fastforce
  qed
qed

lemma attachComments_rest: "attachComments st = Inr st' \<Longrightarrow> rest st' = rest st"
  by (auto simp: attachComments_def bind_result_Inr_iff split: if_splits)

text \<open>A call that returns, and leaves at most \<open>n\<close> characters.\<close>

definition returns :: "nat \<Rightarrow> (bool \<times> 'a \<times> Reader) run \<Rightarrow> bool" where
  "returns n m \<longleftrightarrow> m \<noteq> None \<and> (\<forall>ok x st. m = Some (Inr (ok, x, st)) \<longrightarrow> length (rest st) \<le> n)"

lemma returns_intros:
  "length (rest st) \<le> n \<Longrightarrow> returns n (Some (Inr (ok, x, st)))"
  "returns n (Some (Inl e))"
  "length (rest st) \<le> n \<Longrightarrow> returns n (fail_until t x st)"
  "(\<And>y. r = Inr y \<Longrightarrow> returns n (f y)) \<Longrightarrow> returns n (bind_run (Some r) f)"
  by (auto simp: returns_def fail_until_def bind_run_def dest: recoverFromError_shorter split: sum.splits)

lemma returns_bind:
  "returns k m \<Longrightarrow> (\<And>ok x st. length (rest st) \<le> k \<Longrightarrow> returns n (f (ok, x, st))) \<Longrightarrow> returns n (bind_run m f)"
  by (auto simp: returns_def bind_run_def split: option.splits sum.splits)

lemma readValue_switch_returns:
  assumes ro: "\<And>nodes name ms st. 2 * length (rest st) + 1 \<le> fuel \<Longrightarrow> returns (length (rest st)) (read_object nodes name ms st)"
    and ra: "\<And>nodes vs st. 2 * length (rest st) + 2 \<le> fuel \<Longrightarrow> returns (length (rest st)) (read_array nodes vs st)"
    and fuel: "2 * length (rest st) + 2 \<le> fuel" and n: "length (rest st) \<le> n"
  shows "returns n (readValue_switch D read_object read_array nodes v token st)"
proof -
  define s where "s = skipSpaces (rest st)"
  have l: "length s \<le> length (rest st)" unfolding s_def by (rule skipSpaces_shorter)
  have obj: "returns (length (rest st)) (read_object nodes [] [] st)" using ro fuel by simp
  have arr: "returns (length s) (read_array nodes [] (st\<lparr>rest := s\<rparr>))"
    using ra [of "st\<lparr>rest := s\<rparr>" nodes "[]"] fuel l by simp
  have arr': "returns n (bind_run (read_array nodes [] (st\<lparr>rest := s\<rparr>))
      (\<lambda>(ok, vs, st). Some (Inr (ok, arrayValue vs, st\<lparr>lastValueEnd := Some (rest st)\<rparr>))))"
    using l n by (auto intro!: returns_intros returns_bind [OF arr])
  have tok: "returns n (bind_run (Some (readToken (st\<lparr>rest := s\<rparr>)))
      (\<lambda>(endArray, st). Some (Inr (True, arrayValue [], st\<lparr>lastValueEnd := Some (rest st)\<rparr>))))"
    using l n by (auto intro!: returns_intros dest!: readToken_shorter)
  show ?thesis
    unfolding readValue_switch_def Let_def s_def [symmetric]
    using n l tok arr'
    by (auto intro!: returns_intros returns_bind [OF obj] split: option.splits)
qed

lemma readValue_body_returns:
  assumes ro: "\<And>nodes name ms st. 2 * length (rest st) + 1 \<le> fuel \<Longrightarrow> returns (length (rest st)) (read_object nodes name ms st)"
    and ra: "\<And>nodes vs st. 2 * length (rest st) + 2 \<le> fuel \<Longrightarrow> returns (length (rest st)) (read_array nodes vs st)"
    and fuel: "2 * length (rest st) \<le> fuel"
  shows "returns (length (rest st)) (readValue_body D read_object read_array nodes v st)"
proof -
  have "returns (length (rest st)) (readValue_switch D read_object read_array nodes v token s')"
    if t: "skipCommentTokens st = Inr (token, s)" "attachComments s = Inr s'" for token s s'
  proof (cases "tok_type token = tokenEndOfStream")
    case True
    with skipCommentTokens_shorter [OF t(1)] attachComments_rest [OF t(2)] show ?thesis
      by (auto simp: readValue_switch_def intro!: returns_intros)
  next
    case False
    with skipCommentTokens_shorter [OF t(1)] attachComments_rest [OF t(2)] fuel show ?thesis
      by (intro readValue_switch_returns [OF ro ra]) auto
  qed
  then show ?thesis
    unfolding readValue_body_def by (auto intro!: returns_intros)
qed

lemma readObject_next_returns:
  assumes ro: "\<And>nodes name ms st. 2 * length (rest st) + 1 \<le> fuel \<Longrightarrow> returns (length (rest st)) (read_object nodes name ms st)"
    and fuel: "2 * length (rest st) + 1 \<le> fuel" and n: "length (rest st) \<le> n"
  shows "returns n (readObject_next read_object nodes name ms st)"
proof -
  have "returns n (read_object nodes name ms s)" if "length (rest s) \<le> length (rest st)" for s
    using ro [of s nodes name ms] fuel n that by (auto simp: returns_def intro: order_trans)
  then show ?thesis
    unfolding readObject_next_def using n
    by (auto intro!: returns_intros split: if_splits dest!: readToken_shorter skipCommentTokens_shorter)
qed

lemma readObject_member_returns:
  assumes rv: "\<And>nodes v st. 2 * length (rest st) + 1 \<le> fuel \<Longrightarrow> returns (length (rest st)) (read_value nodes v st)"
    and ro: "\<And>nodes name ms st. 2 * length (rest st) + 1 \<le> fuel \<Longrightarrow> returns (length (rest st)) (read_object nodes name ms st)"
    and fuel: "2 * length (rest st) + 1 \<le> fuel" and n: "length (rest st) \<le> n"
  shows "returns n (readObject_member read_value read_object nodes name ms st)"
proof -
  have "returns n (bind_run (read_value (nodes + 1) v s) (\<lambda>(ok, v, st).
          let ms = members_store name v ms' in if \<not> ok then fail_until tokenObjectEnd ms st
             else readObject_next read_object nodes name ms st))"
    if "length (rest s) \<le> length (rest st)" for s v ms'
    using that fuel n rv [of s]
    by (intro returns_bind [of "length (rest s)"]) (auto simp: Let_def intro!: returns_intros readObject_next_returns [OF ro])
  then show ?thesis
    unfolding readObject_member_def using n
    by (auto simp: Let_def intro!: returns_intros dest!: readToken_shorter)
qed

lemma readObject_body_returns:
  assumes rv: "\<And>nodes v st. 2 * length (rest st) + 1 \<le> fuel \<Longrightarrow> returns (length (rest st)) (read_value nodes v st)"
    and ro: "\<And>nodes name ms st. 2 * length (rest st) + 1 \<le> fuel \<Longrightarrow> returns (length (rest st)) (read_object nodes name ms st)"
    and fuel: "2 * length (rest st) \<le> fuel"
  shows "returns (length (rest st)) (readObject_body read_value read_object nodes name ms st)"
  unfolding readObject_body_def
  using fuel
  by (auto intro!: returns_intros readObject_member_returns [OF rv ro] split: option.splits dest!: skipCommentTokens_shorter)

lemma readArray_body_returns:
  assumes rv: "\<And>nodes v st. 2 * length (rest st) + 1 \<le> fuel \<Longrightarrow> returns (length (rest st)) (read_value nodes v st)"
    and ra: "\<And>nodes vs st. 2 * length (rest st) + 2 \<le> fuel \<Longrightarrow> returns (length (rest st)) (read_array nodes vs st)"
    and fuel: "2 * length (rest st) + 1 \<le> fuel"
  shows "returns (length (rest st)) (readArray_body read_value read_array nodes vs st)"
proof -
  have "returns (length (rest st)) (read_array nodes vs s)" if "length (rest s) < length (rest st)" for s vs
    using ra [of s nodes vs] fuel that by (auto simp: returns_def intro: order_trans less_imp_le)
  then show ?thesis
    unfolding readArray_body_def using fuel
    by (intro returns_bind [OF rv]) (auto simp: Let_def intro!: returns_intros dest!: skipCommentTokens_shorter)
qed

lemma read_returns:
  "(2 * length (rest st) + 1 \<le> fuel \<longrightarrow> returns (length (rest st)) (readValue D fuel nodes v st))
   \<and> (2 * length (rest st) + 1 \<le> fuel \<longrightarrow> returns (length (rest st)) (readObject D fuel nodes name ms st))
   \<and> (2 * length (rest st) + 2 \<le> fuel \<longrightarrow> returns (length (rest st)) (readArray D fuel nodes vs st))"
proof (induction fuel arbitrary: st nodes v name ms vs)
  case (Suc fuel)
  then have rv: "2 * length (rest st) + 1 \<le> fuel \<Longrightarrow> returns (length (rest st)) (readValue D fuel nodes v st)"
    and ro: "2 * length (rest st) + 1 \<le> fuel \<Longrightarrow> returns (length (rest st)) (readObject D fuel nodes name ms st)"
    and ra: "2 * length (rest st) + 2 \<le> fuel \<Longrightarrow> returns (length (rest st)) (readArray D fuel nodes vs st)"
    for st nodes v name ms vs by blast+
  show ?case
    using readValue_body_returns [where st = st and fuel = fuel, OF ro ra]
      readObject_body_returns [where st = st and fuel = fuel, OF rv ro]
      readArray_body_returns [where st = st and fuel = fuel, OF rv ra]
    by simp
qed simp

lemma OurReader_parse_returns: "\<exists>r. OurReader_parse D doc root = Some r"
proof -
  let ?st = "\<lparr>rest = doc, lastValueEnd = None, commentsBefore = []\<rparr>"
  have "returns (length doc) (readValue D (parse_fuel doc) 1 root ?st)"
    using read_returns [of ?st "parse_fuel doc"] by (simp add: parse_fuel_def)
  then show ?thesis
    by (auto simp: OurReader_parse_def returns_def bind_run_def split: option.splits sum.splits prod.splits)
qed

end
