(* ===== verification/Json_Strings.thy ===== *)
theory Json_Strings
  imports Json_Reader
begin

text \<open>
  Strings of \<open>json/jsoncpp.cpp\<close>: what the writer quotes, the reader reads back, for every text that is
  UTF-8. The proofs go through the code points of the text and the escape each is written as.
\<close>

section \<open>Bits and hexadecimal digits\<close>

lemma nat_and_masks:
  "(0x7 :: nat) AND x = x mod 8" "(0xf :: nat) AND x = x mod 16" "(0x1f :: nat) AND x = x mod 32"
  "(0x3f :: nat) AND x = x mod 64" "x AND (0x7 :: nat) = x mod 8" "x AND (0xf :: nat) = x mod 16"
  "x AND (0x1f :: nat) = x mod 32" "x AND (0x3f :: nat) = x mod 64" "x AND (0xff :: nat) = x mod 256"
  "x AND (0x3ff :: nat) = x mod 1024"
proof -
  have m: "x AND mask n = x mod 2 ^ n" for x n :: nat by (simp flip: take_bit_eq_mask add: take_bit_eq_mod)
  show "x AND (0x7 :: nat) = x mod 8" "x AND (0xf :: nat) = x mod 16" "x AND (0x1f :: nat) = x mod 32"
    "x AND (0x3f :: nat) = x mod 64" "x AND (0xff :: nat) = x mod 256" "x AND (0x3ff :: nat) = x mod 1024"
    using m [of x 3] m [of x 4] m [of x 5] m [of x 6] m [of x 8] m [of x 10] by (simp_all add: mask_eq_exp_minus_1)
  then show "(0x7 :: nat) AND x = x mod 8" "(0xf :: nat) AND x = x mod 16" "(0x1f :: nat) AND x = x mod 32"
    "(0x3f :: nat) AND x = x mod 64" by (simp_all add: and.commute)
qed

lemma push_bit_or: "b < 2 ^ n \<Longrightarrow> push_bit n a OR b = a * 2 ^ n + (b :: nat)"
proof -
  assume b: "b < 2 ^ n"
  have "push_bit n a AND b = 0"
  proof (rule bit_eqI)
    fix i
    have "take_bit n b = b" using b by (simp add: take_bit_nat_eq_self)
    then show "bit (push_bit n a AND b) i = bit 0 i"
      by (metis bit_0_eq bit_and_iff bit_push_bit_iff bit_take_bit_iff bot_apply bot_bool_def linorder_not_le)
  qed
  then show ?thesis by (metis disjunctive_add_eq_or push_bit_eq_mult)
qed

lemma or_high:
  "b < 64 \<Longrightarrow> (0x80 :: nat) OR b = 128 + b" "b < 32 \<Longrightarrow> (0xC0 :: nat) OR b = 192 + b"
  "b < 16 \<Longrightarrow> (0xE0 :: nat) OR b = 224 + b" "b < 8 \<Longrightarrow> (0xF0 :: nat) OR b = 240 + b"
  using push_bit_or [of b 6 2] push_bit_or [of b 5 6] push_bit_or [of b 4 14] push_bit_or [of b 3 30]
  by (simp_all add: push_bit_eq_mult)

lemma concat_pairs_nth:
  "i < k \<Longrightarrow> concat (map (\<lambda>n. [f n, g n]) [0..<k]) ! (2 * i) = f i
     \<and> concat (map (\<lambda>n. [f n, g n]) [0..<k]) ! (2 * i + 1) = g i"
proof (induction k)
  case (Suc k)
  have "length (concat (map (\<lambda>n. [f n, g n]) [0..<k])) = 2 * k" by (induction k) simp_all
  with Suc show ?case by (cases "i = k") (simp_all add: nth_append)
qed simp

lemma hex2_nth: "i < 256 \<Longrightarrow> hex2 ! (2 * i) = hex_char (i div 16)" "i < 256 \<Longrightarrow> hex2 ! (2 * i + 1) = hex_char (i mod 16)"
  using concat_pairs_nth [of i 256 "\<lambda>n. hex_char (n div 16)" "\<lambda>n. hex_char (n mod 16)"] by (simp_all add: hex2_def)

lemma toHex16Bit_chars:
  "toHex16Bit x = [hex_char (x div 4096 mod 16), hex_char (x div 256 mod 16), hex_char (x div 16 mod 16), hex_char (x mod 16)]"
proof -
  have "x div 256 mod 256 div 16 = x div 4096 mod 16" by (simp add: div_mult2_eq [symmetric] mod_mult2_eq [of _ 16 16, simplified] )
  moreover have "x div 256 mod 256 mod 16 = x div 256 mod 16" "x mod 256 mod 16 = x mod 16"
    by (simp_all add: mod_mod_cancel)
  moreover have "x mod 256 div 16 = x div 16 mod 16" by (simp add: mod_mult2_eq [of x 16 16, simplified])
  ultimately show ?thesis
    by (simp add: toHex16Bit_def Let_def nat_and_masks drop_bit_eq_div hex2_nth [simplified])
qed

lemma hex_digit_val_hex_char: "d < 16 \<Longrightarrow> hex_digit_val (hex_char d) = Some d"
  by (auto simp: hex_digit_val_def hex_char_def isdigit_def)

lemma hex_digits_toHex16Bit: "x < 65536 \<Longrightarrow> hex_digits_val (toHex16Bit x) 0 = Some x"
proof -
  assume "x < 65536"
  then have "x div 4096 mod 16 = x div 256 div 16" by (simp add: div_mult2_eq [symmetric])
  moreover have "x div 256 = x div 16 div 16" by (simp add: div_mult2_eq [symmetric])
  ultimately have "((x div 4096 mod 16 * 16 + x div 256 mod 16) * 16 + x div 16 mod 16) * 16 + x mod 16 = x"
    by (simp add: div_mult_mod_eq)
  then show ?thesis unfolding toHex16Bit_chars by (simp add: hex_digit_val_hex_char del: mod_less)
qed

lemma decodeUnicodeEscapeSequence_hex:
  "x < 65536 \<Longrightarrow> decodeUnicodeEscapeSequence (toHex16Bit x @ t) = Some (x, t)"
  using hex_digits_toHex16Bit [of x] by (simp add: decodeUnicodeEscapeSequence_def toHex16Bit_chars)

section \<open>UTF-8\<close>

text \<open>Code points that UTF-8 can carry, and texts in UTF-8.\<close>

definition scalar :: "nat \<Rightarrow> bool" where
  "scalar cp \<longleftrightarrow> cp \<le> 0x10FFFF \<and> \<not> (0xD800 \<le> cp \<and> cp \<le> 0xDFFF)"

definition utf8 :: "nat list \<Rightarrow> string" where
  "utf8 cps = concat (map codePointToUTF8 cps)"

definition utf8_text :: "string \<Rightarrow> bool" where
  "utf8_text s \<longleftrightarrow> (\<exists>cps. list_all scalar cps \<and> s = utf8 cps)"

lemma codePointToUTF8_arith:
  "cp \<le> 0x7f \<Longrightarrow> codePointToUTF8 cp = [char_of cp]"
  "0x7f < cp \<Longrightarrow> cp \<le> 0x7ff \<Longrightarrow> codePointToUTF8 cp = [char_of (192 + cp div 64), char_of (128 + cp mod 64)]"
  "0x7ff < cp \<Longrightarrow> cp \<le> 0xffff \<Longrightarrow> codePointToUTF8 cp =
     [char_of (224 + cp div 4096), char_of (128 + cp div 64 mod 64), char_of (128 + cp mod 64)]"
  "0xffff < cp \<Longrightarrow> cp \<le> 0x10ffff \<Longrightarrow> codePointToUTF8 cp =
     [char_of (240 + cp div 262144), char_of (128 + cp div 4096 mod 64), char_of (128 + cp div 64 mod 64), char_of (128 + cp mod 64)]"
  by (simp_all add: codePointToUTF8_def nat_and_masks drop_bit_eq_div or_high)

lemma byte_char_of: "n < 256 \<Longrightarrow> byte (char_of n) = n"
  by simp

lemma join6: "b < 64 \<Longrightarrow> push_bit 6 a OR b = a * 64 + (b :: nat)"
  using push_bit_or [of b 6 a] by simp

lemma join12: "b < 4096 \<Longrightarrow> push_bit 12 a OR b = a * 4096 + (b :: nat)"
  using push_bit_or [of b 12 a] by simp

lemma join18: "b < 262144 \<Longrightarrow> push_bit 18 a OR b = a * 262144 + (b :: nat)"
  using push_bit_or [of b 18 a] by simp

lemma offset_mod:
  "b < 64 \<Longrightarrow> (128 + b) mod 64 = (b :: nat)" "b < 32 \<Longrightarrow> (192 + b) mod 32 = (b :: nat)"
  "b < 16 \<Longrightarrow> (224 + b) mod 16 = (b :: nat)" "b < 8 \<Longrightarrow> (240 + b) mod 8 = (b :: nat)"
  using mod_mult_self1 [of b 2 64] mod_mult_self1 [of b 6 32] mod_mult_self1 [of b 14 16] mod_mult_self1 [of b 30 8]
  by (simp_all add: add.commute)

text \<open>Decoding the bytes of two, three and four byte sequences.\<close>

lemma utf8ToCodepoint_bytes:
  "a < 128 \<Longrightarrow> utf8ToCodepoint (char_of a # t) = (a, 0)"
  "a < 32 \<Longrightarrow> b < 64 \<Longrightarrow> 128 \<le> a * 64 + b \<Longrightarrow> utf8ToCodepoint (char_of (192 + a) # char_of (128 + b) # t) = (a * 64 + b, 1)"
  "a < 16 \<Longrightarrow> b < 64 \<Longrightarrow> c < 64 \<Longrightarrow> 2048 \<le> a * 4096 + b * 64 + c \<Longrightarrow> scalar (a * 4096 + b * 64 + c) \<Longrightarrow>
     utf8ToCodepoint (char_of (224 + a) # char_of (128 + b) # char_of (128 + c) # t) = (a * 4096 + b * 64 + c, 2)"
  "a < 8 \<Longrightarrow> b < 64 \<Longrightarrow> c < 64 \<Longrightarrow> d < 64 \<Longrightarrow> 65536 \<le> a * 262144 + b * 4096 + c * 64 + d \<Longrightarrow>
     utf8ToCodepoint (char_of (240 + a) # char_of (128 + b) # char_of (128 + c) # char_of (128 + d) # t)
       = (a * 262144 + b * 4096 + c * 64 + d, 3)"
proof -
  show "a < 128 \<Longrightarrow> utf8ToCodepoint (char_of a # t) = (a, 0)" by (simp add: utf8ToCodepoint_def)
  show "a < 32 \<Longrightarrow> b < 64 \<Longrightarrow> 128 \<le> a * 64 + b \<Longrightarrow> utf8ToCodepoint (char_of (192 + a) # char_of (128 + b) # t) = (a * 64 + b, 1)"
    by (simp add: utf8ToCodepoint_def Let_def nat_and_masks offset_mod join6 del: of_char_of)
       (simp add: offset_mod join6)
  show "utf8ToCodepoint (char_of (224 + a) # char_of (128 + b) # char_of (128 + c) # t) = (a * 4096 + b * 64 + c, 2)"
    if "a < 16" "b < 64" "c < 64" "2048 \<le> a * 4096 + b * 64 + c" "scalar (a * 4096 + b * 64 + c)"
  proof -
    have "push_bit 12 a OR push_bit 6 b OR c = a * 4096 + b * 64 + c"
      using that by (simp add: or.assoc join6 join12)
    with that show ?thesis by (auto simp: utf8ToCodepoint_def Let_def nat_and_masks offset_mod scalar_def)
  qed
  show "utf8ToCodepoint (char_of (240 + a) # char_of (128 + b) # char_of (128 + c) # char_of (128 + d) # t)
       = (a * 262144 + b * 4096 + c * 64 + d, 3)"
    if "a < 8" "b < 64" "c < 64" "d < 64" "65536 \<le> a * 262144 + b * 4096 + c * 64 + d"
  proof -
    have "push_bit 18 a OR push_bit 12 b OR push_bit 6 c OR d = a * 262144 + b * 4096 + c * 64 + d"
      using that by (simp add: or.assoc join6 join12 join18)
    with that show ?thesis by (auto simp: utf8ToCodepoint_def Let_def nat_and_masks offset_mod)
  qed
qed

lemma div_mod_joins:
  "cp div 64 * 64 + cp mod 64 = (cp :: nat)"
  "cp div 4096 * 4096 + cp div 64 mod 64 * 64 + cp mod 64 = cp"
  "cp div 262144 * 262144 + cp div 4096 mod 64 * 4096 + cp div 64 mod 64 * 64 + cp mod 64 = cp"
proof -
  have "cp div 4096 = cp div 64 div 64" "cp div 262144 = cp div 4096 div 64" by (simp_all add: div_mult2_eq [symmetric])
  then have "cp div 4096 * 64 + cp div 64 mod 64 = cp div 64" "cp div 262144 * 64 + cp div 4096 mod 64 = cp div 4096"
    by (simp_all only: div_mult_mod_eq)
  moreover show "cp div 64 * 64 + cp mod 64 = cp" by simp
  ultimately show "cp div 4096 * 4096 + cp div 64 mod 64 * 64 + cp mod 64 = cp"
    "cp div 262144 * 262144 + cp div 4096 mod 64 * 4096 + cp div 64 mod 64 * 64 + cp mod 64 = cp"
    by linarith+
qed

text \<open>The writer finds each code point again.\<close>

lemma utf8ToCodepoint_codePointToUTF8:
  assumes "scalar cp"
  shows "utf8ToCodepoint (codePointToUTF8 cp @ t) = (cp, length (codePointToUTF8 cp) - 1)"
proof -
  consider "cp \<le> 0x7f" | "0x7f < cp" "cp \<le> 0x7ff" | "0x7ff < cp" "cp \<le> 0xffff" | "0xffff < cp" "cp \<le> 0x10ffff"
    using assms by (fastforce simp: scalar_def)
  then show ?thesis
  proof cases
    case 1
    then show ?thesis by (simp add: codePointToUTF8_arith utf8ToCodepoint_bytes)
  next
    case 2
    then have "cp div 64 < 32" by simp
    with 2 show ?thesis
      using utf8ToCodepoint_bytes(2) [of "cp div 64" "cp mod 64" t] by (simp add: codePointToUTF8_arith div_mod_joins)
  next
    case 3
    then have "cp div 4096 < 16" by simp
    with 3 assms show ?thesis
      using utf8ToCodepoint_bytes(3) [of "cp div 4096" "cp div 64 mod 64" "cp mod 64" t]
      by (simp add: codePointToUTF8_arith div_mod_joins)
  next
    case 4
    then have "cp div 262144 < 8" by simp
    with 4 show ?thesis
      using utf8ToCodepoint_bytes(4) [of "cp div 262144" "cp div 4096 mod 64" "cp div 64 mod 64" "cp mod 64" t]
      by (simp add: codePointToUTF8_arith div_mod_joins)
  qed
qed

section \<open>Escapes\<close>

text \<open>What the writer writes for a code point.\<close>

definition BS :: char where
  "BS = CHR 0x5C"

definition escape_text :: "nat \<Rightarrow> string" where
  "escape_text cp =
     (if cp = 34 then [BS, DQUOTE] else if cp = 92 then [BS, BS] else if cp = 8 then [BS, CHR ''b'']
      else if cp = 12 then [BS, CHR ''f''] else if cp = 10 then [BS, CHR ''n''] else if cp = 13 then [BS, CHR ''r'']
      else if cp = 9 then [BS, CHR ''t''] else if 32 \<le> cp \<and> cp < 128 then [char_of cp]
      else if cp < 65536 then [BS, CHR ''u''] @ toHex16Bit cp
      else [BS, CHR ''u''] @ toHex16Bit ((cp - 65536) div 1024 + 0xD800) @ [BS, CHR ''u''] @ toHex16Bit ((cp - 65536) mod 1024 + 0xDC00))"

lemma char_of_small: "n < 256 \<Longrightarrow> char_of n = c \<longleftrightarrow> n = byte c"
  by (metis byte_char_of char_of_char)

lemma codePointToUTF8_Cons:
  assumes "scalar cp"
  obtains c s where "codePointToUTF8 cp = c # s" "cp < 128 \<longrightarrow> c = char_of cp \<and> s = []" "128 \<le> cp \<longrightarrow> 128 \<le> byte c"
proof -
  consider "cp \<le> 0x7f" | "0x7f < cp" "cp \<le> 0x7ff" | "0x7ff < cp" "cp \<le> 0xffff" | "0xffff < cp" "cp \<le> 0x10ffff"
    using assms by (fastforce simp: scalar_def)
  then show ?thesis
  proof cases
    case 2
    then have "cp div 64 < 32" by simp
    with 2 that show ?thesis by (simp add: codePointToUTF8_arith)
  next
    case 3
    then have "cp div 4096 < 16" by simp
    with 3 that show ?thesis by (simp add: codePointToUTF8_arith)
  next
    case 4
    then have "cp div 262144 < 8" by simp
    with 4 that show ?thesis by (simp add: codePointToUTF8_arith)
  qed (use that in \<open>simp add: codePointToUTF8_arith\<close>)
qed

lemma quote_loop_codepoint:
  assumes "scalar cp"
  shows "quote_loop (codePointToUTF8 cp @ t) = escape_text cp @ quote_loop t"
proof -
  obtain c s where c: "codePointToUTF8 cp = c # s" "cp < 128 \<longrightarrow> c = char_of cp \<and> s = []" "128 \<le> cp \<longrightarrow> 128 \<le> byte c"
    using codePointToUTF8_Cons [OF assms] .
  have u: "utf8ToCodepoint (c # s @ t) = (cp, length s)"
    using utf8ToCodepoint_codePointToUTF8 [OF assms, of t] c(1) by simp
  have special: "c = k \<longleftrightarrow> cp = byte k" if "byte k < 128" for k
  proof (cases "cp < 128")
    case True
    then show ?thesis using c(2) that by (auto simp: char_of_small)
  qed (use c(3) that in auto)
  show ?thesis
    unfolding c(1) append_Cons
    by (subst quote_loop.simps)
       (use c(2) in \<open>auto simp: special u escape_text_def BS_def nat_and_masks drop_bit_eq_div\<close>)
qed

lemma hex_char_plain: "d < 16 \<Longrightarrow> hex_char d \<noteq> DQUOTE \<and> hex_char d \<noteq> BS"
  by (auto simp: hex_char_def BS_def char_of_small)

lemma readString_plain: "c \<noteq> DQUOTE \<Longrightarrow> c \<noteq> BS \<Longrightarrow> readString (c # t) = readString t"
  by (simp add: BS_def)

lemma readString_hex: "readString (toHex16Bit x @ t) = readString t"
  by (simp add: toHex16Bit_chars readString_plain hex_char_plain del: readString.simps)

lemma readString_BS: "readString (BS # c # t) = readString t"
  by (simp add: BS_def)

lemma readString_escape: "readString (escape_text cp @ t) = readString t"
  by (auto simp: escape_text_def readString_BS readString_hex simp del: readString.simps intro!: readString_plain)
     (auto simp: BS_def char_of_small)

lemma decodeString_simple:
  "decodeString_loop (BS # DQUOTE # t) acc = decodeString_loop t (acc @ [DQUOTE])"
  "decodeString_loop (BS # BS # t) acc = decodeString_loop t (acc @ [CHR 0x5C])"
  "decodeString_loop (BS # CHR ''b'' # t) acc = decodeString_loop t (acc @ [CHR 0x08])"
  "decodeString_loop (BS # CHR ''f'' # t) acc = decodeString_loop t (acc @ [CHR 0x0C])"
  "decodeString_loop (BS # CHR ''n'' # t) acc = decodeString_loop t (acc @ [LF])"
  "decodeString_loop (BS # CHR ''r'' # t) acc = decodeString_loop t (acc @ [CR])"
  "decodeString_loop (BS # CHR ''t'' # t) acc = decodeString_loop t (acc @ [CHR 0x09])"
  by (subst decodeString_loop.simps, simp add: BS_def)+

lemma decodeString_u:
  "decodeUnicodeCodePoint r = Some (cp, t) \<Longrightarrow>
     decodeString_loop (BS # CHR ''u'' # r) acc = decodeString_loop t (acc @ codePointToUTF8 cp)"
  by (subst decodeString_loop.simps) (simp add: BS_def)

lemma decodeUnicode_plain:
  "scalar cp \<Longrightarrow> cp < 65536 \<Longrightarrow> decodeUnicodeCodePoint (toHex16Bit cp @ t) = Some (cp, t)"
  by (auto simp: decodeUnicodeCodePoint_def decodeUnicodeEscapeSequence_hex scalar_def)

lemma decodeUnicode_pair:
  assumes "x < 1024" "y < 1024"
  shows "decodeUnicodeCodePoint (toHex16Bit (x + 0xD800) @ [BS, CHR ''u''] @ toHex16Bit (y + 0xDC00) @ t)
    = Some (65536 + x * 1024 + y, t)"
proof -
  have m: "(x + 0xD800) mod 1024 = x" "(y + 0xDC00) mod 1024 = y"
    using assms mod_mult_self1 [of x 54 1024] mod_mult_self1 [of y 55 1024] by simp_all
  have "length (toHex16Bit z) = 4" for z by (simp add: toHex16Bit_chars)
  with assms m show ?thesis
    unfolding decodeUnicodeCodePoint_def append_assoc
    by (subst decodeUnicodeEscapeSequence_hex)
       (simp_all add: decodeUnicodeEscapeSequence_hex BS_def nat_and_masks push_bit_eq_mult)
qed

lemma decodeString_escape:
  assumes "scalar cp"
  shows "decodeString_loop (escape_text cp @ t) acc = decodeString_loop t (acc @ codePointToUTF8 cp)"
proof -
  consider "cp \<in> {34, 92, 8, 12, 10, 13, 9}" | "cp \<notin> {34, 92, 8, 12, 10, 13, 9}" "32 \<le> cp" "cp < 128"
    | "cp \<notin> {34, 92, 8, 12, 10, 13, 9}" "\<not> (32 \<le> cp \<and> cp < 128)" "cp < 65536"
    | "65536 \<le> cp" by linarith
  then show ?thesis
  proof cases
    case 1
    then show ?thesis
      by (auto simp: escape_text_def decodeString_simple codePointToUTF8_arith char_of_def bit_0 simp del: decodeString_loop.simps)
  next
    case 2
    then have "char_of cp \<noteq> DQUOTE" "char_of cp \<noteq> BS" by (auto simp: BS_def char_of_small)
    with 2 show ?thesis
      by (simp add: escape_text_def codePointToUTF8_arith decodeString_loop.simps(2) BS_def [symmetric])
  next
    case 3
    then show ?thesis
      using decodeString_u [OF decodeUnicode_plain [OF assms 3(3), of t]] by (auto simp: escape_text_def)
  next
    case 4
    then have "cp - 65536 < 1048576" using assms by (simp add: scalar_def)
    then have x: "(cp - 65536) div 1024 < 1024" by simp
    have "65536 + (cp - 65536) div 1024 * 1024 + (cp - 65536) mod 1024 = cp" using 4 by simp
    with 4 decodeString_u [OF decodeUnicode_pair [OF x, of "(cp - 65536) mod 1024" t]] show ?thesis
      by (simp add: escape_text_def)
  qed
qed

section \<open>Strings are read back\<close>

lemma quote_loop_utf8: "list_all scalar cps \<Longrightarrow> quote_loop (utf8 cps) = concat (map escape_text cps)"
  by (induction cps) (simp_all add: utf8_def quote_loop.simps(1) quote_loop_codepoint)

lemma readString_escapes: "readString (concat (map escape_text cps) @ t) = readString t"
  by (induction cps) (simp_all add: readString_escape del: readString.simps)

lemma decodeString_escapes:
  "list_all scalar cps \<Longrightarrow> decodeString_loop (concat (map escape_text cps)) acc = Some (acc @ utf8 cps)"
  by (induction cps arbitrary: acc) (simp_all add: utf8_def decodeString_escape)

lemma byte_less: "byte c < 288"
  using nat_of_char_less_256 [of c] by linarith

lemma valueToQuotedStringN_utf8:
  assumes "list_all scalar cps"
  shows "valueToQuotedStringN (utf8 cps) = [DQUOTE] @ concat (map escape_text cps) @ [DQUOTE]"
proof (cases cps)
  case (Cons cp rest)
  with assms have "scalar cp" by simp
  then obtain c s where "codePointToUTF8 cp = c # s" by (rule codePointToUTF8_Cons)
  with Cons have "utf8 cps \<noteq> []" by (simp add: utf8_def)
  then have "isAnyCharRequiredQuoting (utf8 cps)"
    using byte_less by (cases "utf8 cps") (auto simp: isAnyCharRequiredQuoting_def schar_def)
  with assms show ?thesis by (simp add: valueToQuotedStringN_def quote_loop_utf8)
qed (simp add: valueToQuotedStringN_def utf8_def isAnyCharRequiredQuoting_def)

lemma readString_quoted:
  "utf8_text s \<Longrightarrow> \<exists>q. valueToQuotedStringN s = DQUOTE # q \<and> readString (q @ t) = (True, t) \<and> decodeString (DQUOTE # q) = Some s"
  using decodeString_escapes [of _ "[]"]
  by (auto simp: utf8_text_def valueToQuotedStringN_utf8 decodeString_def readString_escapes butlast_append)

text \<open>
  A string in UTF-8 survives the JSON text: the reader decodes what \<open>valueToQuotedStringN\<close> has
  written, escapes and surrogate pairs included, and finds its end in front of any further text.
\<close>

lemma json_string_roundtrip:
  "utf8_text s \<Longrightarrow> decodeString (valueToQuotedStringN s) = Some s
     \<and> readString (tl (valueToQuotedStringN s) @ t) = (True, t)"
  using readString_quoted [of s t] by auto

end
