(* ===== verification/Json_Renders.thy ===== *)
theory Json_Renders
  imports Json_Strings
begin

text \<open>
  The texts of a JSON value: any white space between the tokens, any spelling of a number that is read as
  that number. Every such text is read back as the value, whatever its nesting up to the reader's limit. The
  writers of the library only have to show that what they write is a text of the value.
\<close>

section \<open>Tokens behind white space\<close>

definition space :: "char \<Rightarrow> bool" where
  "space c \<longleftrightarrow> c = CHR '' '' \<or> c = CHR 0x09 \<or> c = CR \<or> c = LF"

lemma space_signs [simp]: "space (CHR '' '')" "space (CHR 0x09)" "space CR" "space LF"
  by (simp_all add: space_def)

lemma skipSpaces_space: "list_all space ws \<Longrightarrow> skipSpaces (ws @ t) = skipSpaces t"
  by (induction ws) (auto simp: skipSpaces_def space_def)

lemma skipSpaces_stop: "\<not> space c \<Longrightarrow> skipSpaces (c # t) = c # t"
  by (auto simp: skipSpaces_def space_def)

lemma between_append [simp]: "between (u @ r) r = u" "between (c # u @ r) r = c # u" "between (c # r) r = [c]"
  by (simp_all add: between_def)

text \<open>A reader without pending comments at a position.\<close>

abbreviation at :: "string \<Rightarrow> string option \<Rightarrow> Reader" where
  "at r e \<equiv> \<lparr>rest = r, lastValueEnd = e, commentsBefore = []\<rparr>"

lemma readToken_at:
  assumes "list_all space ws" "\<not> space c" "token_case c (c # t) (at (t) e) = Inr (ty, True, at r e)"
  shows "readToken (at (ws @ c # t) e) = Inr (\<lparr>tok_type = ty, tok_text = between (c # t) r\<rparr>, at r e)"
  using assms by (simp add: readToken_def skipSpaces_space skipSpaces_stop getNextChar_def)

lemma readToken_plain:
  assumes "list_all space ws"
  shows "readToken (at (ws @ CHR ''{'' # t) e) = Inr (\<lparr>tok_type = tokenObjectBegin, tok_text = ''{''\<rparr>, at t e)"
    "readToken (at (ws @ CHR ''}'' # t) e) = Inr (\<lparr>tok_type = tokenObjectEnd, tok_text = ''}''\<rparr>, at t e)"
    "readToken (at (ws @ CHR ''['' # t) e) = Inr (\<lparr>tok_type = tokenArrayBegin, tok_text = ''[''\<rparr>, at t e)"
    "readToken (at (ws @ CHR '']'' # t) e) = Inr (\<lparr>tok_type = tokenArrayEnd, tok_text = '']''\<rparr>, at t e)"
    "readToken (at (ws @ CHR '','' # t) e) = Inr (\<lparr>tok_type = tokenArraySeparator, tok_text = '',''\<rparr>, at t e)"
    "readToken (at (ws @ CHR '':'' # t) e) = Inr (\<lparr>tok_type = tokenMemberSeparator, tok_text = '':''\<rparr>, at t e)"
  by (subst readToken_at [OF assms, where r = t], simp add: space_def, simp add: token_case_def isdigit_def, simp)+

lemma readToken_literal:
  assumes "list_all space ws"
  shows "readToken (at (ws @ ''null'' @ t) e) = Inr (\<lparr>tok_type = tokenNull, tok_text = ''null''\<rparr>, at t e)"
    "readToken (at (ws @ ''true'' @ t) e) = Inr (\<lparr>tok_type = tokenTrue, tok_text = ''true''\<rparr>, at t e)"
    "readToken (at (ws @ ''false'' @ t) e) = Inr (\<lparr>tok_type = tokenFalse, tok_text = ''false''\<rparr>, at t e)"
  using readToken_at [OF assms, of "CHR ''n''" "''ull'' @ t" e tokenNull t]
    readToken_at [OF assms, of "CHR ''t''" "''rue'' @ t" e tokenTrue t]
    readToken_at [OF assms, of "CHR ''f''" "''alse'' @ t" e tokenFalse t]
  by (simp_all add: space_def token_case_def isdigit_def match_text_def between_def)

lemma readToken_string:
  assumes "list_all space ws" "readString (q @ t) = (True, t)"
  shows "readToken (at (ws @ DQUOTE # q @ t) e) = Inr (\<lparr>tok_type = tokenString, tok_text = DQUOTE # q\<rparr>, at t e)"
  using readToken_at [OF assms(1), of DQUOTE "q @ t" e tokenString t] assms(2)
  by (simp add: space_def token_case_def)

section \<open>Numbers\<close>

text \<open>What follows a number: the end, white space, or a sign that separates or closes.\<close>

definition delimited :: "string \<Rightarrow> bool" where
  "delimited r \<longleftrightarrow> r = [] \<or> hd r = CHR '','' \<or> hd r = CHR '']'' \<or> hd r = CHR ''}'' \<or> space (hd r)"

lemma dropWhile_delimited:
  "delimited r \<Longrightarrow> dropWhile isdigit (p @ r) = dropWhile isdigit p @ r"
proof (induction p)
  case Nil
  then show ?case by (cases r) (auto simp: delimited_def isdigit_def space_def)
qed simp

text \<open>Reading a number does not look beyond a delimiter.\<close>

lemma readNumber_delimited:
  assumes r: "delimited r"
  shows "readNumber b (p @ r) = map_prod id (\<lambda>q. q @ r) (readNumber b p)"
proof -
  have hd: "r \<noteq> [] \<Longrightarrow> hd r \<notin> {CHR ''I'', CHR ''.'', CHR ''e'', CHR ''E'', CHR ''+'', CHR ''-''}"
    using r by (auto simp: delimited_def space_def)
  define f where "f = (\<lambda>r. if r \<noteq> [] \<and> hd r = CHR ''.'' then dropWhile isdigit (tl r) else r)"
  define g where "g = (\<lambda>r. if r \<noteq> [] \<and> (hd r = CHR ''+'' \<or> hd r = CHR ''-'') then tl r else r)"
  define h where "h = (\<lambda>r. if r \<noteq> [] \<and> (hd r = CHR ''e'' \<or> hd r = CHR ''E'') then dropWhile isdigit (g (tl r)) else r)"
  have f: "f (x @ r) = f x @ r" for x
    using hd dropWhile_delimited [OF r, of "tl x"] by (cases x) (auto simp: f_def)
  have g: "g (x @ r) = g x @ r" for x
    using hd by (cases x) (auto simp: g_def)
  have h: "h (x @ r) = h x @ r" for x
    using hd dropWhile_delimited [OF r, of "g (tl x)"] by (cases x) (auto simp: h_def g)
  have "readNumber b x = (if b \<and> x \<noteq> [] \<and> hd x = CHR ''I'' then (False, tl x) else (True, h (f (dropWhile isdigit x))))" for x
    unfolding readNumber_def Let_def f_def g_def h_def by (rule refl)
  moreover have "h (f (dropWhile isdigit (p @ r))) = h (f (dropWhile isdigit p)) @ r"
    by (simp only: dropWhile_delimited [OF r] f h)
  moreover have "(p @ r \<noteq> [] \<and> hd (p @ r) = CHR ''I'') = (p \<noteq> [] \<and> hd p = CHR ''I'')"
    using hd by (cases p) auto
  ultimately show ?thesis by (cases p) simp_all
qed

lemma readNumber_digits: "(\<forall>c \<in> set ds. isdigit c) \<Longrightarrow> readNumber b ds = (True, [])"
proof -
  assume a: "\<forall>c \<in> set ds. isdigit c"
  then have "ds \<noteq> [] \<Longrightarrow> hd ds \<noteq> CHR ''I''" by (cases ds) (auto simp: isdigit_def)
  with a show ?thesis by (auto simp: readNumber_def dropWhile_eq_Nil_conv [THEN iffD2])
qed

text \<open>A number token: a digit or a minus sign, and a number behind it.\<close>

definition number_text :: "string \<Rightarrow> bool" where
  "number_text u \<longleftrightarrow> u \<noteq> [] \<and> (isdigit (hd u) \<or> hd u = CHR ''-'') \<and> readNumber (hd u = CHR ''-'') (tl u) = (True, [])"

lemma token_case_digit:
  assumes "isdigit c"
  shows "token_case c b st = Inr (tokenNumber, True, st\<lparr>rest := snd (readNumber False (rest st))\<rparr>)"
proof -
  have "c \<notin> set (''{}[]/'' @ [DQUOTE, CHR 0x27])" using assms by (auto simp: isdigit_def)
  with assms show ?thesis by (simp add: token_case_def)
qed

lemma readToken_number:
  assumes ws: "list_all space ws" and u: "number_text u" and r: "delimited r"
  shows "readToken (at (ws @ u @ r) e) = Inr (\<lparr>tok_type = tokenNumber, tok_text = u\<rparr>, at r e)"
proof -
  obtain c p where cp: "u = c # p" "isdigit c \<or> c = CHR ''-''" "readNumber (c = CHR ''-'') p = (True, [])"
    using u by (cases u) (auto simp: number_text_def)
  then have n: "readNumber (c = CHR ''-'') (p @ r) = (True, r)"
    by (simp add: readNumber_delimited [OF r])
  have "token_case c (c # p @ r) (at (p @ r) e) = Inr (tokenNumber, True, at r e)"
  proof (cases "c = CHR ''-''")
    case True
    with n show ?thesis by (simp add: token_case_def isdigit_def)
  next
    case False
    with cp n show ?thesis by (simp add: token_case_digit)
  qed
  moreover have "\<not> space c" using cp(2) by (auto simp: space_def isdigit_def)
  ultimately show ?thesis using readToken_at [OF ws, of c "p @ r" e tokenNumber r] cp(1) by simp
qed

lemma uintToString_to_string: "uintToString n acc = to_string n @ acc"
proof (induction n acc rule: uintToString.induct)
  case (1 n acc)
  then show ?case
    by (subst uintToString.simps, subst to_string.simps) (auto simp: Let_def)
qed

lemma digits_val_Cons: "digits_val 10 (c # ds) = digit_val c * 10 ^ length ds + digits_val 10 ds"
proof (induction ds rule: rev_induct)
  case (snoc d ds)
  then show ?case using digits_val_snoc [of 10 "c # ds" d] by (simp add: digits_val_snoc algebra_simps)
qed (simp add: digits_val_def)

lemma decodeNumber_loop_digits:
  "\<forall>c \<in> set ds. isdigit c \<Longrightarrow> 10 \<le> m \<Longrightarrow> v * 10 ^ length ds + digits_val 10 ds \<le> m \<Longrightarrow>
     decodeNumber_loop m ds v = Some (v * 10 ^ length ds + digits_val 10 ds)"
proof (induction ds arbitrary: v)
  case (Cons c ds)
  have c: "isdigit c" "digit_val c = byte c - 48" using Cons.prems by (auto simp: digit_val_def)
  have eq: "v * 10 ^ length (c # ds) + digits_val 10 (c # ds) = (v * 10 + (byte c - 48)) * 10 ^ length ds + digits_val 10 ds"
    by (simp add: digits_val_Cons c algebra_simps)
  have le: "v * 10 + (byte c - 48) \<le> m"
  proof -
    have "v * 10 + (byte c - 48) \<le> (v * 10 + (byte c - 48)) * 10 ^ length ds" by simp
    with Cons.prems(3) eq show ?thesis by linarith
  qed
  have more: "(v * 10 + (byte c - 48)) * 10 \<le> m" if "ds \<noteq> []"
  proof -
    have "(10 :: nat) \<le> 10 ^ length ds" using that by (cases ds) simp_all
    then have "(v * 10 + (byte c - 48)) * 10 \<le> (v * 10 + (byte c - 48)) * 10 ^ length ds" by (rule mult_le_mono2)
    with Cons.prems(3) eq show ?thesis by linarith
  qed
  have "\<not> (v \<ge> m div 10 \<and> (v > m div 10 \<or> ds \<noteq> [] \<or> byte c - 48 > m mod 10))"
  proof
    assume a: "v \<ge> m div 10 \<and> (v > m div 10 \<or> ds \<noteq> [] \<or> byte c - 48 > m mod 10)"
    have "v \<le> m div 10" using le by (simp add: less_eq_div_iff_mult_less_eq)
    with a have v: "v = m div 10" and d: "ds \<noteq> [] \<or> byte c - 48 > m mod 10" by auto
    from d show False
    proof
      assume "ds \<noteq> []"
      with more have "v * 10 * 10 \<le> m" by (simp add: distrib_right)
      moreover have "m < v * 10 + 10" using v div_mult_mod_eq [of m 10] mod_less_divisor [of 10 m] by linarith
      moreover have "1 \<le> v" using div_le_mono [OF Cons.prems(2), of 10] v by simp
      ultimately show False by linarith
    next
      assume "byte c - 48 > m mod 10"
      with le v show False using div_mult_mod_eq [of m 10] by linarith
    qed
  qed
  with Cons.IH [of "v * 10 + (byte c - 48)"] Cons.prems c(1) eq show ?case by (simp add: Let_def)
qed (simp add: digits_val_def)

lemma to_string_all_digits: "\<forall>c \<in> set (to_string n). isdigit c"
  using to_string_digits by blast

lemma decodeNumber_uint:
  assumes "n < 2 ^ 64"
  shows "decodeNumber D (to_string n) = Some (if n \<le> 2 ^ 31 - 1 then intValue (int n) else uintValue n)"
proof -
  have "hd (to_string n) \<noteq> CHR ''-''" using to_string_hd [of n] by (auto simp: isdigit_def)
  moreover have "decodeNumber_loop (2 ^ 64 - 1) (to_string n) 0 = Some n"
    using decodeNumber_loop_digits [OF to_string_all_digits, of "2 ^ 64 - 1" 0 n] assms by simp
  ultimately show ?thesis by (simp add: decodeNumber_def Let_def)
qed

lemma decodeNumber_negative:
  assumes "n \<le> 2 ^ 63"
  shows "decodeNumber D (CHR ''-'' # to_string n) = Some (intValue (- int n))"
  using decodeNumber_loop_digits [OF to_string_all_digits, of "2 ^ 63" 0 n] assms
  by (simp add: decodeNumber_def Let_def)

lemma number_text_to_string: "number_text (to_string n)" "number_text (CHR ''-'' # to_string n)"
proof -
  have "isdigit (hd (to_string n))" by (rule to_string_hd)
  moreover have "\<forall>c \<in> set (tl (to_string n)). isdigit c"
    using to_string_all_digits [of n] by (meson list.set_sel(2) to_string_nonempty)
  ultimately show "number_text (to_string n)" "number_text (CHR ''-'' # to_string n)"
    using to_string_all_digits [of n] by (auto simp: number_text_def readNumber_digits)
qed

section \<open>Values that survive\<close>

text \<open>
  Values that the text carries, with at most \<open>n\<close> levels below them: integers in the form in which they
  are read, doubles whose text the C library reads back, texts in UTF-8, members in order.
\<close>

fun json_fits :: "c_double \<Rightarrow> (64 word \<Rightarrow> string) \<Rightarrow> nat \<Rightarrow> Value \<Rightarrow> bool" where
  "json_fits D real n nullValue = True"
| "json_fits D real n (intValue i) = (- (2 ^ 63) \<le> i \<and> i \<le> 2 ^ 31 - 1)"
| "json_fits D real n (uintValue u) = (2 ^ 31 \<le> u \<and> u < 2 ^ 64)"
| "json_fits D real n (realValue d) = (number_text (real d) \<and> decodeNumber D (real d) = Some (realValue d))"
| "json_fits D real n (stringValue s) = utf8_text s"
| "json_fits D real n (booleanValue b) = True"
| "json_fits D real n (arrayValue vs) = (vs = [] \<or> 0 < n \<and> list_all (json_fits D real (n - 1)) vs)"
| "json_fits D real n (objectValue ms) =
     (ms = [] \<or> 0 < n \<and> sorted_wrt CZString_less (map fst ms)
        \<and> list_all (\<lambda>m. utf8_text (fst m) \<and> length (fst m) < 2 ^ 30 \<and> json_fits D real (n - 1) (snd m)) ms)"

text \<open>The same with the way of printing doubles that every writer has unless told otherwise.\<close>

abbreviation json_ok :: "c_double \<Rightarrow> nat \<Rightarrow> Value \<Rightarrow> bool" where
  "json_ok D \<equiv> json_fits D (valueToString_double D)"

text \<open>The token of a scalar, and the value it stands for.\<close>

lemma int_text:
  "- (2 ^ 63) \<le> i \<Longrightarrow> i \<le> 2 ^ 31 - 1 \<Longrightarrow>
     number_text (valueToString_int i) \<and> decodeNumber D (valueToString_int i) = Some (intValue i)"
proof -
  assume i: "- (2 ^ 63) \<le> i" "i \<le> 2 ^ 31 - 1"
  show ?thesis
  proof (cases "i < 0")
    case True
    then have "valueToString_int i = CHR ''-'' # to_string (nat (- i))"
      by (auto simp: valueToString_int_def uintToString_to_string)
    with True i show ?thesis by (simp add: number_text_to_string decodeNumber_negative nat_le_iff)
  next
    case False
    then have "valueToString_int i = to_string (nat i)" by (simp add: valueToString_int_def uintToString_to_string)
    moreover have "nat i \<le> 2 ^ 31 - 1" using i by (simp add: nat_le_iff)
    ultimately show ?thesis using False decodeNumber_uint [of "nat i" D] by (simp add: number_text_to_string)
  qed
qed

lemma uint_text:
  "2 ^ 31 \<le> u \<Longrightarrow> u < 2 ^ 64 \<Longrightarrow>
     number_text (valueToString_uint u) \<and> decodeNumber D (valueToString_uint u) = Some (uintValue u)"
  by (simp add: valueToString_uint_def uintToString_to_string number_text_to_string decodeNumber_uint)

section \<open>Reading what was written\<close>

lemma skipCommentTokens_token:
  "readToken st = Inr (tok, st') \<Longrightarrow> tok_type tok \<noteq> tokenComment \<Longrightarrow> skipCommentTokens st = Inr (tok, st')"
  by (subst skipCommentTokens.simps) simp

lemma readValue_token:
  assumes "readToken st = Inr (tok, st')" "tok_type tok \<noteq> tokenComment" "commentsBefore st' = []" "nodes \<le> stackLimit"
  shows "readValue D (Suc fuel) nodes v st = readValue_switch D (readObject D fuel) (readArray D fuel) nodes v tok st'"
  using assms by (simp add: readValue_body_def skipCommentTokens_token attachComments_def)

abbreviation "read_ok m v r \<equiv> m = Some (Inr (True, v, at r (Some r)))"

text \<open>Members that are read in order go to the end.\<close>

lemma CZString_less_irrefl: "\<not> CZString_less s s"
  by (induction s) auto

lemma CZString_less_ne: "CZString_less s t \<Longrightarrow> s \<noteq> t"
  using CZString_less_irrefl by blast

lemma members_append:
  assumes "\<forall>k \<in> set (map fst ms). CZString_less k key"
  shows "members_resolve key ms = ms @ [(key, nullValue)]"
    "members_find key (ms @ [(key, nullValue)]) = Some nullValue"
    "members_store key v (ms @ [(key, nullValue)]) = ms @ [(key, v)]"
proof -
  show "members_resolve key ms = ms @ [(key, nullValue)]" using assms by (induction ms) auto
  have "map_of ms key = None" using assms by (auto simp: map_of_eq_None_iff dest: CZString_less_ne)
  then show "members_find key (ms @ [(key, nullValue)]) = Some nullValue" by (simp add: members_find_def map_of_append map_add_def)
  show "members_store key v (ms @ [(key, nullValue)]) = ms @ [(key, v)]"
    using assms by (induction ms) (auto dest: CZString_less_ne)
qed

text \<open>The token of a scalar.\<close>

lemma readValue_literal:
  assumes ws: "list_all space ws" and n: "nodes \<le> stackLimit"
  shows "read_ok (readValue D (Suc fuel) nodes v0 (at (ws @ ''null'' @ r) e)) nullValue r"
    "read_ok (readValue D (Suc fuel) nodes v0 (at (ws @ (if b then ''true'' else ''false'') @ r) e)) (booleanValue b) r"
  by (cases b; simp add: readToken_literal [OF ws, simplified] readValue_token [OF _ _ _ n] readValue_switch_def Let_def
    del: readValue.simps)+

lemma readValue_number:
  assumes "list_all space ws" "nodes \<le> stackLimit" "number_text u" "decodeNumber D u = Some v" "delimited r"
  shows "read_ok (readValue D (Suc fuel) nodes v0 (at (ws @ u @ r) e)) v r"
  using assms by (simp add: readToken_number readValue_token readValue_switch_def Let_def del: readValue.simps)

lemma readValue_string:
  assumes ws: "list_all space ws" and n: "nodes \<le> stackLimit" and t: "utf8_text t"
  shows "read_ok (readValue D (Suc fuel) nodes v0 (at (ws @ valueToQuotedStringN t @ r) e)) (stringValue t) r"
proof -
  obtain q where "valueToQuotedStringN t = DQUOTE # q" "readString (q @ r) = (True, r)" "decodeString (DQUOTE # q) = Some t"
    using readString_quoted [OF t] by blast
  with n show ?thesis
    by (simp add: readToken_string [OF ws] readValue_token readValue_switch_def Let_def del: readValue.simps)
qed

text \<open>One call each of the three readers, over what the calls inside return.\<close>

lemma readValue_array:
  assumes ws: "list_all space ws" "list_all space ws1" and n: "nodes \<le> stackLimit"
    and h: "u \<noteq> []" "\<not> space (hd u)" "hd u \<noteq> CHR '']''"
    and IH: "readArray D fuel nodes [] (at u e) = Some (Inr (True, vs, at r e'))"
  shows "read_ok (readValue D (Suc fuel) nodes v0 (at (ws @ ''['' @ ws1 @ u) e)) (arrayValue vs) r"
proof -
  obtain c t where u: "u = c # t" using h(1) by (cases u) auto
  have "skipSpaces (ws1 @ u) = u"
    using skipSpaces_space [OF ws(2), of u] h(2) by (simp add: u skipSpaces_stop)
  then show ?thesis
    using readValue_token [OF readToken_plain(3) [OF ws(1)] _ _ n, of "ws1 @ u" e D fuel v0] h IH
    by (simp add: readValue_switch_def Let_def del: readValue.simps)
qed

lemma readValue_empty_array:
  assumes ws: "list_all space ws" "list_all space ws1" and n: "nodes \<le> stackLimit"
  shows "read_ok (readValue D (Suc fuel) nodes v0 (at (ws @ ''['' @ ws1 @ '']'' @ r) e)) (arrayValue []) r"
proof -
  have "skipSpaces (ws1 @ CHR '']'' # r) = CHR '']'' # r"
    using skipSpaces_space [OF ws(2)] by (simp add: skipSpaces_stop space_def)
  then show ?thesis
    using readValue_token [OF readToken_plain(3) [OF ws(1)] _ _ n, of "ws1 @ '']'' @ r" e D fuel v0]
    by (simp add: readValue_switch_def Let_def readToken_plain(4) [of "[]", simplified] del: readValue.simps)
qed

lemma readArray_last:
  assumes ws: "list_all space ws" and v: "read_ok (readValue D fuel (nodes + 1) nullValue (at t e)) v (ws @ CHR '']'' # r)"
  shows "\<exists>e'. readArray D (Suc fuel) nodes vs0 (at t e) = Some (Inr (True, vs0 @ [v], at r e'))"
  using v readToken_plain(4) [OF ws]
  by (simp add: readArray_body_def Let_def skipCommentTokens_token del: readValue.simps readArray.simps(1))

lemma readArray_element:
  assumes ws: "list_all space ws" and v: "read_ok (readValue D fuel (nodes + 1) nullValue (at t e)) v (ws @ CHR '','' # t')"
    and IH: "\<And>e. \<exists>e'. readArray D fuel nodes (vs0 @ [v]) (at t' e) = Some (Inr (True, (vs0 @ [v]) @ vs, at r e'))"
  shows "\<exists>e'. readArray D (Suc fuel) nodes vs0 (at t e) = Some (Inr (True, vs0 @ v # vs, at r e'))"
  using v readToken_plain(5) [OF ws] IH
  by (simp add: readArray_body_def Let_def skipCommentTokens_token)

lemma readValue_object:
  assumes ws: "list_all space ws" and n: "nodes \<le> stackLimit"
    and IH: "readObject D fuel nodes [] [] (at u e) = Some (Inr (True, ms, at r e'))"
  shows "read_ok (readValue D (Suc fuel) nodes v0 (at (ws @ ''{'' @ u) e)) (objectValue ms) r"
  using readValue_token [OF readToken_plain(1) [OF ws] _ _ n, of u e D fuel v0] IH
  by (simp add: readValue_switch_def Let_def del: readValue.simps)

lemma readObject_empty:
  assumes ws: "list_all space ws"
  shows "readObject D (Suc fuel) nodes [] ms0 (at (ws @ ''}'' @ r) e) = Some (Inr (True, ms0, at r e))"
  using readToken_plain(2) [OF ws] by (simp add: readObject_body_def skipCommentTokens_token)

text \<open>A member, up to what follows its value.\<close>

lemma readObject_value:
  assumes ws: "list_all space ws" "list_all space ws1" and k: "utf8_text k" "length k < 2 ^ 30"
    and less: "\<forall>k' \<in> set (map fst ms0). CZString_less k' k"
    and v: "read_ok (readValue D fuel (nodes + 1) nullValue (at t e)) v r"
  shows "readObject D (Suc fuel) nodes name ms0 (at (ws @ valueToQuotedStringN k @ ws1 @ CHR '':'' # t) e)
    = readObject_next (readObject D fuel) nodes k (ms0 @ [(k, v)]) (at r (Some r))"
proof -
  obtain q where q: "valueToQuotedStringN k = DQUOTE # q" "decodeString (DQUOTE # q) = Some k"
      "readString (q @ ws1 @ CHR '':'' # t) = (True, ws1 @ CHR '':'' # t)"
    using readString_quoted [OF k(1)] by blast
  show ?thesis
    using q k(2) readToken_plain(6) [OF ws(2)] v readToken_string [OF ws(1) q(3)]
    by (simp add: readObject_body_def skipCommentTokens_token readObject_member_def Let_def members_append [OF less] not_le)
qed

lemma readObject_next_last:
  assumes "list_all space ws"
  shows "readObject_next ro nodes name ms (at (ws @ ''}'' @ r) e) = Some (Inr (True, ms, at r e))"
  using readToken_plain(2) [OF assms] by (simp add: readObject_next_def)

lemma readObject_next_member:
  assumes "list_all space ws"
  shows "readObject_next ro nodes name ms (at (ws @ CHR '','' # t) e) = ro nodes name ms (at t e)"
  using readToken_plain(5) [OF assms] by (simp add: readObject_next_def)

section \<open>The texts of a value\<close>

inductive renders :: "c_double \<Rightarrow> nat \<Rightarrow> Value \<Rightarrow> string \<Rightarrow> bool"
  and renders_elements :: "c_double \<Rightarrow> nat \<Rightarrow> Value list \<Rightarrow> string \<Rightarrow> bool"
  and renders_members :: "c_double \<Rightarrow> nat \<Rightarrow> members \<Rightarrow> string \<Rightarrow> bool" for D where
  Null: "renders D n nullValue ''null''"
| Boolean: "renders D n (booleanValue b) (if b then ''true'' else ''false'')"
| Number: "number_text u \<Longrightarrow> decodeNumber D u = Some v \<Longrightarrow> renders D n v u"
| String: "utf8_text t \<Longrightarrow> renders D n (stringValue t) (valueToQuotedStringN t)"
| EmptyArray: "list_all space ws \<Longrightarrow> renders D n (arrayValue []) (''['' @ ws @ '']'')"
| Array: "list_all space ws \<Longrightarrow> renders_elements D n vs s \<Longrightarrow> renders D (Suc n) (arrayValue vs) (''['' @ ws @ s @ '']'')"
| EmptyObject: "list_all space ws \<Longrightarrow> renders D n (objectValue []) (''{'' @ ws @ ''}'')"
| Object: "list_all space ws \<Longrightarrow> sorted_wrt CZString_less (map fst ms) \<Longrightarrow> renders_members D n ms s \<Longrightarrow>
    renders D (Suc n) (objectValue ms) (''{'' @ ws @ s @ ''}'')"
| Element: "renders D n v s \<Longrightarrow> list_all space ws \<Longrightarrow> renders_elements D n [v] (s @ ws)"
| Elements: "renders D n v s \<Longrightarrow> list_all space ws \<Longrightarrow> list_all space ws' \<Longrightarrow> renders_elements D n vs t \<Longrightarrow>
    renders_elements D n (v # vs) (s @ ws @ '','' @ ws' @ t)"
| Member: "utf8_text k \<Longrightarrow> length k < 2 ^ 30 \<Longrightarrow> renders D n v s \<Longrightarrow> list_all space ws1 \<Longrightarrow> list_all space ws2 \<Longrightarrow> list_all space ws3 \<Longrightarrow>
    renders_members D n [(k, v)] (valueToQuotedStringN k @ ws1 @ '':'' @ ws2 @ s @ ws3)"
| Members: "utf8_text k \<Longrightarrow> length k < 2 ^ 30 \<Longrightarrow> renders D n v s \<Longrightarrow> list_all space ws1 \<Longrightarrow> list_all space ws2 \<Longrightarrow> list_all space ws3 \<Longrightarrow>
    list_all space ws4 \<Longrightarrow> renders_members D n ms t \<Longrightarrow>
    renders_members D n ((k, v) # ms) (valueToQuotedStringN k @ ws1 @ '':'' @ ws2 @ s @ ws3 @ '','' @ ws4 @ t)"

lemma quoted_head: "utf8_text t \<Longrightarrow> \<exists>q. valueToQuotedStringN t = DQUOTE # q"
  using readString_quoted [of t "[]"] by blast

lemma renders_head:
  "renders D n v s \<Longrightarrow> s \<noteq> [] \<and> \<not> space (hd s) \<and> hd s \<noteq> CHR '']''"
  "renders_elements D n vs s \<Longrightarrow> s \<noteq> [] \<and> \<not> space (hd s) \<and> hd s \<noteq> CHR '']''"
  "renders_members D n ms s \<Longrightarrow> True"
  by (induction rule: renders_renders_elements_renders_members.inducts)
    (auto simp: space_def number_text_def isdigit_def hd_append dest!: quoted_head)

text \<open>What the three readers do with the texts, given enough fuel.\<close>

definition reads_value :: "c_double \<Rightarrow> nat \<Rightarrow> Value \<Rightarrow> string \<Rightarrow> bool" where
  "reads_value D n v s \<longleftrightarrow> (\<forall>nodes ws r fuel v0 e.
     nodes + n \<le> stackLimit \<longrightarrow> list_all space ws \<longrightarrow> delimited r \<longrightarrow> 2 * length (ws @ s @ r) + 1 \<le> fuel \<longrightarrow>
     read_ok (readValue D fuel nodes v0 (at (ws @ s @ r) e)) v r)"

definition reads_elements :: "c_double \<Rightarrow> nat \<Rightarrow> Value list \<Rightarrow> string \<Rightarrow> bool" where
  "reads_elements D n vs s \<longleftrightarrow> (\<forall>nodes ws r fuel vs0 e.
     nodes + n < stackLimit \<longrightarrow> list_all space ws \<longrightarrow> 2 * length (ws @ s @ '']'' @ r) + 2 \<le> fuel \<longrightarrow>
     (\<exists>e'. readArray D fuel nodes vs0 (at (ws @ s @ '']'' @ r) e) = Some (Inr (True, vs0 @ vs, at r e'))))"

definition reads_members :: "c_double \<Rightarrow> nat \<Rightarrow> members \<Rightarrow> string \<Rightarrow> bool" where
  "reads_members D n ms s \<longleftrightarrow> (\<forall>nodes ws r fuel name ms0 e.
     sorted_wrt CZString_less (map fst (ms0 @ ms)) \<longrightarrow> nodes + n < stackLimit \<longrightarrow> list_all space ws \<longrightarrow>
     2 * length (ws @ s @ ''}'' @ r) + 1 \<le> fuel \<longrightarrow>
     (\<exists>e'. readObject D fuel nodes name ms0 (at (ws @ s @ ''}'' @ r) e) = Some (Inr (True, ms0 @ ms, at r e'))))"

lemmas reads_valueD = reads_value_def [THEN iffD1, rule_format]
lemmas reads_elementsD = reads_elements_def [THEN iffD1, rule_format]
lemmas reads_membersD = reads_members_def [THEN iffD1, rule_format]

lemma delimited_space: "list_all space ws \<Longrightarrow> delimited r \<Longrightarrow> delimited (ws @ r)"
  by (cases ws) (auto simp: delimited_def)

lemma delimited_signs: "delimited (CHR '','' # r)" "delimited (CHR '']'' # r)" "delimited (CHR ''}'' # r)"
  by (simp_all add: delimited_def)

lemma reads_array:
  assumes ws: "list_all space ws1" and vs: "renders_elements D n vs s" "reads_elements D n vs s"
  shows "reads_value D (Suc n) (arrayValue vs) (''['' @ ws1 @ s @ '']'')"
  unfolding reads_value_def
proof (intro allI impI)
  fix nodes ws r fuel v0 e
  assume n: "nodes + Suc n \<le> stackLimit" "list_all space ws" and l: "2 * length (ws @ (''['' @ ws1 @ s @ '']'') @ r) + 1 \<le> fuel"
  then obtain f where f: "fuel = Suc f" by (cases fuel) auto
  obtain e' where "readArray D f nodes [] (at ([] @ s @ '']'' @ r) e) = Some (Inr (True, [] @ vs, at r e'))"
    using reads_elementsD [OF vs(2), of nodes "[]" r f "[]" e] n l f by auto
  with readValue_array [OF n(2) ws, of nodes "s @ '']'' @ r" D f e vs r e' v0] renders_head(2) [OF vs(1)] n f
  show "read_ok (readValue D fuel nodes v0 (at (ws @ (''['' @ ws1 @ s @ '']'') @ r) e)) (arrayValue vs) r"
    by (simp del: readValue.simps)
qed

lemma reads_object:
  assumes ws: "list_all space ws1" and ms: "sorted_wrt CZString_less (map fst ms)" "reads_members D n ms s"
  shows "reads_value D (Suc n) (objectValue ms) (''{'' @ ws1 @ s @ ''}'')"
  unfolding reads_value_def
proof (intro allI impI)
  fix nodes ws r fuel v0 e
  assume n: "nodes + Suc n \<le> stackLimit" "list_all space ws" and l: "2 * length (ws @ (''{'' @ ws1 @ s @ ''}'') @ r) + 1 \<le> fuel"
  then obtain f where f: "fuel = Suc f" by (cases fuel) auto
  obtain e' where "readObject D f nodes [] [] (at (ws1 @ s @ ''}'' @ r) e) = Some (Inr (True, [] @ ms, at r e'))"
    using reads_membersD [OF ms(2), of "[]" nodes ws1 r f "[]" e] ms(1) ws n l f by auto
  with readValue_object [OF n(2), of nodes D f "ws1 @ s @ ''}'' @ r" e ms r e' v0] n f
  show "read_ok (readValue D fuel nodes v0 (at (ws @ (''{'' @ ws1 @ s @ ''}'') @ r) e)) (objectValue ms) r"
    by (simp del: readValue.simps)
qed

lemma reads_empty:
  assumes ws: "list_all space ws1"
  shows "reads_value D n (arrayValue []) (''['' @ ws1 @ '']'')" "reads_value D n (objectValue []) (''{'' @ ws1 @ ''}'')"
proof -
  show "reads_value D n (arrayValue []) (''['' @ ws1 @ '']'')"
    unfolding reads_value_def
  proof (intro allI impI)
    fix nodes ws r fuel v0 e
    assume n: "nodes + n \<le> stackLimit" "list_all space ws" and l: "2 * length (ws @ (''['' @ ws1 @ '']'') @ r) + 1 \<le> fuel"
    then obtain f where "fuel = Suc f" by (cases fuel) auto
    with readValue_empty_array [OF n(2) ws, of nodes D f v0 r e] n
    show "read_ok (readValue D fuel nodes v0 (at (ws @ (''['' @ ws1 @ '']'') @ r) e)) (arrayValue []) r" by (simp del: readValue.simps)
  qed
  show "reads_value D n (objectValue []) (''{'' @ ws1 @ ''}'')"
    unfolding reads_value_def
  proof (intro allI impI)
    fix nodes ws r fuel v0 e
    assume n: "nodes + n \<le> stackLimit" "list_all space ws" and l: "2 * length (ws @ (''{'' @ ws1 @ ''}'') @ r) + 1 \<le> fuel"
    have "fuel = Suc (Suc (fuel - 2))" using l by simp
    then obtain f where "fuel = Suc (Suc f)" ..
    with readValue_object [OF n(2) _ readObject_empty [OF ws, of D f nodes "[]" r e], of v0] n
    show "read_ok (readValue D fuel nodes v0 (at (ws @ (''{'' @ ws1 @ ''}'') @ r) e)) (objectValue []) r" by (simp del: readValue.simps)
  qed
qed

text \<open>One element or member more.\<close>

lemma reads_Element:
  assumes v: "reads_value D n v s" and ws1: "list_all space ws1"
  shows "reads_elements D n [v] (s @ ws1)"
  unfolding reads_elements_def
proof (intro allI impI)
  fix nodes ws r fuel vs0 e
  assume n: "nodes + n < stackLimit" and ws: "list_all space ws" and l: "2 * length (ws @ (s @ ws1) @ '']'' @ r) + 2 \<le> fuel"
  obtain f where f: "fuel = Suc f" using l by (cases fuel) auto
  have "read_ok (readValue D f (nodes + 1) nullValue (at (ws @ s @ ws1 @ CHR '']'' # r) e)) v (ws1 @ CHR '']'' # r)"
    by (rule reads_valueD [OF v]) (use n ws l f ws1 in \<open>auto intro: delimited_space delimited_signs\<close>)
  from readArray_last [OF ws1 this] f
  show "\<exists>e'. readArray D fuel nodes vs0 (at (ws @ (s @ ws1) @ '']'' @ r) e) = Some (Inr (True, vs0 @ [v], at r e'))"
    by (simp del: readArray.simps)
qed

lemma reads_Elements:
  assumes v: "reads_value D n v s" and ws1: "list_all space ws1" "list_all space ws2" and vs: "reads_elements D n vs t"
  shows "reads_elements D n (v # vs) (s @ ws1 @ '','' @ ws2 @ t)"
  unfolding reads_elements_def
proof (intro allI impI)
  fix nodes ws r fuel vs0 e
  assume n: "nodes + n < stackLimit" and ws: "list_all space ws" and l: "2 * length (ws @ (s @ ws1 @ '','' @ ws2 @ t) @ '']'' @ r) + 2 \<le> fuel"
  obtain f where f: "fuel = Suc f" using l by (cases fuel) auto
  define t' where "t' = ws2 @ t @ '']'' @ r"
  have "read_ok (readValue D f (nodes + 1) nullValue (at (ws @ s @ ws1 @ CHR '','' # t') e)) v (ws1 @ CHR '','' # t')"
    by (rule reads_valueD [OF v]) (use n ws l f ws1 in \<open>auto simp: t'_def intro: delimited_space delimited_signs\<close>)
  moreover have "\<exists>e'. readArray D f nodes (vs0 @ [v]) (at t' e'') = Some (Inr (True, (vs0 @ [v]) @ vs, at r e'))" for e''
    unfolding t'_def by (rule reads_elementsD [OF vs]) (use n ws1 l f in auto)
  ultimately show "\<exists>e'. readArray D fuel nodes vs0 (at (ws @ (s @ ws1 @ '','' @ ws2 @ t) @ '']'' @ r) e) = Some (Inr (True, vs0 @ v # vs, at r e'))"
    using readArray_element [OF ws1(1)] f by (simp add: t'_def del: readArray.simps)
qed

lemma sorted_before: "sorted_wrt CZString_less (map fst (ms0 @ m # ms)) \<Longrightarrow> \<forall>k' \<in> set (map fst ms0). CZString_less k' (fst m)"
  by (simp add: sorted_wrt_append)

lemma reads_Member:
  assumes k: "utf8_text k" "length k < 2 ^ 30" and v: "reads_value D n v s"
    and w: "list_all space ws1" "list_all space ws2" "list_all space ws3"
  shows "reads_members D n [(k, v)] (valueToQuotedStringN k @ ws1 @ '':'' @ ws2 @ s @ ws3)"
  unfolding reads_members_def
proof (intro allI impI)
  fix nodes ws r fuel name ms0 e
  assume so: "sorted_wrt CZString_less (map fst (ms0 @ [(k, v)]))" and n: "nodes + n < stackLimit" and ws: "list_all space ws"
    and l: "2 * length (ws @ (valueToQuotedStringN k @ ws1 @ '':'' @ ws2 @ s @ ws3) @ ''}'' @ r) + 1 \<le> fuel"
  obtain f where f: "fuel = Suc f" using l by (cases fuel) auto
  have "read_ok (readValue D f (nodes + 1) nullValue (at (ws2 @ s @ ws3 @ ''}'' @ r) e)) v (ws3 @ ''}'' @ r)"
    by (rule reads_valueD [OF v]) (use n w l f in \<open>auto intro: delimited_space delimited_signs\<close>)
  from readObject_value [OF ws w(1) k _ this, of ms0 name] sorted_before [OF so] f readObject_next_last [OF w(3)]
  show "\<exists>e'. readObject D fuel nodes name ms0 (at (ws @ (valueToQuotedStringN k @ ws1 @ '':'' @ ws2 @ s @ ws3) @ ''}'' @ r) e)
    = Some (Inr (True, ms0 @ [(k, v)], at r e'))"
    by (simp del: readObject.simps)
qed

lemma reads_Members:
  assumes k: "utf8_text k" "length k < 2 ^ 30" and v: "reads_value D n v s"
    and w: "list_all space ws1" "list_all space ws2" "list_all space ws3" "list_all space ws4" and ms: "reads_members D n ms t"
  shows "reads_members D n ((k, v) # ms) (valueToQuotedStringN k @ ws1 @ '':'' @ ws2 @ s @ ws3 @ '','' @ ws4 @ t)"
  unfolding reads_members_def
proof (intro allI impI)
  fix nodes ws r fuel name ms0 e
  assume so: "sorted_wrt CZString_less (map fst (ms0 @ (k, v) # ms))" and n: "nodes + n < stackLimit" and ws: "list_all space ws"
    and l: "2 * length (ws @ (valueToQuotedStringN k @ ws1 @ '':'' @ ws2 @ s @ ws3 @ '','' @ ws4 @ t) @ ''}'' @ r) + 1 \<le> fuel"
  obtain f where f: "fuel = Suc f" using l by (cases fuel) auto
  define t' where "t' = ws4 @ t @ ''}'' @ r"
  have "read_ok (readValue D f (nodes + 1) nullValue (at (ws2 @ s @ ws3 @ CHR '','' # t') e)) v (ws3 @ CHR '','' # t')"
    by (rule reads_valueD [OF v]) (use n w l f in \<open>auto simp: t'_def intro: delimited_space delimited_signs\<close>)
  from readObject_value [OF ws w(1) k _ this, of ms0 name] sorted_before [OF so]
  have "readObject D (Suc f) nodes name ms0 (at (ws @ valueToQuotedStringN k @ ws1 @ CHR '':'' # ws2 @ s @ ws3 @ CHR '','' # t') e)
      = readObject D f nodes k (ms0 @ [(k, v)]) (at t' (Some (ws3 @ CHR '','' # t')))"
    by (simp add: readObject_next_member [OF w(3)] del: readObject.simps)
  moreover have "\<exists>e'. readObject D f nodes k (ms0 @ [(k, v)]) (at t' e'') = Some (Inr (True, (ms0 @ [(k, v)]) @ ms, at r e'))" for e''
    unfolding t'_def by (rule reads_membersD [OF ms]) (use n w l f so in auto)
  ultimately show "\<exists>e'. readObject D fuel nodes name ms0 (at (ws @ (valueToQuotedStringN k @ ws1 @ '':'' @ ws2 @ s @ ws3 @ '','' @ ws4 @ t) @ ''}'' @ r) e)
    = Some (Inr (True, ms0 @ (k, v) # ms, at r e'))"
    using f by (simp add: t'_def del: readObject.simps)
qed

lemma reads_token:
  assumes "\<And>nodes ws r fuel v0 e. list_all space ws \<Longrightarrow> nodes \<le> stackLimit \<Longrightarrow> delimited r \<Longrightarrow>
      read_ok (readValue D (Suc fuel) nodes v0 (at (ws @ s @ r) e)) v r"
  shows "reads_value D n v s"
  unfolding reads_value_def
proof (intro allI impI)
  fix nodes ws r fuel v0 e
  assume "nodes + n \<le> stackLimit" "list_all space ws" "delimited r" "2 * length (ws @ s @ r) + 1 \<le> fuel"
  then show "read_ok (readValue D fuel nodes v0 (at (ws @ s @ r) e)) v r"
    using assms [of ws nodes r "fuel - 1" v0 e] by (cases fuel) (simp_all del: readValue.simps)
qed

text \<open>Every text of a value is read as the value.\<close>

lemma read_rendered:
  "renders D n v s \<Longrightarrow> reads_value D n v s"
  "renders_elements D n vs s \<Longrightarrow> reads_elements D n vs s"
  "renders_members D n ms s \<Longrightarrow> reads_members D n ms s"
proof (induction rule: renders_renders_elements_renders_members.inducts)
  case (Null n)
  show ?case by (rule reads_token) (rule readValue_literal)
next
  case (Boolean n b)
  show ?case by (rule reads_token) (rule readValue_literal)
next
  case (Number u v n)
  then show ?case by (intro reads_token readValue_number)
next
  case (String t n)
  then show ?case by (intro reads_token readValue_string)
qed ((rule reads_array reads_object reads_empty reads_Element reads_Elements reads_Member reads_Members; assumption)+)

text \<open>White space around the text does no harm either.\<close>

lemma readToken_end: "list_all space ws \<Longrightarrow> readToken (at ws e) = Inr (\<lparr>tok_type = tokenEndOfStream, tok_text = []\<rparr>, at [] e)"
  using skipSpaces_space [of ws "[]"]
  by (simp add: readToken_def getNextChar_def token_case_def isdigit_def between_def skipSpaces_def [of "[]"])

lemma parse_rendered:
  assumes "renders D 999 v s" "list_all space ws" "list_all space ws'"
  shows "parseFromStream D (ws @ s @ ws') root = Some (Inr (True, v))"
proof -
  have d: "delimited ws'" using delimited_space [OF assms(3), of "[]"] by (simp add: delimited_def)
  have "read_ok (readValue D (parse_fuel (ws @ s @ ws')) 1 root (at (ws @ s @ ws') None)) v ws'"
    by (rule reads_valueD [OF read_rendered(1) [OF assms(1)]]) (use assms d in \<open>auto simp: stackLimit_def parse_fuel_def\<close>)
  moreover have "skipCommentTokens (at ws' (Some ws')) = Inr (\<lparr>tok_type = tokenEndOfStream, tok_text = []\<rparr>, at [] (Some ws'))"
    by (rule skipCommentTokens_token) (simp_all add: readToken_end [OF assms(3)])
  ultimately show ?thesis
    by (simp add: parseFromStream_def OurReader_parse_def attachComments_def)
qed

section \<open>Texts with white space around them\<close>

definition text_of :: "c_double \<Rightarrow> nat \<Rightarrow> Value \<Rightarrow> string \<Rightarrow> bool" where
  "text_of D n v t \<longleftrightarrow> (\<exists>ws s ws'. list_all space ws \<and> list_all space ws' \<and> renders D n v s \<and> t = ws @ s @ ws')"

definition text_of_elements :: "c_double \<Rightarrow> nat \<Rightarrow> Value list \<Rightarrow> string \<Rightarrow> bool" where
  "text_of_elements D n vs t \<longleftrightarrow> (\<exists>ws s. list_all space ws \<and> renders_elements D n vs s \<and> t = ws @ s)"

definition text_of_members :: "c_double \<Rightarrow> nat \<Rightarrow> members \<Rightarrow> string \<Rightarrow> bool" where
  "text_of_members D n ms t \<longleftrightarrow> (\<exists>ws s. list_all space ws \<and> renders_members D n ms s \<and> t = ws @ s)"

lemma text_of_tight: "renders D n v s \<Longrightarrow> text_of D n v s"
  unfolding text_of_def by (intro exI [of _ "[]"] exI [of _ s]) simp

lemma text_of_space:
  assumes "text_of D n v t" "list_all space ws" "list_all space ws'"
  shows "text_of D n v (ws @ t @ ws')"
proof -
  obtain u s u' where "list_all space u" "list_all space u'" "renders D n v s" "t = u @ s @ u'"
    using assms(1) unfolding text_of_def by blast
  with assms(2,3) show ?thesis
    unfolding text_of_def by (intro exI [of _ "ws @ u"] exI [of _ s] exI [of _ "u' @ ws'"]) simp
qed

lemma text_of_element: "text_of D n v t \<Longrightarrow> text_of_elements D n [v] t"
  unfolding text_of_def text_of_elements_def by (auto intro: Element)

lemma text_of_more_elements:
  assumes "text_of D n v t" "text_of_elements D n vs u"
  shows "text_of_elements D n (v # vs) (t @ '','' @ u)"
proof -
  obtain ws s ws' ws2 s2 where "list_all space ws" "list_all space ws'" "renders D n v s" "t = ws @ s @ ws'"
      "list_all space ws2" "renders_elements D n vs s2" "u = ws2 @ s2"
    using assms unfolding text_of_def text_of_elements_def by blast
  then show ?thesis
    unfolding text_of_elements_def
    by (intro exI [of _ ws] exI [of _ "s @ ws' @ '','' @ ws2 @ s2"]) (simp add: Elements [of D n v s ws' ws2 vs s2, simplified])
qed

lemma text_of_member:
  assumes "utf8_text k" "length k < 2 ^ 30" "text_of D n v t" "list_all space ws" "list_all space ws1"
  shows "text_of_members D n [(k, v)] (ws @ valueToQuotedStringN k @ ws1 @ '':'' @ t)"
proof -
  obtain ws2 s ws3 where "list_all space ws2" "list_all space ws3" "renders D n v s" "t = ws2 @ s @ ws3"
    using assms(3) unfolding text_of_def by blast
  with Member [of k D n v s ws1 ws2 ws3] assms show ?thesis unfolding text_of_members_def by fastforce
qed

lemma text_of_more_members:
  assumes k: "utf8_text k" "length k < 2 ^ 30" and v: "text_of D n v t" and ws: "list_all space ws" "list_all space ws1"
    and ms: "text_of_members D n ms u"
  shows "text_of_members D n ((k, v) # ms) (ws @ valueToQuotedStringN k @ ws1 @ '':'' @ t @ '','' @ u)"
proof -
  obtain ws2 s ws3 ws4 s4 where "list_all space ws2" "list_all space ws3" "renders D n v s" "t = ws2 @ s @ ws3"
      "list_all space ws4" "renders_members D n ms s4" "u = ws4 @ s4"
    using v ms unfolding text_of_def text_of_members_def by blast
  with Members [of k D n v s ws1 ws2 ws3 ws4 ms s4] k ws show ?thesis unfolding text_of_members_def by fastforce
qed

lemma renders_trailing_space:
  "renders D n v s \<Longrightarrow> True"
  "renders_elements D n vs s \<Longrightarrow> list_all space u \<Longrightarrow> renders_elements D n vs (s @ u)"
  "renders_members D n ms s \<Longrightarrow> list_all space u \<Longrightarrow> renders_members D n ms (s @ u)"
proof (induction rule: renders_renders_elements_renders_members.inducts)
  case (Element n v s ws)
  then show ?case using renders_renders_elements_renders_members.Element [of D n v s "ws @ u"] by simp
next
  case (Elements n v s ws ws' vs t)
  then show ?case using renders_renders_elements_renders_members.Elements [of D n v s ws ws' vs "t @ u"] by simp
next
  case (Member k n v s ws1 ws2 ws3)
  then show ?case using renders_renders_elements_renders_members.Member [of k D n v s ws1 ws2 "ws3 @ u"] by simp
next
  case (Members k n v s ws1 ws2 ws3 ws4 ms t)
  then show ?case using renders_renders_elements_renders_members.Members [of k D n v s ws1 ws2 ws3 ws4 ms "t @ u"] by simp
qed simp_all

lemma text_of_array:
  assumes "text_of_elements D n vs t" "list_all space ws"
  shows "text_of D (Suc n) (arrayValue vs) (''['' @ t @ ws @ '']'')"
proof -
  obtain u s where "list_all space u" "renders_elements D n vs s" "t = u @ s"
    using assms(1) unfolding text_of_elements_def by blast
  with text_of_tight [OF Array [of u D n vs "s @ ws"]] renders_trailing_space(2) assms(2) show ?thesis by simp
qed

lemma text_of_object:
  assumes "text_of_members D n ms t" "sorted_wrt CZString_less (map fst ms)" "list_all space ws"
  shows "text_of D (Suc n) (objectValue ms) (''{'' @ t @ ws @ ''}'')"
proof -
  obtain u s where "list_all space u" "renders_members D n ms s" "t = u @ s"
    using assms(1) unfolding text_of_members_def by blast
  with text_of_tight [OF Object [of u ms D n "s @ ws"]] renders_trailing_space(3) assms(2,3) show ?thesis by simp
qed

lemma text_of_scalar:
  "text_of D n nullValue ''null''" "text_of D n (booleanValue b) (valueToString_bool b)"
  "json_fits D real n (intValue i) \<Longrightarrow> text_of D n (intValue i) (valueToString_int i)"
  "json_fits D real n (uintValue u) \<Longrightarrow> text_of D n (uintValue u) (valueToString_uint u)"
  "json_fits D real n (realValue d) \<Longrightarrow> text_of D n (realValue d) (real d)"
  "utf8_text s \<Longrightarrow> text_of D n (stringValue s) (valueToQuotedStringN s)"
  "text_of D n (arrayValue []) ''[]''" "text_of D n (objectValue []) ''{}''"
proof -
  show "text_of D n nullValue ''null''" by (rule text_of_tight) (rule Null)
  show "text_of D n (booleanValue b) (valueToString_bool b)"
    unfolding valueToString_bool_def by (rule text_of_tight) (rule Boolean)
  show "text_of D n (intValue i) (valueToString_int i)" if "json_fits D real n (intValue i)"
    by (rule text_of_tight, rule Number) (use that int_text in auto)
  show "text_of D n (uintValue u) (valueToString_uint u)" if "json_fits D real n (uintValue u)"
    by (rule text_of_tight, rule Number) (use that uint_text in auto)
  show "text_of D n (realValue d) (real d)" if "json_fits D real n (realValue d)"
    by (rule text_of_tight, rule Number) (use that in auto)
  show "text_of D n (stringValue s) (valueToQuotedStringN s)" if "utf8_text s"
    by (rule text_of_tight) (rule String [OF that])
  show "text_of D n (arrayValue []) ''[]''" "text_of D n (objectValue []) ''{}''"
    using text_of_tight [OF EmptyArray [of "[]"]] text_of_tight [OF EmptyObject [of "[]"]] by simp_all
qed

lemma parse_text_of: "text_of D 999 v t \<Longrightarrow> parseFromStream D t root = Some (Inr (True, v))"
  unfolding text_of_def using parse_rendered by blast

text \<open>A text is not empty and does not start with a closing bracket.\<close>

lemma text_of_nonempty: "text_of D n v t \<Longrightarrow> t \<noteq> []"
  unfolding text_of_def using renders_head(1) by fastforce

lemma utf8_text_ascii: "list_all (\<lambda>c. byte c < 128) s \<Longrightarrow> utf8_text s"
proof -
  assume a: "list_all (\<lambda>c. byte c < 128) s"
  then have "list_all scalar (map byte s) \<and> s = utf8 (map byte s)"
    by (induction s) (auto simp: scalar_def utf8_def codePointToUTF8_def)
  then show ?thesis unfolding utf8_text_def by blast
qed

section \<open>Printers\<close>

text \<open>
  The contract of a writer: on the values it is meant for, it writes a text of the value. Whatever the layout,
  reading such a text gives the value back.
\<close>

locale json_printer =
  fixes D :: c_double and fit :: "Value \<Rightarrow> bool" and print :: "Value \<Rightarrow> string"
  assumes print_text: "fit v \<Longrightarrow> text_of D 999 v (print v)"
begin

lemma parse_print: "fit v \<Longrightarrow> parseFromStream D (print v) old = Some (Inr (True, v))"
  by (rule parse_text_of) (rule print_text)

lemma print_nonempty: "fit v \<Longrightarrow> print v \<noteq> []"
  by (rule text_of_nonempty) (rule print_text)

end

sublocale json_printer < codec print "\<lambda>doc. parseFromStream D doc nullValue" fit "\<lambda>v. Some (Inr (True, v))"
  by unfold_locales (simp_all add: parse_print)

end
