(* ===== verification/Json_Writer.thy ===== *)
theory Json_Writer
  imports Json_Reader
begin

text \<open>
  \<open>BuiltStyledStreamWriter\<close> of \<open>json/jsoncpp.cpp\<close> with the settings of a default \<open>StreamWriterBuilder\<close>, the ones
  the service uses: a tab as indentation and comment style \<open>All\<close>, so that every array that is not
  empty is written over several lines and the single-line branch is never taken. The values that the
  program writes carry no comments. The theory ends with the text of a value as a function of its own, equal to
  what the writer leaves in its stream.
\<close>

section \<open>The writer\<close>

record Writer =
  sout :: string
  indentString :: string
  indented :: bool

definition indentation :: string where
  "indentation = [CHR 0x09]"

definition colonSymbol :: string where
  "colonSymbol = '' : ''"

definition nullSymbol :: string where
  "nullSymbol = ''null''"

definition pushValue :: "string \<Rightarrow> Writer \<Rightarrow> Writer" where
  "pushValue val w = w\<lparr>sout := sout w @ val\<rparr>"

definition writeIndent :: "Writer \<Rightarrow> Writer" where
  "writeIndent w = (if indentation \<noteq> [] then w\<lparr>sout := sout w @ [LF] @ indentString w\<rparr> else w)"

definition writeWithIndent :: "string \<Rightarrow> Writer \<Rightarrow> Writer" where
  "writeWithIndent val w =
     (let w = (if \<not> indented w then writeIndent w else w)
      in w\<lparr>sout := sout w @ val, indented := False\<rparr>)"

definition indent :: "Writer \<Rightarrow> Writer" where
  "indent w = w\<lparr>indentString := indentString w @ indentation\<rparr>"

definition unindent :: "Writer \<Rightarrow> Writer" where
  "unindent w = w\<lparr>indentString := take (length (indentString w) - length indentation) (indentString w)\<rparr>"

fun writeValue :: "c_double \<Rightarrow> Value \<Rightarrow> Writer \<Rightarrow> Writer"
  and writeElements :: "c_double \<Rightarrow> Value list \<Rightarrow> Writer \<Rightarrow> Writer"
  and writeMembers :: "c_double \<Rightarrow> members \<Rightarrow> Writer \<Rightarrow> Writer" where
  "writeValue D nullValue w = pushValue nullSymbol w"
| "writeValue D (intValue n) w = pushValue (valueToString_int n) w"
| "writeValue D (uintValue n) w = pushValue (valueToString_uint n) w"
| "writeValue D (realValue d) w = pushValue (valueToString_double D d) w"
| "writeValue D (stringValue s) w = pushValue (valueToQuotedStringN s) w"
| "writeValue D (booleanValue b) w = pushValue (valueToString_bool b) w"
| "writeValue D (arrayValue vs) w =
     (if vs = [] then pushValue ''[]'' w
      else writeWithIndent '']'' (unindent (writeElements D vs (indent (writeWithIndent ''['' w)))))"
| "writeValue D (objectValue ms) w =
     (if ms = [] then pushValue ''{}'' w
      else writeWithIndent ''}'' (unindent (writeMembers D ms (indent (writeWithIndent ''{'' w)))))"
| "writeElements D [] w = w"
| "writeElements D (v # vs) w =
     (let w = (if \<not> indented w then writeIndent w else w);
          w = (writeValue D v (w\<lparr>indented := True\<rparr>))\<lparr>indented := False\<rparr>
      in if vs = [] then w else writeElements D vs (w\<lparr>sout := sout w @ '',''\<rparr>))"
| "writeMembers D [] w = w"
| "writeMembers D (m # ms) w =
     (let w = writeWithIndent (valueToQuotedStringN (fst m)) w;
          w = writeValue D (snd m) (w\<lparr>sout := sout w @ colonSymbol\<rparr>)
      in if ms = [] then w else writeMembers D ms (w\<lparr>sout := sout w @ '',''\<rparr>))"

definition Writer_write :: "c_double \<Rightarrow> Value \<Rightarrow> string" where
  "Writer_write D root = sout (writeValue D root \<lparr>sout = [], indentString = [], indented = True\<rparr>)"

definition writeString :: "c_double \<Rightarrow> Value \<Rightarrow> string" where
  "writeString D root = Writer_write D root"

section \<open>The text of a value\<close>

text \<open>The same text as a function of the indentation and of whether the writer stands on a fresh line.\<close>

definition lead :: "string \<Rightarrow> bool \<Rightarrow> string" where
  "lead ind b = (if b then [] else LF # ind)"

fun value_text :: "c_double \<Rightarrow> string \<Rightarrow> bool \<Rightarrow> Value \<Rightarrow> string"
  and elements_text :: "c_double \<Rightarrow> string \<Rightarrow> Value list \<Rightarrow> string"
  and members_text :: "c_double \<Rightarrow> string \<Rightarrow> members \<Rightarrow> string" where
  "value_text D ind b nullValue = nullSymbol"
| "value_text D ind b (intValue n) = valueToString_int n"
| "value_text D ind b (uintValue n) = valueToString_uint n"
| "value_text D ind b (realValue d) = valueToString_double D d"
| "value_text D ind b (stringValue s) = valueToQuotedStringN s"
| "value_text D ind b (booleanValue c) = valueToString_bool c"
| "value_text D ind b (arrayValue vs) =
     (if vs = [] then ''[]'' else lead ind b @ ''['' @ elements_text D (ind @ indentation) vs @ LF # ind @ '']'')"
| "value_text D ind b (objectValue ms) =
     (if ms = [] then ''{}'' else lead ind b @ ''{'' @ members_text D (ind @ indentation) ms @ LF # ind @ ''}'')"
| "elements_text D ind [] = []"
| "elements_text D ind (v # vs) =
     LF # ind @ value_text D ind True v @ (if vs = [] then [] else '','' @ elements_text D ind vs)"
| "members_text D ind [] = []"
| "members_text D ind (m # ms) =
     LF # ind @ valueToQuotedStringN (fst m) @ colonSymbol @ value_text D ind False (snd m)
     @ (if ms = [] then [] else '','' @ members_text D ind ms)"

definition composite :: "Value \<Rightarrow> bool" where
  "composite v \<longleftrightarrow> (case v of arrayValue vs \<Rightarrow> vs \<noteq> [] | objectValue ms \<Rightarrow> ms \<noteq> [] | _ \<Rightarrow> False)"

lemma writeWithIndent_text:
  "writeWithIndent val w = w\<lparr>sout := sout w @ lead (indentString w) (indented w) @ val, indented := False\<rparr>"
  by (simp add: writeWithIndent_def writeIndent_def lead_def Let_def indentation_def)

lemma write_text:
  "writeValue D v w = w\<lparr>sout := sout w @ value_text D (indentString w) (indented w) v,
     indented := indented w \<and> \<not> composite v\<rparr>"
  "vs \<noteq> [] \<Longrightarrow> \<not> indented w \<Longrightarrow> writeElements D vs w = w\<lparr>sout := sout w @ elements_text D (indentString w) vs\<rparr>"
  "ms \<noteq> [] \<Longrightarrow> \<not> indented w \<Longrightarrow> writeMembers D ms w = w\<lparr>sout := sout w @ members_text D (indentString w) ms\<rparr>"
proof (induction D v w and D vs w and D ms w rule: writeValue_writeElements_writeMembers.induct)
  case (7 D vs w)
  then show ?case
    by (cases "vs = []") (simp_all add: pushValue_def composite_def writeWithIndent_text indent_def unindent_def lead_def)
next
  case (8 D ms w)
  then show ?case
    by (cases "ms = []") (simp_all add: pushValue_def composite_def writeWithIndent_text indent_def unindent_def lead_def)
next
  case (10 D v vs w)
  then show ?case by (auto simp: Let_def writeIndent_def indentation_def)
next
  case (12 D m ms w)
  then show ?case by (auto simp: Let_def writeWithIndent_text lead_def)
qed (simp_all add: pushValue_def composite_def)

lemma Writer_write_text: "Writer_write D v = value_text D [] True v"
  by (simp add: Writer_write_def write_text)

end
