(* ===== verification/Json_Roundtrip.thy ===== *)
theory Json_Roundtrip
  imports Json_Renders Json_Writer
begin

text \<open>
  The JSON writer of the service and the JSON reader together: every value that the text format can carry is
  read back as it was, whatever its nesting up to the reader's limit. The proof shows, along the writer's
  recursion, that what it writes is a text of the value.
\<close>

lemma space_indentation: "list_all space indentation"
  by (simp add: indentation_def)

lemma space_lead: "list_all space ind \<Longrightarrow> list_all space (lead ind b)"
  by (simp add: lead_def)

lemma written_text_of:
  "json_ok D n v \<Longrightarrow> list_all space ind \<Longrightarrow> text_of D n v (value_text D ind b v)"
  "list_all (json_ok D n) vs \<Longrightarrow> list_all space ind \<Longrightarrow> vs \<noteq> [] \<Longrightarrow> text_of_elements D n vs (elements_text D ind vs)"
  "list_all (\<lambda>m. utf8_text (fst m) \<and> length (fst m) < 2 ^ 30 \<and> json_ok D n (snd m)) ms \<Longrightarrow> list_all space ind \<Longrightarrow> ms \<noteq> [] \<Longrightarrow>
     text_of_members D n ms (members_text D ind ms)"
proof (induction D ind b v and D ind vs and D ind ms arbitrary: n and n and n rule: value_text_elements_text_members_text.induct)
  case (7 D ind b vs)
  show ?case
  proof (cases "vs = []")
    case False
    with 7 obtain k where "n = Suc k" "text_of_elements D k vs (elements_text D (ind @ indentation) vs)"
      by (cases n) (auto simp: space_indentation)
    with text_of_space [OF text_of_array [of D k vs _ "LF # ind"] space_lead [of ind b], of _ "[]"] 7 False
    show ?thesis by simp
  qed (simp add: text_of_scalar)
next
  case (8 D ind b ms)
  show ?case
  proof (cases "ms = []")
    case False
    with 8 obtain k where "n = Suc k" "text_of_members D k ms (members_text D (ind @ indentation) ms)" "sorted_wrt CZString_less (map fst ms)"
      by (cases n) (auto simp: space_indentation)
    with text_of_space [OF text_of_object [of D k ms _ "LF # ind"] space_lead [of ind b], of _ "[]"] 8 False
    show ?thesis by simp
  qed (simp add: text_of_scalar)
next
  case (10 D ind v vs)
  then have "text_of D n v (LF # ind @ value_text D ind True v)"
    using text_of_space [of D n v _ "LF # ind" "[]"] by simp
  with 10 text_of_element text_of_more_elements show ?case by fastforce
next
  case (12 D ind m ms)
  define t where "t = CHR '' '' # value_text D ind False (snd m)"
  have "text_of D n (snd m) t"
    using text_of_space [of D n "snd m" _ "'' ''" "[]"] 12 by (simp add: t_def)
  with 12 text_of_member [of "fst m" D n "snd m" t "LF # ind" "'' ''"]
    text_of_more_members [of "fst m" D n "snd m" t "LF # ind" "'' ''" ms "members_text D ind ms"]
  show ?case by (cases "ms = []") (simp_all add: t_def colonSymbol_def)
qed (simp_all add: text_of_scalar nullSymbol_def)

lemma writeString_text_of: "json_ok D 999 v \<Longrightarrow> text_of D 999 v (writeString D v)"
  unfolding writeString_def Writer_write_text by (rule written_text_of(1)) simp_all

interpretation json: json_printer D "json_ok D 999" "writeString D" for D
  by unfold_locales (rule writeString_text_of)

text \<open>
  C4. What the writer writes, the reader reads: a value whose integers are in the form in which they are
  read (negative or up to the largest \<open>int\<close>, unsigned beyond), whose doubles survive the C library, whose
  texts are UTF-8, whose members are in the order of the keys and whose nesting stays below the stack limit
  is the result of parsing its own text, whatever value the result replaces.
\<close>

theorem json_roundtrip:
  "json_ok D 999 v \<Longrightarrow> parseFromStream D (writeString D v) root = Some (Inr (True, v))"
  by (rule json.parse_print)

theorem json_roundtrip_witness:
  "parseFromStream \<lparr>scan_double = (\<lambda>s. if s = ''0.5'' then Some 0x3FE0000000000000 else None), stream_double = (\<lambda>s. if s = ''0.5'' then Some 0x3FE0000000000000 else None), print_double = (\<lambda>t p d. ''0.5'')\<rparr>
     (writeString \<lparr>scan_double = (\<lambda>s. if s = ''0.5'' then Some 0x3FE0000000000000 else None), stream_double = (\<lambda>s. if s = ''0.5'' then Some 0x3FE0000000000000 else None), print_double = (\<lambda>t p d. ''0.5'')\<rparr>
       (objectValue [(''a'', arrayValue [intValue (- 5), uintValue 3000000000, realValue 0x3FE0000000000000]), (''faceId'', stringValue ''f1'')]))
     nullValue
   = Some (Inr (True, objectValue [(''a'', arrayValue [intValue (- 5), uintValue 3000000000, realValue 0x3FE0000000000000]), (''faceId'', stringValue ''f1'')]))"
proof -
  have t: "utf8_text ''a''" "utf8_text ''faceId''" "utf8_text ''f1''"
    by (rule utf8_text_ascii, simp)+
  have "isfinite 0x3FE0000000000000" by (simp add: isfinite_def)
  then show ?thesis
    by (intro json_roundtrip)
      (simp add: t valueToString_double_def valueToString_real_def fixNumericLocale_def number_text_def readNumber_def isdigit_def decodeNumber_def decodeDouble_def Let_def)
qed

end
