(* ===== verification/Json_Wellformed.thy ===== *)
theory Json_Wellformed
  imports Json_Roundtrip
begin

text \<open>
  What is known of every value that the reader returns, well-formed document or not, and documents on
  which it throws.
\<close>

section \<open>The members of an object\<close>

text \<open>\<open>operator<\<close> of the keys is a strict linear order, so a \<open>std::map\<close> is the list of its entries in that order.\<close>

lemma CZString_less_trans: "CZString_less a b \<Longrightarrow> CZString_less b c \<Longrightarrow> CZString_less a c"
proof (induction a b arbitrary: c rule: CZString_less.induct)
  case (2 d ds)
  then show ?case by (cases c) auto
next
  case (3 x xs y ys)
  then show ?case by (cases c) auto
qed simp

lemma CZString_less_total: "CZString_less a b \<or> a = b \<or> CZString_less b a"
proof (induction a b rule: CZString_less.induct)
  case (1 s)
  then show ?case by (cases s) auto
next
  case (3 x xs y ys)
  have "byte x < byte y \<or> x = y \<or> byte y < byte x" by (metis char_of_char linorder_neqE_nat)
  with 3 show ?case by auto
qed simp

definition sorted_members :: "members \<Rightarrow> bool" where
  "sorted_members ms \<longleftrightarrow> sorted_wrt CZString_less (map fst ms)"

lemma members_resolve_set: "set (members_resolve key ms) \<subseteq> insert (key, nullValue) (set ms)"
  by (induction ms) (auto split: if_splits)

lemma members_resolve_sorted: "sorted_members ms \<Longrightarrow> sorted_members (members_resolve key ms)"
proof (induction ms)
  case (Cons m ms)
  obtain k v where m: "m = (k, v)" by (cases m)
  have tl: "\<forall>k' \<in> set (map fst ms). CZString_less k k'" and ms: "sorted_members ms"
    using Cons.prems by (auto simp: sorted_members_def m)
  show ?case
  proof (cases "CZString_less k key \<or> k = key")
    case True
    with Cons.IH [OF ms] tl members_resolve_set [of key ms] Cons.prems show ?thesis
      by (auto simp: sorted_members_def m CZString_less_irrefl)
  next
    case False
    then have "CZString_less key k" using CZString_less_total by blast
    with False Cons.prems tl show ?thesis by (auto simp: sorted_members_def m intro: CZString_less_trans)
  qed
qed (simp add: sorted_members_def)

lemma members_store_keys: "map fst (members_store key w ms) = map fst ms"
  by (induction ms) auto

lemma members_store_set: "set (members_store key w ms) \<subseteq> insert (key, w) (set ms)"
  by (induction ms) (auto split: if_splits)

lemma members_find_store:
  "members_find k (members_store key w ms) = (if k = key \<and> key \<in> set (map fst ms) then Some w else members_find k ms)"
  by (induction ms) (auto simp: members_find_def simp del: set_map)

lemma members_resolve_key: "key \<in> set (map fst (members_resolve key ms))"
  by (induction ms) (auto simp del: set_map)

lemma members_find_resolve: "sorted_members ms \<Longrightarrow> k \<noteq> key \<Longrightarrow> members_find k (members_resolve key ms) = members_find k ms"
  by (induction ms) (auto simp: members_find_def sorted_members_def)

text \<open>\<open>json[key] = v\<close> on an object is an update of a keyed store.\<close>

definition members_put :: "string \<Rightarrow> Value \<Rightarrow> members \<Rightarrow> members" where
  "members_put key v ms = members_store key v (members_resolve key ms)"

interpretation members: keyed_store members_put members_find "(=)" sorted_members
proof unfold_locales
  show "sorted_members ms \<Longrightarrow> members_find k' (members_put k v ms) = (if k = k' then Some v else members_find k' ms)" for ms k k' v
    by (simp add: members_put_def members_find_store members_resolve_key members_find_resolve del: set_map)
  show "sorted_members ms \<Longrightarrow> sorted_members (members_put k v ms)" for ms k v
    using members_resolve_sorted [of ms k] by (simp add: members_put_def sorted_members_def members_store_keys)
qed auto

lemma set_member_put: "set_member key v (objectValue ms) = Inr (objectValue (members_put key v ms))"
  by (simp add: set_member_def resolveReference_def members_put_def)

section \<open>Well-formed values\<close>

text \<open>
  Integers in the ranges in which the reader returns them, keys in order and not too long, at most \<open>n\<close>
  levels below.
\<close>

fun well_formed :: "nat \<Rightarrow> Value \<Rightarrow> bool" where
  "well_formed n (intValue i) = (- (2 ^ 63) \<le> i \<and> i \<le> 2 ^ 31 - 1)"
| "well_formed n (uintValue u) = (2 ^ 31 \<le> u \<and> u < 2 ^ 64)"
| "well_formed n (arrayValue vs) = (vs = [] \<or> 0 < n \<and> list_all (well_formed (n - 1)) vs)"
| "well_formed n (objectValue ms) =
     (ms = [] \<or> 0 < n \<and> sorted_members ms \<and> list_all (\<lambda>m. length (fst m) < 2 ^ 30 \<and> well_formed (n - 1) (snd m)) ms)"
| "well_formed n _ = True"

lemma decodeNumber_loop_le: "decodeNumber_loop m ds v = Some r \<Longrightarrow> v \<le> m \<Longrightarrow> r \<le> m"
proof (induction m ds v rule: decodeNumber_loop.induct)
  case (2 m c ds v)
  have c: "isdigit c" and g: "\<not> (v \<ge> m div 10 \<and> (v > m div 10 \<or> ds \<noteq> [] \<or> byte c - 48 > m mod 10))"
    and r: "decodeNumber_loop m ds (v * 10 + (byte c - 48)) = Some r"
    using 2(2) by (auto simp: Let_def split: if_splits)
  have "byte c - 48 \<le> 9" using c by (auto simp: isdigit_def)
  moreover have "m = m div 10 * 10 + m mod 10" by simp
  ultimately have "v * 10 + (byte c - 48) \<le> m" using g by linarith
  with 2(1) [OF _ refl refl] c g r show ?case by blast
qed simp

lemma decodeNumber_well_formed: "decodeNumber D t = Some w \<Longrightarrow> well_formed n w"
  by (auto simp: decodeNumber_def decodeDouble_def Let_def split: option.splits if_splits dest!: decodeNumber_loop_le)

text \<open>What a reader that returns a value gives.\<close>

definition gives :: "('a \<Rightarrow> bool) \<Rightarrow> (bool \<times> 'a \<times> Reader) run \<Rightarrow> bool" where
  "gives P m \<longleftrightarrow> (\<forall>ok x st. m = Some (Inr (ok, x, st)) \<longrightarrow> P x)"

lemma gives_intros:
  "P x \<Longrightarrow> gives P (Some (Inr (ok, x, st)))"
  "gives P (Some (Inl e))" "gives P None"
  "P x \<Longrightarrow> gives P (fail_until t x st)"
  "(\<And>y. r = Inr y \<Longrightarrow> gives P (f y)) \<Longrightarrow> gives P (bind_run (Some r) f)"
  by (auto simp: gives_def fail_until_def bind_run_def split: sum.splits)

lemma gives_bind:
  "gives Q m \<Longrightarrow> (\<And>ok x st. Q x \<Longrightarrow> gives P (f (ok, x, st))) \<Longrightarrow> gives P (bind_run m f)"
  unfolding gives_def bind_run_def by (auto split: option.splits sum.splits) blast

abbreviation fits :: "nat \<Rightarrow> Value \<Rightarrow> bool" where
  "fits nodes v \<equiv> well_formed (stackLimit - nodes) v"

lemma readValue_switch_fits:
  assumes "fits nodes v"
    and "\<And>nodes st. gives (\<lambda>ms. fits nodes (objectValue ms)) (read_object nodes [] [] st)"
    and "\<And>nodes st. gives (\<lambda>vs. fits nodes (arrayValue vs)) (read_array nodes [] st)"
  shows "gives (fits nodes) (readValue_switch D read_object read_array nodes v token st)"
proof -
  have empty: "fits nodes (arrayValue [])" by simp
  show ?thesis
    unfolding readValue_switch_def Let_def
    using assms(1)
    by (auto intro!: gives_intros gives_bind [OF assms(2)] gives_bind [OF assms(3)] intro: decodeNumber_well_formed
    simp del: well_formed.simps(3,4) simp: empty split: option.splits)
qed

lemma readValue_body_fits:
  assumes "fits nodes v"
    and "\<And>nodes st. gives (\<lambda>ms. fits nodes (objectValue ms)) (read_object nodes [] [] st)"
    and "\<And>nodes st. gives (\<lambda>vs. fits nodes (arrayValue vs)) (read_array nodes [] st)"
  shows "gives (\<lambda>v. nodes \<le> stackLimit \<and> fits nodes v) (readValue_body D read_object read_array nodes v st)"
proof (cases "nodes > stackLimit")
  case False
  then have "gives (\<lambda>v. nodes \<le> stackLimit \<and> fits nodes v) (readValue_switch D read_object read_array nodes v token s)" for token s
    using readValue_switch_fits [of nodes v read_object read_array D token s] assms by (simp add: gives_def)
  then show ?thesis unfolding readValue_body_def by (auto intro!: gives_intros)
qed (simp add: readValue_body_def gives_intros)

lemma members_fit:
  "fits nodes (objectValue ms) \<Longrightarrow> length key < 2 ^ 30 \<Longrightarrow>
     fits (nodes + 1) (case members_find key (members_resolve key ms) of None \<Rightarrow> nullValue | Some v \<Rightarrow> v)"
  "fits nodes (objectValue ms) \<Longrightarrow> length key < 2 ^ 30 \<Longrightarrow> nodes + 1 \<le> stackLimit \<Longrightarrow> fits (nodes + 1) w \<Longrightarrow>
     fits nodes (objectValue (members_store key w (members_resolve key ms)))"
proof -
  assume ms: "fits nodes (objectValue ms)" and k: "length key < 2 ^ 30"
  define P where "P = (\<lambda>m :: string \<times> Value. length (fst m) < 2 ^ 30 \<and> fits (nodes + 1) (snd m))"
  have "\<forall>m \<in> set ms. P m" using ms by (auto simp: P_def list_all_iff)
  moreover have "P (key, nullValue)" using k by (simp add: P_def)
  ultimately have all: "\<forall>m \<in> set (members_resolve key ms). P m"
    using members_resolve_set [of key ms] by blast
  then show "fits (nodes + 1) (case members_find key (members_resolve key ms) of None \<Rightarrow> nullValue | Some v \<Rightarrow> v)"
    by (auto simp: members_find_def P_def split: option.splits dest!: map_of_SomeD)
  assume n: "nodes + 1 \<le> stackLimit" and w: "fits (nodes + 1) w"
  have "sorted_members ms" using ms by (auto simp: sorted_members_def)
  then have "sorted_members (members_put key w ms)" by (rule members.inv_put)
  moreover have "P (key, w)" using w k by (simp add: P_def)
  with all have "\<forall>m \<in> set (members_put key w ms). P m"
    using members_store_set [of key w "members_resolve key ms"] unfolding members_put_def by blast
  ultimately show "fits nodes (objectValue (members_store key w (members_resolve key ms)))"
    using n by (simp add: members_put_def list_all_iff P_def)
qed

lemma readObject_next_fits:
  assumes "fits nodes (objectValue ms)"
    and "\<And>name st. gives (\<lambda>ms. fits nodes (objectValue ms)) (read_object nodes name ms st)"
  shows "gives (\<lambda>ms. fits nodes (objectValue ms)) (readObject_next read_object nodes name ms st)"
  unfolding readObject_next_def
  using assms by (auto intro!: gives_intros simp del: well_formed.simps split: if_splits)

lemma readObject_body_fits:
  assumes ms: "fits nodes (objectValue ms)"
    and rv: "\<And>v st. fits (nodes + 1) v \<Longrightarrow> gives (\<lambda>v. nodes + 1 \<le> stackLimit \<and> fits (nodes + 1) v) (read_value (nodes + 1) v st)"
    and ro: "\<And>name ms st. fits nodes (objectValue ms) \<Longrightarrow> gives (\<lambda>ms. fits nodes (objectValue ms)) (read_object nodes name ms st)"
  shows "gives (\<lambda>ms. fits nodes (objectValue ms)) (readObject_body read_value read_object nodes name ms st)"
proof -
  have "gives (\<lambda>ms. fits nodes (objectValue ms))
      (bind_run (read_value (nodes + 1) (case members_find key (members_resolve key ms) of None \<Rightarrow> nullValue | Some v \<Rightarrow> v) s)
        (\<lambda>(ok, v, s). let ms = members_store key v (members_resolve key ms)
          in if \<not> ok then fail_until tokenObjectEnd ms s else readObject_next read_object nodes key ms s))"
    if k: "length key < 2 ^ 30" for key s
    using members_fit(2) [OF ms k]
    by (intro gives_bind [OF rv [OF members_fit(1) [OF ms k]]])
      (auto simp: Let_def simp del: well_formed.simps intro!: gives_intros readObject_next_fits ro)
  then have "gives (\<lambda>ms. fits nodes (objectValue ms)) (readObject_member read_value read_object nodes key ms s)" for key s
    unfolding readObject_member_def Let_def
    using ms by (auto intro!: gives_intros simp: not_le simp del: well_formed.simps)
  then show ?thesis
    unfolding readObject_body_def
    using ms by (auto intro!: gives_intros simp del: well_formed.simps split: option.splits)
qed

lemma readArray_body_fits:
  assumes vs: "fits nodes (arrayValue vs)"
    and rv: "\<And>v st. fits (nodes + 1) v \<Longrightarrow> gives (\<lambda>v. nodes + 1 \<le> stackLimit \<and> fits (nodes + 1) v) (read_value (nodes + 1) v st)"
    and ra: "\<And>vs st. fits nodes (arrayValue vs) \<Longrightarrow> gives (\<lambda>vs. fits nodes (arrayValue vs)) (read_array nodes vs st)"
  shows "gives (\<lambda>vs. fits nodes (arrayValue vs)) (readArray_body read_value read_array nodes vs st)"
proof -
  have vs': "fits nodes (arrayValue (vs @ [v]))" if "nodes + 1 \<le> stackLimit" "fits (nodes + 1) v" for v
    using that vs by auto
  have "fits (nodes + 1) nullValue" by simp
  then show ?thesis
    unfolding readArray_body_def
    by (intro gives_bind [OF rv]) (auto intro!: gives_intros vs' ra simp: Let_def simp del: well_formed.simps)
qed

lemma read_fits:
  "(fits nodes v \<longrightarrow> gives (\<lambda>v. nodes \<le> stackLimit \<and> fits nodes v) (readValue D fuel nodes v st))
   \<and> (fits nodes (objectValue ms) \<longrightarrow> gives (\<lambda>ms. fits nodes (objectValue ms)) (readObject D fuel nodes name ms st))
   \<and> (fits nodes (arrayValue vs) \<longrightarrow> gives (\<lambda>vs. fits nodes (arrayValue vs)) (readArray D fuel nodes vs st))"
proof (induction fuel arbitrary: st nodes v name ms vs)
  case (Suc fuel)
  then have rv: "fits nodes v \<Longrightarrow> gives (\<lambda>v. nodes \<le> stackLimit \<and> fits nodes v) (readValue D fuel nodes v st)"
    and ro: "fits nodes (objectValue ms) \<Longrightarrow> gives (\<lambda>ms. fits nodes (objectValue ms)) (readObject D fuel nodes name ms st)"
    and ra: "fits nodes (arrayValue vs) \<Longrightarrow> gives (\<lambda>vs. fits nodes (arrayValue vs)) (readArray D fuel nodes vs st)"
    for st nodes v name ms vs by blast+
  have ro': "gives (\<lambda>ms. fits nodes (objectValue ms)) (readObject D fuel nodes [] [] st)"
    and ra': "gives (\<lambda>vs. fits nodes (arrayValue vs)) (readArray D fuel nodes [] st)" for nodes st
    using ro [of nodes "[]" "[]" st] ra [of nodes "[]" st] by simp_all
  show ?case
    using readValue_body_fits [where read_object = "readObject D fuel" and read_array = "readArray D fuel" and v = v, OF _ ro' ra']
      readObject_body_fits [where read_value = "readValue D fuel" and read_object = "readObject D fuel" and ms = ms, OF _ rv ro]
      readArray_body_fits [where read_value = "readValue D fuel" and read_array = "readArray D fuel" and vs = vs, OF _ rv ra]
    by (simp del: well_formed.simps)
qed (simp add: gives_intros)

text \<open>
  C6. Every value that the reader leaves behind, whether the document was well-formed or not, is
  well-formed: integers are in the ranges in which \<open>decodeNumber\<close> returns them, the keys of every object
  are in strict order and shorter than \<open>2 ^ 30\<close>, and the nesting stays below the stack limit.
\<close>

theorem json_parse_well_formed:
  "parseFromStream D doc root = Some (Inr (ok, v)) \<Longrightarrow> well_formed 999 root \<Longrightarrow> well_formed 999 v"
  using read_fits [of 1 root D "parse_fuel doc" "at doc None"]
  by (auto simp: parseFromStream_def OurReader_parse_def gives_def bind_run_def stackLimit_def simp del: readValue.simps
    split: option.splits sum.splits prod.splits)

theorem json_parse_well_formed_witness:
  "well_formed 999 (objectValue [(''a'', intValue 7)])"
proof -
  fix D
  have "utf8_text ''a''" by (rule utf8_text_ascii) simp
  then have "parseFromStream D (writeString D (objectValue [(''a'', intValue 7)])) nullValue
      = Some (Inr (True, objectValue [(''a'', intValue 7)]))"
    by (intro json.parse_print) simp
  from json_parse_well_formed [OF this] show ?thesis by simp
qed

section \<open>A single quote\<close>

text \<open>
  A single quote is read as the start of a comment (the case falls through), and a comment that does
  not start with a slash is refused by \<open>setComment\<close> with an exception instead of an error return.
\<close>

definition later :: "Reader \<Rightarrow> Reader \<Rightarrow> bool" where
  "later st st' \<longleftrightarrow> lastValueEnd st' = None \<and> (\<exists>u. commentsBefore st' = commentsBefore st @ u)"

lemma later_rest [simp]: "later st (st'\<lparr>rest := r\<rparr>) = later st st'" "later (st\<lparr>rest := r\<rparr>) st' = later st st'"
  by (simp_all add: later_def)

lemma later_refl: "lastValueEnd st = None \<Longrightarrow> later st st"
  by (simp add: later_def)

lemma readComment_later:
  assumes "lastValueEnd st = None"
  obtains ok st' where "readComment b st = Inr (ok, st')" "later st st'"
proof -
  obtain c s where cs: "getNextChar (rest st) = (c, s)" by fastforce
  obtain ok r where r: "(if c = CHR ''*'' then readCStyleComment s else if c = CHR ''/'' then (True, readCppStyleComment s) else (False, s)) = (ok, r)"
    by fastforce
  show ?thesis
  proof (cases ok)
    case True
    with cs r assms that show ?thesis by (simp add: readComment_def later_def)
  next
    case False
    with cs r assms that [of False "st\<lparr>rest := r\<rparr>"] show ?thesis by (simp add: readComment_def later_refl)
  qed
qed

lemma token_case_later:
  assumes "lastValueEnd st = None"
  obtains t ok st' where "token_case c b st = Inr (t, ok, st')" "later st st'"
proof (cases "c = CHR 0x27 \<or> c = CHR ''/''")
  case True
  obtain ok st' where "readComment b st = Inr (ok, st')" "later st st'" by (rule readComment_later [OF assms])
  with True that show ?thesis by (auto simp: token_case_def)
next
  case False
  then have "\<not> isl (token_case c b st)"
    by (simp add: token_case_def Let_def split: prod.split)
  then obtain t ok s where s: "token_case c b st = Inr (t, ok, s)" by (cases "token_case c b st") auto
  with False have "lastValueEnd s = lastValueEnd st \<and> commentsBefore s = commentsBefore st"
    by (auto simp: token_case_def Let_def split: prod.splits if_splits)
  with that s assms show ?thesis by (simp add: later_def)
qed

lemma readToken_later:
  assumes "lastValueEnd st = None"
  obtains tok st' where "readToken st = Inr (tok, st')" "later st st'"
proof -
  obtain c s where cs: "getNextChar (skipSpaces (rest st)) = (c, s)" by fastforce
  obtain t ok st' where "token_case c (skipSpaces (rest st)) (st\<lparr>rest := s\<rparr>) = Inr (t, ok, st')" "later (st\<lparr>rest := s\<rparr>) st'"
    by (rule token_case_later [of "st\<lparr>rest := s\<rparr>"]) (use assms in auto)
  with cs that show ?thesis by (simp add: readToken_def)
qed

lemma skipCommentTokens_later:
  "lastValueEnd st = None \<Longrightarrow> \<exists>tok st'. skipCommentTokens st = Inr (tok, st') \<and> later st st'"
proof (induction st rule: skipCommentTokens.induct)
  case (1 st)
  obtain t s where t: "readToken st = Inr (t, s)" "later st s" by (rule readToken_later [OF 1(2)])
  show ?case
  proof (cases "tok_type t = tokenComment")
    case True
    with 1(1) [OF t(1)] t obtain tok st' where "skipCommentTokens s = Inr (tok, st')" "later s st'" by (auto simp: later_def)
    with t True show ?thesis by (subst skipCommentTokens.simps) (auto simp: later_def)
  next
    case False
    with t show ?thesis by (subst skipCommentTokens.simps) simp
  qed
qed

lemma setComment_quote: "setComment (CHR 0x27 # u) = Inl (LogicError ''in Json::Value::setComment(): Comments must start with /'')"
  by (cases u) (auto simp: setComment_def Let_def)

lemma parse_quote_throws:
  "\<exists>msg. parseFromStream D (CHR 0x27 # CHR ''/'' # t) root = Some (Inl (LogicError msg))"
proof -
  define r where "r = readCppStyleComment t"
  have "length r \<le> length t" unfolding r_def by (rule readCppStyleComment_shorter)
  then obtain u where u: "normalizeEOL (between (CHR 0x27 # CHR ''/'' # t) r) = CHR 0x27 # u"
    by (simp add: between_def Suc_diff_le)
  let ?st = "\<lparr>rest = r, lastValueEnd = None, commentsBefore = CHR 0x27 # u\<rparr>"
  have "readToken (at (CHR 0x27 # CHR ''/'' # t) None) = Inr (\<lparr>tok_type = tokenComment, tok_text = between (CHR 0x27 # CHR ''/'' # t) r\<rparr>, ?st)"
    using u by (simp add: readToken_def skipSpaces_def getNextChar_def token_case_def readComment_def Let_def r_def [symmetric])
  moreover obtain tok st' where "skipCommentTokens ?st = Inr (tok, st')" "later ?st st'"
    using skipCommentTokens_later [of ?st] by auto
  ultimately show ?thesis
    by (subst parseFromStream_def, subst OurReader_parse_def, subst parse_fuel_def)
      (auto simp: readValue_body_def stackLimit_def attachComments_def later_def setComment_quote skipCommentTokens.simps [of "at (CHR 0x27 # CHR ''/'' # t) None"])
qed

end
