(* ===== verification/Json_Settings.thy ===== *)
theory Json_Settings
  imports Json_Wellformed
begin

text \<open>
  The builders of \<open>json/jsoncpp.cpp\<close>: settings are a JSON object, from which \<open>CharReaderBuilder\<close> makes a reader
  and \<open>StreamWriterBuilder\<close> a writer. The service uses both with their defaults; this theory shows that the
  defaults are the settings for which the reader and the writer are modelled.
\<close>

section \<open>Conversions\<close>

text \<open>
  The number that a finite double stands for, in units of the smallest positive double \<open>2 ^ -1074\<close>, and the test of
  a range, which fails for what is not finite.
\<close>

definition double_units :: "64 word \<Rightarrow> int" where
  "double_units d =
     (let e = unat (drop_bit 52 d AND 0x7FF); f = int (unat (take_bit 52 d));
          x = (if e = 0 then f else (2 ^ 52 + f) * 2 ^ (e - 1))
      in if bit d 63 then - x else x)"

definition InRange :: "64 word \<Rightarrow> int \<Rightarrow> int \<Rightarrow> bool" where
  "InRange d lo hi \<longleftrightarrow> isfinite d \<and> lo * 2 ^ 1074 \<le> double_units d \<and> double_units d \<le> hi * 2 ^ 1074"

text \<open>The conversion of a double that is not negative to an unsigned integer drops the fraction.\<close>

definition double_to_nat :: "64 word \<Rightarrow> nat" where
  "double_to_nat d = nat (double_units d div 2 ^ 1074)"

lemma double_examples: "double_to_nat 0x4031000000000000 = 17" "InRange 0x4031000000000000 17 17" "double_units 1 = 1"
  by (simp_all add: double_to_nat_def double_units_def InRange_def isfinite_def take_bit_eq_mask mask_eq_exp_minus_1 bit_word_iff_drop_bit_and)

definition asBool :: "Value \<Rightarrow> bool result" where
  "asBool v =
     (case v of
        booleanValue b \<Rightarrow> Inr b
      | nullValue \<Rightarrow> Inr False
      | intValue n \<Rightarrow> Inr (n \<noteq> 0)
      | uintValue n \<Rightarrow> Inr (n \<noteq> 0)
      | realValue d \<Rightarrow> Inr (\<not> isfinite d \<or> double_units d \<noteq> 0)
      | _ \<Rightarrow> Inl (LogicError ''Value is not convertible to bool.''))"

definition asUInt :: "Value \<Rightarrow> nat result" where
  "asUInt v =
     (case v of
        intValue n \<Rightarrow>
          if 0 \<le> n \<and> n \<le> 2 ^ 32 - 1 then Inr (nat n) else Inl (LogicError ''LargestInt out of UInt range'')
      | uintValue n \<Rightarrow> if n \<le> 2 ^ 32 - 1 then Inr n else Inl (LogicError ''LargestUInt out of UInt range'')
      | realValue d \<Rightarrow>
          if InRange d 0 (2 ^ 32 - 1) then Inr (double_to_nat d) else Inl (LogicError ''double out of UInt range'')
      | nullValue \<Rightarrow> Inr 0
      | booleanValue b \<Rightarrow> Inr (if b then 1 else 0)
      | _ \<Rightarrow> Inl (LogicError ''Value is not convertible to UInt.''))"

text \<open>
  The bound of the range, the largest \<open>UInt64\<close>, is rounded to \<open>2 ^ 64\<close> as a double; the conversion of that one
  number is not defined by the language and is out of the range of the type.
\<close>

definition asUInt64 :: "Value \<Rightarrow> nat result" where
  "asUInt64 v =
     (case v of
        intValue n \<Rightarrow> if 0 \<le> n then Inr (nat n) else Inl (LogicError ''LargestInt out of UInt64 range'')
      | uintValue n \<Rightarrow> Inr n
      | realValue d \<Rightarrow>
          if InRange d 0 (2 ^ 64) then Inr (double_to_nat d) else Inl (LogicError ''double out of UInt64 range'')
      | nullValue \<Rightarrow> Inr 0
      | booleanValue b \<Rightarrow> Inr (if b then 1 else 0)
      | _ \<Rightarrow> Inl (LogicError ''Value is not convertible to UInt64.''))"

definition getMemberNames :: "Value \<Rightarrow> string list result" where
  "getMemberNames v =
     (case v of
        nullValue \<Rightarrow> Inr []
      | objectValue ms \<Rightarrow> Inr (map fst ms)
      | _ \<Rightarrow> Inl (LogicError ''in Json::Value::getMemberNames(), value must be objectValue''))"

section \<open>Readers\<close>

record OurFeatures =
  allowComments :: bool
  strictRoot :: bool
  allowDroppedNullPlaceholders :: bool
  allowNumericKeys :: bool
  allowSingleQuotes :: bool
  failIfExtra :: bool
  rejectDupKeys :: bool
  allowSpecialFloats :: bool
  features_stackLimit :: nat

text \<open>A sequence of assignments to members.\<close>

fun set_members :: "(string \<times> Value) list \<Rightarrow> Value \<Rightarrow> Value result" where
  "set_members [] settings = Inr settings"
| "set_members ((key, v) # kvs) settings = bind_result (set_member key v settings) (set_members kvs)"

definition CharReaderBuilder_setDefaults :: "Value \<Rightarrow> Value result" where
  "CharReaderBuilder_setDefaults = set_members
     [(''collectComments'', booleanValue True), (''allowComments'', booleanValue True), (''strictRoot'', booleanValue False),
      (''allowDroppedNullPlaceholders'', booleanValue False), (''allowNumericKeys'', booleanValue False),
      (''allowSingleQuotes'', booleanValue False), (''stackLimit'', intValue 1000), (''failIfExtra'', booleanValue False),
      (''rejectDupKeys'', booleanValue False), (''allowSpecialFloats'', booleanValue False)]"

definition strictMode :: "Value \<Rightarrow> Value result" where
  "strictMode = set_members
     [(''allowComments'', booleanValue False), (''strictRoot'', booleanValue True),
      (''allowDroppedNullPlaceholders'', booleanValue False), (''allowNumericKeys'', booleanValue False),
      (''allowSingleQuotes'', booleanValue False), (''stackLimit'', intValue 1000), (''failIfExtra'', booleanValue True),
      (''rejectDupKeys'', booleanValue True), (''allowSpecialFloats'', booleanValue False)]"

definition setting :: "(Value \<Rightarrow> 'a result) \<Rightarrow> string \<Rightarrow> Value \<Rightarrow> 'a result" where
  "setting as key settings = bind_result (Value_member key settings) as"

definition newCharReader :: "Value \<Rightarrow> (bool \<times> OurFeatures) result" where
  "newCharReader settings =
     bind_result (setting asBool ''collectComments'' settings) (\<lambda>collectComments.
     bind_result (setting asBool ''allowComments'' settings) (\<lambda>comments.
     bind_result (setting asBool ''strictRoot'' settings) (\<lambda>strict.
     bind_result (setting asBool ''allowDroppedNullPlaceholders'' settings) (\<lambda>dropped.
     bind_result (setting asBool ''allowNumericKeys'' settings) (\<lambda>numeric.
     bind_result (setting asBool ''allowSingleQuotes'' settings) (\<lambda>quotes.
     bind_result (setting asUInt64 ''stackLimit'' settings) (\<lambda>limit.
     bind_result (setting asBool ''failIfExtra'' settings) (\<lambda>extra.
     bind_result (setting asBool ''rejectDupKeys'' settings) (\<lambda>dup.
     bind_result (setting asBool ''allowSpecialFloats'' settings) (\<lambda>special.
     Inr (collectComments, \<lparr>allowComments = comments, strictRoot = strict, allowDroppedNullPlaceholders = dropped,
       allowNumericKeys = numeric, allowSingleQuotes = quotes, failIfExtra = extra, rejectDupKeys = dup,
       allowSpecialFloats = special, features_stackLimit = limit\<rparr>)))))))))))"

definition getValidReaderKeys :: "string list" where
  "getValidReaderKeys = [''collectComments'', ''allowComments'', ''strictRoot'', ''allowDroppedNullPlaceholders'',
     ''allowNumericKeys'', ''allowSingleQuotes'', ''stackLimit'', ''failIfExtra'', ''rejectDupKeys'', ''allowSpecialFloats'']"

text \<open>\<open>validate\<close>, the same function for both builders up to the valid keys: the members with other keys, and whether there are none.\<close>

fun validate_loop :: "string list \<Rightarrow> Value \<Rightarrow> string list \<Rightarrow> Value \<Rightarrow> Value result" where
  "validate_loop valid_keys settings [] invalid = Inr invalid"
| "validate_loop valid_keys settings (key # keys) invalid =
     (if key \<notin> set valid_keys then
        bind_result (Value_member key settings) (\<lambda>v.
        bind_result (set_member key v invalid) (validate_loop valid_keys settings keys))
      else validate_loop valid_keys settings keys invalid)"

definition Value_empty :: "Value \<Rightarrow> bool" where
  "Value_empty v = (case v of nullValue \<Rightarrow> True | arrayValue vs \<Rightarrow> vs = [] | objectValue ms \<Rightarrow> ms = [] | _ \<Rightarrow> False)"

definition validate :: "string list \<Rightarrow> Value \<Rightarrow> (bool \<times> Value) result" where
  "validate valid_keys settings =
     bind_result (getMemberNames settings) (\<lambda>keys.
     bind_result (validate_loop valid_keys settings keys nullValue) (\<lambda>invalid. Inr (Value_empty invalid, invalid)))"

section \<open>Writers\<close>

datatype CommentStyle = CommentNone | CommentMost | CommentAll

record BuiltStyledStreamWriter =
  w_indentation :: string
  w_cs :: CommentStyle
  w_colonSymbol :: string
  w_nullSymbol :: string
  w_endingLineFeedSymbol :: string
  w_useSpecialFloats :: bool
  w_precision :: nat
  w_precisionType :: PrecisionType

definition StreamWriterBuilder_setDefaults :: "Value \<Rightarrow> Value result" where
  "StreamWriterBuilder_setDefaults = set_members
     [(''commentStyle'', stringValue ''All''), (''indentation'', stringValue [CHR 0x09]),
      (''enableYAMLCompatibility'', booleanValue False), (''dropNullPlaceholders'', booleanValue False),
      (''useSpecialFloats'', booleanValue False), (''precision'', intValue 17), (''precisionType'', stringValue ''significant'')]"

abbreviation quoted :: "string \<Rightarrow> string" where
  "quoted s \<equiv> CHR 0x27 # s @ [CHR 0x27]"

definition newStreamWriter :: "c_double \<Rightarrow> Value \<Rightarrow> BuiltStyledStreamWriter result" where
  "newStreamWriter D settings =
     bind_result (setting (asString D) ''indentation'' settings) (\<lambda>indentation.
     bind_result (setting (asString D) ''commentStyle'' settings) (\<lambda>cs_str.
     bind_result (setting (asString D) ''precisionType'' settings) (\<lambda>pt_str.
     bind_result (setting asBool ''enableYAMLCompatibility'' settings) (\<lambda>eyc.
     bind_result (setting asBool ''dropNullPlaceholders'' settings) (\<lambda>dnp.
     bind_result (setting asBool ''useSpecialFloats'' settings) (\<lambda>usf.
     bind_result (setting asUInt ''precision'' settings) (\<lambda>pre.
     bind_result (if cs_str = ''All'' then Inr CommentAll else if cs_str = ''None'' then Inr CommentNone
       else Inl (RuntimeError (''commentStyle must be '' @ quoted ''All'' @ '' or '' @ quoted ''None''))) (\<lambda>cs.
     bind_result (if pt_str = ''significant'' then Inr significantDigits else if pt_str = ''decimal'' then Inr decimalPlaces
       else Inl (RuntimeError (''precisionType must be '' @ quoted ''significant'' @ '' or '' @ quoted ''decimal''))) (\<lambda>precisionType.
     Inr \<lparr>w_indentation = indentation, w_cs = cs,
       w_colonSymbol = (if eyc then '': '' else if indentation = [] then '':'' else '' : ''),
       w_nullSymbol = (if dnp then [] else ''null''), w_endingLineFeedSymbol = [], w_useSpecialFloats = usf,
       w_precision = min pre 17, w_precisionType = precisionType\<rparr>)))))))))"

definition getValidWriterKeys :: "string list" where
  "getValidWriterKeys = [''indentation'', ''commentStyle'', ''enableYAMLCompatibility'', ''dropNullPlaceholders'',
     ''useSpecialFloats'', ''precision'', ''precisionType'']"

section \<open>The defaults\<close>

lemma reader_defaults:
  "\<exists>settings. CharReaderBuilder_setDefaults nullValue = Inr settings
     \<and> newCharReader settings = Inr (True, \<lparr>allowComments = True, strictRoot = False, allowDroppedNullPlaceholders = False,
         allowNumericKeys = False, allowSingleQuotes = False, failIfExtra = False, rejectDupKeys = False,
         allowSpecialFloats = False, features_stackLimit = stackLimit\<rparr>)
     \<and> validate getValidReaderKeys settings = Inr (True, nullValue)"
  by (simp add: CharReaderBuilder_setDefaults_def set_member_def resolveReference_def newCharReader_def setting_def Value_member_def
    Value_find_def members_find_def asBool_def asUInt64_def stackLimit_def validate_def getMemberNames_def getValidReaderKeys_def
    Value_empty_def)

lemma writer_defaults:
  "\<exists>settings. StreamWriterBuilder_setDefaults nullValue = Inr settings
     \<and> newStreamWriter D settings = Inr \<lparr>w_indentation = indentation, w_cs = CommentAll, w_colonSymbol = colonSymbol,
         w_nullSymbol = nullSymbol, w_endingLineFeedSymbol = [], w_useSpecialFloats = False, w_precision = 17,
         w_precisionType = significantDigits\<rparr>
     \<and> validate getValidWriterKeys settings = Inr (True, nullValue)"
  by (simp add: StreamWriterBuilder_setDefaults_def set_member_def resolveReference_def newStreamWriter_def setting_def Value_member_def
    Value_find_def members_find_def asBool_def asUInt_def asString_def indentation_def colonSymbol_def nullSymbol_def validate_def
    getMemberNames_def getValidWriterKeys_def Value_empty_def)

text \<open>\<open>validate\<close> returns exactly the members that no reader or writer looks at.\<close>

lemma validate_loop_members:
  assumes "sorted_members (done @ ms)" "\<forall>m \<in> set ms. members_find (fst m) all = Some (snd m)"
  shows "validate_loop valid (objectValue all) (map fst ms) (if done = [] then nullValue else objectValue done)
    = (let bad = done @ filter (\<lambda>m. fst m \<notin> set valid) ms in Inr (if bad = [] then nullValue else objectValue bad))"
  using assms
proof (induction ms arbitrary: "done")
  case (Cons m ms)
  show ?case
  proof (cases "fst m \<in> set valid")
    case True
    have "sorted_members (done @ ms)" using Cons.prems(1) by (auto simp: sorted_members_def sorted_wrt_append)
    with True Cons show ?thesis by (simp add: Let_def)
  next
    case False
    have less: "\<forall>k \<in> set (map fst done). CZString_less k (fst m)"
      using Cons.prems(1) by (auto simp: sorted_members_def sorted_wrt_append)
    have set: "set_member (fst m) (snd m) (if done = [] then nullValue else objectValue done) = Inr (objectValue (done @ [m]))"
      using members_append(1) [OF less] members_append(3) [OF less, of "snd m"] by (auto simp: set_member_def resolveReference_def)
    have "sorted_members ((done @ [m]) @ ms)" using Cons.prems(1) by simp
    from Cons.IH [OF this] Cons.prems(2) set False show ?thesis by (simp add: Value_member_def Value_find_def Let_def)
  qed
qed simp

lemma sorted_members_find: "sorted_members ms \<Longrightarrow> m \<in> set ms \<Longrightarrow> members_find (fst m) ms = Some (snd m)"
  unfolding members_find_def sorted_members_def
proof (induction ms)
  case (Cons a ms)
  then show ?case by (cases "m = a") (auto dest!: CZString_less_ne)
qed simp

lemma validate_invalid_members:
  "sorted_members ms \<Longrightarrow> validate valid (objectValue ms)
     = (let bad = filter (\<lambda>m. fst m \<notin> set valid) ms in Inr (bad = [], if bad = [] then nullValue else objectValue bad))"
  using validate_loop_members [of "[]" ms ms valid]
  by (auto simp: validate_def getMemberNames_def sorted_members_find Let_def Value_empty_def)

end
