(* ===== verification/Json_Dialects.thy ===== *)
theory Json_Dialects
  imports Json_Settings "HOL-Library.Sublist"
begin

text \<open>
  The readers of \<open>json/jsoncpp.cpp\<close> with all their settings: \<open>OurReader\<close>, which \<open>CharReaderBuilder\<close> makes, and the
  deprecated \<open>Reader\<close>, of which it was once a copy. One model serves both; a \<open>Dialect\<close> holds the settings and which of
  the two classes is meant. Unlike \<open>Json_Reader\<close>, which is this reader with the default settings, the model keeps the
  list of errors with their places, from which the messages are made. A place in the document is the number of
  characters that are left there.
\<close>

section \<open>Settings\<close>

text \<open>The settings of the deprecated reader.\<close>

record Features =
  f_allowComments :: bool
  f_strictRoot :: bool
  f_allowDroppedNullPlaceholders :: bool
  f_allowNumericKeys :: bool

definition Features_all :: Features where
  "Features_all = \<lparr>f_allowComments = True, f_strictRoot = False, f_allowDroppedNullPlaceholders = False, f_allowNumericKeys = False\<rparr>"

definition Features_strictMode :: Features where
  "Features_strictMode = Features_all\<lparr>f_allowComments := False, f_strictRoot := True,
     f_allowDroppedNullPlaceholders := False, f_allowNumericKeys := False\<rparr>"

definition stackLimit_g :: nat where
  "stackLimit_g = 1000"

record Dialect =
  features :: OurFeatures
  collectComments :: bool
  deprecated :: bool

text \<open>\<open>parse\<close> does not collect comments that are not allowed.\<close>

definition our_dialect :: "bool \<Rightarrow> OurFeatures \<Rightarrow> Dialect" where
  "our_dialect collect fs = \<lparr>features = fs, collectComments = (collect \<and> allowComments fs), deprecated = False\<rparr>"

definition widen_features :: "Features \<Rightarrow> OurFeatures" where
  "widen_features fs = \<lparr>allowComments = f_allowComments fs, strictRoot = f_strictRoot fs,
     allowDroppedNullPlaceholders = f_allowDroppedNullPlaceholders fs, allowNumericKeys = f_allowNumericKeys fs,
     allowSingleQuotes = False, failIfExtra = False, rejectDupKeys = False, allowSpecialFloats = False,
     features_stackLimit = stackLimit_g\<rparr>"

definition deprecated_dialect :: "bool \<Rightarrow> Features \<Rightarrow> Dialect" where
  "deprecated_dialect collect fs =
     \<lparr>features = widen_features fs, collectComments = (collect \<and> f_allowComments fs), deprecated = True\<rparr>"

section \<open>Tokens\<close>

text \<open>A token with its places, and the list of errors.\<close>

record TokenAt = Token +
  tok_start :: int
  tok_end :: int

record ErrorInfo =
  err_start :: int
  err_end :: int
  err_message :: string
  err_extra :: "int option"

record ReaderState =
  scanner :: Reader
  errors :: "ErrorInfo list"

abbreviation left :: "string \<Rightarrow> int" where
  "left s \<equiv> int (length s)"

definition addComment :: "string \<Rightarrow> bool \<Rightarrow> Reader \<Rightarrow> (bool \<times> Reader) result" where
  "addComment comment same_line st =
     (let normalized = normalizeEOL comment
      in if same_line then bind_result (setComment normalized) (\<lambda>_. Inr (True, st))
         else Inr (True, st\<lparr>commentsBefore := commentsBefore st @ normalized\<rparr>))"

definition Dialect_readComment :: "Dialect \<Rightarrow> string \<Rightarrow> Reader \<Rightarrow> (bool \<times> Reader) result" where
  "Dialect_readComment d begin_pos st =
     (let (c, s) = getNextChar (rest st);
          (successful, s) = (if c = CHR ''*'' then readCStyleComment s
                             else if c = CHR ''/'' then (True, readCppStyleComment s)
                             else (False, s));
          st = st\<lparr>rest := s\<rparr>
      in if \<not> successful then Inr (False, st)
         else if collectComments d then
           addComment (between begin_pos s)
             (case lastValueEnd st of
                None \<Rightarrow> False
              | Some e \<Rightarrow> \<not> containsNewLine (between e begin_pos)
                  \<and> (c \<noteq> CHR ''*'' \<or> \<not> containsNewLine (between begin_pos s))) st
         else Inr (True, st))"

fun readStringSingleQuote :: "string \<Rightarrow> bool \<times> string" where
  "readStringSingleQuote [] = (False, [])"
| "readStringSingleQuote (c # r) =
     (if c = CHR 0x5C then (case r of [] \<Rightarrow> (False, []) | d # r' \<Rightarrow> readStringSingleQuote r')
      else if c = CHR 0x27 then (True, r)
      else readStringSingleQuote r)"

text \<open>
  The switch of \<open>readToken\<close>. The deprecated reader has no cases for the single quote and the two capital letters, and
  reads a minus sign like a digit.
\<close>

definition Dialect_token_case :: "Dialect \<Rightarrow> char \<Rightarrow> string \<Rightarrow> Reader \<Rightarrow> (TokenType \<times> bool \<times> Reader) result" where
  "Dialect_token_case d c start_pos st =
     (let plain = (\<lambda>t. Inr (t, True, st));
          step = (\<lambda>t r. Inr (t, fst r, st\<lparr>rest := snd r\<rparr>));
          fs = features d
      in if c = CHR ''{'' then plain tokenObjectBegin
         else if c = CHR ''}'' then plain tokenObjectEnd
         else if c = CHR ''['' then plain tokenArrayBegin
         else if c = CHR '']'' then plain tokenArrayEnd
         else if c = DQUOTE then step tokenString (readString (rest st))
         else if \<not> deprecated d \<and> c = CHR 0x27 \<and> allowSingleQuotes fs then step tokenString (readStringSingleQuote (rest st))
         else if \<not> deprecated d \<and> c = CHR 0x27 \<or> c = CHR ''/'' then
           bind_result (Dialect_readComment d start_pos st) (\<lambda>(ok, st). Inr (tokenComment, ok, st))
         else if isdigit c \<or> deprecated d \<and> c = CHR ''-'' then step tokenNumber (True, snd (readNumber False (rest st)))
         else if c = CHR ''-'' then
           let (ok, r) = readNumber True (rest st)
           in if ok then step tokenNumber (True, r)
              else step tokenNegInf (if allowSpecialFloats fs then match_text ''nfinity'' r else (False, r))
         else if c = CHR ''t'' then step tokenTrue (match_text ''rue'' (rest st))
         else if c = CHR ''f'' then step tokenFalse (match_text ''alse'' (rest st))
         else if c = CHR ''n'' then step tokenNull (match_text ''ull'' (rest st))
         else if \<not> deprecated d \<and> c = CHR ''N'' \<and> allowSpecialFloats fs then step tokenNaN (match_text ''aN'' (rest st))
         else if \<not> deprecated d \<and> c = CHR ''I'' \<and> allowSpecialFloats fs then step tokenPosInf (match_text ''nfinity'' (rest st))
         else if c = CHR '','' then plain tokenArraySeparator
         else if c = CHR '':'' then plain tokenMemberSeparator
         else if c = CHR 0x00 then plain tokenEndOfStream
         else Inr (tokenError, False, st))"

definition Dialect_readToken :: "Dialect \<Rightarrow> Reader \<Rightarrow> (TokenAt \<times> Reader) result" where
  "Dialect_readToken d st =
     (let start_pos = skipSpaces (rest st);
          (c, s) = getNextChar start_pos
      in bind_result (Dialect_token_case d c start_pos (st\<lparr>rest := s\<rparr>))
           (\<lambda>(t, ok, st). Inr (\<lparr>tok_type = (if ok then t else tokenError), tok_text = between start_pos (rest st),
              tok_start = left start_pos, tok_end = left (rest st)\<rparr>, st)))"

section \<open>Tokens get the reader on\<close>

text \<open>What is left after any of the scanning functions is an end of what was left before.\<close>

lemma suffix_tl_trans: "suffix s (tl t) \<Longrightarrow> suffix s t"
  using suffix_tl suffix_order.trans by blast

lemma readCStyleComment_suffix: "suffix (snd (readCStyleComment s)) s"
  by (induction s rule: readCStyleComment.induct) (simp_all add: suffix_Cons)

lemma readCppStyleComment_suffix: "suffix (readCppStyleComment s) s"
proof (induction s)
  case (Cons c r)
  then show ?case by (cases r) (simp_all add: suffix_Cons)
qed simp

lemma readString_suffix: "suffix (snd (readString s)) s"
proof (induction s rule: readString.induct)
  case (2 c r)
  then show ?case by (cases r) (simp_all add: suffix_Cons)
qed simp

lemma readStringSingleQuote_suffix: "suffix (snd (readStringSingleQuote s)) s"
proof (induction s rule: readStringSingleQuote.induct)
  case (2 c r)
  then show ?case by (cases r) (simp_all add: suffix_Cons)
qed simp

lemma readNumber_suffix: "suffix (snd (readNumber b s)) s"
proof (cases "b \<and> s \<noteq> [] \<and> hd s = CHR ''I''")
  case False
  define r1 where "r1 = dropWhile isdigit s"
  define r2 where "r2 = (if r1 \<noteq> [] \<and> hd r1 = CHR ''.'' then dropWhile isdigit (tl r1) else r1)"
  define r3 where "r3 = (if r2 \<noteq> [] \<and> (hd r2 = CHR ''e'' \<or> hd r2 = CHR ''E'')
    then dropWhile isdigit (if tl r2 \<noteq> [] \<and> (hd (tl r2) = CHR ''+'' \<or> hd (tl r2) = CHR ''-'') then tl (tl r2) else tl r2) else r2)"
  have "suffix r3 r2" unfolding r3_def by (auto intro: suffix_tl_trans suffix_dropWhile)
  also have "suffix r2 r1" unfolding r2_def by (auto intro: suffix_tl_trans suffix_dropWhile)
  also have "suffix r1 s" unfolding r1_def by (rule suffix_dropWhile)
  finally have "suffix r3 s" .
  moreover have "snd (readNumber b s) = r3"
    using False unfolding readNumber_def Let_def r3_def r2_def r1_def by (simp only: if_False snd_conv)
  ultimately show ?thesis by simp
qed (simp add: readNumber_def suffix_tl)

lemma match_text_suffix: "suffix (snd (match_text p s)) s"
  by (simp add: match_text_def suffix_drop)

lemma getNextChar_suffix: "getNextChar s = (c, r) \<Longrightarrow> suffix r s"
  by (auto simp: getNextChar_def suffix_ConsI split: list.splits)

lemmas scan_suffix = readCStyleComment_suffix readCppStyleComment_suffix readString_suffix readStringSingleQuote_suffix
  readNumber_suffix match_text_suffix

lemma Dialect_readComment_suffix:
  assumes "Dialect_readComment d b st = Inr (ok, st')"
  shows "suffix (rest st') (rest st)"
proof -
  obtain c s where c: "getNextChar (rest st) = (c, s)" by force
  obtain k r where r: "(if c = CHR ''*'' then readCStyleComment s
      else if c = CHR ''/'' then (True, readCppStyleComment s) else (False, s)) = (k, r)" by force
  have "suffix r s"
    using r readCStyleComment_suffix [of s] readCppStyleComment_suffix [of s] by (auto split: if_splits)
  moreover have "rest st' = r"
    using assms unfolding Dialect_readComment_def c Let_def prod.case r
    by (auto simp: addComment_def Let_def bind_result_Inr_iff split: if_splits)
  ultimately show ?thesis using getNextChar_suffix [OF c] by (metis suffix_order.trans)
qed

definition stays_behind :: "string \<Rightarrow> (TokenType \<times> bool \<times> Reader) result \<Rightarrow> bool" where
  "stays_behind s r \<longleftrightarrow> (\<forall>t ok st. r = Inr (t, ok, st) \<longrightarrow> suffix (rest st) s)"

lemma stays_behind_intros:
  "stays_behind s a \<Longrightarrow> stays_behind s b \<Longrightarrow> stays_behind s (if P then a else b)"
  "suffix (rest st) s \<Longrightarrow> stays_behind s (Inr (t, ok, st))"
  "stays_behind (rest st) (bind_result (Dialect_readComment d p st) (\<lambda>(ok, st). Inr (tokenComment, ok, st)))"
  by (auto simp: stays_behind_def bind_result_Inr_iff dest: Dialect_readComment_suffix)

lemma Dialect_token_case_suffix:
  assumes "Dialect_token_case d c b st = Inr (t, ok, st')"
  shows "suffix (rest st') (rest st)"
proof -
  obtain k r where r: "readNumber True (rest st) = (k, r)" by force
  have r': "suffix r (rest st)" "suffix (snd (match_text ''nfinity'' r)) (rest st)"
    using readNumber_suffix [of True "rest st"] suffix_order.trans [OF match_text_suffix, of r "rest st"] by (simp_all add: r)
  have "stays_behind (rest st) (Dialect_token_case d c b st)"
    unfolding Dialect_token_case_def Let_def r prod.case
    by (intro stays_behind_intros) (simp_all add: scan_suffix r')
  with assms show ?thesis by (simp add: stays_behind_def)
qed

text \<open>
  What a token leaves, and where it stands. It takes at least one character unless it is the end of the stream.
\<close>

definition token_at :: "string \<Rightarrow> TokenAt \<Rightarrow> string \<Rightarrow> bool" where
  "token_at before tok after \<longleftrightarrow>
     suffix after before \<and> left after = tok_end tok \<and> tok_end tok \<le> tok_start tok \<and> tok_start tok \<le> left before
     \<and> (tok_type tok \<noteq> tokenEndOfStream \<longrightarrow> tok_end tok < tok_start tok)
     \<and> int (length (tok_text tok)) = tok_start tok - tok_end tok
     \<and> suffix (tok_text tok @ after) before"

lemma between_suffix: "suffix t s \<Longrightarrow> between s t @ t = s"
  by (auto simp: between_def suffix_def)

lemma Dialect_readToken_at:
  assumes "Dialect_readToken d st = Inr (tok, st')"
  shows "token_at (rest st) tok (rest st')"
proof -
  define p where "p = skipSpaces (rest st)"
  obtain c s where c: "getNextChar p = (c, s)" by force
  from assms c obtain t ok where t: "Dialect_token_case d c p (st\<lparr>rest := s\<rparr>) = Inr (t, ok, st')"
    and tok: "tok = \<lparr>tok_type = (if ok then t else tokenError), tok_text = between p (rest st'), tok_start = left p, tok_end = left (rest st')\<rparr>"
    by (auto simp: Dialect_readToken_def bind_result_Inr_iff Let_def p_def)
  from Dialect_token_case_suffix [OF t] have s: "suffix (rest st') s" by simp
  have p: "suffix p (rest st)" unfolding p_def skipSpaces_def by (rule suffix_dropWhile)
  have sp: "suffix (rest st') p" by (rule suffix_order.trans [OF s getNextChar_suffix [OF c]])
  have "t = tokenEndOfStream \<and> ok \<or> length (rest st') < length p"
  proof (cases p)
    case Nil
    with c have "c = CHR 0x00" by (simp add: getNextChar_def)
    with t show ?thesis by (auto simp: Dialect_token_case_def isdigit_def)
  next
    case (Cons a r)
    with c suffix_length_le [OF s] show ?thesis by (simp add: getNextChar_def)
  qed
  with between_suffix [OF sp] suffix_length_le [OF sp] suffix_length_le [OF p] p suffix_order.trans [OF sp p] show ?thesis
    by (auto simp: token_at_def tok between_def)
qed

lemma token_atD:
  "token_at before tok after \<Longrightarrow> length after \<le> length before"
  "token_at before tok after \<Longrightarrow> tok_type tok \<noteq> tokenEndOfStream \<Longrightarrow> length after < length before"
  "token_at before tok after \<Longrightarrow> set after \<subseteq> set before"
  by (auto simp: token_at_def dest: suffix_length_le set_mono_suffix)

lemma token_at_trans:
  "token_at b tok c \<Longrightarrow> suffix b a \<Longrightarrow> token_at a tok c"
  by (auto simp: token_at_def dest: suffix_length_le intro: suffix_order.trans)

lemma Dialect_readToken_shorter:
  assumes "Dialect_readToken d st = Inr (tok, st')"
  shows "length (rest st') \<le> length (rest st) \<and> (tok_type tok \<noteq> tokenEndOfStream \<longrightarrow> length (rest st') < length (rest st))"
  using token_atD [OF Dialect_readToken_at [OF assms]] by blast

section \<open>Strings with the places of their errors\<close>

text \<open>
  The decoding of a string up to its first error, with the message and the place of the error. \<open>base\<close> is what is left
  of the document behind the text in which \<open>current\<close> moves.
\<close>

type_synonym located = "string \<times> int"

fun hex_digits_err :: "int \<Rightarrow> nat \<Rightarrow> string \<Rightarrow> nat \<Rightarrow> located + (nat \<times> string)" where
  "hex_digits_err base 0 current unicode = Inr (unicode, current)"
| "hex_digits_err base (Suc n) [] unicode = Inl (''Bad unicode escape sequence in string: hexadecimal digit expected.'', base)"
| "hex_digits_err base (Suc n) (c # current) unicode =
     (case hex_digit_val c of
        None \<Rightarrow> Inl (''Bad unicode escape sequence in string: hexadecimal digit expected.'', base + left current)
      | Some d \<Rightarrow> hex_digits_err base n current (unicode * 16 + d))"

definition UnicodeEscapeSequence_err :: "int \<Rightarrow> string \<Rightarrow> located + (nat \<times> string)" where
  "UnicodeEscapeSequence_err base current =
     (if length current < 4 then
        Inl (''Bad unicode escape sequence in string: four digits expected.'', base + left current)
      else hex_digits_err base 4 current 0)"

definition UnicodeCodePoint_err :: "int \<Rightarrow> string \<Rightarrow> located + (nat \<times> string)" where
  "UnicodeCodePoint_err base current =
     (case UnicodeEscapeSequence_err base current of
        Inl e \<Rightarrow> Inl e
      | Inr (unicode, current) \<Rightarrow>
          if unicode \<ge> 0xD800 \<and> unicode \<le> 0xDBFF then
            if length current < 6 then
              Inl (''additional six characters expected to parse unicode surrogate pair.'', base + left current)
            else if current ! 0 = CHR 0x5C \<and> current ! 1 = CHR ''u'' then
              (case UnicodeEscapeSequence_err base (drop 2 current) of
                 Inl e \<Rightarrow> Inl e
               | Inr (surrogatePair, current) \<Rightarrow>
                   Inr (0x10000 + push_bit 10 (unicode AND 0x3FF) + (surrogatePair AND 0x3FF), current))
            else
              Inl (''expecting another '' @ [CHR 0x5C] @ ''u token to begin the second half of a unicode surrogate pair'',
                base + left (drop (if current ! 0 = CHR 0x5C then 2 else 1) current))
          else Inr (unicode, current))"

lemma hex_digits_err_text: "hex_digits_err base n current u = Inr (cp, r) \<Longrightarrow> n \<le> length current \<and> r = drop n current"
  by (induction base n current u rule: hex_digits_err.induct) (auto split: option.splits)

lemma UnicodeCodePoint_err_shorter: "UnicodeCodePoint_err base current = Inr (cp, r) \<Longrightarrow> length r < length current"
  by (auto simp: UnicodeCodePoint_err_def UnicodeEscapeSequence_err_def split: sum.splits if_splits dest!: hex_digits_err_text)

function decodeString_err :: "int \<Rightarrow> string \<Rightarrow> string \<Rightarrow> located + string" where
  "decodeString_err base [] decoded = Inr decoded"
| "decodeString_err base (c # current) decoded =
     (if c = DQUOTE then Inr decoded
      else if c = CHR 0x5C then
        (case current of
           [] \<Rightarrow> Inl (''Empty escape sequence in string'', base)
         | escape # current \<Rightarrow>
             if escape = DQUOTE then decodeString_err base current (decoded @ [DQUOTE])
             else if escape = CHR ''/'' then decodeString_err base current (decoded @ [CHR ''/''])
             else if escape = CHR 0x5C then decodeString_err base current (decoded @ [CHR 0x5C])
             else if escape = CHR ''b'' then decodeString_err base current (decoded @ [CHR 0x08])
             else if escape = CHR ''f'' then decodeString_err base current (decoded @ [CHR 0x0C])
             else if escape = CHR ''n'' then decodeString_err base current (decoded @ [LF])
             else if escape = CHR ''r'' then decodeString_err base current (decoded @ [CR])
             else if escape = CHR ''t'' then decodeString_err base current (decoded @ [CHR 0x09])
             else if escape = CHR ''u'' then
               (case UnicodeCodePoint_err base current of
                  Inl e \<Rightarrow> Inl e
                | Inr (unicode, current) \<Rightarrow> decodeString_err base current (decoded @ codePointToUTF8 unicode))
             else Inl (''Bad escape sequence in string'', base + left current))
      else decodeString_err base current (decoded @ [c]))"
  by pat_completeness auto
termination
  by (relation "measure (\<lambda>(base, current, decoded). length current)") (auto dest: UnicodeCodePoint_err_shorter)

declare decodeString_err.simps(2) [simp del]

text \<open>Without the errors, these are the functions of \<open>Json_Reader\<close>; and an error stands inside the text.\<close>

definition right :: "'e + 'a \<Rightarrow> 'a option" where
  "right r = (case r of Inl e \<Rightarrow> None | Inr x \<Rightarrow> Some x)"

lemma right_simps [simp]: "right (Inl e) = None" "right (Inr x) = Some x"
  by (simp_all add: right_def)

lemma right_hex_digits_err:
  "n \<le> length current \<Longrightarrow>
     right (hex_digits_err base n current u) = map_option (\<lambda>cp. (cp, drop n current)) (hex_digits_val (take n current) u)"
  by (induction base n current u rule: hex_digits_err.induct) (auto split: option.splits)

lemma right_UnicodeEscapeSequence_err: "right (UnicodeEscapeSequence_err base current) = decodeUnicodeEscapeSequence current"
  by (simp add: UnicodeEscapeSequence_err_def decodeUnicodeEscapeSequence_def right_hex_digits_err)

lemma right_UnicodeCodePoint_err: "right (UnicodeCodePoint_err base current) = decodeUnicodeCodePoint current"
  unfolding UnicodeCodePoint_err_def decodeUnicodeCodePoint_def right_UnicodeEscapeSequence_err [of base, symmetric]
  by (auto split: sum.splits option.splits simp: right_def)

lemma right_decodeString_err: "right (decodeString_err base current decoded) = decodeString_loop current decoded"
proof (induction base current decoded rule: decodeString_err.induct)
  case (2 base c current decoded)
  show ?case
  proof (cases "c = CHR 0x5C")
    case False
    with 2 show ?thesis by (simp add: decodeString_err.simps decodeString_loop.simps)
  next
    case bs: True
    show ?thesis
    proof (cases current)
      case Nil
      with bs show ?thesis by (simp add: decodeString_err.simps decodeString_loop.simps)
    next
      case (Cons e r)
      show ?thesis
      proof (cases "UnicodeCodePoint_err base r")
        case (Inl x)
        then have "decodeUnicodeCodePoint r = None" using right_UnicodeCodePoint_err [of base r] by simp
        with Inl bs Cons 2 show ?thesis by (simp add: decodeString_err.simps(2) decodeString_loop.simps(2))
      next
        case (Inr x)
        then have "decodeUnicodeCodePoint r = Some x" using right_UnicodeCodePoint_err [of base r] by simp
        with Inr bs Cons 2 show ?thesis
          by (cases x) (simp add: decodeString_err.simps(2) decodeString_loop.simps(2))
      qed
    qed
  qed
qed simp

definition err_within :: "int \<Rightarrow> nat \<Rightarrow> located + 'a \<Rightarrow> bool" where
  "err_within base n r \<longleftrightarrow> (\<forall>m p. r = Inl (m, p) \<longrightarrow> base \<le> p \<and> p \<le> base + int n)"

lemma hex_digits_err_within: "err_within base (length current) (hex_digits_err base n current u)"
  by (induction base n current u rule: hex_digits_err.induct) (auto simp: err_within_def split: option.splits)

lemma UnicodeCodePoint_err_within: "err_within base (length current) (UnicodeCodePoint_err base current)"
proof -
  have e: "err_within base (length t) (UnicodeEscapeSequence_err base t)" for t
    using hex_digits_err_within [of base t 4 0] by (auto simp: UnicodeEscapeSequence_err_def err_within_def)
  have d: "length r \<le> length current" if "UnicodeEscapeSequence_err base current = Inr (u, r)" for u r
    using that by (auto simp: UnicodeEscapeSequence_err_def split: if_splits dest!: hex_digits_err_text)
  show ?thesis
    using e [of current] e [of "drop 2 t" for t] d
    by (fastforce simp: UnicodeCodePoint_err_def err_within_def split: sum.splits if_splits)
qed

lemma err_within_intros:
  "err_within base n a \<Longrightarrow> err_within base n b \<Longrightarrow> err_within base n (if P then a else b)"
  "err_within base n (Inr x)"
  "base \<le> p \<Longrightarrow> p \<le> base + int n \<Longrightarrow> err_within base n (Inl (m, p))"
  by (auto simp: err_within_def)

lemma decodeString_err_within: "err_within base (length current) (decodeString_err base current decoded)"
proof (induction "length current" arbitrary: current decoded rule: less_induct)
  case less
  have ih: "err_within base (length current) (decodeString_err base t u)" if "length t < length current" for t u
    using less [OF that, of u] that by (auto simp: err_within_def)
  show ?case
  proof (cases current)
    case (Cons c r)
    note ih = ih [unfolded Cons]
    show ?thesis
    proof (cases r)
      case Nil
      with ih show ?thesis by (simp add: Cons decodeString_err.simps err_within_intros)
    next
      case r: (Cons e t)
      have "err_within base (length (c # e # t)) (case UnicodeCodePoint_err base t of
          Inl e \<Rightarrow> Inl e | Inr (unicode, current) \<Rightarrow> decodeString_err base current (decoded @ codePointToUTF8 unicode))"
      proof (cases "UnicodeCodePoint_err base t")
        case (Inl e)
        with UnicodeCodePoint_err_within [of base t] show ?thesis by (auto simp: err_within_def)
      next
        case (Inr x)
        with UnicodeCodePoint_err_shorter [of base t] ih show ?thesis by (cases x) (simp add: r)
      qed
      with ih show ?thesis
        unfolding Cons r
        by (subst decodeString_err.simps(2), unfold list.case, intro err_within_intros) (simp_all add: r)
    qed
  qed (simp add: err_within_intros)
qed

section \<open>Values\<close>

text \<open>
  Reading on while the token is a comment, which \<open>readObject\<close> and \<open>readArray\<close> always do and \<open>skipCommentTokens\<close>
  only when comments are allowed.
\<close>

function Dialect_nextToken :: "Dialect \<Rightarrow> Reader \<Rightarrow> (TokenAt \<times> Reader) result" where
  "Dialect_nextToken d st =
     (case Dialect_readToken d st of
        Inl e \<Rightarrow> Inl e
      | Inr (token, st) \<Rightarrow> if tok_type token = tokenComment then Dialect_nextToken d st else Inr (token, st))"
  by pat_completeness auto
termination by (relation "measure (\<lambda>(d, st). length (rest st))") (auto dest: Dialect_readToken_shorter)

declare Dialect_nextToken.simps [simp del]

definition Dialect_skipCommentTokens :: "Dialect \<Rightarrow> Reader \<Rightarrow> (TokenAt \<times> Reader) result" where
  "Dialect_skipCommentTokens d st =
     (if allowComments (features d) then Dialect_nextToken d st else Dialect_readToken d st)"

function Dialect_recoverFromError :: "Dialect \<Rightarrow> TokenType \<Rightarrow> Reader \<Rightarrow> Reader result" where
  "Dialect_recoverFromError d skipUntilToken st =
     (case Dialect_readToken d st of
        Inl e \<Rightarrow> Inl e
      | Inr (skip, st) \<Rightarrow>
          if tok_type skip = skipUntilToken \<or> tok_type skip = tokenEndOfStream then Inr st
          else Dialect_recoverFromError d skipUntilToken st)"
  by pat_completeness auto
termination by (relation "measure (\<lambda>(d, t, st). length (rest st))") (auto dest: Dialect_readToken_shorter)

declare Dialect_recoverFromError.simps [simp del]

text \<open>A token is read, and the rest of the function goes on with it.\<close>

definition with_token :: "(Reader \<Rightarrow> (TokenAt \<times> Reader) result) \<Rightarrow> ReaderState \<Rightarrow> (TokenAt \<Rightarrow> ReaderState \<Rightarrow> 'a run) \<Rightarrow> 'a run" where
  "with_token read S k = bind_run (Some (read (scanner S))) (\<lambda>(token, st). k token (S\<lparr>scanner := st\<rparr>))"

definition addError :: "string \<Rightarrow> TokenAt \<Rightarrow> int option \<Rightarrow> ReaderState \<Rightarrow> ReaderState" where
  "addError message token extra S =
     S\<lparr>errors := errors S @ [\<lparr>err_start = tok_start token, err_end = tok_end token, err_message = message, err_extra = extra\<rparr>]\<rparr>"

text \<open>Recovery adds no errors, so that the list keeps its size.\<close>

definition recover :: "Dialect \<Rightarrow> TokenType \<Rightarrow> 'a \<Rightarrow> ReaderState \<Rightarrow> (bool \<times> 'a \<times> ReaderState) run" where
  "recover d t x S =
     bind_run (Some (Dialect_recoverFromError d t (scanner S))) (\<lambda>st. Some (Inr (False, x, S\<lparr>scanner := st\<rparr>)))"

definition addErrorAndRecover ::
  "Dialect \<Rightarrow> string \<Rightarrow> TokenAt \<Rightarrow> TokenType \<Rightarrow> 'a \<Rightarrow> ReaderState \<Rightarrow> (bool \<times> 'a \<times> ReaderState) run" where
  "addErrorAndRecover d message token t x S = recover d t x (addError message token None S)"

text \<open>
  Where \<open>decodeDouble\<close> scans with \<open>sscanf\<close> in \<open>OurReader\<close>, it extracts from a string stream in the deprecated
  \<open>Reader\<close>, which also fails when the number is too large for a double.
\<close>

definition dialect_double :: "Dialect \<Rightarrow> c_double \<Rightarrow> c_double" where
  "dialect_double d D = (if deprecated d then D\<lparr>scan_double := stream_double D\<rparr> else D)"

text \<open>The decoding of a token: the decoded value, or the state with the error.\<close>

definition Dialect_decodeNumber :: "Dialect \<Rightarrow> c_double \<Rightarrow> TokenAt \<Rightarrow> ReaderState \<Rightarrow> ReaderState + Value" where
  "Dialect_decodeNumber d D token S =
     (case decodeNumber (dialect_double d D) (tok_text token) of
        None \<Rightarrow> Inl (addError (quoted (tok_text token) @ '' is not a number.'') token None S)
      | Some v \<Rightarrow> Inr v)"

definition Dialect_decodeString :: "TokenAt \<Rightarrow> ReaderState \<Rightarrow> ReaderState + string" where
  "Dialect_decodeString token S =
     (case decodeString_err (tok_end token + 1) (butlast (tl (tok_text token))) [] of
        Inl (message, current) \<Rightarrow> Inl (addError message token (Some current) S)
      | Inr decoded \<Rightarrow> Inr decoded)"

definition Dialect_attachComments :: "Dialect \<Rightarrow> ReaderState \<Rightarrow> ReaderState result" where
  "Dialect_attachComments d S =
     (if collectComments d then bind_result (attachComments (scanner S)) (\<lambda>st. Inr (S\<lparr>scanner := st\<rparr>)) else Inr S)"

definition asCString :: "Value \<Rightarrow> string result" where
  "asCString v =
     (case v of
        stringValue s \<Rightarrow> Inr (takeWhile (\<lambda>c. c \<noteq> CHR 0x00) s)
      | _ \<Rightarrow> Inl (LogicError ''in Json::Value::asCString(): requires stringValue''))"

type_synonym value_parser = "nat \<Rightarrow> Value \<Rightarrow> ReaderState \<Rightarrow> (bool \<times> Value \<times> ReaderState) run"
type_synonym object_parser = "nat \<Rightarrow> string \<Rightarrow> members \<Rightarrow> ReaderState \<Rightarrow> (bool \<times> members \<times> ReaderState) run"
type_synonym array_parser = "nat \<Rightarrow> Value list \<Rightarrow> ReaderState \<Rightarrow> (bool \<times> Value list \<times> ReaderState) run"

definition at_value_end :: "Dialect \<Rightarrow> ReaderState \<Rightarrow> ReaderState" where
  "at_value_end d S =
     (if collectComments d then S\<lparr>scanner := (scanner S)\<lparr>lastValueEnd := Some (rest (scanner S))\<rparr>\<rparr> else S)"

definition Dialect_readArray_start :: "Dialect \<Rightarrow> array_parser \<Rightarrow> nat \<Rightarrow> ReaderState \<Rightarrow> (bool \<times> Value list \<times> ReaderState) run" where
  "Dialect_readArray_start d read_array nodes S =
     (let s = skipSpaces (rest (scanner S)); S = S\<lparr>scanner := (scanner S)\<lparr>rest := s\<rparr>\<rparr>
      in if s \<noteq> [] \<and> hd s = CHR '']'' then with_token (Dialect_readToken d) S (\<lambda>endArray S. Some (Inr (True, [], S)))
         else read_array nodes [] S)"

text \<open>The switch of \<open>readValue\<close>. A token of one character is put back where a null was dropped in front of it.\<close>

definition Dialect_readValue_switch ::
  "Dialect \<Rightarrow> c_double \<Rightarrow> object_parser \<Rightarrow> array_parser \<Rightarrow> nat \<Rightarrow> Value \<Rightarrow> TokenAt \<Rightarrow> ReaderState
     \<Rightarrow> (bool \<times> Value \<times> ReaderState) run" where
  "Dialect_readValue_switch d D read_object read_array nodes v token S =
     (let finish = (\<lambda>ok v S. Some (Inr (ok, v, at_value_end d S))); t = tok_type token
      in if t = tokenObjectBegin then
           bind_run (read_object nodes [] [] S) (\<lambda>(ok, ms, S). finish ok (objectValue ms) S)
         else if t = tokenArrayBegin then
           bind_run (Dialect_readArray_start d read_array nodes S) (\<lambda>(ok, vs, S). finish ok (arrayValue vs) S)
         else if t = tokenNumber then
           (case Dialect_decodeNumber d D token S of Inl S \<Rightarrow> finish False v S | Inr w \<Rightarrow> finish True w S)
         else if t = tokenString then
           (case Dialect_decodeString token S of Inl S \<Rightarrow> finish False v S | Inr s \<Rightarrow> finish True (stringValue s) S)
         else if t = tokenTrue then finish True (booleanValue True) S
         else if t = tokenFalse then finish True (booleanValue False) S
         else if t = tokenNull then finish True nullValue S
         else if t = tokenNaN then finish True (realValue 0x7FF8000000000000) S
         else if t = tokenPosInf then finish True (realValue 0x7FF0000000000000) S
         else if t = tokenNegInf then finish True (realValue 0xFFF0000000000000) S
         else if t \<in> {tokenArraySeparator, tokenObjectEnd, tokenArrayEnd} \<and> allowDroppedNullPlaceholders (features d) then
           finish True nullValue (S\<lparr>scanner := (scanner S)\<lparr>rest := tok_text token @ rest (scanner S)\<rparr>\<rparr>)
         else Some (Inr (False, v, addError ''Syntax error: value, object or array expected.'' token None S)))"

definition Dialect_readValue_body :: "Dialect \<Rightarrow> c_double \<Rightarrow> object_parser \<Rightarrow> array_parser \<Rightarrow> value_parser" where
  "Dialect_readValue_body d D read_object read_array nodes v S =
     (if nodes > features_stackLimit (features d) then Some (Inl (RuntimeError ''Exceeded stackLimit in readValue().''))
      else
        with_token (Dialect_skipCommentTokens d) S (\<lambda>token S.
        bind_run (Some (Dialect_attachComments d S)) (Dialect_readValue_switch d D read_object read_array nodes v token)))"

definition Dialect_readObject_next :: "Dialect \<Rightarrow> object_parser \<Rightarrow> object_parser" where
  "Dialect_readObject_next d read_object nodes name ms S =
     with_token (Dialect_readToken d) S (\<lambda>comma S.
     if tok_type comma \<notin> {tokenObjectEnd, tokenArraySeparator, tokenComment} then
       addErrorAndRecover d (''Missing '' @ quoted '','' @ '' or '' @ quoted ''}'' @ '' in object declaration'') comma tokenObjectEnd ms S
     else
       let continue = (\<lambda>comma S. if tok_type comma = tokenObjectEnd then Some (Inr (True, ms, S)) else read_object nodes name ms S)
       in if tok_type comma = tokenComment then with_token (Dialect_nextToken d) S continue else continue comma S)"

text \<open>The deprecated reader does not look at the length of a name, of which \<open>CZString\<close> only keeps 30 bits.\<close>

definition Dialect_readObject_member :: "Dialect \<Rightarrow> value_parser \<Rightarrow> object_parser \<Rightarrow> TokenAt \<Rightarrow> object_parser" where
  "Dialect_readObject_member d read_value read_object tokenName nodes name ms S =
     with_token (Dialect_readToken d) S (\<lambda>colon S.
     if tok_type colon \<noteq> tokenMemberSeparator then
       addErrorAndRecover d (''Missing '' @ quoted '':'' @ '' after object member name'') colon tokenObjectEnd ms S
     else if \<not> deprecated d \<and> length name \<ge> 2 ^ 30 then Some (Inl (RuntimeError ''keylength >= 2^30''))
     else if rejectDupKeys (features d) \<and> members_find name ms \<noteq> None then
       addErrorAndRecover d (''Duplicate key: '' @ quoted name) tokenName tokenObjectEnd ms S
     else
       let key = take (length name mod 2 ^ 30) name; ms = members_resolve key ms
       in bind_run (read_value (nodes + 1) (case members_find key ms of None \<Rightarrow> nullValue | Some v \<Rightarrow> v) S) (\<lambda>(ok, v, S).
          let ms = members_store key v ms
          in if \<not> ok then recover d tokenObjectEnd ms S
             else Dialect_readObject_next d read_object nodes name ms S))"

definition Dialect_readObject_body :: "Dialect \<Rightarrow> c_double \<Rightarrow> value_parser \<Rightarrow> object_parser \<Rightarrow> object_parser" where
  "Dialect_readObject_body d D read_value read_object nodes name ms S =
     with_token (Dialect_nextToken d) S (\<lambda>tokenName S.
     if tok_type tokenName = tokenObjectEnd \<and> name = [] then Some (Inr (True, ms, S))
     else if tok_type tokenName = tokenString then
       (case Dialect_decodeString tokenName S of
          Inl S \<Rightarrow> recover d tokenObjectEnd ms S
        | Inr name \<Rightarrow> Dialect_readObject_member d read_value read_object tokenName nodes name ms S)
     else if tok_type tokenName = tokenNumber \<and> allowNumericKeys (features d) then
       (case Dialect_decodeNumber d D tokenName S of
          Inl S \<Rightarrow> recover d tokenObjectEnd ms S
        | Inr numberName \<Rightarrow>
            bind_run (Some (if deprecated d then asCString numberName else asString D numberName)) (\<lambda>name.
            Dialect_readObject_member d read_value read_object tokenName nodes name ms S))
     else
       addErrorAndRecover d (''Missing '' @ quoted ''}'' @ '' or object member name'') tokenName tokenObjectEnd ms S)"

definition Dialect_readArray_body :: "Dialect \<Rightarrow> value_parser \<Rightarrow> array_parser \<Rightarrow> array_parser" where
  "Dialect_readArray_body d read_value read_array nodes vs S =
     bind_run (read_value (nodes + 1) nullValue S) (\<lambda>(ok, v, S).
     let vs = vs @ [v]
     in if \<not> ok then recover d tokenArrayEnd vs S
        else
          with_token (Dialect_nextToken d) S (\<lambda>currentToken S.
          if tok_type currentToken \<noteq> tokenArraySeparator \<and> tok_type currentToken \<noteq> tokenArrayEnd then
            addErrorAndRecover d (''Missing '' @ quoted '','' @ '' or '' @ quoted '']'' @ '' in array declaration'') currentToken
              tokenArrayEnd vs S
          else if tok_type currentToken = tokenArrayEnd then Some (Inr (True, vs, S))
          else read_array nodes vs S))"

fun Dialect_readValue :: "Dialect \<Rightarrow> c_double \<Rightarrow> nat \<Rightarrow> value_parser"
  and Dialect_readObject :: "Dialect \<Rightarrow> c_double \<Rightarrow> nat \<Rightarrow> object_parser"
  and Dialect_readArray :: "Dialect \<Rightarrow> c_double \<Rightarrow> nat \<Rightarrow> array_parser" where
  "Dialect_readValue d D 0 = (\<lambda>nodes v S. None)"
| "Dialect_readValue d D (Suc fuel) = Dialect_readValue_body d D (Dialect_readObject d D fuel) (Dialect_readArray d D fuel)"
| "Dialect_readObject d D 0 = (\<lambda>nodes name ms S. None)"
| "Dialect_readObject d D (Suc fuel) = Dialect_readObject_body d D (Dialect_readValue d D fuel) (Dialect_readObject d D fuel)"
| "Dialect_readArray d D 0 = (\<lambda>nodes vs S. None)"
| "Dialect_readArray d D (Suc fuel) = Dialect_readArray_body d (Dialect_readValue d D fuel) (Dialect_readArray d D fuel)"

definition initial_state :: "string \<Rightarrow> ReaderState" where
  "initial_state doc = \<lparr>scanner = \<lparr>rest = doc, lastValueEnd = None, commentsBefore = []\<rparr>, errors = []\<rparr>"

definition is_container :: "Value \<Rightarrow> bool" where
  "is_container v = (case v of arrayValue vs \<Rightarrow> True | objectValue ms \<Rightarrow> True | _ \<Rightarrow> False)"

text \<open>What \<open>parse\<close> does behind the value.\<close>

definition Dialect_parse_end :: "Dialect \<Rightarrow> string \<Rightarrow> bool \<Rightarrow> Value \<Rightarrow> ReaderState \<Rightarrow> (bool \<times> Value \<times> ErrorInfo list) run" where
  "Dialect_parse_end d doc successful root S =
     with_token (Dialect_skipCommentTokens d) S (\<lambda>token S.
     if failIfExtra (features d) \<and> (strictRoot (features d) \<or> tok_type token \<noteq> tokenError) \<and> tok_type token \<noteq> tokenEndOfStream then
       Some (Inr (False, root, errors (addError ''Extra non-whitespace after JSON value.'' token None S)))
     else
       bind_run (Some (Dialect_attachComments d S)) (\<lambda>S.
       if strictRoot (features d) \<and> \<not> is_container root then
         Some (Inr (False, root, errors (addError ''A valid JSON document must be either an array or an object value.''
           \<lparr>tok_type = tokenError, tok_text = doc, tok_start = left doc, tok_end = 0\<rparr> None S)))
       else Some (Inr (successful, root, errors S))))"

definition Dialect_parse :: "Dialect \<Rightarrow> c_double \<Rightarrow> string \<Rightarrow> Value \<Rightarrow> (bool \<times> Value \<times> ErrorInfo list) run" where
  "Dialect_parse d D doc root =
     bind_run (Dialect_readValue d D (parse_fuel doc) 1 root (initial_state doc))
       (\<lambda>(successful, root, S). Dialect_parse_end d doc successful root S)"

end
