(* ===== verification/Json_Reader_Errors.thy ===== *)
theory Json_Reader_Errors
  imports Json_Dialects
begin

text \<open>
  What every reader of \<open>Json_Dialects\<close> guarantees, whatever its settings: it returns, it fails exactly when it has
  recorded an error, and the errors stand inside the document. Then the messages that are made of the errors.
\<close>

section \<open>Progress\<close>

text \<open>
  An error stands in the part of the document in which the reader was, and its second place inside its token. From
  one state to another the reader moves on and may add errors; \<open>ok\<close> tells that it has not.
\<close>

definition located_in :: "int \<Rightarrow> ErrorInfo \<Rightarrow> bool" where
  "located_in n e \<longleftrightarrow> 0 \<le> err_end e \<and> err_end e \<le> err_start e \<and> err_start e \<le> n
     \<and> (\<forall>p. err_extra e = Some p \<longrightarrow> err_end e \<le> p \<and> p \<le> err_start e)"

abbreviation remaining :: "ReaderState \<Rightarrow> string" where
  "remaining S \<equiv> rest (scanner S)"

definition progress :: "ReaderState \<Rightarrow> bool \<Rightarrow> ReaderState \<Rightarrow> bool" where
  "progress S ok S' \<longleftrightarrow> suffix (remaining S') (remaining S)
     \<and> (\<exists>added. errors S' = errors S @ added \<and> (ok \<longleftrightarrow> added = []) \<and> list_all (located_in (left (remaining S))) added)"

lemma progress_length: "progress S ok S' \<Longrightarrow> length (remaining S') \<le> length (remaining S)"
  by (auto simp: progress_def dest: suffix_length_le)

lemma progress_moves: "suffix (rest st) (remaining S) \<Longrightarrow> progress S True (S\<lparr>scanner := st\<rparr>)"
  by (simp add: progress_def)

lemma progress_refl: "progress S True S"
  by (simp add: progress_def)

lemma located_in_mono: "located_in n e \<Longrightarrow> n \<le> m \<Longrightarrow> located_in m e"
  by (auto simp: located_in_def)

lemma progress_trans:
  assumes "progress S a S1" "progress S1 b S2"
  shows "progress S (a \<and> b) S2"
proof -
  have "left (remaining S1) \<le> left (remaining S)" using progress_length [OF assms(1)] by simp
  then have "list_all (located_in (left (remaining S))) es" if "list_all (located_in (left (remaining S1))) es" for es
    using that by (auto simp: list_all_iff intro: located_in_mono)
  with assms show ?thesis by (fastforce simp: progress_def intro: suffix_order.trans)
qed

text \<open>With \<open>fed\<close> the reader has also returned; without it there may have been too little fuel.\<close>

definition reads :: "bool \<Rightarrow> ReaderState \<Rightarrow> (bool \<times> 'a \<times> ReaderState) run \<Rightarrow> bool" where
  "reads fed S r \<longleftrightarrow> (fed \<longrightarrow> r \<noteq> None) \<and> (\<forall>ok x S'. r = Some (Inr (ok, x, S')) \<longrightarrow> progress S ok S')"

lemma reads_intros:
  "progress S ok S' \<Longrightarrow> reads fed S (Some (Inr (ok, x, S')))"
  "reads fed S (Some (Inl e))"
  "(\<And>y. r = Inr y \<Longrightarrow> reads fed S (f y)) \<Longrightarrow> reads fed S (bind_run (Some r) f)"
  by (auto simp: reads_def bind_run_def split: sum.splits)

lemma reads_after:
  assumes "progress S True S1" "reads fed S1 r"
  shows "reads fed S r"
  using assms(2) progress_trans [OF assms(1)] by (auto simp: reads_def)

lemma reads_bind:
  assumes "reads fed S m" "\<And>ok x S1. progress S ok S1 \<Longrightarrow> reads fed S (f (ok, x, S1))"
  shows "reads fed S (bind_run m f)"
  using assms by (auto simp: reads_def bind_run_def split: option.splits sum.splits)

section \<open>Tokens\<close>

definition reads_token :: "(Reader \<Rightarrow> (TokenAt \<times> Reader) result) \<Rightarrow> bool" where
  "reads_token read \<longleftrightarrow> (\<forall>st tok st'. read st = Inr (tok, st') \<longrightarrow> token_at (rest st) tok (rest st'))"

lemma Dialect_nextToken_at: "Dialect_nextToken d st = Inr (tok, st') \<Longrightarrow> token_at (rest st) tok (rest st')"
proof (induction d st rule: Dialect_nextToken.induct)
  case (1 d st)
  then obtain t s where t: "Dialect_readToken d st = Inr (t, s)"
    by (subst (asm) (2) Dialect_nextToken.simps) (auto split: sum.splits)
  show ?case
  proof (cases "tok_type t = tokenComment")
    case True
    with 1 t have "Dialect_nextToken d s = Inr (tok, st')" by (subst (asm) (2) Dialect_nextToken.simps) simp
    with 1 t True Dialect_readToken_at [OF t] show ?thesis by (fastforce simp: token_at_def intro: token_at_trans)
  next
    case False
    with 1 t have "t = tok" "s = st'" by (subst (asm) (2) Dialect_nextToken.simps, simp)+
    with Dialect_readToken_at [OF t] show ?thesis by simp
  qed
qed

lemma reads_tokens: "reads_token (Dialect_readToken d)" "reads_token (Dialect_nextToken d)" "reads_token (Dialect_skipCommentTokens d)"
  by (auto simp: reads_token_def Dialect_skipCommentTokens_def intro: Dialect_readToken_at Dialect_nextToken_at)

lemma with_token_reads:
  assumes "reads_token read"
    and "\<And>tok S1. token_at (remaining S0) tok (remaining S1) \<Longrightarrow> progress S0 True S1 \<Longrightarrow> reads fed S (k tok S1)"
  shows "reads fed S (with_token read S0 k)"
proof -
  have "reads fed S (k tok (S0\<lparr>scanner := st\<rparr>))" if "read (scanner S0) = Inr (tok, st)" for tok st
    using assms that by (intro assms(2) progress_moves) (auto simp: reads_token_def token_at_def)
  then show ?thesis unfolding with_token_def by (auto intro!: reads_intros)
qed

lemma recover_suffix: "Dialect_recoverFromError d t st = Inr st' \<Longrightarrow> suffix (rest st') (rest st)"
proof (induction d t st rule: Dialect_recoverFromError.induct)
  case (1 d u st)
  then obtain t s where t: "Dialect_readToken d st = Inr (t, s)"
    by (subst (asm) (2) Dialect_recoverFromError.simps) (auto split: sum.splits)
  have ts: "suffix (rest s) (rest st)" using Dialect_readToken_at [OF t] by (simp add: token_at_def)
  show ?case
  proof (cases "tok_type t = u \<or> tok_type t = tokenEndOfStream")
    case True
    with 1 t have "s = st'" by (subst (asm) (2) Dialect_recoverFromError.simps) simp
    with ts show ?thesis by simp
  next
    case False
    with 1 t have "Dialect_recoverFromError d u s = Inr st'" by (subst (asm) (2) Dialect_recoverFromError.simps) simp
    then have "suffix (rest st') (rest s)" by (rule 1(1) [OF t refl False])
    then show ?thesis using ts by (rule suffix_order.trans)
  qed
qed

lemma recover_reads:
  assumes "progress S False S1"
  shows "reads fed S (recover d t x S1)"
proof -
  have "progress S False (S1\<lparr>scanner := st\<rparr>)" if "Dialect_recoverFromError d t (scanner S1) = Inr st" for st
    using progress_trans [OF assms progress_moves [OF recover_suffix [OF that]]] by simp
  then show ?thesis unfolding recover_def by (auto intro!: reads_intros)
qed

lemma addError_progress:
  assumes "progress S True S1" "0 \<le> tok_end tok" "tok_end tok \<le> tok_start tok" "tok_start tok \<le> left (remaining S)"
    "\<forall>p. extra = Some p \<longrightarrow> tok_end tok \<le> p \<and> p \<le> tok_start tok"
  shows "progress S False (addError m tok extra S1)"
  using assms by (auto simp: progress_def addError_def located_in_def)

lemma token_at_places:
  "token_at before tok after \<Longrightarrow> 0 \<le> tok_end tok \<and> tok_end tok \<le> tok_start tok \<and> tok_start tok \<le> left before"
  by (auto simp: token_at_def)

lemma addErrorAndRecover_reads:
  assumes "progress S True S1" "token_at (remaining S) tok after"
  shows "reads fed S (addErrorAndRecover d m tok t x S1)"
  unfolding addErrorAndRecover_def
  using assms token_at_places [OF assms(2)] by (auto intro!: recover_reads addError_progress)

lemma decodeNumber_error:
  assumes "Dialect_decodeNumber d D tok S1 = Inl S2" "progress S True S1" "token_at (remaining S) tok after"
  shows "progress S False S2"
  using assms token_at_places [OF assms(3)] by (auto simp: Dialect_decodeNumber_def intro!: addError_progress split: option.splits)

lemma decodeString_error:
  assumes "Dialect_decodeString tok S1 = Inl S2" "progress S True S1" "token_at (remaining S) tok after" "tok_type tok = tokenString"
  shows "progress S False S2"
proof -
  obtain m p where e: "decodeString_err (tok_end tok + 1) (butlast (tl (tok_text tok))) [] = Inl (m, p)"
    and S2: "S2 = addError m tok (Some p) S1"
    using assms(1) by (auto simp: Dialect_decodeString_def split: sum.splits prod.splits)
  have "tok_end tok + 1 \<le> p \<and> p \<le> tok_end tok + 1 + int (length (tok_text tok) - 1 - 1)"
    using decodeString_err_within [of "tok_end tok + 1" "butlast (tl (tok_text tok))" "[]"] e by (auto simp: err_within_def)
  moreover have "int (length (tok_text tok)) = tok_start tok - tok_end tok" "tok_end tok < tok_start tok"
    using assms(3,4) by (auto simp: token_at_def)
  ultimately show ?thesis
    unfolding S2 using assms(2) token_at_places [OF assms(3)] by (intro addError_progress) auto
qed

section \<open>Values\<close>

lemma at_value_end_progress: "progress S ok S1 \<Longrightarrow> progress S ok (at_value_end d S1)"
  by (simp add: progress_def at_value_end_def)

lemma attachComments_progress: "Dialect_attachComments d S1 = Inr S2 \<Longrightarrow> progress S True S1 \<Longrightarrow> progress S True S2"
  by (auto simp: Dialect_attachComments_def progress_def bind_result_Inr_iff split: if_splits dest!: attachComments_rest)

lemma attachComments_remaining: "Dialect_attachComments d S1 = Inr S2 \<Longrightarrow> remaining S2 = remaining S1"
  by (auto simp: Dialect_attachComments_def bind_result_Inr_iff split: if_splits dest!: attachComments_rest)

text \<open>
  The recursion: what the parts promise with less fuel, as laws for the bodies. A step of the recursion takes a
  character, or goes down from a value to its array or object.
\<close>

definition object_law :: "bool \<Rightarrow> nat \<Rightarrow> object_parser \<Rightarrow> bool" where
  "object_law fed fuel read_object \<longleftrightarrow>
     (\<forall>nodes name ms S. (fed \<longrightarrow> 2 * length (remaining S) + 1 \<le> fuel) \<longrightarrow> reads fed S (read_object nodes name ms S))"

definition array_law :: "bool \<Rightarrow> nat \<Rightarrow> array_parser \<Rightarrow> bool" where
  "array_law fed fuel read_array \<longleftrightarrow>
     (\<forall>nodes vs S. (fed \<longrightarrow> 2 * length (remaining S) + 2 \<le> fuel) \<longrightarrow> reads fed S (read_array nodes vs S))"

definition value_law :: "bool \<Rightarrow> nat \<Rightarrow> value_parser \<Rightarrow> bool" where
  "value_law fed fuel read_value \<longleftrightarrow>
     (\<forall>nodes v S. (fed \<longrightarrow> 2 * length (remaining S) + 1 \<le> fuel) \<longrightarrow> reads fed S (read_value nodes v S))"

lemma readArray_start_reads:
  assumes "array_law fed fuel read_array" "fed \<longrightarrow> 2 * length (remaining S) + 2 \<le> fuel"
  shows "reads fed S (Dialect_readArray_start d read_array nodes S)"
proof -
  let ?S = "S\<lparr>scanner := (scanner S)\<lparr>rest := skipSpaces (remaining S)\<rparr>\<rparr>"
  have p: "progress S True ?S" by (rule progress_moves) (simp add: skipSpaces_def suffix_dropWhile)
  have "fed \<longrightarrow> 2 * length (remaining ?S) + 2 \<le> fuel" using progress_length [OF p] assms(2) by auto
  then have "reads fed ?S (read_array nodes [] ?S)" using assms(1) unfolding array_law_def by blast
  moreover have "reads fed ?S (with_token (Dialect_readToken d) ?S (\<lambda>endArray S. Some (Inr (True, [], S))))"
    by (intro with_token_reads reads_tokens reads_intros) assumption
  ultimately show ?thesis
    unfolding Dialect_readArray_start_def Let_def using reads_after [OF p] by auto
qed

lemma readValue_switch_reads:
  assumes ro: "object_law fed fuel read_object" and ra: "array_law fed fuel read_array"
    and tok: "token_at (remaining S) tok (remaining S1)" and p: "progress S True S1" and fuel: "fed \<longrightarrow> 2 * length (remaining S) \<le> fuel"
  shows "reads fed S (Dialect_readValue_switch d D read_object read_array nodes v tok S1)"
proof (cases "tok_type tok = tokenEndOfStream")
  case True
  with p token_at_places [OF tok] show ?thesis
    by (simp add: Dialect_readValue_switch_def reads_intros addError_progress)
next
  case False
  with token_atD(2) [OF tok] fuel have f: "fed \<longrightarrow> 2 * length (remaining S1) + 2 \<le> fuel" by auto
  have finish: "reads fed S (bind_run m (\<lambda>(ok, x, S). Some (Inr (ok, g x, at_value_end d S))))" if "reads fed S1 m" for m g
    using reads_after [OF p that] by (rule reads_bind) (auto intro: reads_intros at_value_end_progress)
  have "fed \<longrightarrow> 2 * length (remaining S1) + 1 \<le> fuel" using f by auto
  then have obj: "reads fed S1 (read_object nodes [] [] S1)" using ro by (simp add: object_law_def)
  have arr: "reads fed S1 (Dialect_readArray_start d read_array nodes S1)" by (rule readArray_start_reads [OF ra f])
  have unread: "progress S True (at_value_end d (S1\<lparr>scanner := (scanner S1)\<lparr>rest := tok_text tok @ remaining S1\<rparr>\<rparr>))"
    using tok p by (intro at_value_end_progress) (simp add: progress_def token_at_def)
  have err: "reads fed S (Some (Inr (False, v, addError m tok None S1)))" for m
    using p token_at_places [OF tok] by (auto intro: reads_intros addError_progress)
  show ?thesis
    unfolding Dialect_readValue_switch_def Let_def
    using finish [OF obj] finish [OF arr] p unread err
    by (auto intro: reads_intros at_value_end_progress decodeNumber_error [OF _ p tok] decodeString_error [OF _ p tok]
      split: sum.splits)
qed

lemma readValue_body_reads:
  assumes "object_law fed fuel read_object" "array_law fed fuel read_array" "fed \<longrightarrow> 2 * length (remaining S) \<le> fuel"
  shows "reads fed S (Dialect_readValue_body d D read_object read_array nodes v S)"
proof -
  have "reads fed S (bind_run (Some (Dialect_attachComments d S1)) (Dialect_readValue_switch d D read_object read_array nodes v tok))"
    if "token_at (remaining S) tok (remaining S1)" "progress S True S1" for tok S1
    using that by (intro reads_intros readValue_switch_reads [OF assms(1,2) _ _ assms(3)])
      (simp_all add: attachComments_remaining attachComments_progress)
  then show ?thesis
    unfolding Dialect_readValue_body_def by (auto intro: reads_intros with_token_reads reads_tokens)
qed

lemma object_lawD: "object_law fed fuel read_object \<Longrightarrow> progress S True S1 \<Longrightarrow> (fed \<longrightarrow> 2 * length (remaining S1) + 1 \<le> fuel) \<Longrightarrow> reads fed S (read_object nodes name ms S1)"
  by (auto simp: object_law_def intro: reads_after)

lemma readObject_next_reads:
  assumes ro: "object_law fed fuel read_object" and p: "progress S True S0" and fuel: "fed \<longrightarrow> 2 * length (remaining S0) + 1 \<le> fuel"
  shows "reads fed S (Dialect_readObject_next d read_object nodes name ms S0)"
proof -
  have go: "reads fed S0 (read_object nodes name ms S1)" if "progress S0 True S1" for S1
    using progress_length [OF that] fuel by (intro object_lawD [OF ro that]) auto
  have more: "reads fed S1 (with_token (Dialect_nextToken d) S1 (\<lambda>comma S. if tok_type comma = tokenObjectEnd then Some (Inr (True, ms, S))
      else read_object nodes name ms S))" if "progress S0 True S1" for S1
  proof (rule with_token_reads [OF reads_tokens(2)])
    fix tok S2
    assume "token_at (remaining S1) tok (remaining S2)" and S2: "progress S1 True S2"
    have "fed \<longrightarrow> 2 * length (remaining S2) + 1 \<le> fuel" using progress_length [OF S2] progress_length [OF that] fuel by auto
    with S2 show "reads fed S1 (if tok_type tok = tokenObjectEnd then Some (Inr (True, ms, S2)) else read_object nodes name ms S2)"
      by (auto intro: reads_intros object_lawD [OF ro])
  qed
  have "reads fed S0 (Dialect_readObject_next d read_object nodes name ms S0)"
    unfolding Dialect_readObject_next_def Let_def
    by (intro with_token_reads reads_tokens) (auto intro: reads_intros addErrorAndRecover_reads go reads_after [OF _ more])
  with p show ?thesis by (rule reads_after)
qed

lemma readObject_member_reads:
  assumes rv: "value_law fed fuel read_value" and ro: "object_law fed fuel read_object"
    and tok: "token_at (remaining S) tokenName after" and p: "progress S True S0" and fuel: "fed \<longrightarrow> 2 * length (remaining S0) + 1 \<le> fuel"
  shows "reads fed S (Dialect_readObject_member d read_value read_object tokenName nodes name ms S0)"
proof -
  have m: "reads fed S (bind_run (read_value (nodes + 1) v S1) (\<lambda>(ok, v, S).
          let ms = members_store key v ms' in if \<not> ok then recover d tokenObjectEnd ms S
             else Dialect_readObject_next d read_object nodes name ms S))" if S1: "progress S0 True S1" for S1 v key ms'
  proof -
    have f: "fed \<longrightarrow> 2 * length (remaining S1) + 1 \<le> fuel" using progress_length [OF S1] fuel by auto
    have "reads fed S1 (read_value (nodes + 1) v S1)" using rv f by (simp add: value_law_def)
    then have "reads fed S1 (bind_run (read_value (nodes + 1) v S1) (\<lambda>(ok, v, S).
          let ms = members_store key v ms' in if \<not> ok then recover d tokenObjectEnd ms S
             else Dialect_readObject_next d read_object nodes name ms S))"
      using f by (rule_tac reads_bind)
        (auto simp: Let_def dest: progress_length intro!: recover_reads readObject_next_reads [OF ro])
    with progress_trans [OF p S1] show ?thesis by (auto intro: reads_after)
  qed
  have err: "reads fed S (addErrorAndRecover d msg colon tokenObjectEnd ms S1)"
    if "progress S0 True S1" "token_at (remaining S0) colon (remaining S1)" for S1 colon msg
    using reads_after [OF p addErrorAndRecover_reads [OF that]] .
  have dup: "reads fed S (addErrorAndRecover d msg tokenName tokenObjectEnd ms S1)" if "progress S0 True S1" for S1 msg
    using progress_trans [OF p that] tok by (auto intro: addErrorAndRecover_reads)
  show ?thesis
    unfolding Dialect_readObject_member_def
    by (rule with_token_reads [OF reads_tokens(1)]) (use err dup m in \<open>simp add: Let_def reads_intros\<close>)
qed

lemma readObject_body_reads:
  assumes rv: "value_law fed fuel read_value" and ro: "object_law fed fuel read_object" and fuel: "fed \<longrightarrow> 2 * length (remaining S) \<le> fuel"
  shows "reads fed S (Dialect_readObject_body d D read_value read_object nodes name ms S)"
  unfolding Dialect_readObject_body_def
proof (rule with_token_reads [OF reads_tokens(2)])
  fix tok S1
  assume tok: "token_at (remaining S) tok (remaining S1)" and p: "progress S True S1"
  have m: "reads fed S (Dialect_readObject_member d read_value read_object tok nodes name ms S1)" if "tok_type tok \<noteq> tokenEndOfStream" for name
    using token_atD(2) [OF tok that] fuel by (intro readObject_member_reads [OF rv ro tok p]) auto
  have n: "reads fed S (case Dialect_decodeNumber d D tok S1 of
          Inl S \<Rightarrow> recover d tokenObjectEnd ms S
        | Inr numberName \<Rightarrow>
            bind_run (Some (if deprecated d then asCString numberName else asString D numberName)) (\<lambda>name.
            Dialect_readObject_member d read_value read_object tok nodes name ms S1))" if "tok_type tok = tokenNumber"
    using that by (auto intro!: reads_intros recover_reads m dest: decodeNumber_error [OF _ p tok] split: sum.split)
  have s: "reads fed S (case Dialect_decodeString tok S1 of
          Inl S \<Rightarrow> recover d tokenObjectEnd ms S
        | Inr name \<Rightarrow> Dialect_readObject_member d read_value read_object tok nodes name ms S1)" if "tok_type tok = tokenString"
    using that by (auto intro!: recover_reads m dest: decodeString_error [OF _ p tok] split: sum.split)
  show "reads fed S (if tok_type tok = tokenObjectEnd \<and> name = [] then Some (Inr (True, ms, S1))
     else if tok_type tok = tokenString then
       (case Dialect_decodeString tok S1 of
          Inl S \<Rightarrow> recover d tokenObjectEnd ms S
        | Inr name \<Rightarrow> Dialect_readObject_member d read_value read_object tok nodes name ms S1)
     else if tok_type tok = tokenNumber \<and> allowNumericKeys (features d) then
       (case Dialect_decodeNumber d D tok S1 of
          Inl S \<Rightarrow> recover d tokenObjectEnd ms S
        | Inr numberName \<Rightarrow>
            bind_run (Some (if deprecated d then asCString numberName else asString D numberName)) (\<lambda>name.
            Dialect_readObject_member d read_value read_object tok nodes name ms S1))
     else
       addErrorAndRecover d (''Missing '' @ quoted ''}'' @ '' or object member name'') tok tokenObjectEnd ms S1)"
    using n s p by (auto intro: reads_intros addErrorAndRecover_reads [OF p tok])
qed

lemma readArray_body_reads:
  assumes rv: "value_law fed fuel read_value" and ra: "array_law fed fuel read_array" and fuel: "fed \<longrightarrow> 2 * length (remaining S) + 1 \<le> fuel"
  shows "reads fed S (Dialect_readArray_body d read_value read_array nodes vs S)"
proof -
  have next_token: "reads fed S1 (with_token (Dialect_nextToken d) S1 (\<lambda>currentToken S.
          if tok_type currentToken \<noteq> tokenArraySeparator \<and> tok_type currentToken \<noteq> tokenArrayEnd then
            addErrorAndRecover d (''Missing '' @ quoted '','' @ '' or '' @ quoted '']'' @ '' in array declaration'') currentToken
              tokenArrayEnd vs S
          else if tok_type currentToken = tokenArrayEnd then Some (Inr (True, vs, S))
          else read_array nodes vs S))" if S1: "progress S True S1" for S1 vs
  proof (rule with_token_reads [OF reads_tokens(2)])
    fix tok S2
    assume tok: "token_at (remaining S1) tok (remaining S2)" and p: "progress S1 True S2"
    have "reads fed S1 (read_array nodes vs S2)" if "tok_type tok = tokenArraySeparator"
    proof -
      have "fed \<longrightarrow> 2 * length (remaining S2) + 2 \<le> fuel"
        using token_atD(2) [OF tok] that progress_length [OF S1] fuel by auto
      with ra p show ?thesis by (auto simp: array_law_def intro: reads_after)
    qed
    with p show "reads fed S1 (if tok_type tok \<noteq> tokenArraySeparator \<and> tok_type tok \<noteq> tokenArrayEnd then
            addErrorAndRecover d (''Missing '' @ quoted '','' @ '' or '' @ quoted '']'' @ '' in array declaration'') tok
              tokenArrayEnd vs S2
          else if tok_type tok = tokenArrayEnd then Some (Inr (True, vs, S2))
          else read_array nodes vs S2)"
      by (auto intro: reads_intros addErrorAndRecover_reads [OF p tok])
  qed
  have "reads fed S (read_value (nodes + 1) nullValue S)" using rv fuel by (simp add: value_law_def)
  then show ?thesis
    unfolding Dialect_readArray_body_def
    by (rule reads_bind) (auto simp: Let_def intro: recover_reads reads_after [OF _ next_token])
qed

lemma dialect_laws:
  "value_law fed fuel (Dialect_readValue d D fuel) \<and> object_law fed fuel (Dialect_readObject d D fuel) \<and> array_law fed fuel (Dialect_readArray d D fuel)"
proof (induction fuel)
  case 0
  then show ?case by (simp add: value_law_def object_law_def array_law_def reads_def)
next
  case (Suc fuel)
  then have v: "value_law fed fuel (Dialect_readValue d D fuel)" and o: "object_law fed fuel (Dialect_readObject d D fuel)"
    and a: "array_law fed fuel (Dialect_readArray d D fuel)" by blast+
  show ?case
    using readValue_body_reads [OF o a] readObject_body_reads [OF v o] readArray_body_reads [OF v a]
    by (simp add: value_law_def object_law_def array_law_def)
qed

section \<open>Parsing\<close>

lemma readValue_reads: "reads True (initial_state doc) (Dialect_readValue d D (parse_fuel doc) n root (initial_state doc))"
  using dialect_laws [of True "parse_fuel doc" d D] by (simp add: value_law_def parse_fuel_def initial_state_def)

text \<open>
  C9. Both JSON readers return on every document whatever their settings, dropped nulls included, for which a token is put back:
  with the fuel that \<open>parse\<close> passes, the result is a value or an exception.
\<close>

theorem dialect_parse_returns: "\<exists>r. Dialect_parse d D doc root = Some r"
  using readValue_reads [of doc d D 1 root]
  by (auto simp: Dialect_parse_def reads_def Dialect_parse_end_def with_token_def bind_run_def split: option.splits sum.splits prod.splits)

lemma parse_end_errors:
  assumes "progress (initial_state doc) ok S" "Dialect_parse_end d doc ok v S = Some (Inr (ok', v', es))"
  shows "\<exists>S'. progress (initial_state doc) ok' S' \<and> errors S' = es"
proof -
  have r: "remaining (initial_state doc) = doc" by (simp add: initial_state_def)
  have bad: "progress (initial_state doc) False (addError m tok None S1)"
    if "progress (initial_state doc) a S1" "0 \<le> tok_end tok" "tok_end tok \<le> tok_start tok" "tok_start tok \<le> left doc" for m tok a S1
    using that by (auto simp: progress_def addError_def located_in_def r)
  from assms(2) obtain tok st where t: "Dialect_skipCommentTokens d (scanner S) = Inr (tok, st)"
    by (auto simp: Dialect_parse_end_def with_token_def bind_run_def split: sum.splits)
  let ?S = "S\<lparr>scanner := st\<rparr>"
  have at: "token_at (remaining S) tok (rest st)" using reads_tokens(3) t by (simp add: reads_token_def)
  have p: "progress (initial_state doc) ok ?S"
    using progress_trans [OF assms(1) progress_moves] at by (auto simp: token_at_def)
  have places: "0 \<le> tok_end tok" "tok_end tok \<le> tok_start tok" "tok_start tok \<le> left doc"
    using token_at_places [OF at] progress_length [OF assms(1)] by (auto simp: r)
  show ?thesis
  proof (cases "Dialect_attachComments d ?S")
    case (Inl e)
    with assms(2) t bad [OF p places] show ?thesis
      by (fastforce simp: Dialect_parse_end_def with_token_def split: if_splits)
  next
    case (Inr S2)
    have p2: "progress (initial_state doc) ok S2"
      using progress_trans [OF p attachComments_progress [OF Inr progress_refl]] by simp
    from Inr assms(2) t bad [OF p places] p2
      bad [OF p2, of "\<lparr>tok_type = tokenError, tok_text = doc, tok_start = left doc, tok_end = 0\<rparr>"]
    show ?thesis by (fastforce simp: Dialect_parse_end_def with_token_def split: if_splits)
  qed
qed

section \<open>Messages\<close>

text \<open>
  The line and the column of a place, which is now counted from the beginning of the document, and the messages. The
  loop looks one character beyond the document when that ends with a carriage return, which is not a line feed there.
\<close>

fun line_loop :: "int \<Rightarrow> string \<Rightarrow> int \<Rightarrow> int \<Rightarrow> int \<Rightarrow> int \<times> int" where
  "line_loop location [] current lastLineStart line = (line, lastLineStart)"
| "line_loop location (c # s) current lastLineStart line =
     (if current < location then
        if c = CR then
          (case s of
             [] \<Rightarrow> (line + 1, current + 1)
           | e # r \<Rightarrow>
               if e = LF then line_loop location r (current + 2) (current + 2) (line + 1)
               else line_loop location s (current + 1) (current + 1) (line + 1))
        else if c = LF then line_loop location s (current + 1) (current + 1) (line + 1)
        else line_loop location s (current + 1) lastLineStart line
      else (line, lastLineStart))"

definition getLocationLineAndColumn :: "string \<Rightarrow> int \<Rightarrow> int \<times> int" where
  "getLocationLineAndColumn doc location =
     (let (line, lastLineStart) = line_loop location doc 0 0 0 in (line + 1, location - lastLineStart + 1))"

definition location_text :: "string \<Rightarrow> int \<Rightarrow> string" where
  "location_text doc location =
     (let (line, column) = getLocationLineAndColumn doc location
      in ''Line '' @ valueToString_int line @ '', Column '' @ valueToString_int column)"

definition getFormattedErrorMessages :: "string \<Rightarrow> ErrorInfo list \<Rightarrow> string" where
  "getFormattedErrorMessages doc es = concat (map (\<lambda>e.
     ''* '' @ location_text doc (left doc - err_start e) @ [LF]
     @ ''  '' @ err_message e @ [LF]
     @ (case err_extra e of None \<Rightarrow> [] | Some p \<Rightarrow> ''See '' @ location_text doc (left doc - p) @ '' for detail.'' @ [LF])) es)"

record StructuredError =
  offset_start :: int
  offset_limit :: int
  error_message :: string

definition getStructuredErrors :: "string \<Rightarrow> ErrorInfo list \<Rightarrow> StructuredError list" where
  "getStructuredErrors doc es =
     map (\<lambda>e. \<lparr>offset_start = left doc - err_start e, offset_limit = left doc - err_end e, error_message = err_message e\<rparr>) es"

definition good :: "ErrorInfo list \<Rightarrow> bool" where
  "good es \<longleftrightarrow> es = []"

text \<open>\<open>pushError\<close>, on the two offsets of a value; its end is counted from the end of the document.\<close>

definition pushError :: "string \<Rightarrow> int \<times> int \<Rightarrow> string \<Rightarrow> ErrorInfo list \<Rightarrow> bool \<times> ErrorInfo list" where
  "pushError doc offsets message es =
     (if fst offsets > left doc \<or> snd offsets > left doc then (False, es)
      else (True, es @ [\<lparr>err_start = left doc - fst offsets, err_end = - snd offsets, err_message = message, err_extra = None\<rparr>]))"

definition pushError_extra :: "string \<Rightarrow> int \<times> int \<Rightarrow> string \<Rightarrow> int \<times> int \<Rightarrow> ErrorInfo list \<Rightarrow> bool \<times> ErrorInfo list" where
  "pushError_extra doc offsets message extra es =
     (if fst offsets > left doc \<or> snd offsets > left doc \<or> snd extra > left doc then (False, es)
      else (True, es @ [\<lparr>err_start = left doc - fst offsets, err_end = left doc - snd offsets, err_message = message,
        err_extra = Some (left doc - fst extra)\<rparr>]))"

definition in_line :: "char \<Rightarrow> bool" where
  "in_line c \<longleftrightarrow> c \<noteq> LF \<and> c \<noteq> CR"

text \<open>A place between the two characters of a DOS line end.\<close>

definition splits_line_end :: "string \<Rightarrow> nat \<Rightarrow> bool" where
  "splits_line_end s k \<longleftrightarrow> 0 < k \<and> k < length s \<and> s ! (k - 1) = CR \<and> s ! k = LF"

lemma takeWhile_line:
  "length (takeWhile P (rev (c # t))) = (if list_all P t then length t + (if P c then 1 else 0) else length (takeWhile P (rev t)))"
  by (auto simp: takeWhile_append takeWhile_eq_all_conv [THEN iffD2] list_all_iff takeWhile_tail)

lemma normalizeEOL_CR: "t = [] \<or> hd t \<noteq> LF \<Longrightarrow> normalizeEOL (CR # t) = LF # normalizeEOL t"
  by (cases t) auto

lemma line_loop_spec:
  "location = current + int k \<Longrightarrow> k \<le> length s \<Longrightarrow> \<not> splits_line_end s k \<Longrightarrow>
   line_loop location s current start line =
     (line + int (count_list (normalizeEOL (take k s)) LF),
      if list_all in_line (take k s) then start else location - int (length (takeWhile in_line (rev (take k s)))))"
proof (induction s arbitrary: k current start line rule: normalizeEOL.induct)
  case (2 c s)
  show ?case
  proof (cases k)
    case (Suc j)
    note prems = 2(4-6) [unfolded Suc]
    have nr: "\<not> splits_line_end s j"
      using prems(3) by (cases j) (auto simp: splits_line_end_def)
    have loc: "location = current + 1 + int j" "current < location" using prems(1) by simp_all
    consider (dos) "c = CR" "s \<noteq> []" "hd s = LF" | (mac) "c = CR" "s = [] \<or> hd s \<noteq> LF" | (other) "c \<noteq> CR" by blast
    then show ?thesis
    proof cases
      case dos
      then obtain r where s: "s = LF # r" by (cases s) auto
      obtain i where j: "j = Suc i" using prems dos by (cases j) (auto simp: splits_line_end_def s)
      have "\<not> splits_line_end r i" using nr by (cases i) (auto simp: splits_line_end_def s j)
      with 2(1) [of LF r "current + 2" i "current + 2" "line + 1"] prems dos show ?thesis
        by (simp add: s Suc j takeWhile_line in_line_def [of LF] in_line_def [of CR] del: rev.simps takeWhile_append)
    next
      case mac
      have "take j s = [] \<or> hd (take j s) \<noteq> LF" using mac by (cases s; cases j) auto
      with mac prems loc nr 2(2) [of "hd s" "tl s" "current + 1" j "current + 1" "line + 1"] show ?thesis
        by (cases s) (auto simp: Suc normalizeEOL_CR takeWhile_line in_line_def [of CR] simp del: rev.simps normalizeEOL.simps(2))
    next
      case other
      with prems loc nr 2(3) [of "current + 1" j "if c = LF then current + 1 else start" "if c = LF then line + 1 else line"]
      show ?thesis by (auto simp: Suc takeWhile_line in_line_def [of c] in_line_def [of LF] simp del: rev.simps)
    qed
  qed (use 2(4) in simp)
qed (simp add: splits_line_end_def)

text \<open>
  The line of an error is one more than the number of line ends before it, whether they are written in the Unix, the DOS or the
  Mac way, and its column one more than the number of characters since the last of them, at every place that does not stand inside
  a line end.
\<close>

lemma line_and_column:
  assumes "k \<le> length doc" "\<not> splits_line_end doc k"
  shows "getLocationLineAndColumn doc (int k) =
    (1 + int (count_list (normalizeEOL (take k doc)) LF), 1 + int (length (takeWhile in_line (rev (take k doc)))))"
proof -
  have "length (takeWhile in_line (rev (take k doc))) = k" if "list_all in_line (take k doc)"
    using that assms(1) by (simp add: takeWhile_eq_all_conv [THEN iffD2] list_all_iff)
  with line_loop_spec [of "int k" 0 k doc 0 0] assms show ?thesis
    by (auto simp: getLocationLineAndColumn_def)
qed

lemma structured_offsets:
  "list_all (located_in (left doc)) es \<Longrightarrow>
     list_all (\<lambda>e. 0 \<le> offset_start e \<and> offset_start e \<le> offset_limit e \<and> offset_limit e \<le> left doc) (getStructuredErrors doc es)"
  by (auto simp: getStructuredErrors_def list_all_iff located_in_def)

text \<open>
  C11. \<open>parse\<close> of both readers, with any settings, reports what went wrong: it returns true exactly if the list of errors is
  empty, which is what \<open>good\<close> tests; every error has a token inside the document and its second place, if it has one, inside
  the token, so that the offsets of \<open>getStructuredErrors\<close> are offsets of the document.
\<close>

theorem parse_reports_errors:
  assumes "Dialect_parse d D doc root = Some (Inr (ok, v, es))"
  shows "(ok \<longleftrightarrow> good es) \<and> list_all (located_in (left doc)) es
    \<and> list_all (\<lambda>e. 0 \<le> offset_start e \<and> offset_start e \<le> offset_limit e \<and> offset_limit e \<le> left doc) (getStructuredErrors doc es)"
proof -
  obtain ok1 v1 S where r: "Dialect_readValue d D (parse_fuel doc) 1 root (initial_state doc) = Some (Inr (ok1, v1, S))"
    and e: "Dialect_parse_end d doc ok1 v1 S = Some (Inr (ok, v, es))"
    using assms by (auto simp: Dialect_parse_def bind_run_def split: option.splits sum.splits)
  from r have "progress (initial_state doc) ok1 S" using readValue_reads [of doc d D 1 root] by (simp add: reads_def)
  from parse_end_errors [OF this e] have "ok \<longleftrightarrow> es = []" "list_all (located_in (left doc)) es"
    by (auto simp: progress_def initial_state_def)
  with structured_offsets show ?thesis by (auto simp: good_def)
qed

definition default_features :: OurFeatures where
  "default_features = \<lparr>allowComments = True, strictRoot = False, allowDroppedNullPlaceholders = False,
     allowNumericKeys = False, allowSingleQuotes = False, failIfExtra = False, rejectDupKeys = False,
     allowSpecialFloats = False, features_stackLimit = stackLimit\<rparr>"

text \<open>Documents of a few characters, evaluated by rewriting.\<close>

lemma parse_fuel_Suc: "parse_fuel [] = Suc (Suc 0)" "parse_fuel (c # s) = Suc (Suc (parse_fuel s))"
  by (simp_all add: parse_fuel_def)

lemmas dialect_eval = Dialect_parse_def parse_fuel_Suc initial_state_def Dialect_readValue_body_def with_token_def
  Dialect_skipCommentTokens_def Dialect_nextToken.simps Dialect_readToken_def Dialect_token_case_def Dialect_readComment_def
  addComment_def skipSpaces_def getNextChar_def Let_def Dialect_attachComments_def attachComments_def
  Dialect_readValue_switch_def Dialect_readArray_start_def Dialect_readArray_body_def Dialect_readObject_body_def
  Dialect_readObject_member_def Dialect_readObject_next_def at_value_end_def Dialect_decodeNumber_def Dialect_decodeString_def
  addErrorAndRecover_def recover_def addError_def Dialect_recoverFromError.simps Dialect_parse_end_def is_container_def
  between_def isdigit_def readNumber_def match_text_def decodeNumber_def stackLimit_def decodeString_err.simps members_find_def

lemma unclosed_array:
  "Dialect_parse (our_dialect True default_features) D ''[1'' nullValue =
     Some (Inr (False, arrayValue [intValue 1],
       [\<lparr>err_start = 0, err_end = 0, err_message = ''Missing '' @ quoted '','' @ '' or '' @ quoted '']'' @ '' in array declaration'', err_extra = None\<rparr>]))"
  by (simp add: dialect_eval our_dialect_def default_features_def)

theorem parse_reports_errors_witness:
  "\<not> good [\<lparr>err_start = 0, err_end = 0, err_message = ''Missing '' @ quoted '','' @ '' or '' @ quoted '']'' @ '' in array declaration'', err_extra = None\<rparr>]"
  using parse_reports_errors [OF unclosed_array] by simp


text \<open>
  \<open>pushError\<close> counts the end of the value from the end of the document, so that the offset of the error is outside of it.
\<close>

lemma pushError_outside:
  assumes "0 \<le> fst offsets" "fst offsets \<le> left doc" "0 < snd offsets" "snd offsets \<le> left doc"
  shows "\<exists>es'. pushError doc offsets m es = (True, es') \<and> offset_limit (last (getStructuredErrors doc es')) > left doc"
  using assms by (simp add: pushError_def getStructuredErrors_def)

end
