(* ===== verification/Json_Reader_Copies.thy ===== *)
theory Json_Reader_Copies
  imports Json_Reader_Errors
begin

text \<open>
  How the readers relate: \<open>OurReader\<close> with the default settings is the reader of \<open>Json_Reader\<close>, and the deprecated
  \<open>Reader\<close> agrees with \<open>OurReader\<close> on the documents without the characters that only the latter knows. Then the
  interfaces on top of them, and documents on which the settings do not do what they promise.
\<close>

section \<open>Interfaces\<close>

definition OurCharReader_parse :: "c_double \<Rightarrow> bool \<times> OurFeatures \<Rightarrow> string \<Rightarrow> Value \<Rightarrow> (bool \<times> Value \<times> string) run" where
  "OurCharReader_parse D reader doc root =
     bind_run (Dialect_parse (our_dialect (fst reader) (snd reader)) D doc root) (\<lambda>(ok, root, es).
     Some (Inr (ok, root, getFormattedErrorMessages doc es)))"

definition parseFromStream_with :: "c_double \<Rightarrow> Value \<Rightarrow> string \<Rightarrow> Value \<Rightarrow> (bool \<times> Value \<times> string) run" where
  "parseFromStream_with D settings sin root =
     bind_run (Some (newCharReader settings)) (\<lambda>reader. OurCharReader_parse D reader sin root)"

text \<open>\<open>operator>>\<close>, with a builder of its own.\<close>

definition read_operator :: "c_double \<Rightarrow> string \<Rightarrow> Value \<Rightarrow> Value run" where
  "read_operator D sin root =
     bind_run (Some (CharReaderBuilder_setDefaults nullValue)) (\<lambda>settings.
     bind_run (parseFromStream_with D settings sin root) (\<lambda>(ok, root, errs).
     if \<not> ok then Some (Inl (RuntimeError errs)) else Some (Inr root)))"

text \<open>The deprecated reader.\<close>

definition Reader_parse :: "bool \<Rightarrow> Features \<Rightarrow> c_double \<Rightarrow> string \<Rightarrow> Value \<Rightarrow> (bool \<times> Value \<times> ErrorInfo list) run" where
  "Reader_parse collect fs D document root = Dialect_parse (deprecated_dialect collect fs) D document root"

section \<open>The default settings\<close>

definition default_dialect :: Dialect where
  "default_dialect = our_dialect True default_features"

lemma default_dialect_simps [simp]:
  "features default_dialect = default_features" "collectComments default_dialect" "\<not> deprecated default_dialect"
  "allowComments default_features" "\<not> strictRoot default_features" "\<not> allowDroppedNullPlaceholders default_features"
  "\<not> allowNumericKeys default_features" "\<not> allowSingleQuotes default_features" "\<not> failIfExtra default_features"
  "\<not> rejectDupKeys default_features" "\<not> allowSpecialFloats default_features" "features_stackLimit default_features = stackLimit"
  by (simp_all add: default_dialect_def our_dialect_def default_features_def)

text \<open>A token without its places, and a run without its errors.\<close>

definition strip :: "(TokenAt \<times> Reader) result \<Rightarrow> (Token \<times> Reader) result" where
  "strip r = map_sum id (map_prod Token.truncate id) r"

definition erase :: "(bool \<times> 'a \<times> ReaderState) run \<Rightarrow> (bool \<times> 'a \<times> Reader) run" where
  "erase r = bind_run r (\<lambda>(ok, x, S). Some (Inr (ok, x, scanner S)))"

lemma strip_simps [simp]: "strip (Inl e) = Inl e" "strip (Inr (t, st)) = Inr (Token.truncate t, st)"
  by (simp_all add: strip_def)

lemma truncate_simps [simp]: "tok_type (Token.truncate t) = tok_type t" "tok_text (Token.truncate t) = tok_text t"
  by (simp_all add: Token.truncate_def)

lemma readComment_default: "Dialect_readComment default_dialect = readComment"
  by (intro ext) (simp add: Dialect_readComment_def readComment_def addComment_def Let_def split: prod.split)

lemma token_case_default: "Dialect_token_case default_dialect c p st = token_case c p st"
  by (simp add: Dialect_token_case_def token_case_def readComment_default Let_def cong: if_cong)

lemma readToken_default: "readToken st = strip (Dialect_readToken default_dialect st)"
proof -
  obtain c s where c: "getNextChar (skipSpaces (rest st)) = (c, s)" by force
  show ?thesis
    by (cases "token_case c (skipSpaces (rest st)) (st\<lparr>rest := s\<rparr>)")
      (auto simp: readToken_def Dialect_readToken_def token_case_default Let_def c Token.truncate_def Token.defs)
qed

lemma nextToken_default: "skipCommentTokens st = strip (Dialect_nextToken default_dialect st)"
proof (induction "length (rest st)" arbitrary: st rule: less_induct)
  case less
  show ?case
  proof (cases "Dialect_readToken default_dialect st")
    case (Inl e)
    then show ?thesis by (simp add: skipCommentTokens.simps [of st] Dialect_nextToken.simps [of _ st] readToken_default)
  next
    case (Inr x)
    obtain t s where x: "x = (t, s)" by force
    with Inr Dialect_readToken_shorter [of default_dialect st t s] less [of s] show ?thesis
      by (auto simp: skipCommentTokens.simps [of st] Dialect_nextToken.simps [of _ st] readToken_default)
  qed
qed

lemma recover_default: "recoverFromError t st = Dialect_recoverFromError default_dialect t st"
proof (induction "length (rest st)" arbitrary: st rule: less_induct)
  case less
  show ?case
  proof (cases "Dialect_readToken default_dialect st")
    case (Inl e)
    then show ?thesis by (simp add: recoverFromError.simps [of _ st] Dialect_recoverFromError.simps [of _ _ st] readToken_default)
  next
    case (Inr x)
    obtain u s where x: "x = (u, s)" by force
    with Inr Dialect_readToken_shorter [of default_dialect st u s] less [of s] show ?thesis
      by (auto simp: recoverFromError.simps [of _ st] Dialect_recoverFromError.simps [of _ _ st] readToken_default)
  qed
qed

lemma skipCommentTokens_default: "skipCommentTokens st = strip (Dialect_skipCommentTokens default_dialect st)"
  by (simp add: Dialect_skipCommentTokens_def nextToken_default)

text \<open>The tokens of special floats do not occur.\<close>

definition special_token :: "TokenType \<Rightarrow> bool" where
  "special_token t \<longleftrightarrow> t \<in> {tokenNaN, tokenPosInf, tokenNegInf}"

lemma token_case_not_special: "token_case c p st = Inr (t, True, st') \<Longrightarrow> \<not> special_token t"
  by (auto simp: token_case_def Let_def special_token_def bind_result_Inr_iff split: if_splits prod.splits)

lemma readToken_not_special: "Dialect_readToken default_dialect st = Inr (tok, st') \<Longrightarrow> \<not> special_token (tok_type tok)"
  by (auto simp: Dialect_readToken_def Let_def bind_result_Inr_iff token_case_default special_token_def
    split: prod.splits if_splits dest: token_case_not_special [unfolded special_token_def])

lemma nextToken_not_special: "Dialect_nextToken default_dialect st = Inr (tok, st') \<Longrightarrow> \<not> special_token (tok_type tok)"
proof (induction "length (rest st)" arbitrary: st rule: less_induct)
  case less
  obtain t s where t: "Dialect_readToken default_dialect st = Inr (t, s)"
    and more: "if tok_type t = tokenComment then Dialect_nextToken default_dialect s = Inr (tok, st') else tok = t"
    using less.prems by (auto simp: Dialect_nextToken.simps [of _ st] split: sum.splits if_splits)
  show ?case
    using more readToken_not_special [OF t] Dialect_readToken_shorter [OF t] less.hyps [of s] by (auto split: if_splits)
qed

text \<open>How \<^const>\<open>erase\<close> goes through the parts of a function.\<close>

lemma erase_simps [simp]:
  "erase None = None" "erase (Some (Inl e)) = Some (Inl e)" "erase (Some (Inr (ok, x, S))) = Some (Inr (ok, x, scanner S))"
  by (simp_all add: erase_def)

lemma erase_with_token:
  assumes "\<And>st. read' st = strip (read st)"
    "\<And>tok st. read (scanner S) = Inr (tok, st) \<Longrightarrow> erase (k tok (S\<lparr>scanner := st\<rparr>)) = k' (Token.truncate tok) st"
  shows "erase (with_token read S k) = bind_run (Some (read' (scanner S))) (\<lambda>(t, st). k' t st)"
  using assms(2) by (cases "read (scanner S)") (auto simp: with_token_def assms(1))

lemma erase_bind:
  assumes "erase m = m'" "\<And>ok x S. erase (f (ok, x, S)) = f' (ok, x, scanner S)"
  shows "erase (bind_run m f) = bind_run m' f'"
  using assms by (cases m) (auto simp: bind_run_def erase_def split: sum.splits)

lemma erase_recover: "erase (recover default_dialect t x S) = fail_until t x (scanner S)"
  by (cases "recoverFromError t (scanner S)") (simp_all add: recover_def fail_until_def recover_default [symmetric])

lemma addError_scanner [simp]: "scanner (addError m tok extra S) = scanner S"
  by (simp add: addError_def)

lemma erase_addErrorAndRecover: "erase (addErrorAndRecover default_dialect m tok t x S) = fail_until t x (scanner S)"
  by (simp add: addErrorAndRecover_def erase_recover)

lemma at_value_end_default [simp]:
  "scanner (at_value_end default_dialect S) = (scanner S)\<lparr>lastValueEnd := Some (rest (scanner S))\<rparr>"
  by (simp add: at_value_end_def)

lemma decodeNumber_cases:
  "(case Dialect_decodeNumber default_dialect D tok S of Inl S \<Rightarrow> f S | Inr v \<Rightarrow> g v)
     = (case decodeNumber D (tok_text tok) of
          None \<Rightarrow> f (addError (quoted (tok_text tok) @ '' is not a number.'') tok None S) | Some v \<Rightarrow> g v)"
  by (simp add: Dialect_decodeNumber_def dialect_double_def split: option.splits)

lemma decodeString_cases:
  obtains (bad) m p where "decodeString (tok_text tok) = None" "Dialect_decodeString tok S = Inl (addError m tok (Some p) S)"
    | (good) s where "decodeString (tok_text tok) = Some s" "Dialect_decodeString tok S = Inr s"
  using right_decodeString_err [of "tok_end tok + 1" "butlast (tl (tok_text tok))" "[]", symmetric]
  by (cases "decodeString_err (tok_end tok + 1) (butlast (tl (tok_text tok))) []")
    (auto simp: decodeString_def Dialect_decodeString_def split: prod.splits)

lemma attachComments_default:
  "erase (bind_run (Some (Dialect_attachComments default_dialect S)) k) = bind_run (Some (attachComments (scanner S))) k'"
  if "\<And>S. erase (k S) = k' (scanner S)"
  using that by (cases "attachComments (scanner S)") (simp_all add: Dialect_attachComments_def)

abbreviation erases_object :: "object_parser \<Rightarrow> object_reader \<Rightarrow> bool" where
  "erases_object read read' \<equiv> \<forall>nodes name ms S. erase (read nodes name ms S) = read' nodes name ms (scanner S)"

abbreviation erases_array :: "array_parser \<Rightarrow> array_reader \<Rightarrow> bool" where
  "erases_array read read' \<equiv> \<forall>nodes vs S. erase (read nodes vs S) = read' nodes vs (scanner S)"

abbreviation erases_value :: "value_parser \<Rightarrow> value_reader \<Rightarrow> bool" where
  "erases_value read read' \<equiv> \<forall>nodes v S. erase (read nodes v S) = read' nodes v (scanner S)"

lemma erase_readArray_start:
  assumes "erases_array ra ra'"
  shows "erase (bind_run (Dialect_readArray_start default_dialect ra nodes S) (\<lambda>(ok, vs, S). Some (Inr (ok, arrayValue vs, at_value_end default_dialect S))))
    = (let s = skipSpaces (rest (scanner S)); finish = (\<lambda>ok v st. Some (Inr (ok, v, st\<lparr>lastValueEnd := Some (rest st)\<rparr>)))
       in if s \<noteq> [] \<and> hd s = CHR '']'' then
            bind_run (Some (readToken ((scanner S)\<lparr>rest := s\<rparr>))) (\<lambda>(endArray, st). finish True (arrayValue []) st)
          else bind_run (ra' nodes [] ((scanner S)\<lparr>rest := s\<rparr>)) (\<lambda>(ok, vs, st). finish ok (arrayValue vs) st))"
proof -
  let ?S = "S\<lparr>scanner := (scanner S)\<lparr>rest := skipSpaces (rest (scanner S))\<rparr>\<rparr>"
  have "erase (bind_run (ra nodes [] ?S) (\<lambda>(ok, vs, S). Some (Inr (ok, arrayValue vs, at_value_end default_dialect S))))
      = bind_run (ra' nodes [] (scanner ?S)) (\<lambda>(ok, vs, st). Some (Inr (ok, arrayValue vs, st\<lparr>lastValueEnd := Some (rest st)\<rparr>)))"
    by (rule erase_bind) (simp_all add: assms)
  then show ?thesis
    by (cases "Dialect_readToken default_dialect (scanner ?S)")
      (auto simp: Dialect_readArray_start_def Let_def with_token_def readToken_default)
qed

lemma erase_readValue_switch:
  assumes "erases_object ro ro'" "erases_array ra ra'" "\<not> special_token (tok_type tok)"
  shows "erase (Dialect_readValue_switch default_dialect D ro ra nodes v tok S)
    = readValue_switch D ro' ra' nodes v (Token.truncate tok) (scanner S)"
proof -
  have obj: "erase (bind_run (ro nodes [] [] S) (\<lambda>(ok, ms, S). Some (Inr (ok, objectValue ms, at_value_end default_dialect S))))
      = bind_run (ro' nodes [] [] (scanner S)) (\<lambda>(ok, ms, st). Some (Inr (ok, objectValue ms, st\<lparr>lastValueEnd := Some (rest st)\<rparr>)))"
    by (rule erase_bind) (simp_all add: assms)
  have str: "erase (case Dialect_decodeString tok S of Inl S \<Rightarrow> Some (Inr (False, v, at_value_end default_dialect S))
        | Inr s \<Rightarrow> Some (Inr (True, stringValue s, at_value_end default_dialect S)))
      = (case decodeString (tok_text tok) of None \<Rightarrow> Some (Inr (False, v, (scanner S)\<lparr>lastValueEnd := Some (rest (scanner S))\<rparr>))
        | Some s \<Rightarrow> Some (Inr (True, stringValue s, (scanner S)\<lparr>lastValueEnd := Some (rest (scanner S))\<rparr>)))"
    by (cases rule: decodeString_cases [of tok S]) simp_all
  show ?thesis
    unfolding Dialect_readValue_switch_def readValue_switch_def Let_def decodeNumber_cases
    using obj str erase_readArray_start [OF assms(2), of nodes S, unfolded Let_def] assms(3)
    by (auto simp: special_token_def split: option.split)
qed

lemma erase_readValue_body:
  assumes "erases_object ro ro'" "erases_array ra ra'"
  shows "erases_value (Dialect_readValue_body default_dialect D ro ra) (readValue_body D ro' ra')"
proof (intro allI)
  fix nodes v S
  have "erase (with_token (Dialect_skipCommentTokens default_dialect) S (\<lambda>token S.
      bind_run (Some (Dialect_attachComments default_dialect S)) (Dialect_readValue_switch default_dialect D ro ra nodes v token)))
    = bind_run (Some (skipCommentTokens (scanner S))) (\<lambda>(token, st).
        bind_run (Some (attachComments st)) (readValue_switch D ro' ra' nodes v token))"
    by (intro erase_with_token skipCommentTokens_default)
      (auto simp: Dialect_skipCommentTokens_def intro!: attachComments_default [of _ _ "S\<lparr>scanner := st\<rparr>" for st, simplified]
        erase_readValue_switch [OF assms] dest: nextToken_not_special)
  then show "erase (Dialect_readValue_body default_dialect D ro ra nodes v S) = readValue_body D ro' ra' nodes v (scanner S)"
    by (simp add: Dialect_readValue_body_def readValue_body_def)
qed

lemma erase_readObject_next:
  assumes "erases_object ro ro'"
  shows "erases_object (Dialect_readObject_next default_dialect ro) (readObject_next ro')"
proof (intro allI)
  fix nodes name ms S
  have more: "erase (with_token (Dialect_nextToken default_dialect) S (\<lambda>comma S. if tok_type comma = tokenObjectEnd then Some (Inr (True, ms, S))
       else ro nodes name ms S))
    = bind_run (Some (skipCommentTokens (scanner S))) (\<lambda>(comma, st). if tok_type comma = tokenObjectEnd then Some (Inr (True, ms, st))
       else ro' nodes name ms st)" for S
    by (rule erase_with_token [OF nextToken_default]) (simp add: assms)
  show "erase (Dialect_readObject_next default_dialect ro nodes name ms S) = readObject_next ro' nodes name ms (scanner S)"
    unfolding Dialect_readObject_next_def readObject_next_def Let_def
    by (rule erase_with_token [OF readToken_default]) (simp add: erase_addErrorAndRecover more assms)
qed

lemma erase_readObject_member:
  assumes "erases_value rv rv'" "erases_object ro ro'"
  shows "erase (Dialect_readObject_member default_dialect rv ro tokenName nodes name ms S) = readObject_member rv' ro' nodes name ms (scanner S)"
proof -
  have m: "erase (bind_run (rv (nodes + 1) v S) (\<lambda>(ok, v, S).
          let ms = members_store key v ms' in if \<not> ok then recover default_dialect tokenObjectEnd ms S
             else Dialect_readObject_next default_dialect ro nodes name ms S))
      = bind_run (rv' (nodes + 1) v (scanner S)) (\<lambda>(ok, v, st).
          let ms = members_store key v ms' in if \<not> ok then fail_until tokenObjectEnd ms st
             else readObject_next ro' nodes name ms st)" for v S key ms'
    using erase_readObject_next [OF assms(2)] by (intro erase_bind) (simp_all add: assms(1) erase_recover Let_def)
  have t: "take (length name mod 2 ^ 30) name = name" if "length name < 2 ^ 30" using that by simp
  show ?thesis
    unfolding Dialect_readObject_member_def readObject_member_def
    by (rule erase_with_token [OF readToken_default]) (auto simp: erase_addErrorAndRecover Let_def m [unfolded Let_def, simplified] t not_le)
qed

lemma erase_readObject_body:
  assumes "erases_value rv rv'" "erases_object ro ro'"
  shows "erases_object (Dialect_readObject_body default_dialect D rv ro) (readObject_body rv' ro')"
proof (intro allI)
  fix nodes name ms S
  have str: "erase (case Dialect_decodeString tok S of Inl S \<Rightarrow> recover default_dialect tokenObjectEnd ms S
      | Inr name \<Rightarrow> Dialect_readObject_member default_dialect rv ro tok nodes name ms S)
    = (case decodeString (tok_text tok) of None \<Rightarrow> fail_until tokenObjectEnd ms (scanner S)
       | Some name \<Rightarrow> readObject_member rv' ro' nodes name ms (scanner S))" for tok S
    by (cases rule: decodeString_cases [of tok S]) (simp_all add: erase_recover erase_readObject_member [OF assms])
  show "erase (Dialect_readObject_body default_dialect D rv ro nodes name ms S) = readObject_body rv' ro' nodes name ms (scanner S)"
    unfolding Dialect_readObject_body_def readObject_body_def
    by (rule erase_with_token [OF nextToken_default]) (simp add: str erase_addErrorAndRecover split: option.split)
qed

lemma erase_readArray_body:
  assumes "erases_value rv rv'" "erases_array ra ra'"
  shows "erases_array (Dialect_readArray_body default_dialect rv ra) (readArray_body rv' ra')"
proof (intro allI)
  fix nodes vs S
  have t: "erase (with_token (Dialect_nextToken default_dialect) S (\<lambda>currentToken S.
          if tok_type currentToken \<noteq> tokenArraySeparator \<and> tok_type currentToken \<noteq> tokenArrayEnd then
            addErrorAndRecover default_dialect m currentToken tokenArrayEnd vs S
          else if tok_type currentToken = tokenArrayEnd then Some (Inr (True, vs, S))
          else ra nodes vs S))
      = bind_run (Some (skipCommentTokens (scanner S))) (\<lambda>(currentToken, st).
          if tok_type currentToken \<noteq> tokenArraySeparator \<and> tok_type currentToken \<noteq> tokenArrayEnd
          then fail_until tokenArrayEnd vs st
          else if tok_type currentToken = tokenArrayEnd then Some (Inr (True, vs, st))
          else ra' nodes vs st)" for m vs S
    by (rule erase_with_token [OF nextToken_default]) (simp add: erase_addErrorAndRecover assms)
  show "erase (Dialect_readArray_body default_dialect rv ra nodes vs S) = readArray_body rv' ra' nodes vs (scanner S)"
    unfolding Dialect_readArray_body_def readArray_body_def Let_def
    by (rule erase_bind) (simp_all add: assms t erase_recover)
qed

lemma erase_readers:
  "erases_value (Dialect_readValue default_dialect D fuel) (readValue D fuel)
   \<and> erases_object (Dialect_readObject default_dialect D fuel) (readObject D fuel)
   \<and> erases_array (Dialect_readArray default_dialect D fuel) (readArray D fuel)"
proof (induction fuel)
  case (Suc fuel)
  then show ?case
    using erase_readValue_body [of "Dialect_readObject default_dialect D fuel" "readObject D fuel"
        "Dialect_readArray default_dialect D fuel" "readArray D fuel" D]
      erase_readObject_body [of "Dialect_readValue default_dialect D fuel" "readValue D fuel"
        "Dialect_readObject default_dialect D fuel" "readObject D fuel" D]
      erase_readArray_body [of "Dialect_readValue default_dialect D fuel" "readValue D fuel"
        "Dialect_readArray default_dialect D fuel" "readArray D fuel"]
    by simp
qed simp

lemma Dialect_parse_default:
  "bind_run (Dialect_parse default_dialect D doc root) (\<lambda>(ok, root, es). Some (Inr (ok, root))) = OurReader_parse D doc root"
proof -
  have "erase (Dialect_readValue default_dialect D (parse_fuel doc) 1 root (initial_state doc))
      = readValue D (parse_fuel doc) 1 root \<lparr>rest = doc, lastValueEnd = None, commentsBefore = []\<rparr>"
    using erase_readers by (simp add: initial_state_def)
  then have v: "readValue D (parse_fuel doc) 1 root \<lparr>rest = doc, lastValueEnd = None, commentsBefore = []\<rparr>
      = erase (Dialect_readValue default_dialect D (parse_fuel doc) 1 root (initial_state doc))" ..
  have e: "bind_run (Dialect_parse_end default_dialect doc ok root S) (\<lambda>(ok, root, es). Some (Inr (ok, root)))
      = bind_run (Some (skipCommentTokens (scanner S))) (\<lambda>(token, st).
        bind_run (Some (attachComments st)) (\<lambda>st. Some (Inr (ok, root))))" for ok root S
    by (auto simp: Dialect_parse_end_def with_token_def skipCommentTokens_default Dialect_attachComments_def bind_run_def
      bind_result_def strip_def split: sum.splits)
  show ?thesis
    unfolding Dialect_parse_def OurReader_parse_def v
  proof (cases "Dialect_readValue default_dialect D (parse_fuel doc) 1 root (initial_state doc)")
    case (Some r)
    then show "bind_run (bind_run (Dialect_readValue default_dialect D (parse_fuel doc) 1 root (initial_state doc))
          (\<lambda>(successful, root, S). Dialect_parse_end default_dialect doc successful root S)) (\<lambda>(ok, root, es). Some (Inr (ok, root)))
      = bind_run (erase (Dialect_readValue default_dialect D (parse_fuel doc) 1 root (initial_state doc)))
          (\<lambda>(successful, root, st). bind_run (Some (skipCommentTokens st)) (\<lambda>(token, st).
            bind_run (Some (attachComments st)) (\<lambda>st. Some (Inr (successful, root)))))"
      using e by (cases r) auto
  qed simp
qed

lemma newCharReader_default:
  "\<exists>settings. CharReaderBuilder_setDefaults nullValue = Inr settings \<and> newCharReader settings = Inr (True, default_features)"
  using reader_defaults by (auto simp: default_features_def)

text \<open>
  C10. The reader that \<open>CharReaderBuilder\<close> makes with its default settings, with the list of errors and every setting
  in the model, implements the reader of the service: without its error messages, \<open>parseFromStream\<close> gives the same result and value on every document.
\<close>

theorem default_reader_refines:
  "\<exists>settings. CharReaderBuilder_setDefaults nullValue = Inr settings
     \<and> (\<forall>D doc root. bind_run (parseFromStream_with D settings doc root) (\<lambda>(ok, v, errs). Some (Inr (ok, v))) = parseFromStream D doc root)"
proof -
  obtain settings where s: "CharReaderBuilder_setDefaults nullValue = Inr settings" "newCharReader settings = Inr (True, default_features)"
    using newCharReader_default by blast
  have "bind_run (parseFromStream_with D settings doc root) (\<lambda>(ok, v, errs). Some (Inr (ok, v))) = parseFromStream D doc root" for D doc root
    using Dialect_parse_default [of D doc root]
    by (auto simp: parseFromStream_with_def s OurCharReader_parse_def parseFromStream_def default_dialect_def bind_run_def
      split: option.splits sum.splits)
  with s show ?thesis by blast
qed

section \<open>The deprecated reader\<close>

















































lemma deprecated_overflow:
  assumes "scan_double D ''1e400'' = Some 0x7FF0000000000000" "stream_double D ''1e400'' = None"
  shows "Dialect_parse (our_dialect True (widen_features Features_all)) D ''1e400'' nullValue = Some (Inr (True, realValue 0x7FF0000000000000, []))"
    and "\<exists>errs. Reader_parse True Features_all D ''1e400'' nullValue = Some (Inr (False, nullValue, errs)) \<and> errs \<noteq> []"
  using assms
  by (simp_all add: Reader_parse_def dialect_eval our_dialect_def deprecated_dialect_def widen_features_def Features_all_def stackLimit_g_def
    dialect_double_def decodeDouble_def)

section \<open>Settings that do not do what they promise\<close>

text \<open>Numeric keys make the deprecated reader throw, as the name is asked of the number as a C string.\<close>

lemma deprecated_numeric_key_throws:
  "Reader_parse collect \<lparr>f_allowComments = comments, f_strictRoot = strict, f_allowDroppedNullPlaceholders = dropped, f_allowNumericKeys = True\<rparr>
     D (''{1:'' @ t) root = Some (Inl (LogicError ''in Json::Value::asCString(): requires stringValue''))"
  by (simp add: Reader_parse_def deprecated_dialect_def widen_features_def stackLimit_g_def dialect_eval asCString_def)

definition strict_features :: OurFeatures where
  "strict_features = \<lparr>allowComments = False, strictRoot = True, allowDroppedNullPlaceholders = False,
     allowNumericKeys = False, allowSingleQuotes = False, failIfExtra = True, rejectDupKeys = True,
     allowSpecialFloats = False, features_stackLimit = 1000\<rparr>"

lemma strictMode_features:
  "\<exists>settings. bind_result (CharReaderBuilder_setDefaults nullValue) strictMode = Inr settings
     \<and> newCharReader settings = Inr (True, strict_features)"
  by (simp add: CharReaderBuilder_setDefaults_def strictMode_def set_member_def resolveReference_def newCharReader_def setting_def Value_member_def
    Value_find_def members_find_def asBool_def asUInt64_def strict_features_def)

text \<open>
  Strict mode forbids comments and text behind the value. Comments inside objects and arrays are read nevertheless, since only
  \<open>skipCommentTokens\<close> looks at the setting; and whatever follows a zero byte is not seen, since the byte is the token of the end.
\<close>

lemma strict_mode_reads_comments:
  "OurCharReader_parse D (True, strict_features) ''{/**/}'' root = Some (Inr (True, objectValue [], []))"
  by (simp add: OurCharReader_parse_def our_dialect_def strict_features_def dialect_eval getFormattedErrorMessages_def)

lemma strict_mode_ends_at_zero:
  "OurCharReader_parse D (True, strict_features) (''[]'' @ CHR 0x00 # t) root = Some (Inr (True, arrayValue [], []))"
  by (simp add: OurCharReader_parse_def our_dialect_def strict_features_def dialect_eval getFormattedErrorMessages_def)

text \<open>A string in single quotes is cut at the first double quote in it, where the decoder stops.\<close>

lemma single_quotes_cut:
  "Dialect_parse (our_dialect True (default_features\<lparr>allowSingleQuotes := True\<rparr>)) D [CHR 0x27, CHR ''a'', DQUOTE, CHR ''b'', CHR 0x27] root
     = Some (Inr (True, stringValue ''a'', []))"
  by (simp add: our_dialect_def default_features_def dialect_eval)

text \<open>A dropped null counts between commas, but an array of one dropped null is the empty array.\<close>

lemma dropped_nulls:
  "Dialect_parse (our_dialect True (default_features\<lparr>allowDroppedNullPlaceholders := True\<rparr>)) D ''[,]'' root
     = Some (Inr (True, arrayValue [nullValue, nullValue], []))"
  "Dialect_parse (our_dialect True (default_features\<lparr>allowDroppedNullPlaceholders := True\<rparr>)) D ''[]'' root
     = Some (Inr (True, arrayValue [], []))"
  by (simp_all add: our_dialect_def default_features_def dialect_eval)

end
