(* ===== verification/Json_Fast_Writer.thy ===== *)
theory Json_Fast_Writer
  imports Json_Settings
begin

text \<open>
  \<open>FastWriter\<close> of \<open>json/jsoncpp.cpp\<close>: no white space but an optional line feed at the end. Its text is read back as
  the value, unless it is told to leave nulls out.
\<close>

section \<open>The writer\<close>

record FastWriter =
  fast_yaml :: bool
  fast_dropNull :: bool
  fast_omitLF :: bool
  fast_document :: string

definition make_FastWriter :: FastWriter where
  "make_FastWriter = \<lparr>fast_yaml = False, fast_dropNull = False, fast_omitLF = False, fast_document = []\<rparr>"

definition enableYAMLCompatibility :: "FastWriter \<Rightarrow> FastWriter" where
  "enableYAMLCompatibility w = w\<lparr>fast_yaml := True\<rparr>"

definition dropNullPlaceholders :: "FastWriter \<Rightarrow> FastWriter" where
  "dropNullPlaceholders w = w\<lparr>fast_dropNull := True\<rparr>"

definition omitEndingLineFeed :: "FastWriter \<Rightarrow> FastWriter" where
  "omitEndingLineFeed w = w\<lparr>fast_omitLF := True\<rparr>"

definition fast_add :: "string \<Rightarrow> FastWriter \<Rightarrow> FastWriter" where
  "fast_add s w = w\<lparr>fast_document := fast_document w @ s\<rparr>"

fun FastWriter_writeValue :: "c_double \<Rightarrow> Value \<Rightarrow> FastWriter \<Rightarrow> FastWriter"
  and FastWriter_elements :: "c_double \<Rightarrow> bool \<Rightarrow> Value list \<Rightarrow> FastWriter \<Rightarrow> FastWriter"
  and FastWriter_members :: "c_double \<Rightarrow> bool \<Rightarrow> members \<Rightarrow> FastWriter \<Rightarrow> FastWriter" where
  "FastWriter_writeValue D nullValue w = (if \<not> fast_dropNull w then fast_add ''null'' w else w)"
| "FastWriter_writeValue D (intValue n) w = fast_add (valueToString_int n) w"
| "FastWriter_writeValue D (uintValue n) w = fast_add (valueToString_uint n) w"
| "FastWriter_writeValue D (realValue d) w = fast_add (valueToString_double D d) w"
| "FastWriter_writeValue D (stringValue s) w = fast_add (valueToQuotedStringN s) w"
| "FastWriter_writeValue D (booleanValue b) w = fast_add (valueToString_bool b) w"
| "FastWriter_writeValue D (arrayValue vs) w = fast_add '']'' (FastWriter_elements D True vs (fast_add ''['' w))"
| "FastWriter_writeValue D (objectValue ms) w = fast_add ''}'' (FastWriter_members D True ms (fast_add ''{'' w))"
| "FastWriter_elements D first [] w = w"
| "FastWriter_elements D first (v # vs) w =
     FastWriter_elements D False vs (FastWriter_writeValue D v (if first then w else fast_add '','' w))"
| "FastWriter_members D first [] w = w"
| "FastWriter_members D first (m # ms) w =
     (let w = (if first then w else fast_add '','' w);
          w = fast_add (valueToQuotedStringN (fst m)) w;
          w = fast_add (if fast_yaml w then '': '' else '':'') w
      in FastWriter_members D False ms (FastWriter_writeValue D (snd m) w))"

definition FastWriter_write :: "c_double \<Rightarrow> Value \<Rightarrow> FastWriter \<Rightarrow> string \<times> FastWriter" where
  "FastWriter_write D root w =
     (let w = FastWriter_writeValue D root (w\<lparr>fast_document := []\<rparr>);
          w = (if \<not> fast_omitLF w then fast_add [LF] w else w)
      in (fast_document w, w))"

lemma fast_add_simps [simp]:
  "fast_add [] w = w" "fast_add t (fast_add s w) = fast_add (s @ t) w" "fast_dropNull (fast_add s w) = fast_dropNull w"
  "fast_yaml (fast_add s w) = fast_yaml w" "fast_omitLF (fast_add s w) = fast_omitLF w"
  "fast_document (fast_add s w) = fast_document w @ s"
  by (simp_all add: fast_add_def)

section \<open>What it writes\<close>

text \<open>It writes a text of the value, whatever it wrote before, unless nulls are dropped.\<close>


lemma FastWriter_text_of:
  "json_ok D n v \<Longrightarrow> \<not> fast_dropNull w \<Longrightarrow> \<exists>t. text_of D n v t \<and> FastWriter_writeValue D v w = fast_add t w"
  "list_all (json_ok D n) vs \<Longrightarrow> \<not> fast_dropNull w \<Longrightarrow> vs \<noteq> [] \<Longrightarrow>
     \<exists>t. text_of_elements D n vs t \<and> FastWriter_elements D first vs w = fast_add ((if first then [] else '','') @ t) w"
  "list_all (\<lambda>m. utf8_text (fst m) \<and> length (fst m) < 2 ^ 30 \<and> json_ok D n (snd m)) ms \<Longrightarrow> \<not> fast_dropNull w \<Longrightarrow> ms \<noteq> [] \<Longrightarrow>
     \<exists>t. text_of_members D n ms t \<and> FastWriter_members D first ms w = fast_add ((if first then [] else '','') @ t) w"
proof (induction D v w and D first vs w and D first ms w arbitrary: n and n and n
    rule: FastWriter_writeValue_FastWriter_elements_FastWriter_members.induct)
  case (7 D vs w)
  show ?case
  proof (cases "vs = []")
    case True
    then show ?thesis using text_of_scalar(7) by auto
  next
    case False
    with 7(2) obtain k where k: "n = Suc k" "list_all (json_ok D k) vs" by (cases n) auto
    then obtain t where "text_of_elements D k vs t" "FastWriter_elements D True vs (fast_add ''['' w) = fast_add (''['' @ t) w"
      using 7(1) [of k] 7(3) False by auto
    with k text_of_array [of D k vs t "[]"] show ?thesis by auto
  qed
next
  case (8 D ms w)
  show ?case
  proof (cases "ms = []")
    case True
    then show ?thesis using text_of_scalar(8) by auto
  next
    case False
    with 8(2) obtain k where k: "n = Suc k" "sorted_wrt CZString_less (map fst ms)"
        "list_all (\<lambda>m. utf8_text (fst m) \<and> length (fst m) < 2 ^ 30 \<and> json_ok D k (snd m)) ms"
      by (cases n) auto
    then obtain t where "text_of_members D k ms t" "FastWriter_members D True ms (fast_add ''{'' w) = fast_add (''{'' @ t) w"
      using 8(1) [of k] 8(3) False by auto
    with k text_of_object [of D k ms t "[]"] show ?thesis by auto
  qed
next
  case (10 D first v vs w)
  define w0 where "w0 = (if first then w else fast_add '','' w)"
  have w0: "w0 = fast_add (if first then [] else '','') w" "\<not> fast_dropNull w0"
    using 10(4) by (simp_all add: w0_def)
  then obtain t where t: "text_of D n v t" "FastWriter_writeValue D v w0 = fast_add t w0"
    using 10(1) [of n] 10(3) by (auto simp flip: w0_def)
  show ?case
  proof (cases "vs = []")
    case True
    with t w0 text_of_element show ?thesis by (intro exI [of _ t]) (auto simp flip: w0_def)
  next
    case False
    then obtain u where "text_of_elements D n vs u" "FastWriter_elements D False vs (fast_add t w0) = fast_add ('','' @ u) (fast_add t w0)"
      using 10(2) [of n] 10(3) w0 t by (auto simp flip: w0_def)
    with t w0 text_of_more_elements [OF t(1)] show ?thesis
      by (intro exI [of _ "t @ '','' @ u"]) (auto simp flip: w0_def)
  qed
next
  case (12 D first m ms w)
  define w1 where "w1 = fast_add (valueToQuotedStringN (fst m)) (if first then w else fast_add '','' w)"
  define w2 where "w2 = fast_add (if fast_yaml w1 then '': '' else '':'') w1"
  define ws where "ws = (if fast_yaml w then '' '' else [])"
  have w2: "w2 = fast_add ((if first then [] else '','') @ valueToQuotedStringN (fst m) @ '':'' @ ws) w"
    by (simp add: w2_def w1_def ws_def)
  have d: "\<not> fast_dropNull w2" using 12(4) w2 by simp
  then obtain t where t: "text_of D n (snd m) t" "FastWriter_writeValue D (snd m) w2 = fast_add t w2"
    using 12(1) [OF refl refl refl, of n] 12(3) by (auto simp flip: w1_def w2_def)
  have m: "utf8_text (fst m)" "length (fst m) < 2 ^ 30" "text_of D n (snd m) (ws @ t)"
    using 12 t text_of_space [of D n "snd m" t ws "[]"] by (auto simp: ws_def)
  have eq: "FastWriter_members D first (m # ms) w = FastWriter_members D False ms (fast_add t w2)"
    using t(2) by (simp add: Let_def w1_def w2_def)
  show ?case
  proof (cases "ms = []")
    case True
    with text_of_member [OF m, of "[]" "[]"] eq w2 show ?thesis by auto
  next
    case False
    then obtain u where "text_of_members D n ms u" "FastWriter_members D False ms (fast_add t w2) = fast_add ('','' @ u) (fast_add t w2)"
      using 12(2) [OF refl refl refl, of n] 12(3) d t by (auto simp flip: w1_def w2_def)
    with text_of_more_members [OF m, of "[]" "[]" ms u] eq w2 show ?thesis
      by (intro exI [of _ "valueToQuotedStringN (fst m) @ '':'' @ ws @ t @ '','' @ u"]) auto
  qed
qed (auto intro!: exI text_of_scalar simp del: json_fits.simps(2-5) simp: json_fits.simps(5) [of D "valueToString_double D" n for D n])

lemma FastWriter_write_text_of:
  assumes "json_ok D 999 v" "\<not> fast_dropNull w"
  shows "text_of D 999 v (fst (FastWriter_write D v w))"
proof -
  obtain t where "text_of D 999 v t" "FastWriter_writeValue D v (w\<lparr>fast_document := []\<rparr>) = fast_add t (w\<lparr>fast_document := []\<rparr>)"
    using FastWriter_text_of(1) [OF assms(1), of "w\<lparr>fast_document := []\<rparr>"] assms(2) by auto
  with text_of_space [of D 999 v t "[]" "[LF]"] show ?thesis by (simp add: FastWriter_write_def Let_def)
qed

text \<open>A \<open>FastWriter\<close> that keeps nulls is a printer, with YAML spaces and the final line feed or without.\<close>

interpretation fast: json_printer D "json_ok D 999"
    "\<lambda>v. fst (FastWriter_write D v \<lparr>fast_yaml = yaml, fast_dropNull = False, fast_omitLF = omit, fast_document = doc\<rparr>)" for D yaml omit doc
  by unfold_locales (simp add: FastWriter_write_text_of)

end
