(* ===== verification/Json_Styled_Writers.thy ===== *)
theory Json_Styled_Writers
  imports Json_Fast_Writer
begin

text \<open>
  The styled writers of \<open>json/jsoncpp.cpp\<close>, for values without comments: \<open>StyledWriter\<close>, \<open>StyledStreamWriter\<close> and
  \<open>BuiltStyledStreamWriter\<close> with all its settings. The three classes are copies of one another up to how they break
  lines, how they print keys and doubles and how they separate the elements of an array on one line. What they have in common
  is written once, over a record of what they differ in.
\<close>

section \<open>State\<close>

record Styled =
  document :: string
  childValues :: "string list"
  addChildValues :: bool
  st_indentString :: string
  st_indented :: bool

record Style =
  sty_allComments :: bool
  sty_indentation :: string
  sty_null :: string
  sty_real :: "64 word \<Rightarrow> string"
  sty_key :: "string \<Rightarrow> string"
  sty_colon :: string
  sty_open :: string
  sty_separator :: string
  sty_close :: string
  sty_withIndent :: "string \<Rightarrow> Styled \<Rightarrow> Styled"
  sty_beforeElement :: "Styled \<Rightarrow> Styled"
  sty_behindElement :: "Styled \<Rightarrow> Styled"
  sty_commentAfter :: "Styled \<Rightarrow> Styled"

definition rightMargin :: nat where
  "rightMargin = 74"

definition put :: "string \<Rightarrow> Styled \<Rightarrow> Styled" where
  "put s w = w\<lparr>document := document w @ s\<rparr>"

definition st_pushValue :: "string \<Rightarrow> Styled \<Rightarrow> Styled" where
  "st_pushValue val w = (if addChildValues w then w\<lparr>childValues := childValues w @ [val]\<rparr> else put val w)"

definition st_indent :: "Style \<Rightarrow> Styled \<Rightarrow> Styled" where
  "st_indent S w = w\<lparr>st_indentString := st_indentString w @ sty_indentation S\<rparr>"

definition st_unindent :: "Style \<Rightarrow> Styled \<Rightarrow> Styled" where
  "st_unindent S w = w\<lparr>st_indentString := take (length (st_indentString w) - length (sty_indentation S)) (st_indentString w)\<rparr>"

section \<open>The common code\<close>

type_synonym value_writer = "Value \<Rightarrow> Styled \<Rightarrow> Styled"

text \<open>
  Every call of \<open>writeValue\<close> leaves the text of the element in \<open>childValues_\<close>; the length of the line is an \<open>unsigned int\<close>.
\<close>

fun measure_line :: "value_writer \<Rightarrow> nat \<Rightarrow> Value list \<Rightarrow> nat \<Rightarrow> Styled \<Rightarrow> nat \<times> Styled" where
  "measure_line wv index [] lineLength w = (lineLength, w)"
| "measure_line wv index (v # vs) lineLength w =
     (let w = wv v w
      in measure_line wv (index + 1) vs ((lineLength + length (childValues w ! index)) mod 2 ^ 32) w)"

definition st_isMultilineArray :: "value_writer \<Rightarrow> Value list \<Rightarrow> Styled \<Rightarrow> bool \<times> Styled" where
  "st_isMultilineArray wv vs w =
     (let w = w\<lparr>childValues := []\<rparr>
      in if length vs * 3 mod 2 ^ 32 \<ge> rightMargin \<or> list_ex composite vs then (True, w)
         else
           let (lineLength, w) = measure_line wv 0 vs ((4 + (length vs - 1) * 2) mod 2 ^ 32) (w\<lparr>addChildValues := True\<rparr>)
           in (lineLength \<ge> rightMargin, w\<lparr>addChildValues := False\<rparr>))"

fun st_elements :: "Style \<Rightarrow> value_writer \<Rightarrow> bool \<Rightarrow> nat \<Rightarrow> Value list \<Rightarrow> Styled \<Rightarrow> Styled" where
  "st_elements S wv hasChildValue index [] w = w"
| "st_elements S wv hasChildValue index (v # vs) w =
     (let w = (if hasChildValue then sty_withIndent S (childValues w ! index) w
               else sty_behindElement S (wv v (sty_beforeElement S w)))
      in if vs = [] then sty_commentAfter S w
         else st_elements S wv hasChildValue (index + 1) vs (sty_commentAfter S (put '','' w)))"

fun st_line :: "Style \<Rightarrow> bool \<Rightarrow> string list \<Rightarrow> Styled \<Rightarrow> Styled" where
  "st_line S first [] w = w"
| "st_line S first (t # ts) w = st_line S False ts (put t (if first then w else put (sty_separator S) w))"

definition st_writeArrayValue :: "Style \<Rightarrow> value_writer \<Rightarrow> Value list \<Rightarrow> Styled \<Rightarrow> Styled" where
  "st_writeArrayValue S wv vs w =
     (if vs = [] then st_pushValue ''[]'' w
      else
        let (isMultiLine, w) = (if sty_allComments S then (True, w) else st_isMultilineArray wv vs w)
        in if isMultiLine then
             let w = st_indent S (sty_withIndent S ''['' w);
                 w = st_elements S wv (childValues w \<noteq> []) 0 vs w
             in sty_withIndent S '']'' (st_unindent S w)
           else put (sty_close S) (st_line S True (take (length vs) (childValues w)) (put (sty_open S) w)))"

fun st_members :: "Style \<Rightarrow> value_writer \<Rightarrow> members \<Rightarrow> Styled \<Rightarrow> Styled" where
  "st_members S wv [] w = w"
| "st_members S wv (m # ms) w =
     (let w = wv (snd m) (put (sty_colon S) (sty_withIndent S (sty_key S (fst m)) w))
      in if ms = [] then sty_commentAfter S w
         else st_members S wv ms (sty_commentAfter S (put '','' w)))"

definition st_writeObjectValue :: "Style \<Rightarrow> value_writer \<Rightarrow> members \<Rightarrow> Styled \<Rightarrow> Styled" where
  "st_writeObjectValue S wv ms w =
     (if ms = [] then st_pushValue ''{}'' w
      else sty_withIndent S ''}'' (st_unindent S (st_members S wv ms (st_indent S (sty_withIndent S ''{'' w)))))"

lemma measure_line_cong [fundef_cong]:
  "vs = vs' \<Longrightarrow> w = w' \<Longrightarrow> (\<And>v w. v \<in> set vs' \<Longrightarrow> wv v w = wv' v w) \<Longrightarrow>
     measure_line wv index vs l w = measure_line wv' index vs' l w'"
  by (induction vs arbitrary: vs' index l w w') (auto simp: Let_def)

lemma st_isMultilineArray_cong:
  "(\<And>v w. v \<in> set vs \<Longrightarrow> wv v w = wv' v w) \<Longrightarrow> st_isMultilineArray wv vs w = st_isMultilineArray wv' vs w"
  unfolding st_isMultilineArray_def Let_def by (subst measure_line_cong [of vs vs _ _ wv wv']) simp_all

lemma st_elements_cong:
  "(\<And>v w. v \<in> set vs \<Longrightarrow> wv v w = wv' v w) \<Longrightarrow> st_elements S wv h index vs w = st_elements S wv' h index vs w"
  by (induction vs arbitrary: index w) (auto simp: Let_def)

lemma st_members_cong:
  "(\<And>m w. m \<in> set ms \<Longrightarrow> wv (snd m) w = wv' (snd m) w) \<Longrightarrow> st_members S wv ms w = st_members S wv' ms w"
  by (induction ms arbitrary: w) (auto simp: Let_def)

lemma st_writeArrayValue_cong [fundef_cong]:
  "S = S' \<Longrightarrow> vs = vs' \<Longrightarrow> w = w' \<Longrightarrow> (\<And>v w. v \<in> set vs' \<Longrightarrow> wv v w = wv' v w) \<Longrightarrow>
     st_writeArrayValue S wv vs w = st_writeArrayValue S' wv' vs' w'"
  unfolding st_writeArrayValue_def using st_isMultilineArray_cong [of vs wv wv'] st_elements_cong [of vs wv wv']
  by (simp add: Let_def split: prod.split)

lemma st_writeObjectValue_cong [fundef_cong]:
  "S = S' \<Longrightarrow> ms = ms' \<Longrightarrow> w = w' \<Longrightarrow> (\<And>m w. m \<in> set ms' \<Longrightarrow> wv (snd m) w = wv' (snd m) w) \<Longrightarrow>
     st_writeObjectValue S wv ms w = st_writeObjectValue S' wv' ms' w'"
  unfolding st_writeObjectValue_def using st_members_cong [of ms wv wv'] by simp

lemma size_child: "v \<in> set vs \<Longrightarrow> size v < size (arrayValue vs)" "m \<in> set ms \<Longrightarrow> size (snd m) < size (objectValue ms)"
proof -
  show "size v < size (arrayValue vs)" if "v \<in> set vs"
    using size_list_estimation' [OF that, of "size v" size] by simp
  show "size (snd m) < size (objectValue ms)" if "m \<in> set ms"
    using size_list_estimation' [OF that, of "size (snd m)" "size_prod (\<lambda>x. 0) size"] by (cases m) simp
qed

function st_writeValue :: "Style \<Rightarrow> Value \<Rightarrow> Styled \<Rightarrow> Styled" where
  "st_writeValue S nullValue w = st_pushValue (sty_null S) w"
| "st_writeValue S (intValue n) w = st_pushValue (valueToString_int n) w"
| "st_writeValue S (uintValue n) w = st_pushValue (valueToString_uint n) w"
| "st_writeValue S (realValue d) w = st_pushValue (sty_real S d) w"
| "st_writeValue S (stringValue s) w = st_pushValue (valueToQuotedStringN s) w"
| "st_writeValue S (booleanValue b) w = st_pushValue (valueToString_bool b) w"
| "st_writeValue S (arrayValue vs) w = st_writeArrayValue S (st_writeValue S) vs w"
| "st_writeValue S (objectValue ms) w = st_writeObjectValue S (st_writeValue S) ms w"
  by pat_completeness auto
termination by (relation "measure (\<lambda>(S, v, w). size v)") (use size_child in auto)

section \<open>What the common code writes\<close>

text \<open>A text was added, and the state is as before or, at least, fit for the next value.\<close>

definition adds :: "string \<Rightarrow> Styled \<Rightarrow> Styled \<Rightarrow> bool" where
  "adds t w w' \<longleftrightarrow> document w' = document w @ t \<and> st_indentString w' = st_indentString w
     \<and> addChildValues w' = addChildValues w \<and> childValues w' = childValues w"

definition ready :: "bool \<Rightarrow> Styled \<Rightarrow> bool" where
  "ready b w \<longleftrightarrow> list_all space (st_indentString w) \<and> \<not> addChildValues w \<and> (b \<longrightarrow> childValues w = [])"

definition wrote :: "bool \<Rightarrow> string \<Rightarrow> Styled \<Rightarrow> Styled \<Rightarrow> bool" where
  "wrote b t w w' \<longleftrightarrow> document w' = document w @ t \<and> st_indentString w' = st_indentString w \<and> ready b w'"

lemma adds_ready: "adds t w w' \<Longrightarrow> ready b w \<Longrightarrow> ready b w'"
  by (simp add: adds_def ready_def)

lemma adds_wrote: "adds t w w' \<Longrightarrow> ready b w \<Longrightarrow> wrote b t w w'"
  by (simp add: adds_def ready_def wrote_def)

lemma wrote_trans: "wrote b t w w' \<Longrightarrow> wrote b u w' w'' \<Longrightarrow> wrote b (t @ u) w w''"
  by (simp add: wrote_def)

lemma wrote_readyD: "wrote b t w w' \<Longrightarrow> ready b w'"
  by (simp add: wrote_def)

lemma put_adds: "adds s w (put s w)"
  by (simp add: adds_def put_def)

lemma adds_trans: "adds t w w' \<Longrightarrow> adds u w' w'' \<Longrightarrow> adds (t @ u) w w''"
  by (simp add: adds_def)

fun all_keys :: "(string \<Rightarrow> bool) \<Rightarrow> Value \<Rightarrow> bool" where
  "all_keys P (arrayValue vs) = list_all (all_keys P) vs"
| "all_keys P (objectValue ms) = list_all (\<lambda>m. P (fst m) \<and> all_keys P (snd m)) ms"
| "all_keys P v = True"

lemma text_of_elements_space: "text_of_elements D n vs t \<Longrightarrow> list_all space ws \<Longrightarrow> text_of_elements D n vs (ws @ t)"
  unfolding text_of_elements_def by (metis append.assoc list_all_append)

text \<open>The contract of the parts in which the three classes differ: they add white space only.\<close>

locale styled_layout =
  fixes D :: c_double and S :: Style and key_ok :: "string \<Rightarrow> bool"
  assumes null: "sty_null S = ''null''"
    and key: "key_ok k \<Longrightarrow> sty_key S k = valueToQuotedStringN k"
    and indentation: "list_all space (sty_indentation S)"
    and colon: "\<exists>ws ws'. list_all space ws \<and> list_all space ws' \<and> sty_colon S = ws @ '':'' @ ws'"
    and brackets: "\<exists>ws. list_all space ws \<and> sty_open S = ''['' @ ws" "\<exists>ws. list_all space ws \<and> sty_close S = ws @ '']''"
    and separator: "\<exists>ws. list_all space ws \<and> sty_separator S = '','' @ ws"
    and withIndent: "list_all space (st_indentString w) \<Longrightarrow> \<exists>ws. list_all space ws \<and> adds (ws @ s) w (sty_withIndent S s w)"
    and beforeElement: "list_all space (st_indentString w) \<Longrightarrow> \<exists>ws. list_all space ws \<and> adds ws w (sty_beforeElement S w)"
    and behindElement: "adds [] w (sty_behindElement S w)"
    and commentAfter: "adds [] w (sty_commentAfter S w)"
begin

abbreviation "writable \<equiv> \<lambda>n v. json_fits D (sty_real S) n v \<and> all_keys key_ok v"

lemma readyD: "ready b w \<Longrightarrow> list_all space (st_indentString w)"
  by (simp add: ready_def)

lemma scalar:
  assumes "writable n v" "\<not> composite v"
  shows "\<exists>t. text_of D n v t \<and> (\<forall>w. st_writeValue S v w = st_pushValue t w)"
proof (cases v)
  case (arrayValue vs)
  with assms text_of_scalar(7) [of D n] show ?thesis
    by (intro exI [of _ "''[]''"]) (simp add: composite_def st_writeArrayValue_def)
next
  case (objectValue ms)
  with assms text_of_scalar(8) [of D n] show ?thesis
    by (intro exI [of _ "''{}''"]) (simp add: composite_def st_writeObjectValue_def)
qed (use assms in \<open>auto intro!: exI text_of_scalar simp: null simp del: json_fits.simps(2-4)\<close>)

lemma pushValue_wrote: "ready b w \<Longrightarrow> wrote b t w (st_pushValue t w)"
  by (simp add: st_pushValue_def adds_wrote [OF put_adds]) (simp add: ready_def)

lemma measured:
  assumes "\<forall>v \<in> set vs. writable n v \<and> \<not> composite v" "addChildValues w"
  shows "\<exists>ts l'. list_all2 (text_of D n) vs ts \<and> measure_line (st_writeValue S) index vs l w = (l', w\<lparr>childValues := childValues w @ ts\<rparr>)"
  using assms
proof (induction vs arbitrary: index l w)
  case (Cons v vs)
  obtain t where t: "text_of D n v t" "st_writeValue S v w = w\<lparr>childValues := childValues w @ [t]\<rparr>"
    using scalar [of n v] Cons.prems by (auto simp: st_pushValue_def)
  obtain ts l' where "list_all2 (text_of D n) vs ts"
      "measure_line (st_writeValue S) (index + 1) vs ((l + length (childValues (w\<lparr>childValues := childValues w @ [t]\<rparr>) ! index)) mod 2 ^ 32)
         (w\<lparr>childValues := childValues w @ [t]\<rparr>) = (l', w\<lparr>childValues := childValues w @ [t] @ ts\<rparr>)"
    using Cons.IH [of "w\<lparr>childValues := childValues w @ [t]\<rparr>"] Cons.prems by fastforce
  with t show ?case by (intro exI [of _ "t # ts"] exI [of _ l']) (simp add: Let_def)
qed simp

lemma isMultilineArray_ready:
  assumes "list_all (writable n) vs" "ready False w" "vs \<noteq> []"
  shows "\<exists>multi ts. st_isMultilineArray (st_writeValue S) vs w = (multi, w\<lparr>childValues := ts\<rparr>)
    \<and> (ts = [] \<and> multi \<or> list_all2 (text_of D n) vs ts)"
proof (cases "length vs * 3 mod 2 ^ 32 \<ge> rightMargin \<or> list_ex composite vs")
  case True
  then show ?thesis by (intro exI [of _ True] exI [of _ "[]"]) (simp add: st_isMultilineArray_def)
next
  case False
  then have "\<forall>v \<in> set vs. writable n v \<and> \<not> composite v" using assms(1) by (simp add: list_all_iff list_ex_iff)
  from measured [OF this, of "w\<lparr>childValues := [], addChildValues := True\<rparr>" 0 "(4 + (length vs - 1) * 2) mod 2 ^ 32"]
  obtain ts l' where "list_all2 (text_of D n) vs ts"
      "measure_line (st_writeValue S) 0 vs ((4 + (length vs - 1) * 2) mod 2 ^ 32) (w\<lparr>childValues := [], addChildValues := True\<rparr>)
        = (l', w\<lparr>childValues := ts, addChildValues := True\<rparr>)" by auto
  with False assms(2) show ?thesis
    by (intro exI [of _ "l' \<ge> rightMargin"] exI [of _ ts]) (auto simp: st_isMultilineArray_def ready_def Let_def)
qed

lemma line:
  assumes "list_all2 (text_of D n) vs ts" "vs \<noteq> []"
  shows "\<exists>t. text_of_elements D n vs t \<and> adds ((if first then [] else '','') @ t) w (st_line S first ts w)"
  using assms
proof (induction vs arbitrary: ts first w)
  case (Cons v vs)
  then obtain u us where u: "ts = u # us" "text_of D n v u" "list_all2 (text_of D n) vs us" by (auto simp: list_all2_Cons1)
  obtain ws where ws: "list_all space ws" "sty_separator S = '','' @ ws" using separator by blast
  define u' where "u' = (if first then u else ws @ u)"
  define w1 where "w1 = put u (if first then w else put (sty_separator S) w)"
  have 1: "text_of D n v u'" "adds ((if first then [] else '','') @ u') w w1"
    using text_of_space [OF u(2) ws(1), of "[]"] u(2) ws(2) by (auto simp: u'_def w1_def put_def adds_def)
  show ?case
  proof (cases "vs = []")
    case True
    with 1 u text_of_element show ?thesis by (intro exI [of _ u']) (auto simp: w1_def)
  next
    case False
    with Cons.IH [OF u(3), of False w1] obtain t where "text_of_elements D n vs t" "adds ('','' @ t) w1 (st_line S False us w1)" by auto
    with 1 u text_of_more_elements adds_trans show ?thesis
      by (intro exI [of _ "u' @ '','' @ t"]) (fastforce simp: w1_def)
  qed
qed simp

lemma child_elements:
  assumes "list_all2 (text_of D n) vs ts" "vs \<noteq> []" "drop index (childValues w) = ts" "list_all space (st_indentString w)"
  shows "\<exists>t. text_of_elements D n vs t \<and> adds t w (st_elements S wv True index vs w)"
  using assms
proof (induction vs arbitrary: ts index w)
  case (Cons v vs)
  then obtain u us where u: "ts = u # us" "text_of D n v u" "list_all2 (text_of D n) vs us" by (auto simp: list_all2_Cons1)
  have c: "childValues w ! index = u" "drop (Suc index) (childValues w) = us"
    using Cons.prems(3) u(1) by (simp_all add: nth_via_drop drop_Suc) (metis drop_tl list.sel(3))
  obtain ws where ws: "list_all space ws" "adds (ws @ u) w (sty_withIndent S u w)" using withIndent [OF Cons.prems(4)] by blast
  have v: "text_of D n v (ws @ u)" using text_of_space [OF u(2) ws(1), of "[]"] by simp
  show ?case
  proof (cases "vs = []")
    case True
    with v ws commentAfter c text_of_element adds_trans [OF ws(2) commentAfter] show ?thesis
      by (intro exI [of _ "ws @ u"]) (simp add: Let_def)
  next
    case False
    define w1 where "w1 = sty_commentAfter S (put '','' (sty_withIndent S u w))"
    have w1: "adds ((ws @ u) @ '','') w w1"
      using adds_trans [OF adds_trans [OF ws(2) put_adds] commentAfter] by (simp add: w1_def)
    then obtain t where "text_of_elements D n vs t" "adds t w1 (st_elements S wv True (Suc index) vs w1)"
      using Cons.IH [OF u(3) False, of "Suc index" w1] c Cons.prems(4) by (auto simp: adds_def)
    with v adds_trans [OF w1] text_of_more_elements [OF v] False c show ?thesis
      by (intro exI [of _ "(ws @ u) @ '','' @ t"]) (auto simp: Let_def w1_def)
  qed
qed simp

lemma value_elements:
  assumes "\<And>v w. v \<in> set vs \<Longrightarrow> ready b w \<Longrightarrow> \<exists>t. text_of D n v t \<and> wrote b t w (wv v w)" "vs \<noteq> []" "ready b w"
  shows "\<exists>t. text_of_elements D n vs t \<and> wrote b t w (st_elements S wv False index vs w)"
  using assms
proof (induction vs arbitrary: index w)
  case (Cons v vs)
  obtain ws where ws: "list_all space ws" "wrote b ws w (sty_beforeElement S w)"
    using beforeElement [OF readyD [OF Cons.prems(3)]] adds_wrote Cons.prems(3) by blast
  obtain u where u: "text_of D n v u" "wrote b u (sty_beforeElement S w) (wv v (sty_beforeElement S w))"
    using Cons.prems(1) [OF _ wrote_readyD [OF ws(2)], of v] by auto
  define w1 where "w1 = sty_behindElement S (wv v (sty_beforeElement S w))"
  have w1: "wrote b (ws @ u) w w1"
    using wrote_trans [OF wrote_trans [OF ws(2) u(2)] adds_wrote [OF behindElement wrote_readyD [OF u(2)]]] by (simp add: w1_def)
  have v: "text_of D n v (ws @ u)" using text_of_space [OF u(1) ws(1), of "[]"] by simp
  show ?case
  proof (cases "vs = []")
    case True
    with v text_of_element wrote_trans [OF w1 adds_wrote [OF commentAfter wrote_readyD [OF w1]]] show ?thesis
      by (intro exI [of _ "ws @ u"]) (simp add: Let_def w1_def)
  next
    case False
    define w2 where "w2 = sty_commentAfter S (put '','' w1)"
    have w2: "wrote b ((ws @ u) @ '','') w w2"
      using wrote_trans [OF w1 adds_wrote [OF adds_trans [OF put_adds commentAfter] wrote_readyD [OF w1]]] by (simp add: w2_def)
    then obtain t where "text_of_elements D n vs t" "wrote b t w2 (st_elements S wv False (Suc index) vs w2)"
      using Cons.IH [of w2 "Suc index"] Cons.prems(1) False wrote_readyD by auto
    with wrote_trans [OF w2] text_of_more_elements [OF v] False show ?thesis
      by (intro exI [of _ "(ws @ u) @ '','' @ t"]) (auto simp: Let_def w1_def w2_def)
  qed
qed simp

lemma members_written:
  assumes "\<And>m w. m \<in> set ms \<Longrightarrow> ready b w \<Longrightarrow> \<exists>t. text_of D n (snd m) t \<and> wrote b t w (wv (snd m) w)"
    "\<forall>m \<in> set ms. utf8_text (fst m) \<and> length (fst m) < 2 ^ 30 \<and> key_ok (fst m)" "ms \<noteq> []" "ready b w"
  shows "\<exists>t. text_of_members D n ms t \<and> wrote b t w (st_members S wv ms w)"
  using assms
proof (induction ms arbitrary: w)
  case (Cons m ms)
  have k: "utf8_text (fst m)" "length (fst m) < 2 ^ 30" "sty_key S (fst m) = valueToQuotedStringN (fst m)"
    using Cons.prems(2) key by simp_all
  obtain c c' where c: "list_all space c" "list_all space c'" "sty_colon S = c @ '':'' @ c'" using colon by blast
  obtain ws where ws: "list_all space ws" "wrote b (ws @ sty_key S (fst m)) w (sty_withIndent S (sty_key S (fst m)) w)"
    using withIndent [OF readyD [OF Cons.prems(4)]] adds_wrote Cons.prems(4) by blast
  define w1 where "w1 = put (sty_colon S) (sty_withIndent S (sty_key S (fst m)) w)"
  have w1: "wrote b ((ws @ sty_key S (fst m)) @ sty_colon S) w w1"
    using wrote_trans [OF ws(2) adds_wrote [OF put_adds wrote_readyD [OF ws(2)]]] by (simp add: w1_def)
  obtain u where u: "text_of D n (snd m) u" "wrote b u w1 (wv (snd m) w1)"
    using Cons.prems(1) [OF _ wrote_readyD [OF w1], of m] by auto
  have v: "text_of D n (snd m) (c' @ u)" using text_of_space [OF u(1) c(2), of "[]"] by simp
  note w2 = wrote_trans [OF w1 u(2)]
  show ?case
  proof (cases "ms = []")
    case True
    with text_of_member [OF k(1,2) v ws(1) c(1)] wrote_trans [OF w2 adds_wrote [OF commentAfter wrote_readyD [OF w2]]] c k show ?thesis
      by (intro exI [of _ "ws @ valueToQuotedStringN (fst m) @ c @ '':'' @ c' @ u"]) (simp add: Let_def w1_def)
  next
    case False
    define w3 where "w3 = sty_commentAfter S (put '','' (wv (snd m) w1))"
    have w3: "wrote b ((((ws @ sty_key S (fst m)) @ sty_colon S) @ u) @ '','') w w3"
      using wrote_trans [OF w2 adds_wrote [OF adds_trans [OF put_adds commentAfter] wrote_readyD [OF w2]]] by (simp add: w3_def)
    then obtain t where "text_of_members D n ms t" "wrote b t w3 (st_members S wv ms w3)"
      using Cons.IH [OF _ _ False wrote_readyD [OF w3]] Cons.prems(1,2) by auto
    with wrote_trans [OF w3] text_of_more_members [OF k(1,2) v ws(1) c(1)] False c k show ?thesis
      by (intro exI [of _ "ws @ valueToQuotedStringN (fst m) @ c @ '':'' @ (c' @ u) @ '','' @ t"]) (auto simp: Let_def w1_def w3_def)
  qed
qed simp

text \<open>What stands between two brackets on lines of their own.\<close>

lemma block:
  assumes w: "ready b w"
    and body: "\<And>w1. ready b w1 \<Longrightarrow> childValues w1 = childValues w \<Longrightarrow> \<exists>t. P t \<and> wrote b t w1 (body w1)"
  shows "\<exists>ws t ws'. list_all space ws \<and> list_all space ws' \<and> P t
    \<and> wrote b (ws @ l @ t @ ws' @ r) w (sty_withIndent S r (st_unindent S (body (st_indent S (sty_withIndent S l w)))))"
proof -
  obtain ws where ws: "list_all space ws" "adds (ws @ l) w (sty_withIndent S l w)"
    using withIndent [OF readyD [OF w]] by blast
  define w1 where "w1 = st_indent S (sty_withIndent S l w)"
  have w1: "ready b w1" "childValues w1 = childValues w" "document w1 = document w @ ws @ l"
      "st_indentString w1 = st_indentString w @ sty_indentation S"
    using ws(2) w indentation by (simp_all add: w1_def st_indent_def adds_def ready_def)
  obtain t where t: "P t" "wrote b t w1 (body w1)" using body [OF w1(1,2)] by blast
  define w2 where "w2 = st_unindent S (body w1)"
  have w2: "wrote b (ws @ l @ t) w w2"
    using t(2) w1 w by (simp add: w2_def st_unindent_def wrote_def ready_def)
  obtain ws' where ws': "list_all space ws'" "wrote b (ws' @ r) w2 (sty_withIndent S r w2)"
    using withIndent [OF readyD [OF wrote_readyD [OF w2]]] adds_wrote wrote_readyD [OF w2] by blast
  from wrote_trans [OF w2 ws'(2)] ws(1) ws'(1) t(1) show ?thesis
    by (intro exI [of _ ws] exI [of _ t] exI [of _ ws']) (simp add: w1_def w2_def)
qed

lemma array_written:
  assumes IH: "\<And>v w. v \<in> set vs \<Longrightarrow> ready (sty_allComments S) w \<Longrightarrow>
      \<exists>t. text_of D n v t \<and> wrote (sty_allComments S) t w (st_writeValue S v w)"
    and vs: "list_all (writable n) vs" "vs \<noteq> []" and w: "ready (sty_allComments S) w"
  shows "\<exists>t. text_of D (Suc n) (arrayValue vs) t \<and> wrote (sty_allComments S) t w (st_writeArrayValue S (st_writeValue S) vs w)"
proof -
  let ?b = "sty_allComments S"
  obtain multi ts where m: "(if ?b then (True, w) else st_isMultilineArray (st_writeValue S) vs w) = (multi, w\<lparr>childValues := ts\<rparr>)"
      "ts = [] \<and> multi \<or> list_all2 (text_of D n) vs ts \<and> \<not> ?b"
    using isMultilineArray_ready [OF vs(1) _ vs(2), of w] w
    by (cases ?b) (auto simp: ready_def)
  let ?w = "w\<lparr>childValues := ts\<rparr>"
  have r: "ready ?b ?w" using w m(2) by (auto simp: ready_def)
  have wr: "wrote ?b t ?w w' \<Longrightarrow> wrote ?b t w w'" for t w' by (simp add: wrote_def)
  show ?thesis
  proof (cases multi)
    case True
    have "\<exists>t. text_of_elements D n vs t \<and> wrote ?b t w1 (st_elements S (st_writeValue S) (childValues w1 \<noteq> []) 0 vs w1)"
      if "ready ?b w1" "childValues w1 = childValues ?w" for w1
    proof (cases "ts = []")
      case True
      then show ?thesis using value_elements [OF IH vs(2) that(1)] that(2) by simp
    next
      case False
      with m(2) have "list_all2 (text_of D n) vs ts" by blast
      with child_elements [OF this vs(2), of 0 w1] that adds_wrote False readyD show ?thesis by fastforce
    qed
    from block [OF r, of "text_of_elements D n vs", OF this, of "''[''" "'']''"]
    obtain ws t ws' where "list_all space ws" "list_all space ws'" "text_of_elements D n vs t"
        "wrote ?b (ws @ ''['' @ t @ ws' @ '']'') ?w (st_writeArrayValue S (st_writeValue S) vs w)"
      using m(1) True vs(2) by (auto simp: st_writeArrayValue_def Let_def)
    then show ?thesis
      using text_of_space [OF text_of_array, of D n vs t ws' ws "[]"] wr by (intro exI [of _ "ws @ ''['' @ t @ ws' @ '']''"]) simp
  next
    case False
    obtain o' c' where oc: "list_all space o'" "sty_open S = ''['' @ o'" "list_all space c'" "sty_close S = c' @ '']''"
      using brackets by blast
    have ts: "list_all2 (text_of D n) vs ts" using m(2) False by blast
    then obtain t where t: "text_of_elements D n vs t" "adds t (put (sty_open S) ?w) (st_line S True ts (put (sty_open S) ?w))"
      using line [OF ts vs(2), of True "put (sty_open S) ?w"] by auto
    have "adds (sty_open S @ t @ sty_close S) ?w (st_writeArrayValue S (st_writeValue S) vs w)"
      using m(1) False vs(2) adds_trans [OF adds_trans [OF put_adds t(2)] put_adds] list_all2_lengthD [OF ts]
      by (simp add: st_writeArrayValue_def Let_def)
    moreover have "text_of D (Suc n) (arrayValue vs) (''['' @ (o' @ t) @ c' @ '']'')"
      using text_of_array [OF text_of_elements_space [OF t(1) oc(1)] oc(3)] .
    ultimately show ?thesis using oc r adds_wrote wr by (intro exI [of _ "sty_open S @ t @ sty_close S"]) auto
  qed
qed

lemma object_written:
  assumes IH: "\<And>m w. m \<in> set ms \<Longrightarrow> ready (sty_allComments S) w \<Longrightarrow>
      \<exists>t. text_of D n (snd m) t \<and> wrote (sty_allComments S) t w (st_writeValue S (snd m) w)"
    and ms: "\<forall>m \<in> set ms. utf8_text (fst m) \<and> length (fst m) < 2 ^ 30 \<and> key_ok (fst m)" "ms \<noteq> []" "sorted_wrt CZString_less (map fst ms)"
    and w: "ready (sty_allComments S) w"
  shows "\<exists>t. text_of D (Suc n) (objectValue ms) t \<and> wrote (sty_allComments S) t w (st_writeObjectValue S (st_writeValue S) ms w)"
proof -
  let ?b = "sty_allComments S"
  from block [OF w, of "text_of_members D n ms", OF members_written [OF IH ms(1,2)], of "''{''" "''}''"]
  obtain ws t ws' where "list_all space ws" "list_all space ws'" "text_of_members D n ms t"
      "wrote ?b (ws @ ''{'' @ t @ ws' @ ''}'') w (st_writeObjectValue S (st_writeValue S) ms w)"
    using ms(2) by (auto simp: st_writeObjectValue_def)
  then show ?thesis
    using text_of_space [OF text_of_object, of D n ms t ws' ws "[]"] ms(3) by (intro exI [of _ "ws @ ''{'' @ t @ ws' @ ''}''"]) simp
qed

lemma value_written:
  "writable n v \<Longrightarrow> ready (sty_allComments S) w \<Longrightarrow> \<exists>t. text_of D n v t \<and> wrote (sty_allComments S) t w (st_writeValue S v w)"
proof (induction v arbitrary: n w rule: measure_induct_rule [of size])
  case (less v)
  show ?case
  proof (cases "composite v")
    case False
    with scalar [OF less.prems(1)] less.prems(2) pushValue_wrote show ?thesis by metis
  next
    case True
    then consider vs where "v = arrayValue vs" "vs \<noteq> []" | ms where "v = objectValue ms" "ms \<noteq> []"
      by (cases v) (auto simp: composite_def)
    then show ?thesis
    proof cases
      case 1
      with less.prems(1) obtain k where k: "n = Suc k" "list_all (writable k) vs" by (cases n) (auto simp: list_all_iff)
      with array_written [of vs k w] less.IH [of _ k] less.prems(2) 1 size_child(1) [of _ vs] show ?thesis
        by (simp add: list_all_iff del: Value.size)
    next
      case 2
      with less.prems(1) obtain k where k: "n = Suc k" "sorted_wrt CZString_less (map fst ms)"
          "\<forall>m \<in> set ms. utf8_text (fst m) \<and> length (fst m) < 2 ^ 30 \<and> key_ok (fst m)" "\<forall>m \<in> set ms. writable k (snd m)"
        by (cases n) (auto simp: list_all_iff)
      with object_written [of ms k w] less.IH [of _ k] less.prems(2) 2 size_child(2) [of _ ms] show ?thesis
        by (simp del: Value.size)
    qed
  qed
qed

end

section \<open>StyledWriter\<close>

definition indentSize :: nat where
  "indentSize = 3"

text \<open>The key is passed as a C string, up to the first zero byte.\<close>

definition valueToQuotedString :: "string \<Rightarrow> string" where
  "valueToQuotedString s = valueToQuotedStringN (takeWhile (\<lambda>c. c \<noteq> CHR 0x00) s)"

definition StyledWriter_writeIndent :: "Styled \<Rightarrow> Styled" where
  "StyledWriter_writeIndent w =
     (if document w \<noteq> [] \<and> last (document w) = CHR '' '' then w
      else
        let w = (if document w \<noteq> [] \<and> last (document w) \<noteq> LF then put [LF] w else w)
        in put (st_indentString w) w)"

definition StyledWriter_writeWithIndent :: "string \<Rightarrow> Styled \<Rightarrow> Styled" where
  "StyledWriter_writeWithIndent val w = put val (StyledWriter_writeIndent w)"

definition StyledWriter_style :: "c_double \<Rightarrow> Style" where
  "StyledWriter_style D = \<lparr>sty_allComments = False, sty_indentation = replicate indentSize (CHR '' ''), sty_null = ''null'',
     sty_real = valueToString_double D, sty_key = valueToQuotedString, sty_colon = '' : '', sty_open = ''[ '', sty_separator = '', '',
     sty_close = '' ]'', sty_withIndent = StyledWriter_writeWithIndent, sty_beforeElement = StyledWriter_writeIndent,
     sty_behindElement = (\<lambda>w. w), sty_commentAfter = (\<lambda>w. w)\<rparr>"

text \<open>The common code in this style.\<close>

definition StyledWriter_writeValue :: "c_double \<Rightarrow> Value \<Rightarrow> Styled \<Rightarrow> Styled" where
  "StyledWriter_writeValue D = st_writeValue (StyledWriter_style D)"

definition StyledWriter_writeArrayValue :: "c_double \<Rightarrow> Value list \<Rightarrow> Styled \<Rightarrow> Styled" where
  "StyledWriter_writeArrayValue D = st_writeArrayValue (StyledWriter_style D) (StyledWriter_writeValue D)"

definition StyledWriter_isMultilineArray :: "c_double \<Rightarrow> Value list \<Rightarrow> Styled \<Rightarrow> bool \<times> Styled" where
  "StyledWriter_isMultilineArray D = st_isMultilineArray (StyledWriter_writeValue D)"

lemma StyledWriter_writeValue_array: "StyledWriter_writeValue D (arrayValue vs) w = StyledWriter_writeArrayValue D vs w"
  by (simp add: StyledWriter_writeValue_def StyledWriter_writeArrayValue_def)

definition StyledWriter_write :: "c_double \<Rightarrow> Value \<Rightarrow> Styled \<Rightarrow> string \<times> Styled" where
  "StyledWriter_write D root w =
     (let w = w\<lparr>document := [], addChildValues := False, st_indentString := []\<rparr>;
          w = put [LF] (StyledWriter_writeValue D root w)
      in (document w, w))"

section \<open>StyledStreamWriter\<close>

definition StyledStreamWriter_writeIndent :: "Styled \<Rightarrow> Styled" where
  "StyledStreamWriter_writeIndent w = put ([LF] @ st_indentString w) w"

definition StyledStreamWriter_writeWithIndent :: "string \<Rightarrow> Styled \<Rightarrow> Styled" where
  "StyledStreamWriter_writeWithIndent val w =
     (let w = (if \<not> st_indented w then StyledStreamWriter_writeIndent w else w)
      in (put val w)\<lparr>st_indented := False\<rparr>)"

definition StyledStreamWriter_style :: "c_double \<Rightarrow> string \<Rightarrow> Style" where
  "StyledStreamWriter_style D ind = \<lparr>sty_allComments = False, sty_indentation = ind, sty_null = ''null'',
     sty_real = valueToString_double D, sty_key = valueToQuotedString, sty_colon = '' : '', sty_open = ''[ '', sty_separator = '', '',
     sty_close = '' ]'', sty_withIndent = StyledStreamWriter_writeWithIndent,
     sty_beforeElement = (\<lambda>w. (if \<not> st_indented w then StyledStreamWriter_writeIndent w else w)\<lparr>st_indented := True\<rparr>),
     sty_behindElement = (\<lambda>w. w\<lparr>st_indented := False\<rparr>), sty_commentAfter = (\<lambda>w. w\<lparr>st_indented := False\<rparr>)\<rparr>"

text \<open>The common code in this style.\<close>

definition StyledStreamWriter_writeValue :: "c_double \<Rightarrow> string \<Rightarrow> Value \<Rightarrow> Styled \<Rightarrow> Styled" where
  "StyledStreamWriter_writeValue D ind = st_writeValue (StyledStreamWriter_style D ind)"

definition StyledStreamWriter_writeArrayValue :: "c_double \<Rightarrow> string \<Rightarrow> Value list \<Rightarrow> Styled \<Rightarrow> Styled" where
  "StyledStreamWriter_writeArrayValue D ind = st_writeArrayValue (StyledStreamWriter_style D ind) (StyledStreamWriter_writeValue D ind)"

definition StyledStreamWriter_isMultilineArray :: "c_double \<Rightarrow> string \<Rightarrow> Value list \<Rightarrow> Styled \<Rightarrow> bool \<times> Styled" where
  "StyledStreamWriter_isMultilineArray D ind = st_isMultilineArray (StyledStreamWriter_writeValue D ind)"

lemma StyledStreamWriter_writeValue_array: "StyledStreamWriter_writeValue D ind (arrayValue vs) w = StyledStreamWriter_writeArrayValue D ind vs w"
  by (simp add: StyledStreamWriter_writeValue_def StyledStreamWriter_writeArrayValue_def)

text \<open>The stream is at its start; what the writer keeps from an earlier call is the argument.\<close>

definition StyledStreamWriter_write :: "c_double \<Rightarrow> string \<Rightarrow> Value \<Rightarrow> Styled \<Rightarrow> string" where
  "StyledStreamWriter_write D ind root w =
     (let w = w\<lparr>document := [], addChildValues := False, st_indentString := [], st_indented := True\<rparr>;
          w = StyledStreamWriter_writeValue D ind root w;
          w = sty_commentAfter (StyledStreamWriter_style D ind) w
      in document (put [LF] w))"

section \<open>BuiltStyledStreamWriter\<close>

definition Built_writeIndent :: "BuiltStyledStreamWriter \<Rightarrow> Styled \<Rightarrow> Styled" where
  "Built_writeIndent B w = (if w_indentation B \<noteq> [] then put ([LF] @ st_indentString w) w else w)"

definition Built_writeWithIndent :: "BuiltStyledStreamWriter \<Rightarrow> string \<Rightarrow> Styled \<Rightarrow> Styled" where
  "Built_writeWithIndent B val w =
     (let w = (if \<not> st_indented w then Built_writeIndent B w else w)
      in (put val w)\<lparr>st_indented := False\<rparr>)"

definition Built_style :: "c_double \<Rightarrow> BuiltStyledStreamWriter \<Rightarrow> Style" where
  "Built_style D B = \<lparr>sty_allComments = (w_cs B = CommentAll), sty_indentation = w_indentation B, sty_null = w_nullSymbol B,
     sty_real = (\<lambda>d. valueToString_real D d (w_useSpecialFloats B) (w_precision B) (w_precisionType B)),
     sty_key = valueToQuotedStringN, sty_colon = w_colonSymbol B,
     sty_open = ''['' @ (if w_indentation B \<noteq> [] then '' '' else []),
     sty_separator = (if w_indentation B \<noteq> [] then '', '' else '',''),
     sty_close = (if w_indentation B \<noteq> [] then '' '' else []) @ '']'', sty_withIndent = Built_writeWithIndent B,
     sty_beforeElement = (\<lambda>w. (if \<not> st_indented w then Built_writeIndent B w else w)\<lparr>st_indented := True\<rparr>),
     sty_behindElement = (\<lambda>w. w\<lparr>st_indented := False\<rparr>), sty_commentAfter = (\<lambda>w. w)\<rparr>"

definition Built_write :: "c_double \<Rightarrow> BuiltStyledStreamWriter \<Rightarrow> Value \<Rightarrow> string" where
  "Built_write D B root =
     (let w = \<lparr>document = [], childValues = [], addChildValues = False, st_indentString = [], st_indented = True\<rparr>;
          w = st_writeValue (Built_style D B) root w
      in document (put (w_endingLineFeedSymbol B) w))"

text \<open>\<open>writeString\<close> with a builder of any settings.\<close>

definition writeString_with :: "c_double \<Rightarrow> Value \<Rightarrow> Value \<Rightarrow> string result" where
  "writeString_with D settings root = bind_result (newStreamWriter D settings) (\<lambda>B. Inr (Built_write D B root))"

section \<open>Layouts\<close>

lemma valueToQuotedString_key: "CHR 0x00 \<notin> set k \<Longrightarrow> valueToQuotedString k = valueToQuotedStringN k"
  unfolding valueToQuotedString_def by (subst takeWhile_eq_all_conv [THEN iffD2]) auto

lemma put_Nil [simp]: "put [] w = w" and put_put [simp]: "put t (put s w) = put (s @ t) w"
  by (simp_all add: put_def)

lemma StyledWriter_writeIndent_space:
  assumes "list_all space (st_indentString w)"
  shows "\<exists>ws. list_all space ws \<and> StyledWriter_writeIndent w = put ws w"
proof -
  have "StyledWriter_writeIndent w = put (if document w \<noteq> [] \<and> last (document w) = CHR '' '' then []
      else (if document w \<noteq> [] \<and> last (document w) \<noteq> LF then [LF] else []) @ st_indentString w) w"
    by (simp add: StyledWriter_writeIndent_def Let_def put_def)
  moreover have "list_all space (if document w \<noteq> [] \<and> last (document w) = CHR '' '' then []
      else (if document w \<noteq> [] \<and> last (document w) \<noteq> LF then [LF] else []) @ st_indentString w)"
    using assms by simp
  ultimately show ?thesis by blast
qed

lemma put_fields [simp]: "document (put s w) = document w @ s" "childValues (put s w) = childValues w"
    "addChildValues (put s w) = addChildValues w" "st_indentString (put s w) = st_indentString w"
  by (simp_all add: put_def)

lemma spaces_colon:
  "\<exists>ws. list_all space ws \<and> (\<exists>ws'. list_all space ws' \<and> '' : '' = ws @ CHR '':'' # ws')"
  "\<exists>ws. list_all space ws \<and> (\<exists>ws'. list_all space ws' \<and> '': '' = ws @ CHR '':'' # ws')"
  "\<exists>ws. list_all space ws \<and> (\<exists>ws'. list_all space ws' \<and> '':'' = ws @ CHR '':'' # ws')"
  by (rule exI [of _ "'' ''"], simp, (rule exI [of _ "[]"], simp)+)

interpretation styled: styled_layout D "StyledWriter_style D" "\<lambda>k. CHR 0x00 \<notin> set k" for D
proof (unfold_locales, goal_cases)
  case (8 w s)
  then obtain ws where "list_all space ws" "StyledWriter_writeIndent w = put ws w" using StyledWriter_writeIndent_space by blast
  then show ?case by (auto simp: StyledWriter_style_def StyledWriter_writeWithIndent_def adds_def)
next
  case (9 w)
  then obtain ws where "list_all space ws" "StyledWriter_writeIndent w = put ws w" using StyledWriter_writeIndent_space by blast
  then show ?case by (auto simp: StyledWriter_style_def adds_def)
qed (auto simp: StyledWriter_style_def valueToQuotedString_key indentSize_def numeral_3_eq_3 adds_def spaces_colon)

lemma StyledStreamWriter_layout:
  assumes "list_all space ind"
  shows "styled_layout (StyledStreamWriter_style D ind) (\<lambda>k. CHR 0x00 \<notin> set k)"
proof (unfold_locales, goal_cases)
  case (8 w s)
  then show ?case
    by (intro exI [of _ "if st_indented w then [] else LF # st_indentString w"])
      (simp add: StyledStreamWriter_style_def StyledStreamWriter_writeWithIndent_def StyledStreamWriter_writeIndent_def adds_def)
next
  case (9 w)
  then show ?case
    by (intro exI [of _ "if st_indented w then [] else LF # st_indentString w"])
      (simp add: StyledStreamWriter_style_def StyledStreamWriter_writeIndent_def adds_def)
qed (use assms in \<open>auto simp: StyledStreamWriter_style_def valueToQuotedString_key adds_def spaces_colon\<close>)

lemma Built_layout:
  assumes "list_all space (w_indentation B)" "w_nullSymbol B = ''null''" "w_colonSymbol B \<in> {'' : '', '': '', '':''}"
  shows "styled_layout (Built_style D B) (\<lambda>k. True)"
proof (unfold_locales, goal_cases)
  case (4)
  consider "w_colonSymbol B = '' : ''" | "w_colonSymbol B = '': ''" | "w_colonSymbol B = '':''" using assms(3) by blast
  then show ?case
    by cases (simp_all add: Built_style_def spaces_colon)
next
  case (8 w s)
  then show ?case
    by (intro exI [of _ "if st_indented w \<or> w_indentation B = [] then [] else LF # st_indentString w"])
      (simp add: Built_style_def Built_writeWithIndent_def Built_writeIndent_def adds_def)
next
  case (9 w)
  then show ?case
    by (intro exI [of _ "if st_indented w \<or> w_indentation B = [] then [] else LF # st_indentString w"])
      (simp add: Built_style_def Built_writeIndent_def adds_def)
qed (use assms in \<open>auto simp: Built_style_def adds_def\<close>)

section \<open>Printers\<close>

lemma ready_start: "ready False (w\<lparr>addChildValues := False, st_indentString := []\<rparr>)"
  by (simp add: ready_def)

lemma StyledWriter_write_text_of:
  assumes "json_ok D 999 v" "all_keys (\<lambda>k. CHR 0x00 \<notin> set k) v"
  shows "text_of D 999 v (fst (StyledWriter_write D v w))"
proof -
  let ?w = "w\<lparr>document := [], addChildValues := False, st_indentString := []\<rparr>"
  obtain t where "text_of D 999 v t" "document (st_writeValue (StyledWriter_style D) v ?w) = t"
    using styled.value_written [where D = D and n = 999 and v = v and w = ?w] assms
    by (auto simp: StyledWriter_style_def ready_def wrote_def)
  with text_of_space [of D 999 v t "[]" "[LF]"] show ?thesis by (simp add: StyledWriter_write_def StyledWriter_writeValue_def Let_def)
qed

interpretation styled_writer: json_printer D "\<lambda>v. json_ok D 999 v \<and> all_keys (\<lambda>k. CHR 0x00 \<notin> set k) v"
    "\<lambda>v. fst (StyledWriter_write D v w)" for D w
  by unfold_locales (simp add: StyledWriter_write_text_of)

lemma StyledStreamWriter_write_text_of:
  assumes "list_all space ind" "json_ok D 999 v" "all_keys (\<lambda>k. CHR 0x00 \<notin> set k) v"
  shows "text_of D 999 v (StyledStreamWriter_write D ind v w)"
proof -
  let ?w = "w\<lparr>document := [], addChildValues := False, st_indentString := [], st_indented := True\<rparr>"
  obtain t where "text_of D 999 v t" "document (st_writeValue (StyledStreamWriter_style D ind) v ?w) = t"
    using styled_layout.value_written [OF StyledStreamWriter_layout [OF assms(1)], where D = D and n = 999 and v = v and w = ?w] assms
    by (auto simp: StyledStreamWriter_style_def ready_def wrote_def)
  with text_of_space [of D 999 v t "[]" "[LF]"] show ?thesis
    by (simp add: StyledStreamWriter_write_def StyledStreamWriter_writeValue_def StyledStreamWriter_style_def Let_def)
qed

interpretation stream_writer: json_printer D "\<lambda>v. json_ok D 999 v \<and> all_keys (\<lambda>k. CHR 0x00 \<notin> set k) v"
    "\<lambda>v. StyledStreamWriter_write D [CHR 0x09] v w" for D w
  by unfold_locales (simp add: StyledStreamWriter_write_text_of)

lemma all_keys_True [simp]: "all_keys (\<lambda>k. True) v"
  by (induction v) (auto simp: list_all_iff)

lemma Built_write_text_of:
  assumes B: "list_all space (w_indentation B)" "w_nullSymbol B = ''null''" "w_colonSymbol B \<in> {'' : '', '': '', '':''}" "w_endingLineFeedSymbol B = []"
    and v: "json_fits D (\<lambda>d. valueToString_real D d (w_useSpecialFloats B) (w_precision B) (w_precisionType B)) 999 v"
  shows "text_of D 999 v (Built_write D B v)"
  using styled_layout.value_written [OF Built_layout [OF B(1-3), of D], where D = D and n = 999 and v = v
      and w = "\<lparr>document = [], childValues = [], addChildValues = False, st_indentString = [], st_indented = True\<rparr>"] v
  by (auto simp: Built_style_def Built_write_def ready_def wrote_def B(4) Let_def)

text \<open>What the builder makes of its settings.\<close>

lemma newStreamWriter_cases:
  assumes "newStreamWriter D settings = Inr B"
  shows "w_colonSymbol B \<in> {'' : '', '': '', '':''} \<and> w_endingLineFeedSymbol B = [] \<and> w_precision B \<le> 17
    \<and> (w_nullSymbol B = [] \<or> w_nullSymbol B = ''null'')"
proof -
  obtain ind cs eyc dnp usf pre pt where
    "Inr \<lparr>w_indentation = ind, w_cs = cs, w_colonSymbol = (if eyc then '': '' else if ind = [] then '':'' else '' : ''),
       w_nullSymbol = (if dnp then [] else ''null''), w_endingLineFeedSymbol = [], w_useSpecialFloats = usf,
       w_precision = min pre 17, w_precisionType = pt\<rparr> = (Inr B :: BuiltStyledStreamWriter result)"
    using assms unfolding newStreamWriter_def bind_result_Inr_iff by (elim exE conjE)
  then show ?thesis by (auto split: if_splits)
qed

section \<open>The writer of the service\<close>

text \<open>The state of the common code that corresponds to a state of the writer of the service.\<close>

definition styled_of :: "Writer \<Rightarrow> Styled" where
  "styled_of x = \<lparr>document = sout x, childValues = [], addChildValues = False, st_indentString = indentString x, st_indented = indented x\<rparr>"

definition default_writer :: BuiltStyledStreamWriter where
  "default_writer = \<lparr>w_indentation = indentation, w_cs = CommentAll, w_colonSymbol = colonSymbol, w_nullSymbol = nullSymbol,
     w_endingLineFeedSymbol = [], w_useSpecialFloats = False, w_precision = 17, w_precisionType = significantDigits\<rparr>"

lemma styled_of_simps:
  "put s (styled_of x) = styled_of (x\<lparr>sout := sout x @ s\<rparr>)"
  "st_pushValue s (styled_of x) = styled_of (pushValue s x)"
  "(styled_of x)\<lparr>st_indented := b\<rparr> = styled_of (x\<lparr>indented := b\<rparr>)"
  "st_indent (Built_style D default_writer) (styled_of x) = styled_of (indent x)"
  "st_unindent (Built_style D default_writer) (styled_of x) = styled_of (unindent x)"
  "Built_writeIndent default_writer (styled_of x) = styled_of (writeIndent x)"
  "Built_writeWithIndent default_writer s (styled_of x) = styled_of (writeWithIndent s x)"
  "st_indented (styled_of x) = indented x" "childValues (styled_of x) = []" "document (styled_of x) = sout x"
  by (simp_all add: styled_of_def put_def st_pushValue_def pushValue_def st_indent_def indent_def st_unindent_def unindent_def
    Built_writeIndent_def writeIndent_def Built_writeWithIndent_def writeWithIndent_def Built_style_def default_writer_def Let_def)

lemma default_style:
  "sty_allComments (Built_style D default_writer)" "sty_null (Built_style D default_writer) = nullSymbol"
  "sty_real (Built_style D default_writer) = valueToString_double D" "sty_key (Built_style D default_writer) = valueToQuotedStringN"
  "sty_colon (Built_style D default_writer) = colonSymbol" "sty_withIndent (Built_style D default_writer) = Built_writeWithIndent default_writer"
  "sty_beforeElement (Built_style D default_writer)
     = (\<lambda>w. (if \<not> st_indented w then Built_writeIndent default_writer w else w)\<lparr>st_indented := True\<rparr>)"
  "sty_behindElement (Built_style D default_writer) = (\<lambda>w. w\<lparr>st_indented := False\<rparr>)" "sty_commentAfter (Built_style D default_writer) = (\<lambda>w. w)"
proof -
  have [simp]: "w_indentation default_writer = indentation" "w_cs default_writer = CommentAll" "w_colonSymbol default_writer = colonSymbol"
    "w_nullSymbol default_writer = nullSymbol" "\<not> w_useSpecialFloats default_writer" "w_precision default_writer = 17"
    "w_precisionType default_writer = significantDigits" by (simp_all add: default_writer_def)
  show "sty_allComments (Built_style D default_writer)" "sty_null (Built_style D default_writer) = nullSymbol"
    "sty_real (Built_style D default_writer) = valueToString_double D" "sty_key (Built_style D default_writer) = valueToQuotedStringN"
    "sty_colon (Built_style D default_writer) = colonSymbol" "sty_withIndent (Built_style D default_writer) = Built_writeWithIndent default_writer"
    "sty_beforeElement (Built_style D default_writer)
      = (\<lambda>w. (if \<not> st_indented w then Built_writeIndent default_writer w else w)\<lparr>st_indented := True\<rparr>)"
    "sty_behindElement (Built_style D default_writer) = (\<lambda>w. w\<lparr>st_indented := False\<rparr>)" "sty_commentAfter (Built_style D default_writer) = (\<lambda>w. w)"
    by (simp_all add: Built_style_def valueToString_double_def [abs_def] defaultRealPrecision_def)
qed

lemma written_by_default:
  "st_writeValue (Built_style D default_writer) v (styled_of x) = styled_of (writeValue D v x)"
  "vs \<noteq> [] \<Longrightarrow> st_elements (Built_style D default_writer) (st_writeValue (Built_style D default_writer)) False i vs (styled_of x)
     = styled_of (writeElements D vs x)"
  "ms \<noteq> [] \<Longrightarrow> st_members (Built_style D default_writer) (st_writeValue (Built_style D default_writer)) ms (styled_of x) = styled_of (writeMembers D ms x)"
proof (induction D v x and D vs x and D ms x arbitrary: and i and rule: writeValue_writeElements_writeMembers.induct)
  case (10 D v vs w)
  then show ?case
    by (cases "indented w") (auto simp: styled_of_simps default_style Let_def)
next
  case (12 D m ms w)
  then show ?case by (auto simp: styled_of_simps default_style Let_def)
qed (auto simp: styled_of_simps default_style st_writeArrayValue_def st_writeObjectValue_def Let_def)

lemma Built_write_default: "Built_write D default_writer v = writeString D v"
proof -
  have "\<lparr>document = [], childValues = [], addChildValues = False, st_indentString = [], st_indented = True\<rparr>
      = styled_of \<lparr>sout = [], indentString = [], indented = True\<rparr>" by (simp add: styled_of_def)
  then show ?thesis
    by (simp add: Built_write_def Let_def written_by_default writeString_def Writer_write_def styled_of_simps del: put_fields)
      (simp add: default_writer_def)
qed

section \<open>Zeros at the end of a number\<close>

lemma fixZeros_loop_zeros: "fixZeros_loop (replicate k (CHR ''0'') @ t) = fixZeros_loop t" if "t \<noteq> []" "hd t \<noteq> CHR ''.''"
proof (induction k)
  case (Suc k)
  with that show ?case by (cases k) (auto simp: hd_append)
qed simp

lemma fixZerosInTheEnd_integer:
  assumes "ds \<noteq> []" "last ds \<noteq> CHR ''0''" "CHR ''.'' \<notin> set ds"
  shows "fixZerosInTheEnd (ds @ replicate k (CHR ''0'')) = ds"
proof -
  have "last ds \<noteq> CHR ''.''"
  proof
    assume "last ds = CHR ''.''"
    with last_in_set [OF assms(1)] have "CHR ''.'' \<in> set ds" by (simp only:)
    with assms(3) show False by contradiction
  qed
  then have l: "rev ds \<noteq> []" "hd (rev ds) = last ds" "last ds \<noteq> CHR ''.''"
    using assms(1) by (simp_all add: hd_rev)
  have keep: "t \<noteq> [] \<Longrightarrow> hd t \<noteq> CHR ''0'' \<Longrightarrow> fixZeros_loop t = t" for t by (cases t) simp_all
  have "fixZeros_loop (rev ds) = rev ds" using l assms(2) by (intro keep) simp_all
  with l show ?thesis by (simp add: fixZerosInTheEnd_def fixZeros_loop_zeros)
qed

section \<open>Properties\<close>

text \<open>
  C13. What a writer from the builder writes is read back, for every setting of comments, YAML colons, special floats,
  precision and its type, under three conditions: the indentation is white space, nulls are not dropped (their symbol is
  \<open>null\<close>), and the value fits, that is, the reader can represent it and scans the text that these settings give each
  of its doubles as that double. The last is needed (\<open>zero_decimal_places_drop_zeros\<close>).
\<close>

theorem builder_roundtrip:
  assumes "newStreamWriter D settings = Inr B" "w_nullSymbol B = ''null''" "list_all space (w_indentation B)"
    and "json_fits D (\<lambda>d. valueToString_real D d (w_useSpecialFloats B) (w_precision B) (w_precisionType B)) 999 v"
  shows "\<exists>t. writeString_with D settings v = Inr t \<and> parseFromStream D t old = Some (Inr (True, v))"
  using Built_write_text_of [of B D v] newStreamWriter_cases [OF assms(1)] assms parse_text_of
  by (simp add: writeString_with_def)

theorem builder_roundtrip_witness:
  "\<exists>t. writeString_with \<lparr>scan_double = (\<lambda>s. None), stream_double = (\<lambda>s. None), print_double = (\<lambda>t p d. [])\<rparr>
      (objectValue [(''commentStyle'', stringValue ''None''), (''indentation'', stringValue ''  ''), (''precisionType'', stringValue ''decimal'')])
      (arrayValue [intValue 1, arrayValue [booleanValue True, nullValue]]) = Inr t
    \<and> parseFromStream \<lparr>scan_double = (\<lambda>s. None), stream_double = (\<lambda>s. None), print_double = (\<lambda>t p d. [])\<rparr> t nullValue
      = Some (Inr (True, arrayValue [intValue 1, arrayValue [booleanValue True, nullValue]]))"
proof (rule builder_roundtrip)
  show "newStreamWriter \<lparr>scan_double = (\<lambda>s. None), stream_double = (\<lambda>s. None), print_double = (\<lambda>t p d. [])\<rparr>
      (objectValue [(''commentStyle'', stringValue ''None''), (''indentation'', stringValue ''  ''), (''precisionType'', stringValue ''decimal'')])
    = Inr \<lparr>w_indentation = ''  '', w_cs = CommentNone, w_colonSymbol = '' : '', w_nullSymbol = ''null'', w_endingLineFeedSymbol = [],
        w_useSpecialFloats = False, w_precision = 0, w_precisionType = decimalPlaces\<rparr>"
    by (simp add: newStreamWriter_def setting_def Value_member_def Value_find_def members_find_def asBool_def asUInt_def asString_def)
qed simp_all

text \<open>
  The three older writers keep the round trip as well: \<open>FastWriter\<close> unless nulls are dropped, whatever its other
  options and whatever it wrote before, and \<open>StyledWriter\<close> and \<open>StyledStreamWriter\<close> as long as no key holds a zero
  byte, where they would cut the key.
\<close>

lemma older_writers_roundtrip:
  assumes "json_ok D 999 v" "\<not> fast_dropNull f" "all_keys (\<lambda>k. CHR 0x00 \<notin> set k) v" "list_all space ind"
  shows "parseFromStream D (fst (FastWriter_write D v f)) old = Some (Inr (True, v))
    \<and> parseFromStream D (fst (StyledWriter_write D v w)) old = Some (Inr (True, v))
    \<and> parseFromStream D (StyledStreamWriter_write D ind v w) old = Some (Inr (True, v))"
  using assms
  by (simp add: parse_text_of FastWriter_write_text_of StyledWriter_write_text_of StyledStreamWriter_write_text_of)


text \<open>The key of a member, up to a zero byte.\<close>

lemma styled_writer_cuts_keys:
  "fst (StyledWriter_write D (objectValue [(CHR ''a'' # CHR 0x00 # s, nullValue)]) w) = fst (StyledWriter_write D (objectValue [(''a'', nullValue)]) w)"
  by (simp add: StyledWriter_write_def StyledWriter_writeValue_def st_writeObjectValue_def StyledWriter_style_def valueToQuotedString_def Let_def)

text \<open>
  The settings that \<open>setDefaults\<close> makes are accepted by \<open>newStreamWriter\<close>, and the general writer with these settings
  writes for every value exactly what the writer of the service writes.
\<close>

lemma default_writer_refines:
  "\<exists>settings. StreamWriterBuilder_setDefaults nullValue = Inr settings \<and> (\<forall>v. writeString_with D settings v = Inr (writeString D v))"
  using writer_defaults [of D] Built_write_default [of D] by (auto simp: writeString_with_def default_writer_def)

text \<open>
  With \<open>decimalPlaces\<close> and a precision of zero digits the writer drops the zeros in front of the decimal point: a
  double that prints as an integer with zeros at its end is written as another number, a hundred as one.
\<close>

lemma zero_decimal_places_drop_zeros:
  assumes "isfinite d" "print_double D decimalPlaces 0 d = ds @ replicate k (CHR ''0'')" "ds \<noteq> []" "last ds \<noteq> CHR ''0''"
    and "list_all isdigit ds"
  shows "valueToString_real D d usf 0 decimalPlaces = ds @ ''.0''"
proof -
  have "CHR ''.'' \<notin> set ds" "CHR '','' \<notin> set ds" "CHR ''e'' \<notin> set ds" using assms(5) by (auto simp: list_all_iff isdigit_def)
  moreover from this have "fixNumericLocale (ds @ replicate k (CHR ''0'')) = ds @ replicate k (CHR ''0'')"
    by (auto simp: fixNumericLocale_def intro!: map_idI)
  ultimately show ?thesis
    using assms by (simp add: valueToString_real_def fixZerosInTheEnd_integer Let_def)
qed


end
