(* ===== verification/Json_Arrays.thy ===== *)
theory Json_Arrays
  imports Json_Settings
begin

text \<open>
  Arrays of \<open>json/jsoncpp.cpp\<close>: an array is a \<open>std::map\<close> from indices to values, and its size is the highest index
  plus one, so that an array may have holes, which are read as null. The theory models the operations on the map, shows that they
  implement lists padded with nulls, and where they do not. The other theories only append to arrays, which leaves no
  holes, and there an array is the list of its elements.
\<close>

section \<open>Maps from indices\<close>

type_synonym index_map = "(nat \<times> Value) list"

text \<open>\<open>lower_bound\<close> and \<open>insert\<close>: the entry of an index, inserted as null in its place if it is not there.\<close>

fun index_resolve :: "nat \<Rightarrow> index_map \<Rightarrow> index_map" where
  "index_resolve i [] = [(i, nullValue)]"
| "index_resolve i ((j, v) # m) =
     (if j < i then (j, v) # index_resolve i m
      else if j = i then (j, v) # m
      else (i, nullValue) # (j, v) # m)"

fun index_store :: "nat \<Rightarrow> Value \<Rightarrow> index_map \<Rightarrow> index_map" where
  "index_store i w [] = []"
| "index_store i w ((j, v) # m) = (if j = i then (j, w) # m else (j, v) # index_store i w m)"

definition index_erase :: "nat \<Rightarrow> index_map \<Rightarrow> index_map" where
  "index_erase i m = filter (\<lambda>e. fst e \<noteq> i) m"

section \<open>Arrays\<close>

text \<open>A value as the array operations see it: null, an array, or of another type.\<close>

datatype array = NullArray | Elements index_map | OtherType

definition requires_array :: "string \<Rightarrow> array result" where
  "requires_array name = Inl (LogicError (''in Json::Value::'' @ name @ '': requires arrayValue''))"

definition array_size :: "array \<Rightarrow> nat" where
  "array_size a = (case a of Elements m \<Rightarrow> if m \<noteq> [] then (fst (last m) + 1) mod 2 ^ 32 else 0 | _ \<Rightarrow> 0)"

definition isValidIndex :: "nat \<Rightarrow> array \<Rightarrow> bool" where
  "isValidIndex i a \<longleftrightarrow> i < array_size a"

text \<open>\<open>operator[]\<close> of a value that may be changed: the array after the call, in which the index has an entry.\<close>

definition array_at :: "nat \<Rightarrow> array \<Rightarrow> array result" where
  "array_at i a =
     (case a of
        OtherType \<Rightarrow> requires_array ''operator[](ArrayIndex)''
      | NullArray \<Rightarrow> Inr (Elements (index_resolve i []))
      | Elements m \<Rightarrow> Inr (Elements (index_resolve i m)))"

text \<open>\<open>a[i] = w\<close>.\<close>

definition assign :: "nat \<Rightarrow> Value \<Rightarrow> array \<Rightarrow> array result" where
  "assign i w a =
     bind_result (array_at i a) (\<lambda>a. Inr (case a of Elements m \<Rightarrow> Elements (index_store i w m) | _ \<Rightarrow> a))"

text \<open>\<open>operator[]\<close> of a constant value.\<close>

definition element :: "nat \<Rightarrow> array \<Rightarrow> Value result" where
  "element i a =
     (case a of
        OtherType \<Rightarrow> Inl (LogicError ''in Json::Value::operator[](ArrayIndex)const: requires arrayValue'')
      | NullArray \<Rightarrow> Inr nullValue
      | Elements m \<Rightarrow> Inr (case map_of m i of None \<Rightarrow> nullValue | Some v \<Rightarrow> v))"

definition element_int :: "int \<Rightarrow> array \<Rightarrow> Value result" where
  "element_int i a =
     (if i < 0 then Inl (LogicError ''in Json::Value::operator[](int index) const: index cannot be negative'')
      else element (nat i) a)"

definition array_at_int :: "int \<Rightarrow> array \<Rightarrow> array result" where
  "array_at_int i a =
     (if i < 0 then Inl (LogicError ''in Json::Value::operator[](int index): index cannot be negative'')
      else array_at (nat i) a)"

text \<open>\<open>get\<close> compares the address of what it finds with the address of the null that stands for nothing.\<close>

definition get_element :: "nat \<Rightarrow> Value \<Rightarrow> array \<Rightarrow> Value result" where
  "get_element i defaultValue a =
     (case a of
        OtherType \<Rightarrow> Inl (LogicError ''in Json::Value::operator[](ArrayIndex)const: requires arrayValue'')
      | NullArray \<Rightarrow> Inr defaultValue
      | Elements m \<Rightarrow> Inr (case map_of m i of None \<Rightarrow> defaultValue | Some v \<Rightarrow> v))"

definition append_element :: "Value \<Rightarrow> array \<Rightarrow> array result" where
  "append_element w a = assign (array_size a) w a"

definition clear_array :: "array \<Rightarrow> array result" where
  "clear_array a =
     (case a of
        OtherType \<Rightarrow> Inl (LogicError ''in Json::Value::clear(): requires complex value'')
      | NullArray \<Rightarrow> Inr NullArray
      | Elements m \<Rightarrow> Inr (Elements []))"

text \<open>The loop erases the indices from the new size up to the old one.\<close>

definition resize :: "nat \<Rightarrow> array \<Rightarrow> array result" where
  "resize newSize a =
     (if a = OtherType then requires_array ''resize()''
      else
        let m = (case a of Elements m \<Rightarrow> m | _ \<Rightarrow> []);
            oldSize = array_size (Elements m)
        in if newSize = 0 then clear_array (Elements m)
           else if newSize > oldSize then array_at (newSize - 1) (Elements m)
           else
             let m = fold index_erase [newSize..<oldSize] m
             in if array_size (Elements m) = newSize then Inr (Elements m) else Inl (LogicError ''assert json failed''))"

text \<open>One step of the loop of \<open>removeIndex\<close>: \<open>(*value_.map_)[i] = (*this)[i + 1]\<close>.\<close>

definition shift_left :: "nat \<Rightarrow> index_map \<Rightarrow> index_map" where
  "shift_left i m =
     (let m = index_resolve (i + 1) m
      in index_store i (the (map_of m (i + 1))) (index_resolve i m))"

definition removeIndex :: "nat \<Rightarrow> array \<Rightarrow> bool \<times> Value option \<times> array" where
  "removeIndex i a =
     (case a of
        Elements m \<Rightarrow>
          (case map_of m i of
             None \<Rightarrow> (False, None, a)
           | Some v \<Rightarrow>
               let oldSize = array_size a;
                   m = fold shift_left [i..<oldSize - 1] m
               in (True, Some v, Elements (index_erase (oldSize - 1) m)))
      | _ \<Rightarrow> (False, None, a))"

section \<open>Maps as functions\<close>

definition sorted_indices :: "index_map \<Rightarrow> bool" where
  "sorted_indices m \<longleftrightarrow> sorted_wrt (<) (map fst m)"

lemma map_of_resolve:
  "sorted_indices m \<Longrightarrow> map_of (index_resolve i m) = (map_of m)(i \<mapsto> (case map_of m i of None \<Rightarrow> nullValue | Some v \<Rightarrow> v))"
proof (induction i m rule: index_resolve.induct)
  case (2 i j v m)
  have "j > i \<Longrightarrow> map_of m i = None"
    using 2(2) by (auto simp: sorted_indices_def map_of_eq_None_iff)
  with 2 show ?case by (auto simp: sorted_indices_def fun_eq_iff split: option.splits)
qed simp

lemma set_resolve: "fst ` set (index_resolve i m) = insert i (fst ` set m)"
  by (induction i m rule: index_resolve.induct) auto

lemma sorted_resolve: "sorted_indices m \<Longrightarrow> sorted_indices (index_resolve i m)"
  unfolding sorted_indices_def
proof (induction i m rule: index_resolve.induct)
  case (2 i j v m)
  have "set (map fst (index_resolve i m)) = insert i (set (map fst m))" using set_resolve [of i m] by simp
  with 2 show ?case by auto
qed simp

lemma keys_store: "map fst (index_store i w m) = map fst m"
  by (induction m) auto

lemma map_of_store: "i \<in> fst ` set m \<Longrightarrow> map_of (index_store i w m) = (map_of m)(i \<mapsto> w)"
  by (induction m) (force simp: fun_eq_iff)+

definition index_put :: "nat \<Rightarrow> Value \<Rightarrow> index_map \<Rightarrow> index_map" where
  "index_put i w m = index_store i w (index_resolve i m)"

lemma map_of_put: "sorted_indices m \<Longrightarrow> map_of (index_put i w m) = (map_of m)(i \<mapsto> w)"
  by (simp add: index_put_def map_of_store set_resolve map_of_resolve)

lemma sorted_put: "sorted_indices m \<Longrightarrow> sorted_indices (index_put i w m)"
  using sorted_resolve [of m i] by (simp add: index_put_def sorted_indices_def keys_store)

lemma keys_put: "fst ` set (index_put i w m) = insert i (fst ` set m)"
  using keys_store [of i w "index_resolve i m"] set_resolve [of i m] by (metis index_put_def list.set_map)

interpretation indices: keyed_store index_put "\<lambda>i m. map_of m i" "(=)" sorted_indices
  by unfold_locales (auto simp: map_of_put sorted_put)

lemma map_of_erase: "map_of (index_erase i m) = (map_of m)(i := None)"
  by (induction m) (auto simp: index_erase_def)

lemma sorted_erase: "sorted_indices m \<Longrightarrow> sorted_indices (index_erase i m)"
  unfolding sorted_indices_def index_erase_def by (induction m) auto

lemma last_index:
  assumes "sorted_indices m" "m \<noteq> []"
  shows "fst (last m) \<in> fst ` set m" "\<forall>k \<in> fst ` set m. k \<le> fst (last m)"
proof -
  show "fst (last m) \<in> fst ` set m" using assms(2) by simp
  show "\<forall>k \<in> fst ` set m. k \<le> fst (last m)"
    using assms
  proof (induction m)
    case (Cons e m)
    then show ?case
      using last_in_set [of m] by (cases "m = []") (force simp: sorted_indices_def less_imp_le)+
  qed simp
qed

section \<open>Arrays as lists\<close>

text \<open>The largest index is out of bounds: the size of an array that has it is zero.\<close>

definition array_ok :: "array \<Rightarrow> bool" where
  "array_ok a \<longleftrightarrow>
     (case a of OtherType \<Rightarrow> False | NullArray \<Rightarrow> True
      | Elements m \<Rightarrow> sorted_indices m \<and> (\<forall>k \<in> fst ` set m. k < 2 ^ 32 - 1))"

definition slot :: "index_map \<Rightarrow> nat \<Rightarrow> Value" where
  "slot m i = (case map_of m i of None \<Rightarrow> nullValue | Some v \<Rightarrow> v)"

definition elements_of :: "array \<Rightarrow> Value list" where
  "elements_of a = (case a of Elements m \<Rightarrow> map (slot m) [0..<array_size a] | _ \<Rightarrow> [])"

lemma length_elements_of [simp]: "length (elements_of a) = array_size a"
  by (cases a) (simp_all add: elements_of_def array_size_def)

lemma array_size_bounds:
  assumes "array_ok (Elements m)"
  shows "\<forall>k \<in> fst ` set m. k < array_size (Elements m)" "m \<noteq> [] \<Longrightarrow> array_size (Elements m) - 1 \<in> fst ` set m"
    "array_size (Elements m) < 2 ^ 32"
  using assms last_index [of m] by (auto simp: array_ok_def array_size_def less_Suc_eq_le)

lemma array_size_eqI:
  assumes m: "array_ok (Elements m)" and n: "\<forall>k \<in> fst ` set m. k < n" "n \<noteq> 0 \<Longrightarrow> n - 1 \<in> fst ` set m"
  shows "array_size (Elements m) = n"
proof (cases "m = []")
  case True
  with n show ?thesis by (auto simp: array_size_def)
next
  case False
  have "array_size (Elements m) - 1 < n" "array_size (Elements m) \<noteq> 0"
    using array_size_bounds [OF m] False n(1) by (cases m; auto)+
  moreover have "n - 1 < array_size (Elements m)"
    using array_size_bounds(1) [OF m] n(2) \<open>array_size (Elements m) - 1 < n\<close> by auto
  ultimately show ?thesis by linarith
qed

lemma slot_beyond: "array_ok (Elements m) \<Longrightarrow> array_size (Elements m) \<le> i \<Longrightarrow> slot m i = nullValue"
  using array_size_bounds(1) [of m] by (cases "map_of m i") (force simp: slot_def dest!: map_of_SomeD)+

text \<open>The same list, written as the function of its positions.\<close>

lemma elements_of_eqI:
  assumes "array_size (Elements m) = length xs" "\<And>i. i < length xs \<Longrightarrow> slot m i = xs ! i"
  shows "elements_of (Elements m) = xs"
  using assms by (auto simp: elements_of_def intro: nth_equalityI)

text \<open>What the operations mean for lists: nulls fill up to the index.\<close>

definition padded_update :: "nat \<Rightarrow> Value \<Rightarrow> Value list \<Rightarrow> Value list" where
  "padded_update i w xs = (xs @ replicate (Suc i - length xs) nullValue)[i := w]"

lemma array_ok_put: "array_ok (Elements m) \<Longrightarrow> i < 2 ^ 32 - 1 \<Longrightarrow> array_ok (Elements (index_put i w m))"
  using keys_put [of i w m] by (auto simp: array_ok_def sorted_put)

lemma array_size_put:
  assumes "array_ok (Elements m)" "i < 2 ^ 32 - 1"
  shows "array_size (Elements (index_put i w m)) = max (array_size (Elements m)) (Suc i)"
proof (rule array_size_eqI [OF array_ok_put [OF assms]])
  show "\<forall>k \<in> fst ` set (index_put i w m). k < max (array_size (Elements m)) (Suc i)"
    using array_size_bounds(1) [OF assms(1)] by (auto simp: keys_put less_max_iff_disj)
  show "max (array_size (Elements m)) (Suc i) - 1 \<in> fst ` set (index_put i w m)"
    using array_size_bounds(2) [OF assms(1)] by (cases "m = []") (auto simp: keys_put max_def array_size_def)
qed

lemma elements_put:
  assumes "array_ok (Elements m)" "i < 2 ^ 32 - 1"
  shows "elements_of (Elements (index_put i w m)) = padded_update i w (elements_of (Elements m))"
proof (rule elements_of_eqI)
  show "array_size (Elements (index_put i w m)) = length (padded_update i w (elements_of (Elements m)))"
    using assms by (simp add: array_size_put padded_update_def)
  have "sorted_indices m" using assms(1) by (simp add: array_ok_def)
  moreover have "slot m k = (elements_of (Elements m) @ replicate n nullValue) ! k" if "k < array_size (Elements m) + n" for k n
    using slot_beyond [OF assms(1), of k] that by (simp add: nth_append elements_of_def)
  ultimately show "slot (index_put i w m) k = padded_update i w (elements_of (Elements m)) ! k"
    if "k < length (padded_update i w (elements_of (Elements m)))" for k
    using that by (cases "k = i") (simp_all add: padded_update_def slot_def map_of_put)
qed

text \<open>The entry that \<open>operator[]\<close> inserts is what a reader sees there anyway.\<close>

lemma index_resolve_put: "sorted_indices m \<Longrightarrow> index_resolve i m = index_put i (slot m i) m"
  unfolding index_put_def
proof (induction i m rule: index_resolve.induct)
  case (2 i j v m)
  have "j > i \<Longrightarrow> map_of m i = None"
    using 2(2) by (auto simp: sorted_indices_def map_of_eq_None_iff)
  with 2 show ?case by (auto simp: sorted_indices_def slot_def)
qed (simp add: slot_def)

section \<open>The contract\<close>

text \<open>An array whose indices below a limit can be read and written at any time, and which reads as null where nothing was written.\<close>

locale padded_array =
  fixes list_of :: "'a \<Rightarrow> Value list" and ok :: "'a \<Rightarrow> bool" and len :: "'a \<Rightarrow> nat"
    and look_at :: "nat \<Rightarrow> 'a \<Rightarrow> Value result" and put_at :: "nat \<Rightarrow> Value \<Rightarrow> 'a \<Rightarrow> 'a result" and limit :: nat
  assumes len: "ok a \<Longrightarrow> len a = length (list_of a)"
    and look_at: "ok a \<Longrightarrow> look_at i a = Inr (if i < length (list_of a) then list_of a ! i else nullValue)"
    and put_at: "ok a \<Longrightarrow> i < limit \<Longrightarrow> \<exists>a'. put_at i w a = Inr a' \<and> ok a' \<and> list_of a' = padded_update i w (list_of a)"
begin

lemma look_put:
  assumes "ok a" "i < limit" "put_at i w a = Inr a'"
  shows "look_at j a' = (if j = i then Inr w else look_at j a)"
proof -
  have "ok a'" "list_of a' = padded_update i w (list_of a)" using put_at [OF assms(1,2), of w] assms(3) by auto
  then show ?thesis using look_at [OF assms(1), of j] by (auto simp: look_at padded_update_def nth_append nth_list_update)
qed

lemma append:
  assumes "ok a" "len a < limit"
  shows "\<exists>a'. put_at (len a) w a = Inr a' \<and> ok a' \<and> list_of a' = list_of a @ [w]"
  using put_at [OF assms, of w] len [OF assms(1)] by (auto simp: padded_update_def list_update_append)

end

lemma assign_put: "assign i w a = (case a of OtherType \<Rightarrow> requires_array ''operator[](ArrayIndex)''
    | NullArray \<Rightarrow> Inr (Elements (index_put i w [])) | Elements m \<Rightarrow> Inr (Elements (index_put i w m)))"
  by (cases a) (simp_all add: assign_def array_at_def index_put_def requires_array_def)

lemma array_ok_simps [simp]: "array_ok (Elements [])" "array_ok NullArray" "\<not> array_ok OtherType" "elements_of (Elements []) = []" "elements_of NullArray = []"
  by (simp_all add: array_ok_def sorted_indices_def elements_of_def array_size_def)

interpretation arrays: padded_array elements_of array_ok array_size element assign "2 ^ 32 - 1"
proof
  fix a :: array and i w
  assume a: "array_ok a"
  show "array_size a = length (elements_of a)" by simp
  show "element i a = Inr (if i < length (elements_of a) then elements_of a ! i else nullValue)"
    using a slot_beyond [of _ i] by (cases a) (auto simp: element_def elements_of_def array_ok_def slot_def array_size_def split: option.splits)
  show "\<exists>a'. assign i w a = Inr a' \<and> array_ok a' \<and> elements_of a' = padded_update i w (elements_of a)" if "i < 2 ^ 32 - 1"
    using a array_ok_put [OF array_ok_simps(1) that, of w] elements_put [OF array_ok_simps(1) that, of w] array_ok_put [OF _ that, of _ w] elements_put [OF _ that, of _ w]
    by (cases a) (simp_all add: assign_put)
qed

section \<open>Sequences of operations\<close>

datatype array_operation = Assign nat Value | Append Value | At nat

fun run_array :: "array_operation list \<Rightarrow> array \<Rightarrow> array result" where
  "run_array [] a = Inr a"
| "run_array (Assign i w # ops) a = bind_result (assign i w a) (run_array ops)"
| "run_array (Append w # ops) a = bind_result (append_element w a) (run_array ops)"
| "run_array (At i # ops) a = bind_result (array_at i a) (run_array ops)"

text \<open>The same on lists; \<open>limit\<close> is where the sizes of the implementation end.\<close>

fun run_list :: "array_operation list \<Rightarrow> Value list \<Rightarrow> Value list" where
  "run_list [] xs = xs"
| "run_list (Assign i w # ops) xs = run_list ops (padded_update i w xs)"
| "run_list (Append w # ops) xs = run_list ops (xs @ [w])"
| "run_list (At i # ops) xs = run_list ops (xs @ replicate (Suc i - length xs) nullValue)"

fun in_bounds :: "array_operation list \<Rightarrow> nat \<Rightarrow> bool" where
  "in_bounds [] n = True"
| "in_bounds (Append w # ops) n = (n < 2 ^ 32 - 1 \<and> in_bounds ops (Suc n))"
| "in_bounds (Assign i w # ops) n = (i < 2 ^ 32 - 1 \<and> in_bounds ops (max n (Suc i)))"
| "in_bounds (At i # ops) n = (i < 2 ^ 32 - 1 \<and> in_bounds ops (max n (Suc i)))"

lemma array_at_assign:
  assumes "array_ok a"
  shows "array_at i a = assign i (if i < array_size a then elements_of a ! i else nullValue) a"
proof (cases a)
  case (Elements m)
  then have "sorted_indices m" "slot m i = (if i < array_size a then elements_of a ! i else nullValue)"
    using assms slot_beyond [of m i] by (auto simp: array_ok_def elements_of_def)
  with Elements index_resolve_put [of m i] show ?thesis by (simp add: array_at_def assign_put)
qed (use assms in \<open>simp_all add: array_at_def assign_put array_size_def index_put_def\<close>)

lemma array_at_elements:
  assumes "array_ok a" "i < 2 ^ 32 - 1"
  shows "\<exists>a'. array_at i a = Inr a' \<and> array_ok a' \<and> elements_of a' = elements_of a @ replicate (Suc i - array_size a) nullValue"
proof -
  let ?w = "if i < array_size a then elements_of a ! i else nullValue"
  have "padded_update i ?w (elements_of a) = elements_of a @ replicate (Suc i - array_size a) nullValue"
    unfolding padded_update_def
    by (rule nth_equalityI) (auto simp: nth_append nth_list_update)
  with arrays.put_at [OF assms, of ?w] array_at_assign [OF assms(1), of i] show ?thesis by auto
qed

lemma run_array_list:
  "array_ok a \<Longrightarrow> in_bounds ops (array_size a) \<Longrightarrow>
     \<exists>a'. run_array ops a = Inr a' \<and> array_ok a' \<and> elements_of a' = run_list ops (elements_of a)"
proof (induction ops arbitrary: a)
  case (Cons x ops)
  show ?case
  proof (cases x)
    case (Assign i w)
    with Cons.prems arrays.put_at [of a i w] obtain a' where a': "assign i w a = Inr a'" "array_ok a'" "elements_of a' = padded_update i w (elements_of a)"
      by auto
    then have "array_size a' = max (array_size a) (Suc i)" using length_elements_of [of a'] by (simp add: padded_update_def)
    with Cons.IH [of a'] Cons.prems a' Assign show ?thesis by simp
  next
    case (Append w)
    with Cons.prems arrays.append [of a w] obtain a' where a': "append_element w a = Inr a'" "array_ok a'" "elements_of a' = elements_of a @ [w]"
      by (auto simp: append_element_def)
    then have "array_size a' = Suc (array_size a)" using length_elements_of [of a'] by simp
    with Cons.IH [of a'] Cons.prems a' Append show ?thesis by simp
  next
    case (At i)
    with Cons.prems array_at_elements [of a i] obtain a' where a': "array_at i a = Inr a'" "array_ok a'"
        "elements_of a' = elements_of a @ replicate (Suc i - array_size a) nullValue" by auto
    then have "array_size a' = max (array_size a) (Suc i)" using length_elements_of [of a'] by simp
    with Cons.IH [of a'] Cons.prems a' At show ?thesis by simp
  qed
qed simp

section \<open>Changing the size\<close>

lemma fold_erase: "map_of (fold index_erase is m) = (\<lambda>k. if k \<in> set is then None else map_of m k)"
  by (induction "is" arbitrary: m) (auto simp: map_of_erase fun_eq_iff)

lemma keys_map_of: "k \<in> fst ` set m \<longleftrightarrow> map_of m k \<noteq> None"
  by (simp add: map_of_eq_None_iff)

lemma fold_erase_ok: "array_ok (Elements m) \<Longrightarrow> array_ok (Elements (fold index_erase is m))"
proof (induction "is" arbitrary: m)
  case (Cons i "is")
  have "array_ok (Elements (index_erase i m))" using Cons.prems sorted_erase [of m i] by (auto simp: array_ok_def index_erase_def)
  with Cons.IH show ?case by simp
qed simp

lemma resize_shrink:
  assumes m: "array_ok (Elements m)" and n: "0 < n" "n \<le> array_size (Elements m)"
  shows "n - 1 \<in> fst ` set m \<Longrightarrow> \<exists>a'. resize n (Elements m) = Inr a' \<and> array_ok a' \<and> elements_of a' = take n (elements_of (Elements m))"
    and "n - 1 \<notin> fst ` set m \<Longrightarrow> resize n (Elements m) = Inl (LogicError ''assert json failed'')"
proof -
  define m' where "m' = fold index_erase [n..<array_size (Elements m)] m"
  have m': "array_ok (Elements m')" "map_of m' k = (if k < n then map_of m k else None)" for k
    using fold_erase_ok [OF m] slot_beyond [OF m, of k] array_size_bounds(1) [OF m]
    by (auto simp: m'_def fold_erase map_of_eq_None_iff not_less)
  have r: "resize n (Elements m) = (if array_size (Elements m') = n then Inr (Elements m') else Inl (LogicError ''assert json failed''))"
    using n by (simp add: resize_def m'_def Let_def)
  have b: "\<forall>k \<in> fst ` set m'. k < n" using m'(2) by (metis keys_map_of)
  show "\<exists>a'. resize n (Elements m) = Inr a' \<and> array_ok a' \<and> elements_of a' = take n (elements_of (Elements m))" if "n - 1 \<in> fst ` set m"
  proof -
    have "n - 1 \<in> fst ` set m'" using that n(1) m'(2) [of "n - 1"] by (simp add: keys_map_of)
    then have s: "array_size (Elements m') = n" using array_size_eqI [OF m'(1) b] by simp
    have "elements_of (Elements m') = take n (elements_of (Elements m))"
      by (rule elements_of_eqI) (use s n m'(2) in \<open>auto simp: elements_of_def slot_def\<close>)
    with r s m'(1) show ?thesis by simp
  qed
  show "resize n (Elements m) = Inl (LogicError ''assert json failed'')" if "n - 1 \<notin> fst ` set m"
  proof -
    have "n - 1 \<notin> fst ` set m'" using that m'(2) [of "n - 1"] by (simp add: keys_map_of)
    then have "array_size (Elements m') \<noteq> n"
      using array_size_bounds(2) [OF m'(1)] n(1) by (cases "m' = []") (auto simp: array_size_def)
    with r show ?thesis by simp
  qed
qed

lemma resize_grow:
  assumes "array_ok a" "array_size a < n" "n < 2 ^ 32"
  shows "\<exists>a'. resize n a = Inr a' \<and> array_ok a' \<and> elements_of a' = elements_of a @ replicate (n - array_size a) nullValue"
proof -
  define b where "b = Elements (case a of Elements m \<Rightarrow> m | _ \<Rightarrow> [])"
  have b: "array_ok b" "array_size b = array_size a" "elements_of b = elements_of a" "resize n a = array_at (n - 1) b"
    using assms by (cases a; simp add: b_def array_size_def resize_def Let_def)+
  show ?thesis using array_at_elements [OF b(1), of "n - 1"] assms b by simp
qed

section \<open>Removing an element\<close>

lemma shift_left_put:
  assumes "sorted_indices m"
  shows "shift_left i m = index_put i (slot m (i + 1)) (index_put (i + 1) (slot m (i + 1)) m)"
  using index_resolve_put [OF assms, of "i + 1"] map_of_resolve [OF assms, of "i + 1"]
  by (simp add: shift_left_def index_put_def slot_def Let_def)

lemma slot_put: "sorted_indices m \<Longrightarrow> slot (index_put i w m) k = (if k = i then w else slot m k)"
  by (simp add: slot_def map_of_put)

lemma fold_shift_left:
  assumes m: "array_ok (Elements m)" and j: "i \<le> j" "j < array_size (Elements m)"
  shows "array_ok (Elements (fold shift_left [i..<j] m)) \<and> array_size (Elements (fold shift_left [i..<j] m)) = array_size (Elements m)
    \<and> (i < j \<longrightarrow> j - 1 \<in> fst ` set (fold shift_left [i..<j] m))
    \<and> (\<forall>k. slot (fold shift_left [i..<j] m) k = (if i \<le> k \<and> k < j then slot m (k + 1) else slot m k))"
  using j
proof (induction j rule: dec_induct)
  case base
  then show ?case using m by auto
next
  case (step j)
  let ?m = "fold shift_left [i..<j] m"
  have IH: "array_ok (Elements ?m)" "array_size (Elements ?m) = array_size (Elements m)"
      "\<And>k. slot ?m k = (if i \<le> k \<and> k < j then slot m (k + 1) else slot m k)"
    using step by auto
  then have s: "sorted_indices ?m" by (simp add: array_ok_def)
  have lt: "j + 1 < 2 ^ 32 - 1" "Suc j < array_size (Elements m)" using step.prems array_size_bounds(3) [OF m] by linarith+
  define m1 where "m1 = index_put (j + 1) (slot ?m (j + 1)) ?m"
  have m1: "array_ok (Elements m1)" "array_size (Elements m1) = array_size (Elements m)" "sorted_indices m1"
    using array_ok_put [OF IH(1) lt(1)] array_size_put [OF IH(1) lt(1)] IH(2) lt(2) by (simp_all add: m1_def s sorted_put)
  have f: "fold shift_left [i..<Suc j] m = index_put j (slot ?m (j + 1)) m1"
    using step.hyps(1) by (simp add: shift_left_put [OF s] m1_def)
  have "array_ok (Elements (index_put j (slot ?m (j + 1)) m1))" using array_ok_put [OF m1(1), of j] lt(1) by simp
  moreover have "array_size (Elements (index_put j (slot ?m (j + 1)) m1)) = array_size (Elements m)"
    using array_size_put [OF m1(1), of j] m1(2) lt by simp
  moreover have "slot (index_put j (slot ?m (j + 1)) m1) k = (if i \<le> k \<and> k < Suc j then slot m (k + 1) else slot m k)" for k
  proof -
    have "slot m1 k = slot ?m k" by (simp add: m1_def slot_put s)
    then show ?thesis using step.hyps(1) by (auto simp: slot_put m1(3) IH(3) less_Suc_eq)
  qed
  ultimately show ?case by (simp only: f) (simp add: keys_put)
qed

lemma erase_last:
  assumes m: "array_ok (Elements m)" "m \<noteq> []" and n: "Suc n = array_size (Elements m)" "n = 0 \<or> n - 1 \<in> fst ` set m"
  shows "array_ok (Elements (index_erase n m)) \<and> elements_of (Elements (index_erase n m)) = butlast (elements_of (Elements m))"
proof -
  have ok: "array_ok (Elements (index_erase n m))" using fold_erase_ok [OF m(1), of "[n]"] by simp
  have "array_size (Elements (index_erase n m)) = n"
  proof (rule array_size_eqI [OF ok])
    show "\<forall>k \<in> fst ` set (index_erase n m). k < n"
      using array_size_bounds(1) [OF m(1)] n(1) by (auto simp: index_erase_def)
    show "n - 1 \<in> fst ` set (index_erase n m)" if "n \<noteq> 0" using n(2) that by (auto simp: index_erase_def)
  qed
  then have "elements_of (Elements (index_erase n m)) = butlast (elements_of (Elements m))"
    using n(1) by (intro elements_of_eqI) (auto simp: nth_butlast elements_of_def slot_def map_of_erase)
  with ok show ?thesis by blast
qed

lemma removeIndex_elements:
  assumes m: "array_ok (Elements m)" and i: "map_of m i = Some v" and hole: "Suc i < array_size (Elements m) \<or> i = 0 \<or> i - 1 \<in> fst ` set m"
  shows "\<exists>a'. removeIndex i (Elements m) = (True, Some v, a') \<and> array_ok a'
    \<and> elements_of a' = take i (elements_of (Elements m)) @ drop (Suc i) (elements_of (Elements m))"
proof -
  define n where "n = array_size (Elements m) - 1"
  have "i \<in> fst ` set m" using i by (simp add: keys_map_of)
  then have n: "Suc n = array_size (Elements m)" "i \<le> n" using array_size_bounds(1) [OF m] by (auto simp: n_def)
  define m' where "m' = fold shift_left [i..<n] m"
  have m': "array_ok (Elements m')" "array_size (Elements m') = Suc n" "i < n \<Longrightarrow> n - 1 \<in> fst ` set m'"
      "\<And>k. slot m' k = (if i \<le> k \<and> k < n then slot m (k + 1) else slot m k)"
    using fold_shift_left [OF m n(2)] n(1) by (auto simp: m'_def)
  have "m' \<noteq> []" using m'(2) by (auto simp: array_size_def)
  moreover have "n = 0 \<or> n - 1 \<in> fst ` set m'" using m'(3) hole n by (cases "i = n") (auto simp: m'_def)
  ultimately have e: "array_ok (Elements (index_erase n m'))" "elements_of (Elements (index_erase n m')) = butlast (elements_of (Elements m'))"
    using erase_last [OF m'(1)] m'(2) by auto
  have "butlast (elements_of (Elements m')) = take i (elements_of (Elements m)) @ drop (Suc i) (elements_of (Elements m))"
    using n m'(2,4) by (intro nth_equalityI) (auto simp: nth_butlast nth_append elements_of_def)
  with e i show ?thesis by (simp add: removeIndex_def Let_def n_def m'_def)
qed

text \<open>Appending to an array without holes leaves none: here the list of the elements says all.\<close>

definition array_of :: "Value list \<Rightarrow> array" where
  "array_of vs = Elements (enumerate 0 vs)"

lemma append_array_of:
  assumes "length vs < 2 ^ 32 - 1"
  shows "append_element w (array_of vs) = Inr (array_of (vs @ [w]))" "elements_of (array_of vs) = vs"
proof -
  have size: "array_size (array_of vs) = length vs"
    using assms by (cases vs rule: rev_cases) (simp_all add: array_of_def array_size_def enumerate_append_eq)
  have "index_put (n + length vs) w (enumerate n vs) = enumerate n vs @ [(n + length vs, w)]" for n
  proof (induction vs arbitrary: n)
    case (Cons v vs)
    from Cons.IH [of "Suc n"] show ?case by (simp add: index_put_def)
  qed (simp add: index_put_def)
  from this [of 0] show "append_element w (array_of vs) = Inr (array_of (vs @ [w]))"
    using size by (simp add: append_element_def assign_put array_of_def enumerate_append_eq)
  show "elements_of (array_of vs) = vs"
    unfolding array_of_def
    by (rule elements_of_eqI) (use size in \<open>auto simp: array_of_def slot_def in_set_enumerate_eq map_of_eq_Some_iff split: option.split\<close>)
qed

section \<open>Properties\<close>

text \<open>
  C14. Arrays implement lists that are padded with nulls: any sequence of assignments, appends and accesses whose indices stay
  below the largest one succeeds on a null value, and the result has the size and, at every index, the element of the list on which the
  same operations were done, and null beyond it.
\<close>

theorem array_operations_refine_lists:
  assumes "in_bounds ops 0"
  shows "\<exists>a. run_array ops NullArray = Inr a \<and> array_size a = length (run_list ops [])
    \<and> (\<forall>i. element i a = Inr (if i < length (run_list ops []) then run_list ops [] ! i else nullValue))"
proof -
  have "in_bounds ops (array_size NullArray)" using assms by (simp add: array_size_def)
  from run_array_list [OF array_ok_simps(2) this] obtain a where a: "run_array ops NullArray = Inr a" "array_ok a" "elements_of a = run_list ops []"
    by auto
  with arrays.look_at [OF a(2)] length_elements_of [of a] show ?thesis by auto
qed

theorem array_operations_refine_lists_witness:
  "\<exists>a. run_array [Assign 2 (intValue 7), Append (booleanValue True), At 0] NullArray = Inr a
    \<and> array_size a = length (run_list [Assign 2 (intValue 7), Append (booleanValue True), At 0] [])
    \<and> (\<forall>i. element i a = Inr (if i < length (run_list [Assign 2 (intValue 7), Append (booleanValue True), At 0] [])
        then run_list [Assign 2 (intValue 7), Append (booleanValue True), At 0] [] ! i else nullValue))"
  by (rule array_operations_refine_lists) simp

text \<open>
  \<open>removeIndex\<close> of an index that has an entry returns it and moves the elements behind it one down, as in a list,
  unless it is the last one and stands behind a hole.
\<close>

lemma removeIndex_removes:
  assumes "array_ok (Elements m)" "map_of m i = Some v" "Suc i < array_size (Elements m) \<or> i = 0 \<or> i - 1 \<in> fst ` set m"
  shows "\<exists>a'. removeIndex i (Elements m) = (True, Some v, a') \<and> array_ok a'
    \<and> elements_of a' = take i (elements_of (Elements m)) @ drop (Suc i) (elements_of (Elements m))"
  by (rule removeIndex_elements [OF assms])


text \<open>
  \<open>resize\<close> makes an array longer by one entry at its end, and the shorter sizes are then not available: making a null value
  an array of some size and then of a smaller one that is not zero throws, because the size is taken from the highest index and the
  entries in between were never made.
\<close>

lemma resize_down_throws:
  assumes "0 < n" "n < k" "k < 2 ^ 32"
  shows "\<exists>a. resize k NullArray = Inr a \<and> array_size a = k \<and> resize n a = Inl (LogicError ''assert json failed'')"
proof -
  have r: "resize k NullArray = Inr (Elements [(k - 1, nullValue)])"
    using assms by (simp add: resize_def array_at_def array_size_def)
  have ok: "array_ok (Elements [(k - 1, nullValue)])" "array_size (Elements [(k - 1, nullValue)]) = k"
    using assms by (auto simp: array_ok_def sorted_indices_def array_size_def)
  have "resize n (Elements [(k - 1, nullValue)]) = Inl (LogicError ''assert json failed'')"
    by (rule resize_shrink(2) [OF ok(1)]) (use assms ok(2) in auto)
  with r ok(2) show ?thesis by blast
qed


text \<open>Two arrays that read the same at every index and print the same, and are not the same map.\<close>

lemma holes_differ:
  "resize 2 NullArray = Inr (Elements [(1, nullValue)])"
  "elements_of (Elements [(1, nullValue)]) = elements_of (array_of [nullValue, nullValue])"
  "Elements [(1, nullValue)] \<noteq> array_of [nullValue, nullValue]"
  by (simp_all add: resize_def array_at_def array_size_def elements_of_def slot_def array_of_def upt_conv_Cons)

end
