(* ===== verification/Json_Operations.thy ===== *)
theory Json_Operations
  imports Json_Settings "HOL-Library.List_Lexorder"
begin

text \<open>
  The operations of \<open>Json::Value\<close> in \<open>json/jsoncpp.cpp\<close> beyond the ones the service uses: types and conversions,
  comparison, and the members of objects. Arrays are lists, as in the other theories, so that their keys agree when
  their sizes do.
\<close>

section \<open>Types\<close>

datatype ValueType = nullType | intType | uintType | realType | stringType | booleanType | arrayType | objectType

fun type_of :: "Value \<Rightarrow> ValueType" where
  "type_of nullValue = nullType"
| "type_of (intValue n) = intType"
| "type_of (uintValue n) = uintType"
| "type_of (realValue d) = realType"
| "type_of (stringValue s) = stringType"
| "type_of (booleanValue b) = booleanType"
| "type_of (arrayValue vs) = arrayType"
| "type_of (objectValue ms) = objectType"

text \<open>The numbers of the enumeration.\<close>

fun type_number :: "ValueType \<Rightarrow> int" where
  "type_number nullType = 0"
| "type_number intType = 1"
| "type_number uintType = 2"
| "type_number realType = 3"
| "type_number stringType = 4"
| "type_number booleanType = 5"
| "type_number arrayType = 6"
| "type_number objectType = 7"

text \<open>The constructor from a type.\<close>

fun value_of_type :: "ValueType \<Rightarrow> Value" where
  "value_of_type nullType = nullValue"
| "value_of_type intType = intValue 0"
| "value_of_type uintType = uintValue 0"
| "value_of_type realType = realValue 0"
| "value_of_type stringType = stringValue []"
| "value_of_type booleanType = booleanValue False"
| "value_of_type arrayType = arrayValue []"
| "value_of_type objectType = objectValue []"

definition isBool :: "Value \<Rightarrow> bool" where
  "isBool v \<longleftrightarrow> type_of v = booleanType"

definition isString :: "Value \<Rightarrow> bool" where
  "isString v \<longleftrightarrow> type_of v = stringType"

definition isArray :: "Value \<Rightarrow> bool" where
  "isArray v \<longleftrightarrow> type_of v = arrayType"

definition isObject :: "Value \<Rightarrow> bool" where
  "isObject v \<longleftrightarrow> type_of v = objectType"

definition isDouble :: "Value \<Rightarrow> bool" where
  "isDouble v \<longleftrightarrow> type_of v = intType \<or> type_of v = uintType \<or> type_of v = realType"

definition isNumeric :: "Value \<Rightarrow> bool" where
  "isNumeric v \<longleftrightarrow> isDouble v"

text \<open>\<open>modf\<close> of an infinite number has the fraction zero, of no number none.\<close>

definition IsIntegral_double :: "64 word \<Rightarrow> bool" where
  "IsIntegral_double d \<longleftrightarrow> (if isfinite d then double_units d mod 2 ^ 1074 = 0 else \<not> isnan d)"

text \<open>A double in a range whose upper end does not belong to it.\<close>

definition below_range :: "64 word \<Rightarrow> int \<Rightarrow> int \<Rightarrow> bool" where
  "below_range d lo hi \<longleftrightarrow> isfinite d \<and> lo * 2 ^ 1074 \<le> double_units d \<and> double_units d < hi * 2 ^ 1074"

definition isInt :: "Value \<Rightarrow> bool" where
  "isInt v =
     (case v of
        intValue n \<Rightarrow> - (2 ^ 31) \<le> n \<and> n \<le> 2 ^ 31 - 1
      | uintValue n \<Rightarrow> n \<le> 2 ^ 31 - 1
      | realValue d \<Rightarrow> InRange d (- (2 ^ 31)) (2 ^ 31 - 1) \<and> IsIntegral_double d
      | _ \<Rightarrow> False)"

definition isUInt :: "Value \<Rightarrow> bool" where
  "isUInt v =
     (case v of
        intValue n \<Rightarrow> 0 \<le> n \<and> n \<le> 2 ^ 32 - 1
      | uintValue n \<Rightarrow> n \<le> 2 ^ 32 - 1
      | realValue d \<Rightarrow> InRange d 0 (2 ^ 32 - 1) \<and> IsIntegral_double d
      | _ \<Rightarrow> False)"

definition isInt64 :: "Value \<Rightarrow> bool" where
  "isInt64 v =
     (case v of
        intValue n \<Rightarrow> True
      | uintValue n \<Rightarrow> n \<le> 2 ^ 63 - 1
      | realValue d \<Rightarrow> below_range d (- (2 ^ 63)) (2 ^ 63) \<and> IsIntegral_double d
      | _ \<Rightarrow> False)"

definition isUInt64 :: "Value \<Rightarrow> bool" where
  "isUInt64 v =
     (case v of
        intValue n \<Rightarrow> 0 \<le> n
      | uintValue n \<Rightarrow> True
      | realValue d \<Rightarrow> below_range d 0 (2 ^ 64) \<and> IsIntegral_double d
      | _ \<Rightarrow> False)"

definition isIntegral :: "Value \<Rightarrow> bool" where
  "isIntegral v =
     (case v of
        intValue n \<Rightarrow> True
      | uintValue n \<Rightarrow> True
      | realValue d \<Rightarrow> below_range d (- (2 ^ 63)) (2 ^ 64) \<and> IsIntegral_double d
      | _ \<Rightarrow> False)"

section \<open>Conversions\<close>

text \<open>The conversion of a double to a signed integer drops the fraction, towards zero.\<close>

definition double_to_int :: "64 word \<Rightarrow> int" where
  "double_to_int d = (let u = double_units d in if u < 0 then - (- u div 2 ^ 1074) else u div 2 ^ 1074)"

definition asInt :: "Value \<Rightarrow> int result" where
  "asInt v =
     (case v of
        intValue n \<Rightarrow> if isInt v then Inr n else Inl (LogicError ''LargestInt out of Int range'')
      | uintValue n \<Rightarrow> if isInt v then Inr (int n) else Inl (LogicError ''LargestUInt out of Int range'')
      | realValue d \<Rightarrow>
          if InRange d (- (2 ^ 31)) (2 ^ 31 - 1) then Inr (double_to_int d) else Inl (LogicError ''double out of Int range'')
      | nullValue \<Rightarrow> Inr 0
      | booleanValue b \<Rightarrow> Inr (if b then 1 else 0)
      | _ \<Rightarrow> Inl (LogicError ''Value is not convertible to Int.''))"

text \<open>
  As for \<open>UInt64\<close>, the upper end of the range is rounded to \<open>2 ^ 63\<close>, whose conversion the language does not define.
\<close>

definition asInt64 :: "Value \<Rightarrow> int result" where
  "asInt64 v =
     (case v of
        intValue n \<Rightarrow> Inr n
      | uintValue n \<Rightarrow> if isInt64 v then Inr (int n) else Inl (LogicError ''LargestUInt out of Int64 range'')
      | realValue d \<Rightarrow>
          if InRange d (- (2 ^ 63)) (2 ^ 63) then Inr (double_to_int d) else Inl (LogicError ''double out of Int64 range'')
      | nullValue \<Rightarrow> Inr 0
      | booleanValue b \<Rightarrow> Inr (if b then 1 else 0)
      | _ \<Rightarrow> Inl (LogicError ''Value is not convertible to Int64.''))"

text \<open>
  The conversion of an integer to a double: with at most 53 binary digits it is exact, otherwise the nearest double, the even one
  of two. The carry of the rounding goes into the exponent.
\<close>

fun binary_digits :: "nat \<Rightarrow> nat" where
  "binary_digits n = (if n = 0 then 0 else Suc (binary_digits (n div 2)))"

declare binary_digits.simps [simp del]

definition nat_to_double :: "nat \<Rightarrow> nat" where
  "nat_to_double n =
     (if n = 0 then 0
      else
        let e = binary_digits n - 1
        in if e \<le> 52 then (e + 1022) * 2 ^ 52 + n * 2 ^ (52 - e)
           else
             let q = n div 2 ^ (e - 52); r = n mod 2 ^ (e - 52); half = 2 ^ (e - 53);
                 q = (if r > half \<or> r = half \<and> odd q then q + 1 else q)
             in (e + 1022) * 2 ^ 52 + q)"

definition int_to_double :: "int \<Rightarrow> 64 word" where
  "int_to_double n = (if n < 0 then 2 ^ 63 + of_nat (nat_to_double (nat (- n))) else of_nat (nat_to_double (nat n)))"

definition asDouble :: "Value \<Rightarrow> 64 word result" where
  "asDouble v =
     (case v of
        intValue n \<Rightarrow> Inr (int_to_double n)
      | uintValue n \<Rightarrow> Inr (int_to_double (int n))
      | realValue d \<Rightarrow> Inr d
      | nullValue \<Rightarrow> Inr 0
      | booleanValue b \<Rightarrow> Inr (if b then int_to_double 1 else 0)
      | _ \<Rightarrow> Inl (LogicError ''Value is not convertible to double.''))"

lemma int_to_double_examples:
  "int_to_double 1 = 0x3FF0000000000000" "int_to_double (- 3) = 0xC008000000000000" "int_to_double (2 ^ 53 + 1) = 0x4340000000000000"
  "int_to_double (2 ^ 64 - 1) = 0x43F0000000000000"
  by (simp_all add: int_to_double_def nat_to_double_def binary_digits.simps Let_def)

definition is_zero :: "64 word \<Rightarrow> bool" where
  "is_zero d \<longleftrightarrow> isfinite d \<and> double_units d = 0"

definition isConvertibleTo :: "ValueType \<Rightarrow> Value \<Rightarrow> bool" where
  "isConvertibleTo other v =
     (case other of
        nullType \<Rightarrow>
          isNumeric v \<and> (case asDouble v of Inr d \<Rightarrow> is_zero d | Inl e \<Rightarrow> False)
          \<or> v = booleanValue False \<or> v = stringValue [] \<or> v = arrayValue [] \<or> v = objectValue [] \<or> v = nullValue
      | intType \<Rightarrow>
          isInt v \<or> (case v of realValue d \<Rightarrow> InRange d (- (2 ^ 31)) (2 ^ 31 - 1) | _ \<Rightarrow> False) \<or> isBool v \<or> isNull v
      | uintType \<Rightarrow>
          isUInt v \<or> (case v of realValue d \<Rightarrow> InRange d 0 (2 ^ 32 - 1) | _ \<Rightarrow> False) \<or> isBool v \<or> isNull v
      | realType \<Rightarrow> isNumeric v \<or> isBool v \<or> isNull v
      | booleanType \<Rightarrow> isNumeric v \<or> isBool v \<or> isNull v
      | stringType \<Rightarrow> isNumeric v \<or> isBool v \<or> isString v \<or> isNull v
      | arrayType \<Rightarrow> isArray v \<or> isNull v
      | objectType \<Rightarrow> isObject v \<or> isNull v)"

section \<open>Comparison\<close>

text \<open>Doubles compare as numbers; a double that is no number compares with nothing. Any bound beyond the largest double will do for the infinite ones.\<close>

definition real_key :: "64 word \<Rightarrow> int" where
  "real_key d = (if isfinite d then double_units d else if bit d 63 then - (2 ^ 2200) else 2 ^ 2200)"

definition real_less :: "64 word \<Rightarrow> 64 word \<Rightarrow> bool" where
  "real_less d e \<longleftrightarrow> \<not> isnan d \<and> \<not> isnan e \<and> real_key d < real_key e"

definition real_eq :: "64 word \<Rightarrow> 64 word \<Rightarrow> bool" where
  "real_eq d e \<longleftrightarrow> \<not> isnan d \<and> \<not> isnan e \<and> real_key d = real_key e"

text \<open>The difference of two sizes as an \<open>int\<close>.\<close>

definition size_delta :: "nat \<Rightarrow> nat \<Rightarrow> int" where
  "size_delta m n = signed_take_bit 31 (int m - int n)"

text \<open>\<open>operator<\<close>; the maps compare as sequences of pairs, and the pairs by key and value.\<close>

function Value_less :: "Value \<Rightarrow> Value \<Rightarrow> bool"
  and elements_less :: "Value list \<Rightarrow> Value list \<Rightarrow> bool"
  and members_less :: "members \<Rightarrow> members \<Rightarrow> bool" where
  "Value_less v w =
     (let typeDelta = type_number (type_of v) - type_number (type_of w)
      in if typeDelta \<noteq> 0 then typeDelta < 0
         else
           (case (v, w) of
              (intValue m, intValue n) \<Rightarrow> m < n
            | (uintValue m, uintValue n) \<Rightarrow> m < n
            | (realValue d, realValue e) \<Rightarrow> real_less d e
            | (booleanValue a, booleanValue b) \<Rightarrow> \<not> a \<and> b
            | (stringValue s, stringValue t) \<Rightarrow> CZString_less s t
            | (arrayValue vs, arrayValue ws) \<Rightarrow>
                let delta = size_delta (length vs) (length ws) in if delta \<noteq> 0 then delta < 0 else elements_less vs ws
            | (objectValue ms, objectValue ns) \<Rightarrow>
                let delta = size_delta (length ms) (length ns) in if delta \<noteq> 0 then delta < 0 else members_less ms ns
            | _ \<Rightarrow> False))"
| "elements_less (v # vs) (w # ws) =
     (if Value_less v w then True else if Value_less w v then False else elements_less vs ws)"
| "elements_less [] (w # ws) = True"
| "elements_less vs [] = False"
| "members_less (m # ms) (n # ns) =
     (let m_n = CZString_less (fst m) (fst n) \<or> \<not> CZString_less (fst n) (fst m) \<and> Value_less (snd m) (snd n);
          n_m = CZString_less (fst n) (fst m) \<or> \<not> CZString_less (fst m) (fst n) \<and> Value_less (snd n) (snd m)
      in if m_n then True else if n_m then False else members_less ms ns)"
| "members_less [] (n # ns) = True"
| "members_less ms [] = False"
  by pat_completeness auto

termination
  by (relation "measure (case_sum (\<lambda>(v, w). size v + size w)
      (case_sum (\<lambda>(vs, ws). size_list size vs + size_list size ws) (\<lambda>(ms, ns). size_list (size_prod (\<lambda>k. 0) size) ms + size_list (size_prod (\<lambda>k. 0) size) ns)))") auto

declare Value_less.simps [simp del]

text \<open>\<open>operator==\<close>.\<close>

fun Value_eq :: "Value \<Rightarrow> Value \<Rightarrow> bool"
  and elements_eq :: "Value list \<Rightarrow> Value list \<Rightarrow> bool"
  and members_eq :: "members \<Rightarrow> members \<Rightarrow> bool" where
  "Value_eq nullValue nullValue = True"
| "Value_eq (intValue m) (intValue n) = (m = n)"
| "Value_eq (uintValue m) (uintValue n) = (m = n)"
| "Value_eq (realValue d) (realValue e) = real_eq d e"
| "Value_eq (booleanValue a) (booleanValue b) = (a = b)"
| "Value_eq (stringValue s) (stringValue t) = (s = t)"
| "Value_eq (arrayValue vs) (arrayValue ws) = (length vs = length ws \<and> elements_eq vs ws)"
| "Value_eq (objectValue ms) (objectValue ns) = (length ms = length ns \<and> members_eq ms ns)"
| "Value_eq v w = False"
| "elements_eq (v # vs) (w # ws) = (Value_eq v w \<and> elements_eq vs ws)"
| "elements_eq vs ws = (vs = [] \<and> ws = [])"
| "members_eq (m # ms) (n # ns) = (fst m = fst n \<and> Value_eq (snd m) (snd n) \<and> members_eq ms ns)"
| "members_eq ms ns = (ms = [] \<and> ns = [])"

definition Value_compare :: "Value \<Rightarrow> Value \<Rightarrow> int" where
  "Value_compare v w = (if Value_less v w then - 1 else if Value_less w v then 1 else 0)"

section \<open>Sizes and members\<close>

definition Value_size :: "Value \<Rightarrow> nat" where
  "Value_size v = (case v of arrayValue vs \<Rightarrow> length vs | objectValue ms \<Rightarrow> length ms mod 2 ^ 32 | _ \<Rightarrow> 0)"

definition Value_clear :: "Value \<Rightarrow> Value result" where
  "Value_clear v =
     (case v of
        nullValue \<Rightarrow> Inr nullValue
      | arrayValue vs \<Rightarrow> Inr (arrayValue [])
      | objectValue ms \<Rightarrow> Inr (objectValue [])
      | _ \<Rightarrow> Inl (LogicError ''in Json::Value::clear(): requires complex value''))"

definition get_member :: "string \<Rightarrow> Value \<Rightarrow> Value \<Rightarrow> Value result" where
  "get_member key defaultValue v =
     bind_result (Value_find key v) (\<lambda>found. Inr (case found of None \<Rightarrow> defaultValue | Some w \<Rightarrow> w))"

definition isMember :: "string \<Rightarrow> Value \<Rightarrow> bool result" where
  "isMember key v = bind_result (Value_find key v) (\<lambda>found. Inr (found \<noteq> None))"

text \<open>\<open>demand\<close>: the value with the member that it returns a pointer to.\<close>

definition demand :: "string \<Rightarrow> Value \<Rightarrow> Value result" where
  "demand key v =
     (case v of
        nullValue \<Rightarrow> bind_result (resolveReference key v) (\<lambda>ms. Inr (objectValue ms))
      | objectValue ms \<Rightarrow> bind_result (resolveReference key v) (\<lambda>ms. Inr (objectValue ms))
      | _ \<Rightarrow> Inl (LogicError ''in Json::Value::demand(begin, end): requires objectValue or nullValue''))"

definition members_erase :: "string \<Rightarrow> members \<Rightarrow> members" where
  "members_erase key ms = filter (\<lambda>m. fst m \<noteq> key) ms"

text \<open>\<open>removeMember\<close> with an argument for the removed value: whether there was one, that value, and what is left.\<close>

definition removeMember :: "string \<Rightarrow> Value \<Rightarrow> bool \<times> Value option \<times> Value" where
  "removeMember key v =
     (case v of
        objectValue ms \<Rightarrow>
          (case members_find key ms of
             None \<Rightarrow> (False, None, v)
           | Some w \<Rightarrow> (True, Some w, objectValue (members_erase key ms)))
      | _ \<Rightarrow> (False, None, v))"

text \<open>\<open>removeMember\<close> without it takes a C string, which a \<open>String\<close> is passed as: the key ends at the first zero byte.\<close>

definition removeMember_key :: "string \<Rightarrow> Value \<Rightarrow> Value result" where
  "removeMember_key key v =
     (case v of
        nullValue \<Rightarrow> Inr nullValue
      | objectValue ms \<Rightarrow> Inr (objectValue (members_erase (takeWhile (\<lambda>c. c \<noteq> CHR 0x00) key) ms))
      | _ \<Rightarrow> Inl (LogicError ''in Json::Value::removeMember(): requires objectValue''))"

lemma members_find_erase: "members_find k (members_erase key ms) = (if k = key then None else members_find k ms)"
  by (induction ms) (auto simp: members_find_def members_erase_def)

lemma sorted_members_erase: "sorted_members ms \<Longrightarrow> sorted_members (members_erase key ms)"
  unfolding sorted_members_def members_erase_def by (induction ms) auto

section \<open>The order of values\<close>

text \<open>A list of numbers for every value: the lists are ordered from left to right, and no list is the beginning of another.\<close>

definition text_key :: "string \<Rightarrow> int list" where
  "text_key s = map (\<lambda>c. int (byte c) + 1) s @ [0]"

fun value_key :: "Value \<Rightarrow> int list"
  and elements_key :: "Value list \<Rightarrow> int list"
  and members_key :: "members \<Rightarrow> int list" where
  "value_key nullValue = [0]"
| "value_key (intValue n) = [1, n]"
| "value_key (uintValue n) = [2, int n]"
| "value_key (realValue d) = [3, real_key d]"
| "value_key (stringValue s) = 4 # text_key s"
| "value_key (booleanValue b) = [5, if b then 1 else 0]"
| "value_key (arrayValue vs) = 6 # int (length vs) # elements_key vs"
| "value_key (objectValue ms) = 7 # int (length ms) # members_key ms"
| "elements_key [] = []"
| "elements_key (v # vs) = value_key v @ elements_key vs"
| "members_key [] = []"
| "members_key (m # ms) = text_key (fst m) @ value_key (snd m) @ members_key ms"

text \<open>Values without doubles that are no numbers, and with fewer than \<open>2 ^ 31\<close> elements or members each.\<close>

fun orderable :: "Value \<Rightarrow> bool" where
  "orderable (realValue d) = (\<not> isnan d)"
| "orderable (arrayValue vs) = (length vs < 2 ^ 31 \<and> list_all orderable vs)"
| "orderable (objectValue ms) = (length ms < 2 ^ 31 \<and> list_all (\<lambda>m. orderable (snd m)) ms)"
| "orderable v = True"

lemma text_key_less: "text_key s @ x < text_key t @ y \<longleftrightarrow> CZString_less s t \<or> s = t \<and> x < y"
proof (induction s t rule: CZString_less.induct)
  case (1 s)
  then show ?case by (cases s) (auto simp: text_key_def)
qed (auto simp: text_key_def)

lemma size_delta_less: "m < 2 ^ 31 \<Longrightarrow> n < 2 ^ 31 \<Longrightarrow> size_delta m n = int m - int n"
  unfolding size_delta_def by (rule signed_take_bit_int_eq_self) auto

text \<open>How sequences compare, from how their parts do.\<close>

lemma append_less:
  fixes a b c d :: "int list"
  assumes P: "\<And>x y. a @ x < b @ y \<longleftrightarrow> P \<or> a = b \<and> x < y" and Q: "\<not> P \<Longrightarrow> (\<And>x y. b @ x < a @ y \<longleftrightarrow> Q \<or> b = a \<and> x < y)"
    and R: "\<not> P \<Longrightarrow> \<not> Q \<Longrightarrow> (\<And>x y. c @ x < d @ y \<longleftrightarrow> R \<or> c = d \<and> x < y)"
  shows "a @ c @ x < b @ d @ y \<longleftrightarrow> (P \<or> \<not> Q \<and> R) \<or> a @ c = b @ d \<and> x < y"
proof (cases P)
  case True
  then show ?thesis using P by simp
next
  case False
  note Q = Q [OF False]
  show ?thesis
  proof (cases Q)
    case True
    have "a \<noteq> b" using Q [of "[]" "[]"] True by auto
    moreover have "a @ c \<noteq> b @ d" using Q [of d c] True by auto
    ultimately show ?thesis using P True False by simp
  next
    case q: False
    have "a = b" using P [of "[]" "[]"] Q [of "[]" "[]"] False q by auto
    then show ?thesis using P R [OF False q, of x y] False q by simp
  qed
qed

lemma text_key_eq [simp]: "text_key s = text_key t \<longleftrightarrow> s = t"
proof -
  have "inj (\<lambda>c. int (byte c) + 1)" by (auto intro!: injI)
  then show ?thesis by (simp add: text_key_def inj_map_eq_map)
qed

lemma Value_less_simps:
  "type_of v \<noteq> type_of w \<Longrightarrow> Value_less v w \<longleftrightarrow> type_number (type_of v) < type_number (type_of w)"
  "Value_less nullValue nullValue \<longleftrightarrow> False" "Value_less (intValue m) (intValue n) \<longleftrightarrow> m < n" "Value_less (uintValue k) (uintValue l) \<longleftrightarrow> k < l"
  "Value_less (realValue d) (realValue e) \<longleftrightarrow> real_less d e" "Value_less (booleanValue a) (booleanValue b) \<longleftrightarrow> \<not> a \<and> b"
  "Value_less (stringValue s) (stringValue t) \<longleftrightarrow> CZString_less s t"
proof -
  show "Value_less v w \<longleftrightarrow> type_number (type_of v) < type_number (type_of w)" if "type_of v \<noteq> type_of w"
  proof -
    have "type_number (type_of v) \<noteq> type_number (type_of w)" using that by (cases v; cases w) simp_all
    then show ?thesis by (subst Value_less.simps) (simp add: Let_def)
  qed
qed (simp_all add: Value_less.simps)

lemma Value_less_maps:
  "length vs < 2 ^ 31 \<Longrightarrow> length ws < 2 ^ 31 \<Longrightarrow>
     Value_less (arrayValue vs) (arrayValue ws) \<longleftrightarrow> length vs < length ws \<or> length vs = length ws \<and> elements_less vs ws"
  "length ms < 2 ^ 31 \<Longrightarrow> length ns < 2 ^ 31 \<Longrightarrow>
     Value_less (objectValue ms) (objectValue ns) \<longleftrightarrow> length ms < length ns \<or> length ms = length ns \<and> members_less ms ns"
  by (auto simp: Value_less.simps size_delta_less Let_def)

text \<open>Values of different types are told apart by the first number of their keys.\<close>

lemma value_key_type: "\<exists>k. value_key v = type_number (type_of v) # k"
  by (cases v) simp_all

lemma less_key_type:
  assumes "type_of v \<noteq> type_of w"
  shows "value_key v @ x < value_key w @ y \<longleftrightarrow> Value_less v w \<or> value_key v = value_key w \<and> x < y"
proof -
  have "type_number (type_of v) \<noteq> type_number (type_of w)" using assms by (cases v; cases w) simp_all
  then show ?thesis using value_key_type [of v] value_key_type [of w] by (auto simp: Value_less_simps(1) [OF assms])
qed

lemma less_key:
  "orderable v \<Longrightarrow> orderable w \<Longrightarrow> value_key v @ x < value_key w @ y \<longleftrightarrow> Value_less v w \<or> value_key v = value_key w \<and> x < y"
  "length vs = length ws \<Longrightarrow> list_all orderable vs \<Longrightarrow> list_all orderable ws \<Longrightarrow>
     elements_key vs @ x < elements_key ws @ y \<longleftrightarrow> elements_less vs ws \<or> elements_key vs = elements_key ws \<and> x < y"
  "length ms = length ns \<Longrightarrow> list_all (\<lambda>m. orderable (snd m)) ms \<Longrightarrow> list_all (\<lambda>m. orderable (snd m)) ns \<Longrightarrow>
     members_key ms @ x < members_key ns @ y \<longleftrightarrow> members_less ms ns \<or> members_key ms = members_key ns \<and> x < y"
proof (induction v w and vs ws and ms ns arbitrary: x y and x y and x y rule: Value_less_elements_less_members_less.induct)
  case (1 v w)
  show ?case
  proof (cases "type_of v = type_of w")
    case False
    then show ?thesis by (rule less_key_type)
  next
    case True
    show ?thesis
    proof (cases v)
      case (stringValue s)
      with True text_key_less show ?thesis by (cases w) (auto simp: Value_less_simps)
    next
      case (arrayValue vs)
      with True obtain ws where w: "w = arrayValue ws" by (cases w) simp_all
      have "length vs = length ws \<Longrightarrow> elements_key vs @ x < elements_key ws @ y \<longleftrightarrow> elements_less vs ws \<or> elements_key vs = elements_key ws \<and> x < y"
        using 1 arrayValue w by (simp add: size_delta_def)
      with 1 arrayValue w show ?thesis by (auto simp: Value_less_maps)
    next
      case (objectValue ms)
      with True obtain ns where w: "w = objectValue ns" by (cases w) simp_all
      have "length ms = length ns \<Longrightarrow> members_key ms @ x < members_key ns @ y \<longleftrightarrow> members_less ms ns \<or> members_key ms = members_key ns \<and> x < y"
        using 1 objectValue w by (simp add: size_delta_def)
      with 1 objectValue w show ?thesis by (auto simp: Value_less_maps)
    qed (use True 1(3,4) in \<open>(cases w; auto simp: Value_less_simps real_less_def)+\<close>)
  qed
next
  case (2 v vs w ws)
  have "value_key v @ elements_key vs @ x < value_key w @ elements_key ws @ y
    \<longleftrightarrow> (Value_less v w \<or> \<not> Value_less w v \<and> elements_less vs ws) \<or> value_key v @ elements_key vs = value_key w @ elements_key ws \<and> x < y"
    by (rule append_less) (use 2 in auto)
  then show ?case by auto
next
  case (5 m ms n ns)
  let ?m = "text_key (fst m) @ value_key (snd m)" and ?n = "text_key (fst n) @ value_key (snd n)"
  let ?m_n = "CZString_less (fst m) (fst n) \<or> \<not> CZString_less (fst n) (fst m) \<and> Value_less (snd m) (snd n)"
  let ?n_m = "CZString_less (fst n) (fst m) \<or> \<not> CZString_less (fst m) (fst n) \<and> Value_less (snd n) (snd m)"
  have m_n: "?m @ x < ?n @ y \<longleftrightarrow> ?m_n \<or> ?m = ?n \<and> x < y" for x y
    unfolding append_assoc by (rule append_less) (use 5 text_key_less in auto)
  have n_m: "?n @ x < ?m @ y \<longleftrightarrow> ?n_m \<or> ?n = ?m \<and> x < y" for x y
    unfolding append_assoc by (rule append_less) (use 5 text_key_less in auto)
  have "?m @ members_key ms @ x < ?n @ members_key ns @ y \<longleftrightarrow> (?m_n \<or> \<not> ?n_m \<and> members_less ms ns) \<or> ?m @ members_key ms = ?n @ members_key ns \<and> x < y"
    by (rule append_less [OF m_n n_m]) (use 5 in auto)
  then show ?case by (simp add: Let_def) (metis (full_types))
qed auto

lemma Value_less_key: "orderable v \<Longrightarrow> orderable w \<Longrightarrow> Value_less v w \<longleftrightarrow> value_key v < value_key w"
  using less_key(1) [of v w "[]" "[]"] by simp

lemma value_key_append:
  assumes "orderable v" "orderable w"
  shows "value_key v @ x = value_key w @ y \<longleftrightarrow> value_key v = value_key w \<and> x = y"
proof
  assume eq: "value_key v @ x = value_key w @ y"
  then have "\<not> Value_less v w" "\<not> Value_less w v"
    using less_key(1) [OF assms, of x y] less_key(1) [OF assms(2,1), of y x] by auto
  then have "value_key v = value_key w" using Value_less_key assms by (metis neqE)
  with eq show "value_key v = value_key w \<and> x = y" by simp
qed simp

lemma text_key_append: "text_key s @ x = text_key t @ y \<longleftrightarrow> s = t \<and> x = y"
proof (induction s arbitrary: t)
  case Nil
  then show ?case by (cases t) (auto simp: text_key_def)
next
  case (Cons c s)
  show ?case
  proof (cases t)
    case (Cons d u)
    then show ?thesis using Cons.IH [of u] by (auto simp: text_key_def)
  qed (auto simp: text_key_def)
qed

lemma eq_key:
  "orderable v \<Longrightarrow> orderable w \<Longrightarrow> Value_eq v w \<longleftrightarrow> value_key v = value_key w"
  "length vs = length ws \<Longrightarrow> list_all orderable vs \<Longrightarrow> list_all orderable ws \<Longrightarrow> elements_eq vs ws \<longleftrightarrow> elements_key vs = elements_key ws"
  "length ms = length ns \<Longrightarrow> list_all (\<lambda>m. orderable (snd m)) ms \<Longrightarrow> list_all (\<lambda>m. orderable (snd m)) ns \<Longrightarrow>
     members_eq ms ns \<longleftrightarrow> members_key ms = members_key ns"
  by (induction v w and vs ws and ms ns rule: Value_eq_elements_eq_members_eq.induct)
    (auto simp: value_key_append text_key_append real_eq_def)

text \<open>A comparison that is the order of keys behaves like an order, with the equality of keys as its equality.\<close>

locale keyed_order =
  fixes key :: "'a \<Rightarrow> 'k :: linorder" and ok :: "'a \<Rightarrow> bool" and less eq :: "'a \<Rightarrow> 'a \<Rightarrow> bool"
  assumes less_iff: "ok v \<Longrightarrow> ok w \<Longrightarrow> less v w \<longleftrightarrow> key v < key w" and eq_iff: "ok v \<Longrightarrow> ok w \<Longrightarrow> eq v w \<longleftrightarrow> key v = key w"
begin

lemma less_trans: "ok u \<Longrightarrow> ok v \<Longrightarrow> ok w \<Longrightarrow> less u v \<Longrightarrow> less v w \<Longrightarrow> less u w"
  by (auto simp: less_iff intro: order.strict_trans)

lemma trichotomy: "ok v \<Longrightarrow> ok w \<Longrightarrow> (less v w \<and> \<not> less w v \<and> \<not> eq v w) \<or> (less w v \<and> \<not> less v w \<and> \<not> eq v w) \<or> (eq v w \<and> \<not> less v w \<and> \<not> less w v)"
  by (auto simp: less_iff eq_iff)

lemma eq_less: "ok u \<Longrightarrow> ok v \<Longrightarrow> ok w \<Longrightarrow> eq u v \<Longrightarrow> less u w \<longleftrightarrow> less v w"
  by (auto simp: less_iff eq_iff)

end

interpretation value_order: keyed_order value_key orderable Value_less Value_eq
  by unfold_locales (simp_all add: Value_less_key eq_key)

section \<open>Properties\<close>

text \<open>
  C15. \<open>operator<\<close> and \<open>operator==\<close> of values fit together: on values without doubles that are no numbers and with
  fewer than \<open>2 ^ 31\<close> elements each, exactly one of less, greater and equal holds, less is transitive, and \<open>compare\<close>
  is zero for equal values only and changes its sign when its arguments change places.
\<close>

theorem values_are_ordered:
  assumes "orderable u" "orderable v" "orderable w"
  shows "(Value_less u v \<and> Value_less v w \<longrightarrow> Value_less u w)
    \<and> (Value_less u v \<and> \<not> Value_less v u \<and> \<not> Value_eq u v \<or> Value_less v u \<and> \<not> Value_less u v \<and> \<not> Value_eq u v
       \<or> Value_eq u v \<and> \<not> Value_less u v \<and> \<not> Value_less v u)
    \<and> (Value_compare u v = 0 \<longleftrightarrow> Value_eq u v) \<and> Value_compare v u = - Value_compare u v"
  using value_order.less_trans [OF assms] value_order.trichotomy [OF assms(1,2)] by (auto simp: Value_compare_def)

theorem values_are_ordered_witness:
  "Value_less (arrayValue [intValue 1]) (arrayValue [intValue 1, nullValue]) \<and> Value_compare (objectValue [(''a'', nullValue)]) (objectValue [(''b'', nullValue)]) = - 1
   \<and> Value_compare (objectValue [(''b'', nullValue)]) (objectValue [(''a'', nullValue)]) = 1"
  using values_are_ordered [of "objectValue [(''a'', nullValue)]" "objectValue [(''b'', nullValue)]" nullValue]
  by (simp add: Value_less.simps Value_compare_def size_delta_def Let_def)

text \<open>
  \<open>isConvertibleTo\<close> tells the truth: a value is convertible to an integer, an unsigned integer, a double, a
  boolean or a string exactly if the conversion does not throw.
\<close>

lemma isConvertibleTo_converts:
  "(isConvertibleTo intType v \<longleftrightarrow> (\<exists>n. asInt v = Inr n)) \<and> (isConvertibleTo uintType v \<longleftrightarrow> (\<exists>n. asUInt v = Inr n))
   \<and> (isConvertibleTo realType v \<longleftrightarrow> (\<exists>d. asDouble v = Inr d)) \<and> (isConvertibleTo booleanType v \<longleftrightarrow> (\<exists>b. asBool v = Inr b))
   \<and> (isConvertibleTo stringType v \<longleftrightarrow> (\<exists>s. asString D v = Inr s))"
  by (cases v) (auto simp: isConvertibleTo_def asInt_def asUInt_def asDouble_def asBool_def asString_def isInt_def isUInt_def
    isNumeric_def isDouble_def isBool_def isNull_def isString_def)

text \<open>
  Removing a member of an object returns it, leaves the other members as they were and in order, and the key has no member
  afterwards; removing a key without a member changes nothing.
\<close>

lemma removeMember_removes:
  assumes "sorted_members ms"
  shows "case removeMember key (objectValue ms) of (found, removed, v) \<Rightarrow>
     Inr removed = Value_find key (objectValue ms) \<and> Inr found = isMember key (objectValue ms) \<and> isMember key v = Inr False
     \<and> (\<forall>k. k \<noteq> key \<longrightarrow> Value_find k v = Value_find k (objectValue ms)) \<and> (\<exists>ms'. v = objectValue ms' \<and> sorted_members ms')"
  using assms by (auto simp: removeMember_def Value_find_def isMember_def members_find_erase sorted_members_erase split: option.splits)


text \<open>The other overload removes another member when the key holds a zero byte, and leaves the one it was asked to remove.\<close>

lemma removeMember_key_cut:
  "removeMember_key (CHR ''a'' # CHR 0x00 # s) (objectValue [(''a'', v), (CHR ''a'' # CHR 0x00 # s, w)]) = Inr (objectValue [(CHR ''a'' # CHR 0x00 # s, w)])"
  by (simp add: removeMember_key_def members_erase_def)

text \<open>The double \<open>2 ^ 63\<close> passes the test of the range of \<open>Int64\<close>, although it is not one and \<open>isInt64\<close> says so.\<close>

lemma asInt64_accepts_too_much:
  "asInt64 (realValue 0x43E0000000000000) = Inr (2 ^ 63)" "\<not> isInt64 (realValue 0x43E0000000000000)"
  by (simp_all add: asInt64_def isInt64_def InRange_def below_range_def double_to_int_def double_units_def isfinite_def take_bit_eq_mask mask_eq_exp_minus_1
    bit_word_iff_drop_bit_and Let_def)

end
