(* ===== verification/Json_Memory.thy ===== *)
theory Json_Memory
  imports Json_Operations
begin

text \<open>
  The memory of \<open>Json::Value\<close> in \<open>json/jsoncpp.cpp\<close>: strings and keys that are copied to blocks of their own, maps behind
  pointers, and the constructors, assignments and destructors that allocate, copy and release them. A pointer is a
  text outside of the library's memory (a literal, or a buffer of the caller) or the start of a block; a block is bytes
  of \<open>malloc\<close> or a \<open>std::map\<close> of \<open>new\<close>, whose nodes are in the order of the keys. Any allocation may fail: which ones do
  is a field of the memory. A run is \<^const>\<open>None\<close> when it reads, writes or releases memory that it may not.
  \<open>JSONCPP_USING_SECURE_MEMORY\<close> is 0, as in \<open>json/json.h\<close>. Comments and offsets of values are left out.
\<close>

section \<open>Memory\<close>

datatype pointer = Outside string | Block nat

datatype payload =
    P_none
  | P_int int
  | P_uint nat
  | P_real "64 word"
  | P_bool bool
  | P_string pointer
  | P_map nat

text \<open>The bits \<open>value_type_\<close> and \<open>allocated_\<close>, and the union \<open>value_\<close>.\<close>

record MValue =
  value_type :: ValueType
  allocated :: bool
  value_payload :: payload

datatype DuplicationPolicy = noDuplication | duplicate | duplicateOnCopy

text \<open>A key without a text is an index; a text has its policy and its length.\<close>

datatype CZString = Index nat | Text pointer DuplicationPolicy nat

type_synonym entries = "(CZString \<times> MValue) list"

datatype block = Chars string | Entries entries

record Memory =
  cells :: "nat \<Rightarrow> block option"
  next_free :: nat
  out_of_memory :: "nat \<Rightarrow> bool"
  variables :: "nat \<Rightarrow> MValue option"

datatype failure = BadAlloc | Thrown cxx_exn

type_synonym 'a mem = "Memory \<Rightarrow> ((failure + 'a) \<times> Memory) option"

definition mem_return :: "'a \<Rightarrow> 'a mem" where
  "mem_return x m = Some (Inr x, m)"

definition mem_throw :: "failure \<Rightarrow> 'a mem" where
  "mem_throw e m = Some (Inl e, m)"

definition mem_fault :: "'a mem" where
  "mem_fault m = None"

definition mem_bind :: "'a mem \<Rightarrow> ('a \<Rightarrow> 'b mem) \<Rightarrow> 'b mem" where
  "mem_bind f g m =
     (case f m of
        None \<Rightarrow> None
      | Some (Inl e, m') \<Rightarrow> Some (Inl e, m')
      | Some (Inr x, m') \<Rightarrow> g x m')"

text \<open>What runs when an exception leaves a block of code: destructors, then the exception goes on.\<close>

definition mem_cleanup :: "'a mem \<Rightarrow> unit mem \<Rightarrow> 'a mem" where
  "mem_cleanup f g m =
     (case f m of
        Some (Inl e, m') \<Rightarrow> mem_bind g (\<lambda>_. mem_throw e) m'
      | r \<Rightarrow> r)"

text \<open>What an operation reads from the memory, or a fault.\<close>

definition mem_read :: "((nat \<Rightarrow> block option) \<Rightarrow> 'a option) \<Rightarrow> 'a mem" where
  "mem_read f m = (case f (cells m) of None \<Rightarrow> None | Some x \<Rightarrow> Some (Inr x, m))"

definition allocate :: "failure \<Rightarrow> block \<Rightarrow> nat mem" where
  "allocate e b m =
     (let a = next_free m; m' = m\<lparr>next_free := Suc a\<rparr>
      in if out_of_memory m a then Some (Inl e, m')
         else Some (Inr a, m'\<lparr>cells := (cells m)(a \<mapsto> b)\<rparr>))"

text \<open>The memory of a node of a map, which belongs to the block of the map.\<close>

definition allocate_node :: "unit mem" where
  "allocate_node m =
     (let a = next_free m; m' = m\<lparr>next_free := Suc a\<rparr>
      in Some (if out_of_memory m a then Inl BadAlloc else Inr (), m'))"

definition free :: "nat \<Rightarrow> unit mem" where
  "free a m =
     (case cells m a of
        Some (Chars s) \<Rightarrow> Some (Inr (), m\<lparr>cells := (cells m)(a := None)\<rparr>)
      | _ \<Rightarrow> None)"

definition read_entries :: "nat \<Rightarrow> (nat \<Rightarrow> block option) \<Rightarrow> entries option" where
  "read_entries a c = (case c a of Some (Entries es) \<Rightarrow> Some es | _ \<Rightarrow> None)"

definition delete_map :: "nat \<Rightarrow> unit mem" where
  "delete_map a m =
     (case cells m a of
        Some (Entries es) \<Rightarrow> Some (Inr (), m\<lparr>cells := (cells m)(a := None)\<rparr>)
      | _ \<Rightarrow> None)"

definition write_entries :: "nat \<Rightarrow> entries \<Rightarrow> unit mem" where
  "write_entries a es m =
     (case cells m a of
        Some (Entries _) \<Rightarrow> Some (Inr (), m\<lparr>cells := (cells m)(a \<mapsto> Entries es)\<rparr>)
      | _ \<Rightarrow> None)"

section \<open>Strings\<close>

definition maxInt :: nat where
  "maxInt = 2 ^ 31 - 1"

abbreviation NUL :: char where
  "NUL \<equiv> CHR 0x00"

text \<open>The bytes at a pointer; outside texts end with a zero.\<close>

definition pointer_bytes :: "pointer \<Rightarrow> (nat \<Rightarrow> block option) \<Rightarrow> string option" where
  "pointer_bytes p c =
     (case p of
        Outside s \<Rightarrow> Some (s @ [NUL])
      | Block a \<Rightarrow> (case c a of Some (Chars s) \<Rightarrow> Some s | _ \<Rightarrow> None))"

definition read_bytes :: "pointer \<Rightarrow> nat \<Rightarrow> nat \<Rightarrow> (nat \<Rightarrow> block option) \<Rightarrow> string option" where
  "read_bytes p off n c =
     (case pointer_bytes p c of
        None \<Rightarrow> None
      | Some s \<Rightarrow> if off + n \<le> length s then Some (take n (drop off s)) else None)"

definition strlen :: "pointer \<Rightarrow> (nat \<Rightarrow> block option) \<Rightarrow> nat option" where
  "strlen p c = (case pointer_bytes p c of None \<Rightarrow> None | Some s \<Rightarrow> find_char NUL s)"

text \<open>An \<open>unsigned\<close> in memory, the lowest byte first.\<close>

definition unsigned_bytes :: "nat \<Rightarrow> string" where
  "unsigned_bytes n = [char_of n, char_of (n div 256), char_of (n div 65536), char_of (n div 16777216)]"

definition unsigned_at :: "string \<Rightarrow> nat" where
  "unsigned_at s = byte (s ! 0) + 256 * byte (s ! 1) + 65536 * byte (s ! 2) + 16777216 * byte (s ! 3)"

definition duplicateStringValue :: "pointer \<Rightarrow> nat \<Rightarrow> nat mem" where
  "duplicateStringValue p n =
     (let n = (if n \<ge> maxInt then maxInt - 1 else n)
      in mem_bind (mem_read (read_bytes p 0 n)) (\<lambda>s.
         allocate (Thrown (RuntimeError ''in Json::Value::duplicateStringValue(): Failed to allocate string value buffer''))
           (Chars (s @ [NUL]))))"

definition duplicateAndPrefixStringValue :: "pointer \<Rightarrow> nat \<Rightarrow> nat \<Rightarrow> nat mem" where
  "duplicateAndPrefixStringValue p off n =
     (if \<not> n \<le> maxInt - 4 - 1
      then mem_throw (Thrown (LogicError ''in Json::Value::duplicateAndPrefixStringValue(): length too big for prefixing''))
      else mem_bind (mem_read (read_bytes p off n)) (\<lambda>s.
         allocate (Thrown (RuntimeError ''in Json::Value::duplicateAndPrefixStringValue(): Failed to allocate string value buffer''))
           (Chars (unsigned_bytes n @ s @ [NUL]))))"

text \<open>The length of a string and where its bytes start.\<close>

definition decodePrefixedString :: "bool \<Rightarrow> pointer \<Rightarrow> (nat \<Rightarrow> block option) \<Rightarrow> (nat \<times> nat) option" where
  "decodePrefixedString isPrefixed p c =
     (if \<not> isPrefixed then map_option (\<lambda>n. (n, 0)) (strlen p c)
      else map_option (\<lambda>s. (unsigned_at s, 4)) (read_bytes p 0 4 c))"

text \<open>Only what \<open>malloc\<close> has given may be released.\<close>

definition release_pointer :: "pointer \<Rightarrow> unit mem" where
  "release_pointer p = (case p of Block a \<Rightarrow> free a | Outside s \<Rightarrow> mem_fault)"

section \<open>Keys\<close>

definition CZString_text :: "string \<Rightarrow> nat \<Rightarrow> DuplicationPolicy \<Rightarrow> CZString" where
  "CZString_text s n policy = Text (Outside s) policy (n mod 2 ^ 30)"

definition CZString_copy :: "CZString \<Rightarrow> CZString mem" where
  "CZString_copy other =
     (case other of
        Index i \<Rightarrow> mem_return (Index i)
      | Text p policy n \<Rightarrow>
          if policy \<noteq> noDuplication
          then mem_bind (duplicateStringValue p n) (\<lambda>a. mem_return (Text (Block a) duplicate n))
          else mem_return (Text p noDuplication n))"

definition CZString_destroy :: "CZString \<Rightarrow> unit mem" where
  "CZString_destroy k =
     (case k of
        Text p policy n \<Rightarrow> if policy = duplicate then release_pointer p else mem_return ()
      | Index i \<Rightarrow> mem_return ())"

text \<open>A key whose text has moved away: what is left is read as an index.\<close>

fun policy_number :: "DuplicationPolicy \<Rightarrow> nat" where
  "policy_number noDuplication = 0"
| "policy_number duplicate = 1"
| "policy_number duplicateOnCopy = 2"

definition CZString_moved :: "CZString \<Rightarrow> CZString" where
  "CZString_moved k = (case k of Text p policy n \<Rightarrow> Index (policy_number policy + 4 * n) | Index i \<Rightarrow> Index i)"

text \<open>The move constructor: the new key and the old one. The assignments give the key and the other one.\<close>

definition CZString_move :: "CZString \<Rightarrow> CZString \<times> CZString" where
  "CZString_move other = (other, CZString_moved other)"

definition CZString_assign :: "CZString \<Rightarrow> CZString \<Rightarrow> CZString" where
  "CZString_assign this other = other"

definition CZString_move_assign :: "CZString \<Rightarrow> CZString \<Rightarrow> CZString \<times> CZString" where
  "CZString_move_assign this other = (other, CZString_moved other)"

definition CZString_swap :: "CZString \<Rightarrow> CZString \<Rightarrow> CZString \<times> CZString" where
  "CZString_swap this other = (other, this)"

text \<open>\<open>operator<\<close> and \<open>operator==\<close>, of an index and an index or of a text and a text.\<close>

definition key_less_mem :: "CZString \<Rightarrow> CZString \<Rightarrow> (nat \<Rightarrow> block option) \<Rightarrow> bool option" where
  "key_less_mem k l c =
     (case (k, l) of
        (Index i, Index j) \<Rightarrow> Some (i < j)
      | (Text p _ this_len, Text q _ other_len) \<Rightarrow>
          let min_len = min this_len other_len
          in (case (read_bytes p 0 min_len c, read_bytes q 0 min_len c) of
                (Some s, Some t) \<Rightarrow>
                  Some (if CZString_less s t then True else if CZString_less t s then False else this_len < other_len)
              | _ \<Rightarrow> None)
      | _ \<Rightarrow> None)"

definition key_equal_mem :: "CZString \<Rightarrow> CZString \<Rightarrow> (nat \<Rightarrow> block option) \<Rightarrow> bool option" where
  "key_equal_mem k l c =
     (case (k, l) of
        (Index i, Index j) \<Rightarrow> Some (i = j)
      | (Text p _ this_len, Text q _ other_len) \<Rightarrow>
          if this_len \<noteq> other_len then Some False
          else (case (read_bytes p 0 this_len c, read_bytes q 0 this_len c) of
                  (Some s, Some t) \<Rightarrow> Some (s = t)
                | _ \<Rightarrow> None)
      | _ \<Rightarrow> None)"

section \<open>Values\<close>

definition initBasic :: "ValueType \<Rightarrow> bool \<Rightarrow> MValue" where
  "initBasic type alloc = \<lparr>value_type = type, allocated = alloc, value_payload = P_none\<rparr>"

definition Value_of_type :: "ValueType \<Rightarrow> MValue mem" where
  "Value_of_type type =
     (let v = initBasic type False
      in case type of
           nullType \<Rightarrow> mem_return v
         | intType \<Rightarrow> mem_return (v\<lparr>value_payload := P_int 0\<rparr>)
         | uintType \<Rightarrow> mem_return (v\<lparr>value_payload := P_uint 0\<rparr>)
         | realType \<Rightarrow> mem_return (v\<lparr>value_payload := P_real 0\<rparr>)
         | stringType \<Rightarrow> mem_return (v\<lparr>value_payload := P_string (Outside [])\<rparr>)
         | arrayType \<Rightarrow> mem_bind (allocate BadAlloc (Entries [])) (\<lambda>a. mem_return (v\<lparr>value_payload := P_map a\<rparr>))
         | objectType \<Rightarrow> mem_bind (allocate BadAlloc (Entries [])) (\<lambda>a. mem_return (v\<lparr>value_payload := P_map a\<rparr>))
         | booleanType \<Rightarrow> mem_return (v\<lparr>value_payload := P_bool False\<rparr>))"

definition Value_of_int :: "int \<Rightarrow> MValue" where
  "Value_of_int n = (initBasic intType False)\<lparr>value_payload := P_int n\<rparr>"

definition Value_of_uint :: "nat \<Rightarrow> MValue" where
  "Value_of_uint n = (initBasic uintType False)\<lparr>value_payload := P_uint n\<rparr>"

definition Value_of_real :: "64 word \<Rightarrow> MValue" where
  "Value_of_real d = (initBasic realType False)\<lparr>value_payload := P_real d\<rparr>"

definition Value_of_bool :: "bool \<Rightarrow> MValue" where
  "Value_of_bool b = (initBasic booleanType False)\<lparr>value_payload := P_bool b\<rparr>"

text \<open>The lengths of texts are cast to \<open>unsigned\<close>.\<close>

definition Value_of_chars :: "string \<Rightarrow> nat \<Rightarrow> MValue mem" where
  "Value_of_chars s n =
     mem_bind (duplicateAndPrefixStringValue (Outside s) 0 (n mod 2 ^ 32))
       (\<lambda>a. mem_return ((initBasic stringType True)\<lparr>value_payload := P_string (Block a)\<rparr>))"

definition Value_of_c_str :: "string \<Rightarrow> MValue mem" where
  "Value_of_c_str s = mem_bind (mem_read (strlen (Outside s))) (Value_of_chars s)"

definition Value_of_String :: "string \<Rightarrow> MValue mem" where
  "Value_of_String s = Value_of_chars s (length s)"

definition Value_of_StaticString :: "string \<Rightarrow> MValue" where
  "Value_of_StaticString s = (initBasic stringType False)\<lparr>value_payload := P_string (Outside s)\<rparr>"

text \<open>
  \<open>releasePayload\<close>, with the destructors of maps, of their nodes and of their keys. The fuel bounds how deep values are
  nested.
\<close>

fun releasePayload :: "nat \<Rightarrow> MValue \<Rightarrow> unit mem" and release_entries :: "nat \<Rightarrow> entries \<Rightarrow> unit mem" where
  "releasePayload 0 v = mem_fault"
| "releasePayload (Suc n) v =
     (if value_type v = stringType then
        if allocated v then case value_payload v of P_string p \<Rightarrow> release_pointer p | _ \<Rightarrow> mem_fault
        else mem_return ()
      else if value_type v = arrayType \<or> value_type v = objectType then
        case value_payload v of
          P_map a \<Rightarrow> mem_bind (mem_read (read_entries a)) (\<lambda>es. mem_bind (release_entries n es) (\<lambda>_. delete_map a))
        | _ \<Rightarrow> mem_fault
      else mem_return ())"
| "release_entries n [] = mem_return ()"
| "release_entries n ((k, v) # es) =
     mem_bind (releasePayload n v) (\<lambda>_. mem_bind (CZString_destroy k) (\<lambda>_. release_entries n es))"

text \<open>
  \<open>dupPayload\<close>, with the copy constructor of maps: every node is allocated, its key is copied and then its value; an
  exception releases what has been copied.
\<close>

fun dupPayload :: "nat \<Rightarrow> MValue \<Rightarrow> MValue mem" and copy_entries :: "nat \<Rightarrow> entries \<Rightarrow> entries mem" where
  "dupPayload 0 other = mem_fault"
| "dupPayload (Suc n) other =
     (let v = \<lparr>value_type = value_type other, allocated = False, value_payload = value_payload other\<rparr>
      in if value_type other = stringType then
           case value_payload other of
             P_string p \<Rightarrow>
               if allocated other then
                 mem_bind (mem_read (decodePrefixedString True p)) (\<lambda>(len, off).
                 mem_bind (duplicateAndPrefixStringValue p off len) (\<lambda>a.
                 mem_return (v\<lparr>allocated := True, value_payload := P_string (Block a)\<rparr>)))
               else mem_return v
           | _ \<Rightarrow> mem_fault
         else if value_type other = arrayType \<or> value_type other = objectType then
           case value_payload other of
             P_map b \<Rightarrow>
               mem_bind (mem_read (read_entries b)) (\<lambda>es.
               mem_bind (allocate BadAlloc (Entries [])) (\<lambda>a.
               mem_bind (mem_cleanup (copy_entries n es) (delete_map a)) (\<lambda>es'.
               mem_bind (write_entries a es') (\<lambda>_.
               mem_return (v\<lparr>value_payload := P_map a\<rparr>)))))
           | _ \<Rightarrow> mem_fault
         else mem_return v)"
| "copy_entries n [] = mem_return []"
| "copy_entries n ((k, v) # es) =
     mem_bind allocate_node (\<lambda>_.
     mem_bind (CZString_copy k) (\<lambda>k'.
     mem_bind (mem_cleanup (dupPayload n v) (CZString_destroy k')) (\<lambda>v'.
     mem_bind (mem_cleanup (copy_entries n es) (release_entries n [(k', v')])) (\<lambda>es'.
     mem_return ((k', v') # es')))))"

declare releasePayload.simps [simp del] dupPayload.simps [simp del]

section \<open>Ownership\<close>

text \<open>
  What a value in memory stands for: a tree. The keys of the maps of arrays are indices, those of objects are texts; how a text is
  stored does not matter.
\<close>

datatype key = IndexKey nat | StringKey string

datatype Tree =
    TNull
  | TInt int
  | TUInt nat
  | TReal "64 word"
  | TBool bool
  | TString string
  | TMap bool "(key \<times> Tree) list"

fun is_index :: "key \<Rightarrow> bool" where
  "is_index (IndexKey i) = True"
| "is_index (StringKey s) = False"

text \<open>The order of keys: numbers, or texts as \<open>memcmp\<close> orders them.\<close>

fun key_less :: "key \<Rightarrow> key \<Rightarrow> bool" where
  "key_less (IndexKey i) (IndexKey j) = (i < j)"
| "key_less (StringKey s) (StringKey t) = CZString_less s t"
| "key_less K L = False"

definition map_keys :: "bool \<Rightarrow> (key \<times> Tree) list \<Rightarrow> bool" where
  "map_keys isarray es \<longleftrightarrow> (\<forall>K \<in> set (map fst es). is_index K = isarray) \<and> sorted_wrt key_less (map fst es)"

fun depth :: "Tree \<Rightarrow> nat" and depth_entries :: "(key \<times> Tree) list \<Rightarrow> nat" where
  "depth (TMap b es) = Suc (depth_entries es)"
| "depth t = 0"
| "depth_entries [] = 0"
| "depth_entries ((K, t) # es) = max (depth t) (depth_entries es)"

text \<open>The blocks that a key and a value own, for what they stand for.\<close>

definition owns_key :: "(nat \<Rightarrow> block option) \<Rightarrow> CZString \<Rightarrow> key \<Rightarrow> nat set \<Rightarrow> bool" where
  "owns_key c k K A \<longleftrightarrow>
     (case K of
        IndexKey i \<Rightarrow> k = Index i \<and> A = {}
      | StringKey s \<Rightarrow>
          length s < 2 ^ 30 \<and>
          ((\<exists>r. k = Text (Outside (s @ r)) noDuplication (length s) \<and> A = {})
           \<or> (\<exists>a. k = Text (Block a) duplicate (length s) \<and> c a = Some (Chars (s @ [NUL])) \<and> A = {a})))"

definition c_text :: "string \<Rightarrow> string" where
  "c_text s = takeWhile (\<lambda>x. x \<noteq> NUL) s"

fun owns :: "(nat \<Rightarrow> block option) \<Rightarrow> MValue \<Rightarrow> Tree \<Rightarrow> nat set \<Rightarrow> bool"
  and owns_entries :: "(nat \<Rightarrow> block option) \<Rightarrow> entries \<Rightarrow> (key \<times> Tree) list \<Rightarrow> nat set \<Rightarrow> bool"
where
  "owns c v TNull A \<longleftrightarrow> value_type v = nullType \<and> A = {}"
| "owns c v (TInt n) A \<longleftrightarrow> value_type v = intType \<and> value_payload v = P_int n \<and> A = {}"
| "owns c v (TUInt n) A \<longleftrightarrow> value_type v = uintType \<and> value_payload v = P_uint n \<and> A = {}"
| "owns c v (TReal d) A \<longleftrightarrow> value_type v = realType \<and> value_payload v = P_real d \<and> A = {}"
| "owns c v (TBool b) A \<longleftrightarrow> value_type v = booleanType \<and> value_payload v = P_bool b \<and> A = {}"
| "owns c v (TString s) A \<longleftrightarrow> value_type v = stringType \<and>
     (\<not> allocated v \<and> (\<exists>r. value_payload v = P_string (Outside r) \<and> s = c_text r) \<and> A = {}
      \<or> allocated v \<and> length s \<le> maxInt - 5
        \<and> (\<exists>a. value_payload v = P_string (Block a) \<and> c a = Some (Chars (unsigned_bytes (length s) @ s @ [NUL])) \<and> A = {a}))"
| "owns c v (TMap b es) A \<longleftrightarrow> value_type v = (if b then arrayType else objectType) \<and>
     map_keys b es \<and>
     (\<exists>a ms B. value_payload v = P_map a \<and> c a = Some (Entries ms) \<and> owns_entries c ms es B \<and> a \<notin> B \<and> A = insert a B)"
| "owns_entries c ms [] A \<longleftrightarrow> ms = [] \<and> A = {}"
| "owns_entries c ms ((K, t) # es) A \<longleftrightarrow>
     (\<exists>k v ms' A1 A2 A3. ms = (k, v) # ms' \<and> owns_key c k K A1 \<and> owns c v t A2 \<and> owns_entries c ms' es A3
        \<and> A1 \<inter> A2 = {} \<and> A1 \<inter> A3 = {} \<and> A2 \<inter> A3 = {} \<and> A = A1 \<union> A2 \<union> A3)"

text \<open>Only the blocks that are owned matter.\<close>

lemma owns_key_frame: "owns_key c k K A \<Longrightarrow> (\<And>a. a \<in> A \<Longrightarrow> c' a = c a) \<Longrightarrow> owns_key c' k K A"
  by (auto simp: owns_key_def split: key.splits)

lemma owns_frame:
  "owns c v t A \<Longrightarrow> (\<And>a. a \<in> A \<Longrightarrow> c' a = c a) \<Longrightarrow> owns c' v t A"
  "owns_entries c ms es A \<Longrightarrow> (\<And>a. a \<in> A \<Longrightarrow> c' a = c a) \<Longrightarrow> owns_entries c' ms es A"
proof (induction c v t A and c ms es A rule: owns_owns_entries.induct)
  case (7 c v b es A)
  then obtain a ms B where a: "value_payload v = P_map a" "c a = Some (Entries ms)" "owns_entries c ms es B" "a \<notin> B" "A = insert a B"
    by auto
  have "owns_entries c' ms es B" using 7(1) [of ms B] a 7(3) by auto
  moreover have "c' a = Some (Entries ms)" using a 7(3) by auto
  ultimately show ?case using 7(2) a by auto
next
  case (9 c ms K t es A)
  then obtain k v ms' A1 A2 A3 where m: "ms = (k, v) # ms'" "owns_key c k K A1" "owns c v t A2" "owns_entries c ms' es A3"
    and A: "A1 \<inter> A2 = {}" "A1 \<inter> A3 = {}" "A2 \<inter> A3 = {}" "A = A1 \<union> A2 \<union> A3" by auto
  have "owns_key c' k K A1" using owns_key_frame [OF m(2)] A 9(4) by auto
  moreover have "owns c' v t A2" using 9(1) m A 9(4) by auto
  moreover have "owns_entries c' ms' es A3" using 9(2) m A 9(4) by auto
  ultimately show ?case using m A by auto
qed auto

lemma owns_key_dom: "owns_key c k K A \<Longrightarrow> A \<subseteq> dom c \<and> finite A"
  by (auto simp: owns_key_def split: key.splits)

lemma owns_dom:
  "owns c v t A \<Longrightarrow> A \<subseteq> dom c \<and> finite A"
  "owns_entries c ms es A \<Longrightarrow> A \<subseteq> dom c \<and> finite A"
  by (induction c v t A and c ms es A rule: owns_owns_entries.induct) (auto dest: owns_key_dom, blast+)

text \<open>Every level of nesting has a block of its own.\<close>

lemma depth_card:
  "owns c v t A \<Longrightarrow> depth t \<le> card A"
  "owns_entries c ms es A \<Longrightarrow> depth_entries es \<le> card A"
proof (induction c v t A and c ms es A rule: owns_owns_entries.induct)
  case (7 c v b es A)
  then obtain a ms B where "c a = Some (Entries ms)" "owns_entries c ms es B" "a \<notin> B" "A = insert a B" "value_payload v = P_map a"
    by auto
  then show ?case using 7(1) [of ms B] owns_dom(2) [of c ms es B] by auto
next
  case (9 c ms K t es A)
  then obtain k v ms' A1 A2 A3 where m: "ms = (k, v) # ms'" "owns_key c k K A1" "owns c v t A2" "owns_entries c ms' es A3"
    and A: "A = A1 \<union> A2 \<union> A3" by auto
  have "finite A" using owns_dom(1) [OF m(3)] owns_dom(2) [OF m(4)] owns_key_dom [OF m(2)] A by auto
  then have "card A2 \<le> card A" "card A3 \<le> card A" using A by (auto intro!: card_mono)
  then show ?case using 9(1) [OF m(3)] 9(2) [OF m(4)] by auto
qed auto

section \<open>Releasing\<close>

lemma mem_run_simps [simp]:
  "mem_bind (mem_return x) g m = g x m"
  "mem_bind (mem_throw e) g m = Some (Inl e, m)"
  "f m = Some (Inr x, m') \<Longrightarrow> mem_bind f g m = g x m'"
  "f m = Some (Inl e, m') \<Longrightarrow> mem_bind f g m = Some (Inl e, m')"
  "f m = Some (Inr x, m') \<Longrightarrow> mem_cleanup f h m = Some (Inr x, m')"
  "f m = Some (Inl e, m') \<Longrightarrow> h m' = Some (Inr (), m'') \<Longrightarrow> mem_cleanup f h m = Some (Inl e, m'')"
  "F (cells m) = Some y \<Longrightarrow> mem_read F m = Some (Inr y, m)"
  by (simp_all add: mem_bind_def mem_return_def mem_throw_def mem_cleanup_def mem_read_def)

lemma restrict_everything [simp]: "c |` UNIV = c"
  by (simp add: restrict_map_def)

lemma release_key:
  assumes "owns_key c k K A" "\<forall>a \<in> A. cells m a = c a"
  shows "CZString_destroy k m = Some (Inr (), m\<lparr>cells := cells m |` (- A)\<rparr>)"
  using assms
  by (auto simp: owns_key_def CZString_destroy_def release_pointer_def free_def mem_return_def restrict_complement_singleton_eq
    split: key.splits)

lemma release:
  "owns c v t A \<Longrightarrow> depth t < n \<Longrightarrow> \<forall>a \<in> A. cells m a = c a \<Longrightarrow>
     releasePayload n v m = Some (Inr (), m\<lparr>cells := cells m |` (- A)\<rparr>)"
  "owns_entries c ms es A \<Longrightarrow> es \<noteq> [] \<longrightarrow> depth_entries es < n \<Longrightarrow> \<forall>a \<in> A. cells m a = c a \<Longrightarrow>
     release_entries n ms m = Some (Inr (), m\<lparr>cells := cells m |` (- A)\<rparr>)"
proof (induction c v t A and c ms es A arbitrary: n m and n m rule: owns_owns_entries.induct)
  case (6 c v s A)
  then obtain k where n: "n = Suc k" by (cases n) auto
  show ?case using 6
    by (auto simp: n releasePayload.simps release_pointer_def free_def mem_return_def restrict_complement_singleton_eq)
next
  case (7 c v b es A)
  then obtain k where n: "n = Suc k" by (cases n) auto
  from 7(2) obtain a ms B where a: "value_payload v = P_map a" "c a = Some (Entries ms)" "owns_entries c ms es B" "a \<notin> B" "A = insert a B"
    and ty: "value_type v = arrayType \<or> value_type v = objectType" "value_type v \<noteq> stringType"
    by (auto split: if_splits)
  have m: "cells m a = Some (Entries ms)" "\<forall>x \<in> B. cells m x = c x" using 7(4) a by auto
  have r: "release_entries k ms m = Some (Inr (), m\<lparr>cells := cells m |` (- B)\<rparr>)"
    using 7(1) [OF a(3)] 7(3) m n by auto
  have e: "- insert a B = - B \<inter> - {a}" by auto
  show ?case using ty a m r
    by (auto simp: n releasePayload.simps read_entries_def delete_map_def restrict_complement_singleton_eq [symmetric]
      e restrict_restrict)
next
  case (9 c ms K t es A)
  then obtain k v ms' A1 A2 A3 where ms: "ms = (k, v) # ms'" "owns_key c k K A1" "owns c v t A2" "owns_entries c ms' es A3"
    and A: "A1 \<inter> A2 = {}" "A1 \<inter> A3 = {}" "A2 \<inter> A3 = {}" "A = A1 \<union> A2 \<union> A3" by auto
  let ?m1 = "m\<lparr>cells := cells m |` (- A2)\<rparr>"
  let ?m2 = "m\<lparr>cells := cells m |` (- A2 \<inter> - A1)\<rparr>"
  have 1: "releasePayload n v m = Some (Inr (), ?m1)" using 9(1) [OF ms(3)] 9(4,5) A by auto
  have "\<forall>a \<in> A1. cells ?m1 a = c a" using 9(5) A by (auto simp: restrict_map_def)
  then have 2: "CZString_destroy k ?m1 = Some (Inr (), ?m2)"
    using release_key [OF ms(2), of ?m1] by (simp add: restrict_restrict)
  have "\<forall>a \<in> A3. cells ?m2 a = c a" using 9(5) A by (auto simp: restrict_map_def)
  then have 3: "release_entries n ms' ?m2 = Some (Inr (), ?m2\<lparr>cells := cells ?m2 |` (- A3)\<rparr>)"
    using 9(2) [OF ms(4), of n ?m2] 9(4) by simp
  have e: "- A2 \<inter> - A1 \<inter> - A3 = - A" using A by auto
  show ?case using 1 2 3 e by (simp add: ms restrict_restrict)
qed (auto simp: mem_return_def releasePayload.simps gr0_conv_Suc)

section \<open>Copying\<close>

text \<open>Nothing is in use from the next free address on.\<close>

definition fresh :: "Memory \<Rightarrow> bool" where
  "fresh m \<longleftrightarrow> (\<forall>a \<ge> next_free m. cells m a = None)"

text \<open>The memory after a call that has allocated some blocks and changed nothing else.\<close>

definition grown :: "Memory \<Rightarrow> Memory \<Rightarrow> nat set \<Rightarrow> bool" where
  "grown m m' B \<longleftrightarrow>
     B \<inter> dom (cells m) = {} \<and> cells m' |` (- B) = cells m \<and> variables m' = variables m \<and> out_of_memory m' = out_of_memory m
     \<and> next_free m \<le> next_free m' \<and> fresh m'"

text \<open>An exception that tells that memory has run out, which it can.\<close>

definition allocation_failure :: "Memory \<Rightarrow> failure \<Rightarrow> bool" where
  "allocation_failure m e \<longleftrightarrow> (e = BadAlloc \<or> (\<exists>s. e = Thrown (RuntimeError s))) \<and> (\<exists>a. out_of_memory m a)"

lemma allocation_failureI [intro]:
  "out_of_memory m a \<Longrightarrow> allocation_failure m BadAlloc"
  "out_of_memory m a \<Longrightarrow> allocation_failure m (Thrown (RuntimeError s))"
  by (auto simp: allocation_failure_def)

lemma allocation_failure_grown: "grown m m' B \<Longrightarrow> allocation_failure m' e = allocation_failure m e"
  by (simp add: allocation_failure_def grown_def)

text \<open>A call that makes something new, or fails for lack of memory and leaves nothing behind.\<close>

definition makes :: "'a mem \<Rightarrow> Memory \<Rightarrow> ((nat \<Rightarrow> block option) \<Rightarrow> 'a \<Rightarrow> nat set \<Rightarrow> bool) \<Rightarrow> bool" where
  "makes f m P \<longleftrightarrow>
     (\<exists>x m' B. f m = Some (Inr x, m') \<and> grown m m' B \<and> P (cells m') x B)
     \<or> (\<exists>e m'. f m = Some (Inl e, m') \<and> allocation_failure m e \<and> grown m m' {})"

lemma grown_cells: "grown m m' B \<Longrightarrow> cells m a = Some b \<Longrightarrow> cells m' a = Some b"
proof -
  assume g: "grown m m' B" and a: "cells m a = Some b"
  then have "(cells m' |` (- B)) a = cells m a" "a \<notin> B" by (auto simp: grown_def)
  then show ?thesis using a by simp
qed

lemma grown_same: "grown m m' B \<Longrightarrow> a \<in> dom (cells m) \<Longrightarrow> cells m' a = cells m a"
  using grown_cells [of m m' B a] by auto

lemma grown_refl: "fresh m \<Longrightarrow> grown m m {}"
  by (auto simp: grown_def)

lemma grown_trans: "grown m m1 B \<Longrightarrow> grown m1 m2 C \<Longrightarrow> B \<subseteq> dom (cells m1) \<Longrightarrow> grown m m2 (B \<union> C)"
  unfolding grown_def
  by (auto simp: restrict_map_def fun_eq_iff split: if_splits) (metis option.distinct(1) | blast)+

lemma makesI: "f m = Some (Inr x, m') \<Longrightarrow> grown m m' B \<Longrightarrow> P (cells m') x B \<Longrightarrow> makes f m P"
  by (auto simp: makes_def)

lemma makes_failI: "f m = Some (Inl e, m') \<Longrightarrow> allocation_failure m e \<Longrightarrow> grown m m' {} \<Longrightarrow> makes f m P"
  by (auto simp: makes_def)

lemma makesE:
  assumes "makes f m P"
  obtains (made) x m' B where "f m = Some (Inr x, m')" "grown m m' B" "P (cells m') x B"
  | (failed) e m' where "f m = Some (Inl e, m')" "allocation_failure m e" "grown m m' {}"
  using assms by (auto simp: makes_def)

lemma makes_return: "fresh m \<Longrightarrow> P (cells m) x {} \<Longrightarrow> makes (mem_return x) m P"
  by (auto simp: makes_def mem_return_def intro: grown_refl)

lemma makes_allocate:
  assumes "fresh m" "\<And>a. out_of_memory m a \<Longrightarrow> allocation_failure m e" "\<And>a. P ((cells m)(a \<mapsto> b)) a {a}"
  shows "makes (allocate e b) m P"
proof -
  have "cells m (next_free m) = None" using assms(1) by (auto simp: fresh_def)
  then show ?thesis using assms
    by (auto simp: makes_def allocate_def Let_def grown_def fresh_def restrict_complement_singleton_eq intro!: exI [of _ "{next_free m}"])
qed

text \<open>A call whose result only wraps what another one makes.\<close>

lemma makes_wrap:
  assumes "makes f m P" "\<And>c x B. P c x B \<Longrightarrow> Q c (g x) B"
  shows "makes (mem_bind f (\<lambda>x. mem_return (g x))) m Q"
  using assms(1)
  by (rule makesE) (auto simp: makes_def mem_bind_def mem_return_def intro: assms(2))

lemma makes_read: "F (cells m) = Some y \<Longrightarrow> makes (f y) m P \<Longrightarrow> makes (mem_bind (mem_read F) f) m P"
  by (auto simp: makes_def)

text \<open>A key that can be read and copied: the caller's or one in a map.\<close>

definition reads_key :: "(nat \<Rightarrow> block option) \<Rightarrow> CZString \<Rightarrow> key \<Rightarrow> bool" where
  "reads_key c k K \<longleftrightarrow>
     (case K of
        IndexKey i \<Rightarrow> k = Index i
      | StringKey s \<Rightarrow> length s < 2 ^ 30 \<and>
          (\<exists>p policy. k = Text p policy (length s) \<and> read_bytes p 0 (length s) c = Some s
             \<and> (policy = noDuplication \<longrightarrow> (\<exists>r. p = Outside (s @ r)))))"

lemma owns_reads_key: "owns_key c k K A \<Longrightarrow> reads_key c k K"
  by (auto simp: owns_key_def reads_key_def read_bytes_def pointer_bytes_def split: key.splits)

lemma read_bytes_grown: "read_bytes p off n (cells m) = Some s \<Longrightarrow> grown m m' B \<Longrightarrow> read_bytes p off n (cells m') = Some s"
  by (auto simp: read_bytes_def pointer_bytes_def grown_cells split: option.splits pointer.splits block.splits)

lemma reads_key_grown: "reads_key (cells m) k K \<Longrightarrow> grown m m' B \<Longrightarrow> reads_key (cells m') k K"
  by (cases K) (auto simp: reads_key_def intro: read_bytes_grown)

lemma CZString_copy_makes:
  assumes "reads_key (cells m) k K" "fresh m"
  shows "makes (CZString_copy k) m (\<lambda>c k'. owns_key c k' K)"
proof (cases K)
  case (IndexKey i)
  then show ?thesis using assms by (auto simp: reads_key_def CZString_copy_def owns_key_def intro!: makes_return)
next
  case (StringKey s)
  then obtain p policy where k: "k = Text p policy (length s)" "read_bytes p 0 (length s) (cells m) = Some s" "length s < 2 ^ 30"
    "policy = noDuplication \<Longrightarrow> \<exists>r. p = Outside (s @ r)" using assms by (auto simp: reads_key_def)
  show ?thesis
  proof (cases "policy = noDuplication")
    case True
    then show ?thesis using assms k by (auto simp: CZString_copy_def owns_key_def StringKey intro!: makes_return)
  next
    case False
    have "\<not> maxInt \<le> length s" using k(3) by (simp add: maxInt_def)
    then have "makes (duplicateStringValue p (length s)) m (\<lambda>c a B. c a = Some (Chars (s @ [NUL])) \<and> B = {a})"
      using k assms(2) by (auto simp: duplicateStringValue_def intro!: makes_read makes_allocate)
    then show ?thesis using False k by (auto simp: CZString_copy_def owns_key_def StringKey elim!: makes_wrap)
  qed
qed

lemma length_unsigned_bytes [simp]: "length (unsigned_bytes n) = 4"
  by (simp add: unsigned_bytes_def)

lemma unsigned_digits:
  fixes n :: nat
  assumes "n < 4294967296"
  shows "n mod 256 + (256 * (n div 256 mod 256) + (65536 * (n div 65536 mod 256) + 16777216 * (n div 16777216 mod 256))) = n"
proof -
  define x y z where "x = n div 256" and "y = x div 256" and "z = y div 256"
  have "n div 65536 = y" "n div 16777216 = z" by (simp_all add: x_def y_def z_def div_mult2_eq [symmetric])
  moreover have "n mod 256 + 256 * x = n" "x mod 256 + 256 * y = x" "y mod 256 + 256 * z = y"
    by (simp_all add: x_def y_def z_def)
  moreover have "z mod 256 = z" using assms by (simp add: x_def y_def z_def div_mult2_eq [symmetric])
  ultimately show ?thesis unfolding x_def [symmetric] by simp
qed

lemma unsigned_at_bytes: "n < 2 ^ 32 \<Longrightarrow> unsigned_at (unsigned_bytes n) = n"
  using unsigned_digits [of n] by (simp add: unsigned_at_def unsigned_bytes_def)

lemma duplicate_prefixed_makes:
  assumes "read_bytes p off n (cells m) = Some s" "n \<le> maxInt - 5" "fresh m" "length s = n"
  shows "makes (duplicateAndPrefixStringValue p off n) m
    (\<lambda>c a B. c a = Some (Chars (unsigned_bytes (length s) @ s @ [NUL])) \<and> B = {a})"
  using assms by (auto simp: duplicateAndPrefixStringValue_def intro!: makes_read makes_allocate)

lemma decode_prefixed:
  assumes "c a = Some (Chars (unsigned_bytes (length s) @ s @ [NUL]))" "length s \<le> maxInt - 5"
  shows "decodePrefixedString True (Block a) c = Some (length s, 4)" "read_bytes (Block a) 4 (length s) c = Some s"
  using assms unsigned_at_bytes [of "length s"]
  by (auto simp: decodePrefixedString_def read_bytes_def pointer_bytes_def maxInt_def)

lemma grown_fresh: "grown m m' B \<Longrightarrow> fresh m'"
  by (simp add: grown_def)

lemma grown_release:
  "grown m m' B \<Longrightarrow> grown m (m'\<lparr>cells := cells m' |` (- B)\<rparr>) {}"
  by (auto simp: grown_def fresh_def) (metis (no_types) ComplI restrict_in restrict_out)

text \<open>The second of two steps fails: what the first has made is released.\<close>

lemma grown_undo:
  assumes "grown m m1 B" "grown m1 m2 {}" "B \<subseteq> dom (cells m1)"
  shows "grown m (m2\<lparr>cells := cells m2 |` (- B)\<rparr>) {}"
  using grown_release [OF grown_trans [OF assms(1,2,3)]] by simp

lemma makes_then:
  assumes f: "makes f m P" and dom: "\<And>c x B. P c x B \<Longrightarrow> B \<subseteq> dom c"
    and frame: "\<And>c c' x B. P c x B \<Longrightarrow> (\<And>a. a \<in> B \<Longrightarrow> c' a = c a) \<Longrightarrow> P c' x B"
    and g: "\<And>x m' B. grown m m' B \<Longrightarrow> P (cells m') x B \<Longrightarrow> makes (g x) m' (Q x)"
    and h: "\<And>x m' B. P (cells m') x B \<Longrightarrow> h x m' = Some (Inr (), m'\<lparr>cells := cells m' |` (- B)\<rparr>)"
    and R: "\<And>c x y B C. P c x B \<Longrightarrow> Q x c y C \<Longrightarrow> B \<inter> C = {} \<Longrightarrow> R c (F x y) (B \<union> C)"
  shows "makes (mem_bind f (\<lambda>x. mem_bind (mem_cleanup (g x) (h x)) (\<lambda>y. mem_return (F x y)))) m R"
  using f
proof (cases rule: makesE)
  case (failed e m')
  then show ?thesis by (intro makes_failI) auto
next
  case (made x m1 B)
  note x = made
  have stays: "P (cells m2) x B" if "grown m1 m2 C" for m2 C
    using frame [OF x(3)] grown_same [OF that] dom [OF x(3)] by blast
  from g [OF x(2,3)] show ?thesis
  proof (cases rule: makesE)
    case (failed e m2)
    have "grown m (m2\<lparr>cells := cells m2 |` (- B)\<rparr>) {}" using grown_undo [OF x(2) failed(3) dom [OF x(3)]] .
    then show ?thesis using x failed h [OF stays [OF failed(3)]] allocation_failure_grown [OF x(2)] by (intro makes_failI) auto
  next
    case (made y m2 C)
    have "B \<inter> C = {}" using made(2) dom [OF x(3)] by (auto simp: grown_def)
    then have "R (cells m2) (F x y) (B \<union> C)" using R stays [OF made(2)] made(3) by blast
    then show ?thesis using x made grown_trans [OF x(2) made(2) dom [OF x(3)]]
      by (intro makesI [of _ _ "F x y"]) (auto simp: mem_return_def)
  qed
qed

lemma mem_bind_assoc: "mem_bind (mem_bind f g) h = mem_bind f (\<lambda>x. mem_bind (g x) h)"
  by (auto simp: mem_bind_def fun_eq_iff split: option.split sum.split)

lemma mem_bind_return [simp]: "mem_bind (mem_return x) f = f x"
  by (simp add: fun_eq_iff)

lemma makes_node: "(\<And>m'. grown m m' {} \<Longrightarrow> makes f m' P) \<Longrightarrow> fresh m \<Longrightarrow> makes (mem_bind allocate_node (\<lambda>_. f)) m P"
proof -
  assume f: "\<And>m'. grown m m' {} \<Longrightarrow> makes f m' P" and m: "fresh m"
  let ?m = "m\<lparr>next_free := Suc (next_free m)\<rparr>"
  have g: "grown m ?m {}" using m by (auto simp: grown_def fresh_def)
  have "makes f ?m P" by (rule f [OF g])
  then show ?thesis
    using g grown_trans [OF g] allocation_failure_grown [OF g] by (auto simp: makes_def allocate_node_def mem_bind_def Let_def)
qed

text \<open>A key and a value of a map.\<close>

abbreviation owns_entry :: "(nat \<Rightarrow> block option) \<Rightarrow> CZString \<times> MValue \<Rightarrow> key \<times> Tree \<Rightarrow> nat set \<Rightarrow> bool" where
  "owns_entry c e E A \<equiv> owns_entries c [e] [E] A"

lemma owns_entries_Cons:
  "owns_entries c ms (E # es) A \<longleftrightarrow>
     (\<exists>e ms' A1 A2. ms = e # ms' \<and> owns_entry c e E A1 \<and> owns_entries c ms' es A2 \<and> A1 \<inter> A2 = {} \<and> A = A1 \<union> A2)"
proof (cases E)
  case (Pair K t)
  show ?thesis unfolding Pair owns_entries.simps
    by (rule iffI; (elim exE conjE)) (clarsimp; blast)+
qed

lemma copy_entry_makes:
  assumes v: "\<And>m1 B. grown m m1 B \<Longrightarrow> makes (dupPayload n v) m1 (\<lambda>c v'. owns c v' t)"
    and k: "reads_key (cells m) k K" and m: "fresh m"
  shows "makes (mem_bind (CZString_copy k) (\<lambda>k'. mem_bind (mem_cleanup (dupPayload n v) (CZString_destroy k')) (\<lambda>v'. mem_return (k', v')))) m
    (\<lambda>c e. owns_entry c e (K, t))"
proof (rule makes_then [where P = "\<lambda>c k'. owns_key c k' K" and Q = "\<lambda>_ c v'. owns c v' t" and h = CZString_destroy])
  show "makes (CZString_copy k) m (\<lambda>c k'. owns_key c k' K)" by (rule CZString_copy_makes [OF k m])
qed (auto simp: v owns_key_dom release_key intro: owns_key_frame dest: owns_key_dom)

lemma dup_map:
  assumes m: "value_payload v = P_map b" "value_type v = (if isarray then arrayType else objectType)"
      "cells m b = Some (Entries ms)" "map_keys isarray es" "fresh m"
    and copy: "\<And>m1 a. grown m m1 {a} \<Longrightarrow> makes (copy_entries k ms) m1 (\<lambda>c ms'. owns_entries c ms' es)"
  shows "makes (dupPayload (Suc k) v) m (\<lambda>c v'. owns c v' (TMap isarray es))"
proof -
  define w where "w = \<lparr>value_type = value_type v, allocated = False, value_payload = value_payload v\<rparr>"
  define after where "after = (\<lambda>a. mem_bind (mem_cleanup (copy_entries k ms) (delete_map a))
    (\<lambda>es'. mem_bind (write_entries a es') (\<lambda>_. mem_return (w\<lparr>value_payload := P_map a\<rparr>))))"
  have run: "dupPayload (Suc k) v m = mem_bind (allocate BadAlloc (Entries [])) after m"
    using m by (auto simp: dupPayload.simps Let_def read_entries_def w_def after_def)
  have "makes (allocate BadAlloc (Entries [])) m (\<lambda>c a B. c a = Some (Entries []) \<and> B = {a})"
    using m(5) by (auto intro!: makes_allocate)
  then show ?thesis
  proof (cases rule: makesE)
    case (failed e m')
    then show ?thesis by (intro makes_failI) (auto simp: run)
  next
    case (made a m1 B1)
    then have a: "allocate BadAlloc (Entries []) m = Some (Inr a, m1)" "grown m m1 {a}" "cells m1 a = Some (Entries [])" by auto
    from copy [OF a(2)] show ?thesis
    proof (cases rule: makesE)
      case (failed e m2)
      have "cells m2 a = Some (Entries [])" using failed(3) a(3) by (rule grown_cells)
      then have d: "delete_map a m2 = Some (Inr (), m2\<lparr>cells := cells m2 |` (- {a})\<rparr>)"
        by (simp add: delete_map_def restrict_complement_singleton_eq)
      have "grown m (m2\<lparr>cells := cells m2 |` (- {a})\<rparr>) {}" using grown_undo [OF a(2) failed(3)] a(3) by auto
      then show ?thesis using failed d allocation_failure_grown [OF a(2)] by (intro makes_failI) (auto simp: run a(1) after_def)
    next
      case (made ms' m2 B)
      let ?m3 = "m2\<lparr>cells := (cells m2)(a \<mapsto> Entries ms')\<rparr>"
      have aB: "a \<notin> B" using made(2) a(3) by (auto simp: grown_def)
      have c: "cells m2 a = Some (Entries [])" using made(2) a(3) by (rule grown_cells)
      have g: "grown m m2 (insert a B)" using grown_trans [OF a(2) made(2)] a(3) by auto
      then have g3: "grown m ?m3 (insert a B)" using c by (auto simp: grown_def fresh_def)
      have "owns_entries (cells ?m3) ms' es B" by (rule owns_frame(2) [OF made(3)]) (use aB in auto)
      then have o: "owns (cells ?m3) (w\<lparr>value_payload := P_map a\<rparr>) (TMap isarray es) (insert a B)"
        using aB m(2,4) by (auto simp: w_def)
      have "dupPayload (Suc k) v m = Some (Inr (w\<lparr>value_payload := P_map a\<rparr>), ?m3)"
        using made(1) c by (simp add: run a(1) after_def write_entries_def mem_return_def)
      then show ?thesis by (rule makesI [where P = "\<lambda>c v'. owns c v' (TMap isarray es)", OF _ g3 o])
    qed
  qed
qed

lemma dup_string:
  assumes "owns (cells m) v (TString s) A" "fresh m"
  shows "makes (dupPayload (Suc k) v) m (\<lambda>c v'. owns c v' (TString s))"
proof (cases "allocated v")
  case True
  then obtain a where a: "value_payload v = P_string (Block a)" "value_type v = stringType" "length s \<le> maxInt - 5"
    "cells m a = Some (Chars (unsigned_bytes (length s) @ s @ [NUL]))" using assms by auto
  note d = decode_prefixed [of "cells m", OF a(4,3)]
  have "makes (duplicateAndPrefixStringValue (Block a) 4 (length s)) m
    (\<lambda>c a B. c a = Some (Chars (unsigned_bytes (length s) @ s @ [NUL])) \<and> B = {a})"
    using d(2) a(3) assms(2) by (rule duplicate_prefixed_makes) simp
  then show ?thesis using a d True by (auto simp: dupPayload.simps Let_def elim!: makes_wrap intro!: makes_read)
next
  case False
  then show ?thesis using assms by (auto simp: dupPayload.simps Let_def intro!: makes_return)
qed

lemma dup:
  "owns (cells m) v t A \<Longrightarrow> depth t < n \<Longrightarrow> fresh m \<Longrightarrow> makes (dupPayload n v) m (\<lambda>c v'. owns c v' t)"
  "owns_entries (cells m) ms es A \<Longrightarrow> es \<noteq> [] \<longrightarrow> depth_entries es < n \<Longrightarrow> fresh m \<Longrightarrow>
     makes (copy_entries n ms) m (\<lambda>c ms'. owns_entries c ms' es)"
proof (induction t and es arbitrary: v A m n and ms A m n rule: depth_depth_entries.induct)
  case (1 isarray es)
  from 1(3) obtain k where n: "n = Suc k" by (cases n) auto
  from 1(2) obtain b ms B where b: "value_payload v = P_map b" "value_type v = (if isarray then arrayType else objectType)"
    "cells m b = Some (Entries ms)" "map_keys isarray es" "owns_entries (cells m) ms es B" by auto
  have "makes (copy_entries k ms) m1 (\<lambda>c ms'. owns_entries c ms' es)" if g: "grown m m1 {a}" for m1 a
  proof (rule 1(1))
    show "owns_entries (cells m1) ms es B"
      using owns_frame(2) [OF b(5)] owns_dom(2) [OF b(5)] grown_same [OF g] by blast
  qed (use 1(3) n grown_fresh [OF g] in auto)
  then show ?case unfolding n using b(1-4) 1(4) by (intro dup_map)
next
  case "2_6"
  from "2_6"(2) obtain k where n: "n = Suc k" by (cases n) auto
  show ?case unfolding n using "2_6"(1,3) by (rule dup_string)
next
  case (4 K t es)
  from 4(3) obtain k v ms' A1 A2 A3 where ms: "ms = (k, v) # ms'" and k: "owns_key (cells m) k K A1"
    and v: "owns (cells m) v t A2" and es: "owns_entries (cells m) ms' es A3" by auto
  have n: "depth t < n" "es \<noteq> [] \<longrightarrow> depth_entries es < n" using 4(4) by auto
  have cv: "makes (dupPayload n v) m1 (\<lambda>c v'. owns c v' t)" if "grown m m1 B" for m1 B
    using 4(1) [OF owns_frame(1) [OF v, of "cells m1"] n(1) grown_fresh [OF that]] owns_dom(1) [OF v] grown_same [OF that] by blast
  have ces: "makes (copy_entries n ms') m1 (\<lambda>c ms'. owns_entries c ms' es)" if "grown m m1 B" for m1 B
    using 4(2) [OF owns_frame(2) [OF es, of "cells m1"] n(2) grown_fresh [OF that]] owns_dom(2) [OF es] grown_same [OF that] by blast
  define entry where "entry = mem_bind (CZString_copy k) (\<lambda>k'. mem_bind (mem_cleanup (dupPayload n v) (CZString_destroy k')) (\<lambda>v'. mem_return (k', v')))"
  have "makes (mem_bind entry (\<lambda>e. mem_bind (mem_cleanup (copy_entries n ms') (release_entries n [e])) (\<lambda>ms'. mem_return (e # ms')))) m1
     (\<lambda>c ms'. owns_entries c ms' ((K, t) # es))" if g: "grown m m1 {}" for m1
  proof (rule makes_then [where P = "\<lambda>c e. owns_entry c e (K, t)" and Q = "\<lambda>_ c ms'. owns_entries c ms' es"])
    show "makes entry m1 (\<lambda>c e. owns_entry c e (K, t))"
      unfolding entry_def
    proof (rule copy_entry_makes)
      fix m2 B assume "grown m1 m2 B"
      then have "grown m m2 B" using grown_trans [OF g] by auto
      then show "makes (dupPayload n v) m2 (\<lambda>c v'. owns c v' t)" by (rule cv)
    qed (use reads_key_grown [OF owns_reads_key [OF k] g] grown_fresh [OF g] in auto)
  next
    fix e m2 B assume "grown m1 m2 B"
    then have "grown m m2 B" using grown_trans [OF g] by auto
    then show "makes (copy_entries n ms') m2 (\<lambda>c ms'. owns_entries c ms' es)" by (rule ces)
  next
    fix c e ms'' B C assume "owns_entry c e (K, t) B" "owns_entries c ms'' es C" "B \<inter> C = {}"
    then show "owns_entries c (e # ms'') ((K, t) # es) (B \<union> C)" using owns_entries_Cons by blast
  qed (use n(1) owns_dom(2) owns_frame(2) release(2) in \<open>auto simp del: owns_entries.simps\<close>)
  then show ?case
    unfolding ms copy_entries.simps(2) entry_def by (intro makes_node 4(5)) (simp only: mem_bind_assoc mem_bind_return)
qed (auto simp: dupPayload.simps Let_def gr0_conv_Suc intro!: makes_return)

end
