(* ===== verification/Json_Memory_Programs.thy ===== *)
theory Json_Memory_Programs
  imports Json_Memory
begin

text \<open>
  Programs on values in memory: the operations of \<open>Json::Value\<close> that reach into maps and move payloads, as commands on local
  variables, and what the commands mean on trees. A reference is a place: a variable, or the value of a node, which
  its map and its key name.
\<close>

section \<open>Places\<close>

datatype place = Variable nat | Slot nat key

text \<open>What a key says, if its text can be read.\<close>

definition key_of :: "CZString \<Rightarrow> (nat \<Rightarrow> block option) \<Rightarrow> key option" where
  "key_of k c = (case k of Index i \<Rightarrow> Some (IndexKey i) | Text p policy n \<Rightarrow> map_option StringKey (read_bytes p 0 n c))"

fun find_entry :: "key \<Rightarrow> entries \<Rightarrow> (nat \<Rightarrow> block option) \<Rightarrow> MValue option" where
  "find_entry K [] c = None"
| "find_entry K ((k, v) # es) c =
     (case key_of k c of
        None \<Rightarrow> None
      | Some L \<Rightarrow> if L = K then Some v else find_entry K es c)"

fun store_entry :: "key \<Rightarrow> MValue \<Rightarrow> entries \<Rightarrow> (nat \<Rightarrow> block option) \<Rightarrow> entries" where
  "store_entry K w [] c = []"
| "store_entry K w ((k, v) # es) c = (if key_of k c = Some K then (k, w) # es else (k, v) # store_entry K w es c)"

definition slot_value :: "nat \<Rightarrow> key \<Rightarrow> (nat \<Rightarrow> block option) \<Rightarrow> MValue option" where
  "slot_value a K c = (case read_entries a c of None \<Rightarrow> None | Some es \<Rightarrow> find_entry K es c)"

definition place_value :: "place \<Rightarrow> Memory \<Rightarrow> MValue option" where
  "place_value pl m = (case pl of Variable x \<Rightarrow> variables m x | Slot a K \<Rightarrow> slot_value a K (cells m))"

definition read_place :: "place \<Rightarrow> MValue mem" where
  "read_place pl m =
     (case place_value pl m of
        None \<Rightarrow> None
      | Some v \<Rightarrow> Some (Inr v, m))"

definition write_place :: "place \<Rightarrow> MValue \<Rightarrow> unit mem" where
  "write_place pl w m =
     (case pl of
        Variable x \<Rightarrow> if variables m x = None then None else Some (Inr (), m\<lparr>variables := (variables m)(x \<mapsto> w)\<rparr>)
      | Slot a K \<Rightarrow>
          (case read_entries a (cells m) of
             None \<Rightarrow> None
           | Some es \<Rightarrow>
               if find_entry K es (cells m) = None then None
               else Some (Inr (), m\<lparr>cells := (cells m)(a \<mapsto> Entries (store_entry K w es (cells m)))\<rparr>)))"

section \<open>Members and elements\<close>

datatype access = At nat | Member string | StaticMember string

text \<open>The key that a subscript makes, which is not copied yet, and what it says.\<close>

definition access_key :: "access \<Rightarrow> CZString" where
  "access_key acc =
     (case acc of
        At i \<Rightarrow> Index (i mod 2 ^ 32)
      | Member s \<Rightarrow> CZString_text s (length s) duplicateOnCopy
      | StaticMember s \<Rightarrow> CZString_text s (length (c_text s)) noDuplication)"

definition key_named :: "access \<Rightarrow> key" where
  "key_named acc =
     (case acc of
        At i \<Rightarrow> IndexKey (i mod 2 ^ 32)
      | Member s \<Rightarrow> StringKey (take (length s mod 2 ^ 30) s)
      | StaticMember s \<Rightarrow> StringKey (take (length (c_text s) mod 2 ^ 30) s))"

definition access_type :: "access \<Rightarrow> ValueType" where
  "access_type acc = (case acc of At i \<Rightarrow> arrayType | _ \<Rightarrow> objectType)"

definition access_error :: "access \<Rightarrow> cxx_exn" where
  "access_error acc =
     LogicError (case acc of
        At i \<Rightarrow> ''in Json::Value::operator[](ArrayIndex): requires arrayValue''
      | Member s \<Rightarrow> ''in Json::Value::resolveReference(key, end): requires objectValue''
      | StaticMember s \<Rightarrow> ''in Json::Value::resolveReference(): requires objectValue'')"

text \<open>\<open>lower_bound\<close>: how many keys of the map are less, and whether the next one is equal.\<close>

fun lower_bound :: "CZString \<Rightarrow> entries \<Rightarrow> (nat \<Rightarrow> block option) \<Rightarrow> nat option" where
  "lower_bound key [] c = Some 0"
| "lower_bound key ((k, v) # es) c =
     (case key_less_mem k key c of
        None \<Rightarrow> None
      | Some is_less \<Rightarrow> if is_less then map_option Suc (lower_bound key es c) else Some 0)"

definition found_at :: "CZString \<Rightarrow> entries \<Rightarrow> nat \<Rightarrow> (nat \<Rightarrow> block option) \<Rightarrow> bool option" where
  "found_at key es i c = (if i < length es then key_equal_mem (fst (es ! i)) key c else Some False)"

abbreviation null_value :: MValue where
  "null_value \<equiv> initBasic nullType False"

text \<open>
  The pair \<open>defaultValue\<close> copies the key, and the node copies it once more; the pair is destroyed at the end.
\<close>

definition insert_null :: "CZString \<Rightarrow> nat \<Rightarrow> nat \<Rightarrow> unit mem" where
  "insert_null key a i =
     mem_bind (CZString_copy key) (\<lambda>k1.
     mem_bind (mem_cleanup (mem_bind allocate_node (\<lambda>_. CZString_copy k1)) (CZString_destroy k1)) (\<lambda>k2.
     mem_bind (mem_read (read_entries a)) (\<lambda>es.
     mem_bind (write_entries a (take i es @ (k2, null_value) # drop i es)) (\<lambda>_.
     CZString_destroy k1))))"

text \<open>\<open>*this = Value(type)\<close> for a null: the temporary takes the null and is destroyed.\<close>

definition become :: "ValueType \<Rightarrow> place \<Rightarrow> MValue \<Rightarrow> MValue mem" where
  "become type pl v =
     (if value_type v = nullType then
        mem_bind (Value_of_type type) (\<lambda>w.
        mem_bind (write_place pl w) (\<lambda>_.
        mem_bind (releasePayload 1 v) (\<lambda>_. mem_return w)))
      else mem_return v)"

definition find_or_insert :: "access \<Rightarrow> MValue \<Rightarrow> place mem" where
  "find_or_insert acc v =
     (case value_payload v of
        P_map a \<Rightarrow>
          mem_bind (mem_read (read_entries a)) (\<lambda>es.
          mem_bind (mem_read (lower_bound (access_key acc) es)) (\<lambda>i.
          mem_bind (mem_read (found_at (access_key acc) es i)) (\<lambda>found.
          mem_bind (if found then mem_return () else insert_null (access_key acc) a i) (\<lambda>_.
          mem_return (Slot a (key_named acc))))))
      | _ \<Rightarrow> mem_fault)"

text \<open>\<open>operator[]\<close> and \<open>resolveReference\<close>.\<close>

definition subscript :: "access \<Rightarrow> place \<Rightarrow> place mem" where
  "subscript acc pl =
     mem_bind (read_place pl) (\<lambda>v.
     if value_type v \<noteq> nullType \<and> value_type v \<noteq> access_type acc then mem_throw (Thrown (access_error acc))
     else mem_bind (become (access_type acc) pl v) (find_or_insert acc))"

fun subscripts :: "access list \<Rightarrow> place \<Rightarrow> place mem" where
  "subscripts [] pl = mem_return pl"
| "subscripts (acc # p) pl = mem_bind (subscript acc pl) (subscripts p)"

section \<open>Values as a whole\<close>

text \<open>The fuel is the number of allocations so far: values are not nested deeper than there are blocks.\<close>

definition copy_value :: "MValue \<Rightarrow> MValue mem" where
  "copy_value v m = dupPayload (Suc (next_free m)) v m"

definition destroy_value :: "MValue \<Rightarrow> unit mem" where
  "destroy_value v m = releasePayload (Suc (next_free m)) v m"

text \<open>\<open>swapPayload\<close> of two places.\<close>

definition swap_places :: "place \<Rightarrow> place \<Rightarrow> unit mem" where
  "swap_places pl pr =
     mem_bind (read_place pl) (\<lambda>v.
     mem_bind (read_place pr) (\<lambda>w.
     mem_bind (write_place pl w) (\<lambda>_. write_place pr v)))"

text \<open>\<open>operator=\<close>: a temporary copy is swapped with the value and destroyed.\<close>

definition assign_place :: "place \<Rightarrow> place \<Rightarrow> unit mem" where
  "assign_place pl pr =
     mem_bind (read_place pr) (\<lambda>v.
     mem_bind (copy_value v) (\<lambda>w.
     mem_bind (read_place pl) (\<lambda>old.
     mem_bind (write_place pl w) (\<lambda>_. destroy_value old))))"

text \<open>
  \<open>copyPayload\<close>: the old payload is released first. When \<open>dupPayload\<close> throws, the type is the new one and the payload still
  the old one.
\<close>

definition copyPayload :: "place \<Rightarrow> place \<Rightarrow> unit mem" where
  "copyPayload pl pr =
     mem_bind (read_place pl) (\<lambda>old.
     mem_bind (destroy_value old) (\<lambda>_.
     mem_bind (read_place pr) (\<lambda>v.
     mem_bind (mem_cleanup (copy_value v) (write_place pl (old\<lparr>value_type := value_type v, allocated := False\<rparr>)))
       (write_place pl))))"

text \<open>\<open>size\<close> of what may be an array.\<close>

definition size_of :: "MValue \<Rightarrow> nat mem" where
  "size_of v =
     (if value_type v = arrayType \<or> value_type v = objectType then
        case value_payload v of
          P_map a \<Rightarrow>
            mem_bind (mem_read (read_entries a)) (\<lambda>es.
              if value_type v = objectType then mem_return (length es mod 2 ^ 32)
              else if es = [] then mem_return 0
              else case fst (last es) of Index i \<Rightarrow> mem_return ((i + 1) mod 2 ^ 32) | _ \<Rightarrow> mem_fault)
        | _ \<Rightarrow> mem_fault
      else mem_return 0)"

definition append_place :: "place \<Rightarrow> place \<Rightarrow> unit mem" where
  "append_place pl pr =
     mem_bind (read_place pl) (\<lambda>v.
     mem_bind (size_of v) (\<lambda>n.
     mem_bind (subscript (At n) pl) (\<lambda>slot. assign_place slot pr)))"

text \<open>\<open>append(Value&&)\<close> swaps the new element with its argument.\<close>

definition append_move :: "place \<Rightarrow> place \<Rightarrow> unit mem" where
  "append_move pl pr =
     mem_bind (read_place pl) (\<lambda>v.
     mem_bind (size_of v) (\<lambda>n.
     mem_bind (subscript (At n) pl) (\<lambda>slot. swap_places slot pr)))"

text \<open>\<open>erase\<close> of a node of a map: its value and its key are destroyed.\<close>

definition erase_node :: "nat \<Rightarrow> nat \<Rightarrow> unit mem" where
  "erase_node a i =
     mem_bind (mem_read (read_entries a)) (\<lambda>es.
     mem_bind (write_entries a (take i es @ drop (Suc i) es)) (\<lambda>_.
     mem_bind (destroy_value (snd (es ! i))) (\<lambda>_. CZString_destroy (fst (es ! i)))))"

text \<open>\<open>removeMember(begin, end, removed)\<close>.\<close>

definition remove_member :: "string \<Rightarrow> place option \<Rightarrow> place \<Rightarrow> bool mem" where
  "remove_member s removed pl =
     mem_bind (read_place pl) (\<lambda>v.
     if value_type v \<noteq> objectType then mem_return False
     else case value_payload v of
       P_map a \<Rightarrow>
         let key = CZString_text s (length s) noDuplication
         in mem_bind (mem_read (read_entries a)) (\<lambda>es.
            mem_bind (mem_read (lower_bound key es)) (\<lambda>i.
            mem_bind (mem_read (found_at key es i)) (\<lambda>found.
            if \<not> found then mem_return False
            else
              mem_bind (case removed of None \<Rightarrow> mem_return () | Some pr \<Rightarrow> swap_places pr (Slot a (key_named (Member s)))) (\<lambda>_.
              mem_bind (erase_node a i) (\<lambda>_. mem_return True)))))
     | _ \<Rightarrow> mem_fault)"

text \<open>\<open>clear\<close>.\<close>

definition clear_place :: "place \<Rightarrow> unit mem" where
  "clear_place pl =
     mem_bind (read_place pl) (\<lambda>v.
     if value_type v = arrayType \<or> value_type v = objectType then
       case value_payload v of
         P_map a \<Rightarrow>
           mem_bind (mem_read (read_entries a)) (\<lambda>es.
           mem_bind (\<lambda>m. release_entries (Suc (next_free m)) es m) (\<lambda>_. write_entries a []))
       | _ \<Rightarrow> mem_fault
     else if value_type v = nullType then mem_return ()
     else mem_throw (Thrown (LogicError ''in Json::Value::clear(): requires complex value'')))"

text \<open>\<open>resize\<close>: the loop erases the indices from the new size up to the old one, where there are elements.\<close>

definition erase_key :: "CZString \<Rightarrow> nat \<Rightarrow> unit mem" where
  "erase_key key a =
     mem_bind (mem_read (read_entries a)) (\<lambda>es.
     mem_bind (mem_read (lower_bound key es)) (\<lambda>i.
     mem_bind (mem_read (found_at key es i)) (\<lambda>found.
     if found then erase_node a i else mem_return ())))"

function erase_indices :: "nat \<Rightarrow> nat \<Rightarrow> nat \<Rightarrow> unit mem" where
  "erase_indices a index oldSize =
     (if index < oldSize then mem_bind (erase_key (Index index) a) (\<lambda>_. erase_indices a (Suc index) oldSize)
      else mem_return ())"
  by pat_completeness auto
termination by (relation "measure (\<lambda>(a, index, oldSize). oldSize - index)") auto

declare erase_indices.simps [simp del]

definition resize_array :: "nat \<Rightarrow> place \<Rightarrow> MValue \<Rightarrow> unit mem" where
  "resize_array newSize pl v =
     mem_bind (size_of v) (\<lambda>oldSize.
     if newSize = 0 then clear_place pl
     else if newSize > oldSize then mem_bind (subscript (At (newSize - 1)) pl) (\<lambda>_. mem_return ())
     else case value_payload v of
       P_map a \<Rightarrow>
         mem_bind (erase_indices a newSize oldSize) (\<lambda>_.
         mem_bind (size_of v) (\<lambda>n.
         if n = newSize then mem_return () else mem_throw (Thrown (LogicError ''assert json failed''))))
     | _ \<Rightarrow> mem_fault)"

definition resize_place :: "nat \<Rightarrow> place \<Rightarrow> unit mem" where
  "resize_place newSize pl =
     mem_bind (read_place pl) (\<lambda>v.
     if value_type v \<noteq> nullType \<and> value_type v \<noteq> arrayType
     then mem_throw (Thrown (LogicError ''in Json::Value::resize(): requires arrayValue''))
     else mem_bind (become arrayType pl v) (resize_array newSize pl))"

section \<open>Programs\<close>

datatype initial =
    OfType ValueType
  | OfInt int
  | OfUInt nat
  | OfReal "64 word"
  | OfBool bool
  | OfCString string
  | OfString string
  | OfStaticString string

fun construct :: "initial \<Rightarrow> MValue mem" where
  "construct (OfType type) = Value_of_type type"
| "construct (OfInt n) = mem_return (Value_of_int n)"
| "construct (OfUInt n) = mem_return (Value_of_uint n)"
| "construct (OfReal d) = mem_return (Value_of_real d)"
| "construct (OfBool b) = mem_return (Value_of_bool b)"
| "construct (OfCString s) = Value_of_c_str s"
| "construct (OfString s) = Value_of_String s"
| "construct (OfStaticString s) = mem_return (Value_of_StaticString s)"

type_synonym lvalue = "nat \<times> access list"

datatype command =
    Construct nat initial
  | CopyConstruct nat lvalue
  | MoveConstruct nat lvalue
  | Destroy nat
  | Assign lvalue lvalue
  | MoveAssign lvalue lvalue
  | Swap lvalue lvalue
  | Copy lvalue lvalue
  | Append lvalue lvalue
  | AppendMove lvalue lvalue
  | RemoveMember lvalue string "nat option"
  | Clear lvalue
  | Resize lvalue nat

definition lvalue_place :: "lvalue \<Rightarrow> place mem" where
  "lvalue_place l = subscripts (snd l) (Variable (fst l))"

definition declare_variable :: "nat \<Rightarrow> MValue \<Rightarrow> unit mem" where
  "declare_variable x v m =
     (if variables m x \<noteq> None then None else Some (Inr (), m\<lparr>variables := (variables m)(x \<mapsto> v)\<rparr>))"

definition drop_variable :: "nat \<Rightarrow> unit mem" where
  "drop_variable x m = Some (Inr (), m\<lparr>variables := (variables m)(x := None)\<rparr>)"

fun exec :: "command \<Rightarrow> unit mem" where
  "exec (Construct x i) = mem_bind (construct i) (declare_variable x)"
| "exec (CopyConstruct x r) =
     mem_bind (lvalue_place r) (\<lambda>pr. mem_bind (read_place pr) (\<lambda>v. mem_bind (copy_value v) (declare_variable x)))"
| "exec (MoveConstruct x r) =
     mem_bind (lvalue_place r) (\<lambda>pr. mem_bind (declare_variable x null_value) (\<lambda>_. swap_places (Variable x) pr))"
| "exec (Destroy x) =
     mem_bind (read_place (Variable x)) (\<lambda>v. mem_bind (destroy_value v) (\<lambda>_. drop_variable x))"
| "exec (Assign l r) = mem_bind (lvalue_place l) (\<lambda>pl. mem_bind (lvalue_place r) (assign_place pl))"
| "exec (MoveAssign l r) = mem_bind (lvalue_place l) (\<lambda>pl. mem_bind (lvalue_place r) (swap_places pl))"
| "exec (Swap l r) = mem_bind (lvalue_place l) (\<lambda>pl. mem_bind (lvalue_place r) (swap_places pl))"
| "exec (Copy l r) = mem_bind (lvalue_place l) (\<lambda>pl. mem_bind (lvalue_place r) (copyPayload pl))"
| "exec (Append l r) = mem_bind (lvalue_place l) (\<lambda>pl. mem_bind (lvalue_place r) (append_place pl))"
| "exec (AppendMove l r) = mem_bind (lvalue_place l) (\<lambda>pl. mem_bind (lvalue_place r) (append_move pl))"
| "exec (RemoveMember l s removed) =
     mem_bind (lvalue_place l) (\<lambda>pl. mem_bind (remove_member s (map_option Variable removed) pl) (\<lambda>_. mem_return ()))"
| "exec (Clear l) = mem_bind (lvalue_place l) clear_place"
| "exec (Resize l n) = mem_bind (lvalue_place l) (resize_place (n mod 2 ^ 32))"

fun exec_all :: "command list \<Rightarrow> unit mem" where
  "exec_all [] = mem_return ()"
| "exec_all (c # cs) = mem_bind (exec c) (\<lambda>_. exec_all cs)"

definition empty_memory :: "(nat \<Rightarrow> bool) \<Rightarrow> Memory" where
  "empty_memory oom = \<lparr>cells = Map.empty, next_free = 0, out_of_memory = oom, variables = Map.empty\<rparr>"

section \<open>Programs on trees\<close>

fun entries_resolve :: "key \<Rightarrow> (key \<times> Tree) list \<Rightarrow> (key \<times> Tree) list" where
  "entries_resolve K [] = [(K, TNull)]"
| "entries_resolve K ((L, t) # es) =
     (if key_less L K then (L, t) # entries_resolve K es
      else if L = K then (L, t) # es
      else (K, TNull) # (L, t) # es)"

fun entries_store :: "key \<Rightarrow> Tree \<Rightarrow> (key \<times> Tree) list \<Rightarrow> (key \<times> Tree) list" where
  "entries_store K u [] = []"
| "entries_store K u ((L, t) # es) = (if L = K then (L, u) # es else (L, t) # entries_store K u es)"

fun subtree :: "Tree \<Rightarrow> key list \<Rightarrow> Tree option" where
  "subtree t [] = Some t"
| "subtree (TMap b es) (K # ks) = (case map_of es K of None \<Rightarrow> None | Some u \<Rightarrow> subtree u ks)"
| "subtree t (K # ks) = None"

fun replace :: "Tree \<Rightarrow> key list \<Rightarrow> Tree \<Rightarrow> Tree" where
  "replace t [] u = u"
| "replace (TMap b es) (K # ks) u =
     (case map_of es K of None \<Rightarrow> TMap b es | Some t \<Rightarrow> TMap b (entries_store K (replace t ks u) es))"
| "replace t (K # ks) u = t"

definition tree_subscript :: "access \<Rightarrow> Tree \<Rightarrow> Tree result" where
  "tree_subscript acc t =
     (let K = key_named acc
      in case t of
           TNull \<Rightarrow> Inr (TMap (is_index K) (entries_resolve K []))
         | TMap b es \<Rightarrow> if b = is_index K then Inr (TMap b (entries_resolve K es)) else Inl (access_error acc)
         | _ \<Rightarrow> Inl (access_error acc))"

fun tree_subscripts :: "access list \<Rightarrow> Tree \<Rightarrow> Tree result" where
  "tree_subscripts [] t = Inr t"
| "tree_subscripts (acc # p) t =
     bind_result (tree_subscript acc t) (\<lambda>t'.
     bind_result (tree_subscripts p (the (subtree t' [key_named acc]))) (\<lambda>u. Inr (replace t' [key_named acc] u)))"

type_synonym store = "nat \<Rightarrow> Tree option"

definition keys :: "lvalue \<Rightarrow> key list" where
  "keys l = map key_named (snd l)"

definition resolve_lvalue :: "lvalue \<Rightarrow> store \<Rightarrow> store result" where
  "resolve_lvalue l \<sigma> = bind_result (tree_subscripts (snd l) (the (\<sigma> (fst l)))) (\<lambda>t. Inr (\<sigma>(fst l \<mapsto> t)))"

definition look :: "lvalue \<Rightarrow> store \<Rightarrow> Tree" where
  "look l \<sigma> = the (subtree (the (\<sigma> (fst l))) (keys l))"

definition put :: "lvalue \<Rightarrow> Tree \<Rightarrow> store \<Rightarrow> store" where
  "put l u \<sigma> = \<sigma>(fst l \<mapsto> replace (the (\<sigma> (fst l))) (keys l) u)"

definition chars_tree :: "string \<Rightarrow> nat \<Rightarrow> Tree result" where
  "chars_tree s n =
     (if n mod 2 ^ 32 \<le> maxInt - 5 then Inr (TString (take (n mod 2 ^ 32) s))
      else Inl (LogicError ''in Json::Value::duplicateAndPrefixStringValue(): length too big for prefixing''))"

fun type_tree :: "ValueType \<Rightarrow> Tree" where
  "type_tree nullType = TNull"
| "type_tree intType = TInt 0"
| "type_tree uintType = TUInt 0"
| "type_tree realType = TReal 0"
| "type_tree stringType = TString []"
| "type_tree booleanType = TBool False"
| "type_tree arrayType = TMap True []"
| "type_tree objectType = TMap False []"

fun initial_tree :: "initial \<Rightarrow> Tree result" where
  "initial_tree (OfType type) = Inr (type_tree type)"
| "initial_tree (OfInt n) = Inr (TInt n)"
| "initial_tree (OfUInt n) = Inr (TUInt n)"
| "initial_tree (OfReal d) = Inr (TReal d)"
| "initial_tree (OfBool b) = Inr (TBool b)"
| "initial_tree (OfCString s) = chars_tree s (length (c_text s))"
| "initial_tree (OfString s) = chars_tree s (length s)"
| "initial_tree (OfStaticString s) = Inr (TString (c_text s))"

fun tree_size :: "Tree \<Rightarrow> nat" where
  "tree_size (TMap b es) =
     (if \<not> b then length es mod 2 ^ 32
      else if es = [] then 0
      else case fst (last es) of IndexKey i \<Rightarrow> (i + 1) mod 2 ^ 32 | _ \<Rightarrow> 0)"
| "tree_size t = 0"

definition tree_resize :: "nat \<Rightarrow> Tree \<Rightarrow> Tree result" where
  "tree_resize n t =
     (case (if t = TNull then TMap True [] else t) of
        TMap True es \<Rightarrow>
          if n = 0 then Inr (TMap True [])
          else if n > tree_size (TMap True es) then tree_subscript (At (n - 1)) (TMap True es)
          else
            let t' = TMap True (filter (\<lambda>E. fst E \<notin> IndexKey ` {n..<tree_size (TMap True es)}) es)
            in if tree_size t' = n then Inr t' else Inl (LogicError ''assert json failed'')
      | _ \<Rightarrow> Inl (LogicError ''in Json::Value::resize(): requires arrayValue''))"

fun spec :: "command \<Rightarrow> store \<Rightarrow> store result" where
  "spec (Construct x i) \<sigma> = bind_result (initial_tree i) (\<lambda>t. Inr (\<sigma>(x \<mapsto> t)))"
| "spec (CopyConstruct x r) \<sigma> = bind_result (resolve_lvalue r \<sigma>) (\<lambda>\<sigma>. Inr (\<sigma>(x \<mapsto> look r \<sigma>)))"
| "spec (MoveConstruct x r) \<sigma> = bind_result (resolve_lvalue r \<sigma>) (\<lambda>\<sigma>. Inr ((put r TNull \<sigma>)(x \<mapsto> look r \<sigma>)))"
| "spec (Destroy x) \<sigma> = Inr (\<sigma>(x := None))"
| "spec (Assign l r) \<sigma> =
     bind_result (resolve_lvalue l \<sigma>) (\<lambda>\<sigma>. bind_result (resolve_lvalue r \<sigma>) (\<lambda>\<sigma>. Inr (put l (look r \<sigma>) \<sigma>)))"
| "spec (MoveAssign l r) \<sigma> =
     bind_result (resolve_lvalue l \<sigma>) (\<lambda>\<sigma>. bind_result (resolve_lvalue r \<sigma>) (\<lambda>\<sigma>. Inr (put r (look l \<sigma>) (put l (look r \<sigma>) \<sigma>))))"
| "spec (Swap l r) \<sigma> =
     bind_result (resolve_lvalue l \<sigma>) (\<lambda>\<sigma>. bind_result (resolve_lvalue r \<sigma>) (\<lambda>\<sigma>. Inr (put r (look l \<sigma>) (put l (look r \<sigma>) \<sigma>))))"
| "spec (Copy l r) \<sigma> =
     bind_result (resolve_lvalue l \<sigma>) (\<lambda>\<sigma>. bind_result (resolve_lvalue r \<sigma>) (\<lambda>\<sigma>. Inr (put l (look r \<sigma>) \<sigma>)))"
| "spec (Append l r) \<sigma> =
     bind_result (resolve_lvalue l \<sigma>) (\<lambda>\<sigma>. bind_result (resolve_lvalue r \<sigma>) (\<lambda>\<sigma>.
     let acc = At (tree_size (look l \<sigma>))
     in bind_result (tree_subscript acc (look l \<sigma>)) (\<lambda>t.
        let \<sigma> = put l t \<sigma> in Inr (put (fst l, snd l @ [acc]) (look r \<sigma>) \<sigma>))))"
| "spec (AppendMove l r) \<sigma> =
     bind_result (resolve_lvalue l \<sigma>) (\<lambda>\<sigma>. bind_result (resolve_lvalue r \<sigma>) (\<lambda>\<sigma>.
     let acc = At (tree_size (look l \<sigma>)); l' = (fst l, snd l @ [acc])
     in bind_result (tree_subscript acc (look l \<sigma>)) (\<lambda>t.
        let \<sigma> = put l t \<sigma> in Inr (put r (look l' \<sigma>) (put l' (look r \<sigma>) \<sigma>)))))"
| "spec (RemoveMember l s removed) \<sigma> =
     bind_result (resolve_lvalue l \<sigma>) (\<lambda>\<sigma>.
     case look l \<sigma> of
       TMap False es \<Rightarrow>
         (case map_of es (key_named (Member s)) of
            None \<Rightarrow> Inr \<sigma>
          | Some u \<Rightarrow>
              let \<sigma> = put l (TMap False (filter (\<lambda>e. fst e \<noteq> key_named (Member s)) es)) \<sigma>
              in Inr (case removed of None \<Rightarrow> \<sigma> | Some y \<Rightarrow> \<sigma>(y \<mapsto> u)))
     | _ \<Rightarrow> Inr \<sigma>)"
| "spec (Clear l) \<sigma> =
     bind_result (resolve_lvalue l \<sigma>) (\<lambda>\<sigma>.
     case look l \<sigma> of
       TNull \<Rightarrow> Inr \<sigma>
     | TMap b es \<Rightarrow> Inr (put l (TMap b []) \<sigma>)
     | _ \<Rightarrow> Inl (LogicError ''in Json::Value::clear(): requires complex value''))"
| "spec (Resize l n) \<sigma> =
     bind_result (resolve_lvalue l \<sigma>) (\<lambda>\<sigma>. bind_result (tree_resize (n mod 2 ^ 32) (look l \<sigma>)) (\<lambda>t. Inr (put l t \<sigma>)))"

text \<open>
  The rules that a program has to keep: it uses the variables in scope, and what is moved, swapped or copied in place is
  not a part of where it goes.
\<close>

fun scoped :: "command \<Rightarrow> store \<Rightarrow> bool" where
  "scoped (Construct x i) \<sigma> = (\<sigma> x = None)"
| "scoped (CopyConstruct x r) \<sigma> = (\<sigma> x = None \<and> \<sigma> (fst r) \<noteq> None)"
| "scoped (MoveConstruct x r) \<sigma> = (\<sigma> x = None \<and> \<sigma> (fst r) \<noteq> None)"
| "scoped (Destroy x) \<sigma> = (\<sigma> x \<noteq> None)"
| "scoped (Assign l r) \<sigma> = (\<sigma> (fst l) \<noteq> None \<and> \<sigma> (fst r) \<noteq> None)"
| "scoped (MoveAssign l r) \<sigma> = (\<sigma> (fst l) \<noteq> None \<and> \<sigma> (fst r) \<noteq> None \<and> fst l \<noteq> fst r)"
| "scoped (Swap l r) \<sigma> = (\<sigma> (fst l) \<noteq> None \<and> \<sigma> (fst r) \<noteq> None \<and> fst l \<noteq> fst r)"
| "scoped (Copy l r) \<sigma> = (\<sigma> (fst l) \<noteq> None \<and> \<sigma> (fst r) \<noteq> None \<and> fst l \<noteq> fst r)"
| "scoped (Append l r) \<sigma> = (\<sigma> (fst l) \<noteq> None \<and> \<sigma> (fst r) \<noteq> None)"
| "scoped (AppendMove l r) \<sigma> = (\<sigma> (fst l) \<noteq> None \<and> \<sigma> (fst r) \<noteq> None \<and> fst l \<noteq> fst r)"
| "scoped (RemoveMember l s removed) \<sigma> =
     (\<sigma> (fst l) \<noteq> None \<and> (case removed of None \<Rightarrow> True | Some y \<Rightarrow> \<sigma> y \<noteq> None \<and> y \<noteq> fst l))"
| "scoped (Clear l) \<sigma> = (\<sigma> (fst l) \<noteq> None)"
| "scoped (Resize l n) \<sigma> = (\<sigma> (fst l) \<noteq> None)"

fun spec_all :: "command list \<Rightarrow> store \<Rightarrow> store result" where
  "spec_all [] \<sigma> = Inr \<sigma>"
| "spec_all (c # cs) \<sigma> = bind_result (spec c \<sigma>) (spec_all cs)"

fun scoped_all :: "command list \<Rightarrow> store \<Rightarrow> bool" where
  "scoped_all [] \<sigma> = True"
| "scoped_all (c # cs) \<sigma> = (scoped c \<sigma> \<and> (case spec c \<sigma> of Inl e \<Rightarrow> True | Inr \<sigma>' \<Rightarrow> scoped_all cs \<sigma>'))"

text \<open>The values of the other theories as trees.\<close>

fun value_tree :: "Value \<Rightarrow> Tree" and elements_tree :: "nat \<Rightarrow> Value list \<Rightarrow> (key \<times> Tree) list"
  and members_tree :: "(string \<times> Value) list \<Rightarrow> (key \<times> Tree) list"
where
  "value_tree nullValue = TNull"
| "value_tree (intValue n) = TInt n"
| "value_tree (uintValue n) = TUInt n"
| "value_tree (realValue d) = TReal d"
| "value_tree (stringValue s) = TString s"
| "value_tree (booleanValue b) = TBool b"
| "value_tree (arrayValue vs) = TMap True (elements_tree 0 vs)"
| "value_tree (objectValue ms) = TMap False (members_tree ms)"
| "elements_tree i [] = []"
| "elements_tree i (v # vs) = (IndexKey i, value_tree v) # elements_tree (Suc i) vs"
| "members_tree [] = []"
| "members_tree ((k, v) # ms) = (StringKey k, value_tree v) # members_tree ms"

end
