(* ===== verification/Json_Memory_Holes.thy ===== *)
theory Json_Memory_Holes
  imports Json_Memory_Programs
begin

text \<open>
  Values in memory with a hole: what is known of the blocks of a value and of all variables when a part of it is
  replaced. A memory represents a store when every block has one owner; \<open>focus\<close> tells what may be written at the end
  of a path so that it still does.
\<close>

section \<open>Keys in memory\<close>

lemma key_less_irrefl: "\<not> key_less K K"
  by (cases K) (auto simp: CZString_less_irrefl)

lemma key_less_trans: "key_less K L \<Longrightarrow> key_less L M \<Longrightarrow> key_less K M"
  by (cases K; cases L; cases M) (auto intro: CZString_less_trans)

lemma key_less_total: "is_index K = is_index L \<Longrightarrow> key_less K L \<or> K = L \<or> key_less L K"
  using CZString_less_total by (cases K; cases L) auto

lemma CZString_less_prefix:
  "CZString_less s t \<longleftrightarrow>
     CZString_less (take (min (length s) (length t)) s) (take (min (length s) (length t)) t)
     \<or> \<not> CZString_less (take (min (length s) (length t)) t) (take (min (length s) (length t)) s) \<and> length s < length t"
  by (induction s t rule: CZString_less.induct) (auto simp: CZString_less_irrefl)

lemma reads_key_of: "reads_key c k K \<Longrightarrow> key_of k c = Some K"
  by (auto simp: reads_key_def key_of_def split: key.splits)

lemma read_bytes_less: "read_bytes p 0 n c = Some s \<Longrightarrow> k \<le> n \<Longrightarrow> read_bytes p 0 k c = Some (take k s)"
  by (auto simp: read_bytes_def min_def split: option.splits if_splits)

lemma keys_compared:
  assumes "reads_key c k K" "reads_key c l L" "is_index K = is_index L"
  shows "key_less_mem k l c = Some (key_less K L)" "key_equal_mem k l c = Some (K = L)"
proof -
  show "key_less_mem k l c = Some (key_less K L)"
  proof (cases K)
    case (IndexKey i)
    then show ?thesis using assms by (cases L) (auto simp: reads_key_def key_less_mem_def)
  next
    case (StringKey s)
    then obtain t where L: "L = StringKey t" using assms(3) by (cases L) auto
    obtain p x q y where k: "k = Text p x (length s)" "read_bytes p 0 (length s) c = Some s"
      and l: "l = Text q y (length t)" "read_bytes q 0 (length t) c = Some t"
      using assms by (auto simp: StringKey L reads_key_def)
    show ?thesis
      using read_bytes_less [OF k(2), of "min (length s) (length t)"] read_bytes_less [OF l(2), of "min (length s) (length t)"]
        CZString_less_prefix [of s t]
      by (simp add: key_less_mem_def k l StringKey L Let_def)
  qed
  show "key_equal_mem k l c = Some (K = L)"
    using assms by (cases K; cases L) (auto simp: reads_key_def key_equal_mem_def)
qed

lemma access_key_reads: "reads_key c (access_key acc) (key_named acc)"
proof -
  have n: "n mod 1073741824 \<le> length s" if "n \<le> length s" for n and s :: string
    using that by (meson le_trans mod_less_eq_dividend)
  have c: "length (c_text s) \<le> length s" for s by (simp add: c_text_def length_takeWhile_le)
  show ?thesis using n c
    by (cases acc) (auto simp: access_key_def key_named_def reads_key_def CZString_text_def read_bytes_def pointer_bytes_def min_absorb2
      intro: append_take_drop_id [symmetric] le_SucI)
qed

section \<open>Holes\<close>

lemma owns_entries_append:
  "owns_entries c ms (es1 @ es2) A \<longleftrightarrow>
     (\<exists>ms1 ms2 A1 A2. ms = ms1 @ ms2 \<and> length ms1 = length es1 \<and> owns_entries c ms1 es1 A1 \<and> owns_entries c ms2 es2 A2
        \<and> A1 \<inter> A2 = {} \<and> A = A1 \<union> A2)"
proof (induction es1 arbitrary: ms A)
  case (Cons E es1)
  show ?case
  proof
    assume "owns_entries c ms ((E # es1) @ es2) A"
    then obtain e ms' A1 A2 where e: "ms = e # ms'" "owns_entry c e E A1" "A1 \<inter> A2 = {}" "A = A1 \<union> A2"
      and "owns_entries c ms' (es1 @ es2) A2" unfolding append_Cons by (subst (asm) owns_entries_Cons) blast
    then obtain ms1 ms2 A3 A4 where m: "ms' = ms1 @ ms2" "length ms1 = length es1" "owns_entries c ms1 es1 A3"
      "owns_entries c ms2 es2 A4" "A3 \<inter> A4 = {}" "A2 = A3 \<union> A4" unfolding Cons.IH by blast
    have "owns_entries c (e # ms1) (E # es1) (A1 \<union> A3)" using e m by (subst owns_entries_Cons) blast
    then show "\<exists>ms1 ms2 A1 A2. ms = ms1 @ ms2 \<and> length ms1 = length (E # es1) \<and> owns_entries c ms1 (E # es1) A1
        \<and> owns_entries c ms2 es2 A2 \<and> A1 \<inter> A2 = {} \<and> A = A1 \<union> A2"
      using e m by (intro exI [of _ "e # ms1"] exI [of _ ms2] exI [of _ "A1 \<union> A3"] exI [of _ A4] conjI) auto
  next
    assume "\<exists>ms1 ms2 A1 A2. ms = ms1 @ ms2 \<and> length ms1 = length (E # es1) \<and> owns_entries c ms1 (E # es1) A1
        \<and> owns_entries c ms2 es2 A2 \<and> A1 \<inter> A2 = {} \<and> A = A1 \<union> A2"
    then obtain ms1 ms2 A1 A2 where m: "ms = ms1 @ ms2" "length ms1 = length (E # es1)" "owns_entries c ms1 (E # es1) A1"
      "owns_entries c ms2 es2 A2" "A1 \<inter> A2 = {}" "A = A1 \<union> A2" by blast
    from m(3) obtain e ms' A3 A4 where e: "ms1 = e # ms'" "owns_entry c e E A3" "owns_entries c ms' es1 A4" "A3 \<inter> A4 = {}" "A1 = A3 \<union> A4"
      by (subst (asm) owns_entries_Cons) blast
    have "owns_entries c (ms' @ ms2) (es1 @ es2) (A4 \<union> A2)"
      unfolding Cons.IH using m e by (intro exI [of _ ms'] exI [of _ ms2] exI [of _ A4] exI [of _ A2] conjI) auto
    then have "\<exists>e' ms'' A1 A2. ms = e' # ms'' \<and> owns_entry c e' E A1 \<and> owns_entries c ms'' (es1 @ es2) A2 \<and> A1 \<inter> A2 = {} \<and> A = A1 \<union> A2"
      using m e by (intro exI [of _ e] exI [of _ "ms' @ ms2"] exI [of _ A3] exI [of _ "A4 \<union> A2"] conjI) auto
    then show "owns_entries c ms ((E # es1) @ es2) A" unfolding append_Cons by (subst owns_entries_Cons)
  qed
qed simp

lemma owns_entries_length: "owns_entries c ms es A \<Longrightarrow> length ms = length es"
  by (induction es arbitrary: ms A) auto

lemma owns_entries_keys: "owns_entries c ms es A \<Longrightarrow> list_all2 (\<lambda>e E. reads_key c (fst e) (fst E)) ms es"
  by (induction es arbitrary: ms A) (auto, metis owns_reads_key)

text \<open>Which node of a map has the key: the first one.\<close>

definition names_entry :: "(nat \<Rightarrow> block option) \<Rightarrow> key \<Rightarrow> entries \<Rightarrow> CZString \<Rightarrow> bool" where
  "names_entry c K ms1 k \<longleftrightarrow> key_of k c = Some K \<and> (\<forall>e \<in> set ms1. \<exists>L. key_of (fst e) c = Some L \<and> L \<noteq> K)"

lemma named_entry:
  assumes "names_entry c K ms1 k"
  shows "find_entry K (ms1 @ (k, w) # ms2) c = Some w" "store_entry K w' (ms1 @ (k, w) # ms2) c = ms1 @ (k, w') # ms2"
  using assms by (induction ms1) (auto simp: names_entry_def)

lemma entries_store_at: "K \<notin> fst ` set es1 \<Longrightarrow> entries_store K u (es1 @ (K, t) # es2) = es1 @ (K, u) # es2"
  by (induction es1) auto

lemma map_of_split:
  "map_of es K = Some u \<Longrightarrow> \<exists>es1 es2. es = es1 @ (K, u) # es2 \<and> K \<notin> fst ` set es1"
proof (induction es)
  case (Cons E es)
  obtain L t where E: "E = (L, t)" by (cases E)
  show ?case
  proof (cases "L = K")
    case True
    then show ?thesis using Cons.prems by (intro exI [of _ "[]"] exI [of _ es]) (auto simp: E)
  next
    case False
    then obtain es1 es2 where "es = es1 @ (K, u) # es2" "K \<notin> fst ` set es1" using Cons by (auto simp: E)
    then show ?thesis using False by (intro exI [of _ "E # es1"] exI [of _ es2]) (auto simp: E)
  qed
qed simp

lemma map_keys_value: "map_keys b (es1 @ (K, u) # es2) = map_keys b (es1 @ (K, u') # es2)"
  by (simp add: map_keys_def)

lemma owns_entries_names:
  assumes "owns_entries c ms1 es1 A1" "owns_key c k K A2" "K \<notin> fst ` set es1" "\<And>a. a \<in> A1 \<union> A2 \<Longrightarrow> c' a = c a"
  shows "names_entry c' K ms1 k"
proof -
  have k: "key_of k c' = Some K"
    using assms(2,4) by (intro reads_key_of owns_reads_key [of _ _ _ A2] owns_key_frame [OF assms(2)]) auto
  have "list_all2 (\<lambda>e E. reads_key c' (fst e) (fst E)) ms1 es1"
    using assms(4) by (intro owns_entries_keys [of _ _ _ A1] owns_frame(2) [OF assms(1)]) auto
  then show ?thesis
    unfolding names_entry_def using k assms(3)
    by (auto simp: in_set_conv_nth list_all2_conv_all_nth) (metis reads_key_of nth_mem image_eqI fst_conv)
qed

text \<open>
  A value with a hole: the node where the hole is, what is in it, and that the value may own something else there, which
  the rest of its blocks does not depend on.
\<close>

definition hole :: "(nat \<Rightarrow> block option) \<Rightarrow> MValue \<Rightarrow> (Tree \<Rightarrow> Tree) \<Rightarrow> nat set \<Rightarrow>
    nat \<Rightarrow> key \<Rightarrow> entries \<Rightarrow> CZString \<Rightarrow> MValue \<Rightarrow> entries \<Rightarrow> Tree \<Rightarrow> nat set \<Rightarrow> bool" where
  "hole c v rebuilt A a K ms1 k w ms2 u B \<longleftrightarrow>
     c a = Some (Entries (ms1 @ (k, w) # ms2)) \<and> a \<in> A \<and> a \<notin> B \<and> B \<subseteq> A \<and> owns c w u B
     \<and> (\<forall>c'. (\<forall>b \<in> A - B - {a}. c' b = c b) \<longrightarrow> names_entry c' K ms1 k)
     \<and> (\<forall>c' w' u' B'. (\<forall>b \<in> A - B - {a}. c' b = c b) \<longrightarrow> c' a = Some (Entries (ms1 @ (k, w') # ms2)) \<longrightarrow>
          owns c' w' u' B' \<longrightarrow> B' \<inter> (A - B) = {} \<longrightarrow> owns c' v (rebuilt u') (A - B \<union> B'))"

lemma holeD:
  assumes "hole c v rebuilt A a K ms1 k w ms2 u B"
  shows "c a = Some (Entries (ms1 @ (k, w) # ms2))" "a \<in> A" "a \<notin> B" "B \<subseteq> A" "owns c w u B"
  using assms unfolding hole_def by blast+

lemma hole_names:
  assumes "hole c v rebuilt A a K ms1 k w ms2 u B" "\<And>b. b \<in> A - B - {a} \<Longrightarrow> c' b = c b"
  shows "names_entry c' K ms1 k"
  using assms unfolding hole_def by blast

lemma hole_rebuild:
  assumes "hole c v rebuilt A a K ms1 k w ms2 u B" "\<And>b. b \<in> A - B - {a} \<Longrightarrow> c' b = c b"
    "c' a = Some (Entries (ms1 @ (k, w') # ms2))" "owns c' w' u' B'" "B' \<inter> (A - B) = {}"
  shows "owns c' v (rebuilt u') (A - B \<union> B')"
  using assms unfolding hole_def by blast

lemma hole_entry:
  assumes "owns c v (TMap b es) A" "map_of es K = Some u"
  shows "\<exists>a ms1 k w ms2 B. value_payload v = P_map a \<and> hole c v (\<lambda>u'. TMap b (entries_store K u' es)) A a K ms1 k w ms2 u B"
proof -
  from assms(1) obtain a ms A0 where v: "value_type v = (if b then arrayType else objectType)" "map_keys b es" "value_payload v = P_map a"
    and a: "c a = Some (Entries ms)" "owns_entries c ms es A0" "a \<notin> A0" "A = insert a A0" by auto
  from map_of_split [OF assms(2)] obtain es1 es2 where es: "es = es1 @ (K, u) # es2" "K \<notin> fst ` set es1" by auto
  from a(2) obtain ms1 k w ms2 A1 A2 B A3 where ms: "ms = ms1 @ (k, w) # ms2"
    and o: "owns_entries c ms1 es1 A1" "owns_key c k K A2" "owns c w u B" "owns_entries c ms2 es2 A3"
    and d: "A1 \<inter> (A2 \<union> B \<union> A3) = {}" "A2 \<inter> B = {}" "A2 \<inter> A3 = {}" "B \<inter> A3 = {}" "A0 = A1 \<union> (A2 \<union> B \<union> A3)"
    unfolding es owns_entries_append by auto
  have rest: "A - B - {a} = A1 \<union> A2 \<union> A3" "a \<notin> B" using d a by auto
  have names: "names_entry c' K ms1 k" if "\<forall>b \<in> A - B - {a}. c' b = c b" for c'
    using that by (intro owns_entries_names [OF o(1,2) es(2)]) (simp add: rest)
  have rebuilt: "owns c' v (TMap b (entries_store K u' es)) (A - B \<union> B')"
    if c': "\<forall>b \<in> A - B - {a}. c' b = c b" "c' a = Some (Entries (ms1 @ (k, w') # ms2))" "owns c' w' u' B'" "B' \<inter> (A - B) = {}"
    for c' w' u' B'
  proof -
    have "owns_entries c' ms1 es1 A1" "owns_key c' k K A2" "owns_entries c' ms2 es2 A3"
      using o c'(1) rest by (auto intro: owns_frame(2) [OF o(1)] owns_frame(2) [OF o(4)] owns_key_frame [OF o(2)])
    moreover have "A1 \<inter> (A2 \<union> B' \<union> A3) = {}" "A2 \<inter> B' = {}" "A2 \<inter> A3 = {}" "B' \<inter> A3 = {}" "a \<notin> B'" "a \<notin> A1 \<union> A2 \<union> A3"
      using d c'(4) a rest by auto
    ultimately have "owns_entries c' (ms1 @ (k, w') # ms2) (es1 @ (K, u') # es2) (A1 \<union> (A2 \<union> B' \<union> A3))"
      using c'(3) owns_entries_length [OF o(1)] unfolding owns_entries_append owns_entries.simps by blast
    moreover have "A - B \<union> B' = insert a (A1 \<union> (A2 \<union> B' \<union> A3))" "a \<notin> A1 \<union> (A2 \<union> B' \<union> A3)"
      using rest \<open>a \<notin> B'\<close> \<open>a \<notin> A1 \<union> A2 \<union> A3\<close> a by auto
    moreover have "map_keys b (es1 @ (K, u') # es2)" using v(2) map_keys_value unfolding es by blast
    ultimately show ?thesis using v c'(2) es by (auto simp: entries_store_at)
  qed
  show ?thesis
    unfolding hole_def using v(3) a(1) ms o(3) rest(2) a(4) d(5) names rebuilt by blast
qed

text \<open>The place that a path of keys leads to.\<close>

fun reach_from :: "(nat \<Rightarrow> block option) \<Rightarrow> MValue \<Rightarrow> place \<Rightarrow> key list \<Rightarrow> place option" where
  "reach_from c v pl [] = Some pl"
| "reach_from c v pl (K # ks) =
     (if value_type v \<noteq> arrayType \<and> value_type v \<noteq> objectType then None
      else case value_payload v of
        P_map a \<Rightarrow> (case slot_value a K c of None \<Rightarrow> None | Some w \<Rightarrow> reach_from c w (Slot a K) ks)
      | _ \<Rightarrow> None)"

lemma hole_slot_value: "hole c v rebuilt A a K ms1 k w ms2 u B \<Longrightarrow> slot_value a K c = Some w"
  by (auto simp: hole_def slot_value_def read_entries_def named_entry)

lemma hole_slot_kept: "hole c v rebuilt A a K ms1 k w ms2 u B \<Longrightarrow> \<forall>b \<in> A - B. c' b = c b \<Longrightarrow> slot_value a K c' = Some w"
  using hole_names [of c v rebuilt A a K ms1 k w ms2 u B c'] holeD(1-3) [of c v rebuilt A a K ms1 k w ms2 u B]
  by (auto simp: slot_value_def read_entries_def named_entry)

lemma hole_path:
  "owns c v t A \<Longrightarrow> ks \<noteq> [] \<Longrightarrow> subtree t ks = Some u \<Longrightarrow>
     \<exists>a K ms1 k w ms2 B. hole c v (replace t ks) A a K ms1 k w ms2 u B
       \<and> (\<forall>c'. (\<forall>b \<in> A - B. c' b = c b) \<longrightarrow> reach_from c' v pl ks = Some (Slot a K))"
proof (induction ks arbitrary: v t A pl)
  case (Cons K ks)
  from Cons.prems(3) obtain b es u1 where t: "t = TMap b es" "map_of es K = Some u1" "subtree u1 ks = Some u"
    by (cases t) (auto split: option.splits)
  from hole_entry [OF Cons.prems(1) [unfolded t(1)] t(2)] obtain a ms1 k w ms2 B where a: "value_payload v = P_map a"
    and h: "hole c v (\<lambda>u'. TMap b (entries_store K u' es)) A a K ms1 k w ms2 u1 B" by blast
  have ty: "value_type v = arrayType \<or> value_type v = objectType" using Cons.prems(1) t by (auto split: if_splits)
  have r: "reach_from c' v pl (K # ks) = reach_from c' w (Slot a K) ks" if "\<forall>b \<in> A - B. c' b = c b" for c'
    using ty a hole_slot_kept [OF h that] by auto
  have rep: "replace t (K # ks) = (\<lambda>u'. TMap b (entries_store K (replace u1 ks u') es))" using t by auto
  show ?case
  proof (cases "ks = []")
    case True
    then have "replace t (K # ks) = (\<lambda>u'. TMap b (entries_store K u' es))" using rep by simp
    then have "hole c v (replace t (K # ks)) A a K ms1 k w ms2 u B" using h t(3) True by simp
    moreover have "reach_from c' v pl (K # ks) = Some (Slot a K)" if "\<forall>b \<in> A - B. c' b = c b" for c'
      using r [OF that] True by simp
    ultimately show ?thesis by blast
  next
    case False
    have w: "owns c w u1 B" using h by (simp add: hole_def)
    from Cons.IH [OF w False t(3), of "Slot a K"] obtain a2 K2 ms3 k2 w2 ms4 B2
      where h2: "hole c w (replace u1 ks) B a2 K2 ms3 k2 w2 ms4 u B2"
        and r2: "\<And>c'. \<forall>b \<in> B - B2. c' b = c b \<Longrightarrow> reach_from c' w (Slot a K) ks = Some (Slot a2 K2)" by blast
    note d = holeD [OF h] and d2 = holeD [OF h2]
    have "hole c v (replace t (K # ks)) A a2 K2 ms3 k2 w2 ms4 u B2"
      unfolding hole_def
    proof (intro conjI allI impI)
      fix c' w' u' B'
      assume *: "\<forall>b \<in> A - B2 - {a2}. c' b = c b" "c' a2 = Some (Entries (ms3 @ (k2, w') # ms4))" "owns c' w' u' B'" "B' \<inter> (A - B2) = {}"
      have 1: "owns c' w (replace u1 ks u') (B - B2 \<union> B')"
        by (rule hole_rebuild [OF h2 _ *(2,3)]) (use * d(4) d2(4) in auto)
      have "a \<in> A - B2 - {a2}" using d d2 by auto
      then have 2: "c' a = Some (Entries (ms1 @ (k, w) # ms2))" using *(1) d(1) by simp
      have "owns c' v (TMap b (entries_store K (replace u1 ks u') es)) (A - B \<union> (B - B2 \<union> B'))"
        by (rule hole_rebuild [OF h _ 2 1]) (use * d2 in auto)
      moreover have "A - B \<union> (B - B2 \<union> B') = A - B2 \<union> B'" using d(4) d2(4) by auto
      ultimately show "owns c' v (replace t (K # ks) u') (A - B2 \<union> B')" using rep by simp
    next
      fix c' assume "\<forall>b \<in> A - B2 - {a2}. c' b = c b"
      then show "names_entry c' K2 ms3 k2" using hole_names [OF h2] d(4) by blast
    qed (use d d2 in auto)
    moreover have "reach_from c' v pl (K # ks) = Some (Slot a2 K2)" if "\<forall>b \<in> A - B2. c' b = c b" for c'
    proof -
      have "\<forall>b \<in> A - B. c' b = c b" "\<forall>b \<in> B - B2. c' b = c b" using that d(4) d2(4) by auto
      then show ?thesis using r r2 by metis
    qed
    ultimately show ?thesis by blast
  qed
qed simp

section \<open>Memories and stores\<close>

text \<open>
  A memory that represents a store: every variable owns the blocks of its value, no block is shared, and every block is owned
  by a variable, or is in a set of others, which a temporary value owns.
\<close>

definition owners :: "Memory \<Rightarrow> store \<Rightarrow> (nat \<Rightarrow> nat set) \<Rightarrow> nat set \<Rightarrow> bool" where
  "owners m \<sigma> A E \<longleftrightarrow>
     dom (variables m) = dom \<sigma> \<and> fresh m
     \<and> (\<forall>x v t. variables m x = Some v \<longrightarrow> \<sigma> x = Some t \<longrightarrow> owns (cells m) v t (A x))
     \<and> (\<forall>x y. \<sigma> x \<noteq> None \<longrightarrow> \<sigma> y \<noteq> None \<longrightarrow> x \<noteq> y \<longrightarrow> A x \<inter> A y = {})
     \<and> (\<forall>x. \<sigma> x \<noteq> None \<longrightarrow> A x \<inter> E = {})
     \<and> dom (cells m) = (\<Union>x \<in> dom \<sigma>. A x) \<union> E"

definition represents_with :: "Memory \<Rightarrow> store \<Rightarrow> nat set \<Rightarrow> bool" where
  "represents_with m \<sigma> E \<longleftrightarrow> (\<exists>A. owners m \<sigma> A E)"

definition represents :: "Memory \<Rightarrow> store \<Rightarrow> bool" where
  "represents m \<sigma> \<longleftrightarrow> represents_with m \<sigma> {}"

lemma represents_fresh: "represents_with m \<sigma> E \<Longrightarrow> fresh m"
  by (auto simp: represents_with_def owners_def)

lemma represents_variable: "represents_with m \<sigma> E \<Longrightarrow> (variables m x = None) = (\<sigma> x = None)"
  by (auto simp: represents_with_def owners_def)

lemma grown_dom: "grown m m' B \<Longrightarrow> B \<subseteq> dom (cells m') \<Longrightarrow> dom (cells m') = dom (cells m) \<union> B"
proof -
  assume g: "grown m m' B" and B: "B \<subseteq> dom (cells m')"
  have "dom (cells m' |` (- B)) = dom (cells m)" using g by (simp add: grown_def)
  then show ?thesis using B by (auto simp only: dom_restrict)
qed

lemma represents_grown:
  assumes "represents_with m \<sigma> E" "grown m m' B" "B \<subseteq> dom (cells m')"
  shows "represents_with m' \<sigma> (E \<union> B)"
proof -
  from assms(1) obtain A where A: "owners m \<sigma> A E" by (auto simp: represents_with_def)
  have d: "A x \<subseteq> dom (cells m)" if "\<sigma> x \<noteq> None" for x using A that by (auto simp: owners_def)
  have o: "owns (cells m') v t (A x)" if "variables m' x = Some v" "\<sigma> x = Some t" for x v t
  proof (rule owns_frame(1))
    show "owns (cells m) v t (A x)" using A that assms(2) by (auto simp: owners_def grown_def)
  qed (use d that grown_same [OF assms(2)] in auto)
  have "B \<inter> A x = {}" if "\<sigma> x \<noteq> None" for x using d [OF that] assms(2) by (auto simp: grown_def)
  then have "owners m' \<sigma> A (E \<union> B)"
    using A o grown_dom [OF assms(2,3)] assms(2) by (auto simp: owners_def grown_def)
  then show ?thesis by (auto simp: represents_with_def)
qed

lemma represents_release:
  assumes "represents_with m \<sigma> E"
  shows "represents_with (m\<lparr>cells := cells m |` (- E)\<rparr>) \<sigma> {}"
proof -
  from assms obtain A where A: "owners m \<sigma> A E" by (auto simp: represents_with_def)
  have "owns (cells m |` (- E)) v t (A x)" if "variables m x = Some v" "\<sigma> x = Some t" for x v t
  proof (rule owns_frame(1))
    show "owns (cells m) v t (A x)" using A that by (auto simp: owners_def)
    fix a assume "a \<in> A x"
    then have "a \<notin> E" using A that by (auto simp: owners_def)
    then show "(cells m |` (- E)) a = cells m a" by simp
  qed
  moreover have "dom (cells m |` (- E)) = (\<Union>x \<in> dom \<sigma>. A x)" using A by (auto simp: owners_def)
  moreover have "fresh (m\<lparr>cells := cells m |` (- E)\<rparr>)" using A by (auto simp: owners_def fresh_def restrict_map_def)
  ultimately have "owners (m\<lparr>cells := cells m |` (- E)\<rparr>) \<sigma> A {}" using A by (simp add: owners_def)
  then show ?thesis by (auto simp: represents_with_def)
qed

text \<open>The place at the end of a path, its value, and what may be written there.\<close>

definition reach :: "Memory \<Rightarrow> nat \<Rightarrow> key list \<Rightarrow> place option" where
  "reach m x ks = (case variables m x of None \<Rightarrow> None | Some v \<Rightarrow> reach_from (cells m) v (Variable x) ks)"

definition kept :: "nat set \<Rightarrow> Memory \<Rightarrow> Memory \<Rightarrow> bool" where
  "kept R m m' \<longleftrightarrow> variables m' = variables m \<and> (\<forall>b \<in> R. cells m' b = cells m b)"

definition written :: "nat set \<Rightarrow> Memory \<Rightarrow> Memory \<Rightarrow> bool" where
  "written R m m' \<longleftrightarrow> dom (cells m') = dom (cells m) \<and> (\<forall>b. b \<notin> R \<longrightarrow> cells m' b = cells m b)
     \<and> next_free m' = next_free m \<and> out_of_memory m' = out_of_memory m"

definition place_in :: "place \<Rightarrow> nat \<Rightarrow> nat set \<Rightarrow> bool" where
  "place_in pl x D \<longleftrightarrow> (case pl of Variable y \<Rightarrow> y = x | Slot a K \<Rightarrow> a \<in> D)"

definition focus :: "Memory \<Rightarrow> store \<Rightarrow> (nat \<Rightarrow> nat set) \<Rightarrow> nat set \<Rightarrow> nat \<Rightarrow> key list \<Rightarrow>
    place \<Rightarrow> MValue \<Rightarrow> Tree \<Rightarrow> nat set \<Rightarrow> bool" where
  "focus m \<sigma> A E x ks pl v u B \<longleftrightarrow>
     place_value pl m = Some v \<and> owns (cells m) v u B \<and> B \<subseteq> A x \<and> place_in pl x (A x - B) \<and>
     (\<forall>m1. kept (A x - B) m m1 \<longrightarrow>
        reach m1 x ks = Some pl \<and> place_value pl m1 = Some v \<and> write_place pl v m1 = Some (Inr (), m1)) \<and>
     (\<forall>m1 w. kept (A x - B) m m1 \<longrightarrow> (\<exists>m2. write_place pl w m1 = Some (Inr (), m2) \<and> written (A x - B) m1 m2)) \<and>
     (let R = dom (cells m) - B - E
      in \<forall>m1 m2 w u' B' E'. kept R m m1 \<longrightarrow> write_place pl w m1 = Some (Inr (), m2) \<longrightarrow> owns (cells m2) w u' B' \<longrightarrow>
           B' \<inter> R = {} \<longrightarrow> dom (cells m1) = R \<union> B' \<union> E' \<longrightarrow> E' \<inter> (R \<union> B') = {} \<longrightarrow> fresh m1 \<longrightarrow>
           represents_with m2 (\<sigma>(x \<mapsto> replace (the (\<sigma> x)) ks u')) E')"

lemma focusI:
  assumes "place_value pl m = Some v" "owns (cells m) v u B" "B \<subseteq> A x" "place_in pl x (A x - B)"
    "R = dom (cells m) - B - E"
    "\<And>m1. kept (A x - B) m m1 \<Longrightarrow> reach m1 x ks = Some pl"
    "\<And>m1. kept (A x - B) m m1 \<Longrightarrow> place_value pl m1 = Some v"
    "\<And>m1. kept (A x - B) m m1 \<Longrightarrow> write_place pl v m1 = Some (Inr (), m1)"
    "\<And>m1 w. kept (A x - B) m m1 \<Longrightarrow> \<exists>m2. write_place pl w m1 = Some (Inr (), m2) \<and> written (A x - B) m1 m2"
    "\<And>m1 m2 w u' B' E'. kept R m m1 \<Longrightarrow> write_place pl w m1 = Some (Inr (), m2) \<Longrightarrow> owns (cells m2) w u' B' \<Longrightarrow>
        B' \<inter> R = {} \<Longrightarrow> dom (cells m1) = R \<union> B' \<union> E' \<Longrightarrow> E' \<inter> (R \<union> B') = {} \<Longrightarrow> fresh m1 \<Longrightarrow>
        represents_with m2 (\<sigma>(x \<mapsto> replace (the (\<sigma> x)) ks u')) E'"
  shows "focus m \<sigma> A E x ks pl v u B"
  unfolding focus_def Let_def using assms by simp

lemma focusD:
  assumes "focus m \<sigma> A E x ks pl v u B"
  shows "reach m x ks = Some pl" "place_value pl m = Some v" "owns (cells m) v u B" "B \<subseteq> A x" "place_in pl x (A x - B)"
  using assms unfolding focus_def kept_def by simp_all

lemma focus_read:
  assumes "focus m \<sigma> A E x ks pl v u B" "kept (A x - B) m m1"
  shows "place_value pl m1 = Some v" "write_place pl v m1 = Some (Inr (), m1)" "reach m1 x ks = Some pl"
  using assms unfolding focus_def by simp_all

lemma focus_write:
  assumes "focus m \<sigma> A E x ks pl v u B" "kept (A x - B) m m1"
  obtains m2 where "write_place pl w m1 = Some (Inr (), m2)" "written (A x - B) m1 m2"
  using assms unfolding focus_def by blast

lemma focus_represents:
  assumes "focus m \<sigma> A E x ks pl v u B" "kept (dom (cells m) - B - E) m m1" "write_place pl w m1 = Some (Inr (), m2)"
    "owns (cells m2) w u' B'" "B' \<inter> (dom (cells m) - B - E) = {}" "dom (cells m1) = (dom (cells m) - B - E) \<union> B' \<union> E'"
    "E' \<inter> ((dom (cells m) - B - E) \<union> B') = {}" "fresh m1"
  shows "represents_with m2 (\<sigma>(x \<mapsto> replace (the (\<sigma> x)) ks u')) E'"
  using assms unfolding focus_def Let_def by blast

lemma variables_idem: "variables m = f \<Longrightarrow> m\<lparr>variables := f\<rparr> = m"
  by simp

lemma fresh_written: "fresh m \<Longrightarrow> written R m m' \<Longrightarrow> fresh m'"
  by (auto simp: fresh_def written_def dom_def set_eq_iff) (metis not_None_eq)

lemma owners_variable: "owners m \<sigma> A E \<Longrightarrow> \<sigma> x = Some t \<Longrightarrow> \<exists>v. variables m x = Some v \<and> owns (cells m) v t (A x)"
  unfolding owners_def by (metis domD domI)

text \<open>A variable gets another value, and the others keep theirs.\<close>

definition others :: "store \<Rightarrow> (nat \<Rightarrow> nat set) \<Rightarrow> nat \<Rightarrow> nat set" where
  "others \<sigma> A x = (\<Union>y \<in> dom \<sigma> - {x}. A y)"

lemma owners_update:
  assumes A: "owners m \<sigma> A E"
    and m': "variables m' = (variables m)(x \<mapsto> w)" "\<forall>b \<in> others \<sigma> A x. cells m' b = cells m b" "owns (cells m') w u B"
      "B \<inter> others \<sigma> A x = {}" "dom (cells m') = others \<sigma> A x \<union> B \<union> E'" "E' \<inter> (others \<sigma> A x \<union> B) = {}" "fresh m'"
  shows "owners m' (\<sigma>(x \<mapsto> u)) (A(x := B)) E'"
proof -
  let ?R = "others \<sigma> A x"
  have d: "A y \<subseteq> ?R" if "\<sigma> y \<noteq> None" "y \<noteq> x" for y using that by (auto simp: others_def)
  have o: "owns (cells m') v t (A y)" if "variables m y = Some v" "\<sigma> y = Some t" "y \<noteq> x" for y v t
  proof (rule owns_frame(1))
    show "owns (cells m) v t (A y)" using A that by (auto simp: owners_def)
    fix b assume "b \<in> A y"
    then have "b \<in> ?R" using d [of y] that by auto
    then show "cells m' b = cells m b" using m'(2) by simp
  qed
  have U: "(\<Union>y \<in> dom (\<sigma>(x \<mapsto> u)). (A(x := B)) y) = ?R \<union> B" unfolding others_def by (auto split: if_splits)
  show ?thesis
    unfolding owners_def
  proof (intro conjI allI impI)
    show "dom (cells m') = (\<Union>y \<in> dom (\<sigma>(x \<mapsto> u)). (A(x := B)) y) \<union> E'" unfolding U by (rule m'(5))
    show "dom (variables m') = dom (\<sigma>(x \<mapsto> u))" using A m'(1) by (auto simp: owners_def)
  next
    fix y v t assume "variables m' y = Some v" "(\<sigma>(x \<mapsto> u)) y = Some t"
    then show "owns (cells m') v t ((A(x := B)) y)" using o [of y] m'(1,3) by (cases "y = x") auto
  next
    fix y z assume *: "(\<sigma>(x \<mapsto> u)) y \<noteq> None" "(\<sigma>(x \<mapsto> u)) z \<noteq> None" "y \<noteq> z"
    have "A y \<inter> A z = {}" if "y \<noteq> x" "z \<noteq> x" using * that A unfolding owners_def by (metis fun_upd_apply)
    then show "(A(x := B)) y \<inter> (A(x := B)) z = {}" using * d [of y] d [of z] m'(4) by (cases "y = x"; cases "z = x") auto
  next
    fix y assume "(\<sigma>(x \<mapsto> u)) y \<noteq> None"
    then show "(A(x := B)) y \<inter> E' = {}" using d [of y] m'(6) by (cases "y = x") auto
  qed (rule m'(7))
qed

lemma owners_blocks: "owners m \<sigma> A E \<Longrightarrow> \<sigma> x \<noteq> None \<Longrightarrow> dom (cells m) - A x - E = others \<sigma> A x \<and> A x \<inter> others \<sigma> A x = {} \<and> A x \<subseteq> dom (cells m)"
proof -
  assume A: "owners m \<sigma> A E" and x: "\<sigma> x \<noteq> None"
  have "A x \<inter> A y = {}" if "y \<in> dom \<sigma> - {x}" for y
    using A x that unfolding owners_def by (metis DiffE domIff singletonI)
  then have d: "A x \<inter> others \<sigma> A x = {}" by (auto simp: others_def)
  have "dom (cells m) = A x \<union> others \<sigma> A x \<union> E" using A x by (auto simp: owners_def others_def)
  moreover have "others \<sigma> A x \<inter> E = {}" using A by (auto simp: owners_def others_def)
  ultimately show ?thesis using d by auto
qed

lemma focus_variable:
  assumes A: "owners m \<sigma> A E" and t: "\<sigma> x = Some t"
  shows "\<exists>pl v B. focus m \<sigma> A E x [] pl v t B"
proof -
  obtain v where v: "variables m x = Some v" "owns (cells m) v t (A x)" using owners_variable [OF A t] by blast
  have R: "dom (cells m) - A x - E = others \<sigma> A x" using owners_blocks [OF A] t by simp
  have e: "A x \<inter> E = {}" using A t by (auto simp: owners_def)
  have 1: "represents_with m2 (\<sigma>(x \<mapsto> u')) E'"
    if k: "kept (others \<sigma> A x) m m1" "write_place (Variable x) w m1 = Some (Inr (), m2)" "owns (cells m2) w u' B'"
      "B' \<inter> others \<sigma> A x = {}" "dom (cells m1) = others \<sigma> A x \<union> B' \<union> E'" "E' \<inter> (others \<sigma> A x \<union> B') = {}" "fresh m1"
    for m1 m2 w u' B' E'
  proof -
    have m2: "m2 = m1\<lparr>variables := (variables m)(x \<mapsto> w)\<rparr>" using k(1,2) v by (auto simp: kept_def write_place_def split: if_splits)
    have "owners m2 (\<sigma>(x \<mapsto> u')) (A(x := B')) E'"
      by (rule owners_update [OF A]) (use k in \<open>auto simp: m2 kept_def fresh_def\<close>)
    then show ?thesis by (auto simp: represents_with_def)
  qed
  have "focus m \<sigma> A E x [] (Variable x) v t (A x)"
    by (rule focusI [OF _ _ _ _ R [symmetric]]; (simp only: replace.simps(1), rule 1; assumption)?)
      (use v e in \<open>auto simp: reach_def place_value_def kept_def write_place_def written_def fun_upd_idem variables_idem place_in_def\<close>)
  then show ?thesis by blast
qed

lemma focus_slot:
  assumes A: "owners m \<sigma> A E" and "\<sigma> x = Some t" "subtree t ks = Some u" "ks \<noteq> []"
  shows "\<exists>pl v B. focus m \<sigma> A E x ks pl v u B"
proof -
  obtain vx where vx: "variables m x = Some vx" "owns (cells m) vx t (A x)" using owners_variable [OF A assms(2)] by blast
  from hole_path [OF vx(2) assms(4,3), of "Variable x"] obtain a K ms1 k v ms2 B
    where h: "hole (cells m) vx (replace t ks) (A x) a K ms1 k v ms2 u B"
      and r: "\<And>c. \<forall>b \<in> A x - B. c b = cells m b \<Longrightarrow> reach_from c vx (Variable x) ks = Some (Slot a K)" by blast
  note d = holeD [OF h]
  define Oth where "Oth = others \<sigma> A x"
  have Oth: "dom (cells m) - A x - E = Oth" "A x \<inter> Oth = {}" "A x \<subseteq> dom (cells m)"
    using owners_blocks [OF A, of x] assms(2) by (auto simp: Oth_def)
  have e: "A x \<inter> E = {}" using A assms(2) by (auto simp: owners_def)
  define R where "R = Oth \<union> (A x - B)"
  have R: "dom (cells m) - B - E = R" using Oth e d(4) by (auto simp: R_def)
  have aR: "a \<in> A x - B" "a \<in> R" using d by (auto simp: R_def)
  have entries: "cells m1 a = Some (Entries (ms1 @ (k, v) # ms2))" "names_entry (cells m1) K ms1 k" if "kept (A x - B) m m1" for m1
  proof -
    show "cells m1 a = Some (Entries (ms1 @ (k, v) # ms2))" using that aR(1) d(1) by (simp add: kept_def)
    show "names_entry (cells m1) K ms1 k" by (rule hole_names [OF h]) (use that in \<open>auto simp: kept_def\<close>)
  qed
  have wr: "write_place (Slot a K) w m1 = Some (Inr (), m1\<lparr>cells := (cells m1)(a \<mapsto> Entries (ms1 @ (k, w) # ms2))\<rparr>)"
    if "kept (A x - B) m m1" for m1 w
    using entries [OF that] by (simp add: write_place_def read_entries_def named_entry)
  have rd: "place_value (Slot a K) m1 = Some v" if "kept (A x - B) m m1" for m1
    using entries [OF that] by (simp add: place_value_def slot_value_def read_entries_def named_entry)
  have 1: "represents_with m2 (\<sigma>(x \<mapsto> replace (the (\<sigma> x)) ks u')) E'"
    if k': "kept R m m1" "write_place (Slot a K) w m1 = Some (Inr (), m2)" "owns (cells m2) w u' B'"
      "B' \<inter> R = {}" "dom (cells m1) = R \<union> B' \<union> E'" "E' \<inter> (R \<union> B') = {}" "fresh m1"
    for m1 m2 w u' B' E'
  proof -
    have kx: "kept (A x - B) m m1" using k'(1) by (auto simp: kept_def R_def)
    have m2: "m2 = m1\<lparr>cells := (cells m1)(a \<mapsto> Entries (ms1 @ (k, w) # ms2))\<rparr>" using k'(2) wr [OF kx] by simp
    have o: "owns (cells m2) vx (replace t ks u') (A x - B \<union> B')"
      by (rule hole_rebuild [OF h _ _ k'(3)]) (use k'(1,4) in \<open>auto simp: m2 kept_def R_def\<close>)
    have "owners m2 (\<sigma>(x \<mapsto> replace t ks u')) (A(x := A x - B \<union> B')) E'"
    proof (rule owners_update [OF A _ _ o]; (unfold Oth_def [symmetric])?)
      show "variables m2 = (variables m)(x \<mapsto> vx)" using k'(1) vx(1) by (simp add: m2 kept_def fun_upd_idem)
      show "\<forall>b \<in> Oth. cells m2 b = cells m b" using k'(1) Oth(2) d(2) by (auto simp: m2 kept_def R_def)
      show "(A x - B \<union> B') \<inter> Oth = {}" using k'(4) Oth(2) by (auto simp: R_def)
      show "dom (cells m2) = Oth \<union> (A x - B \<union> B') \<union> E'" using k'(5) aR by (auto simp: m2 R_def)
      show "E' \<inter> (Oth \<union> (A x - B \<union> B')) = {}" using k'(6) by (auto simp: R_def)
      show "fresh m2" using k'(5,7) aR by (auto simp: m2 fresh_def)
    qed
    then show ?thesis using assms(2) by (auto simp: represents_with_def)
  qed
  have wt: "written (A x - B) m1 (m1\<lparr>cells := (cells m1)(a \<mapsto> Entries (ms1 @ (k, w) # ms2))\<rparr>)" if "kept (A x - B) m m1" for m1 w
    using entries(1) [OF that] aR by (auto simp: written_def)
  have id: "m1\<lparr>cells := (cells m1)(a \<mapsto> Entries (ms1 @ (k, v) # ms2))\<rparr> = m1" if "kept (A x - B) m m1" for m1
    using entries(1) [OF that] by (simp add: fun_upd_idem)
  have km: "kept (A x - B) m m" by (simp add: kept_def)
  have "focus m \<sigma> A E x ks (Slot a K) v u B"
    by (rule focusI [OF _ _ _ _ R [symmetric]]; (rule 1; assumption)?)
      (use r vx(1) d(2,3,4,5) e km in \<open>auto simp: reach_def kept_def rd wr wt id place_in_def\<close>)
  then show ?thesis by blast
qed

lemma focus_exists:
  assumes "owners m \<sigma> A E" "\<sigma> x = Some t" "subtree t ks = Some u"
  obtains pl v B where "focus m \<sigma> A E x ks pl v u B"
  using focus_variable [OF assms(1,2)] focus_slot [OF assms] assms(3) by (cases "ks = []") auto

end
