(* ===== verification/Json_Memory_Subscripts.thy ===== *)
theory Json_Memory_Subscripts
  imports Json_Memory_Holes
begin

text \<open>
  \<open>operator[]\<close> in memory does what it does on trees: a null becomes an empty map, and a key that is not there is inserted with a null,
  or memory runs out and every variable keeps a value. Places that are known before stay where they are.
\<close>

section \<open>Trees\<close>

lemma map_of_entries_store: "map_of es K \<noteq> None \<Longrightarrow> map_of (entries_store K u es) L = (if L = K then Some u else map_of es L)"
  by (induction es) auto

lemma subtree_replace: "subtree t ks = Some u \<Longrightarrow> subtree (replace t ks u') (ks @ ks') = subtree u' ks'"
proof (induction ks arbitrary: t)
  case (Cons K ks)
  then show ?case by (cases t) (auto simp: map_of_entries_store split: option.splits)
qed simp

lemma entries_store_twice: "entries_store K u (entries_store K u' es) = entries_store K u es"
  by (induction es) auto

lemma entries_store_same: "map_of es K = Some u \<Longrightarrow> entries_store K u es = es"
  by (induction es) (auto split: if_splits)

lemma replace_replace: "subtree t ks = Some u \<Longrightarrow> replace (replace t ks u1) (ks @ ks') u2 = replace t ks (replace u1 ks' u2)"
proof (induction ks arbitrary: t)
  case (Cons K ks)
  then show ?case by (cases t) (auto simp: map_of_entries_store entries_store_twice split: option.splits)
qed simp

lemma replace_same: "subtree t ks = Some u \<Longrightarrow> replace t ks u = t"
proof (induction ks arbitrary: t)
  case (Cons K ks)
  then show ?case by (cases t) (auto simp: entries_store_same split: option.splits)
qed simp

lemma entries_resolve_found: "map_of (entries_resolve K es) K \<noteq> None"
  by (induction K es rule: entries_resolve.induct) auto

lemma entries_resolve_others: "L \<noteq> K \<Longrightarrow> map_of (entries_resolve K es) L = map_of es L"
  by (induction K es rule: entries_resolve.induct) auto

lemma entries_resolve_position:
  "entries_resolve K es =
     (let i = length (takeWhile (\<lambda>E. key_less (fst E) K) es)
      in if i < length es \<and> fst (es ! i) = K then es else take i es @ (K, TNull) # drop i es)"
  by (induction K es rule: entries_resolve.induct) (auto simp: Let_def)

lemma tree_subscript_found: "tree_subscript acc t = Inr t' \<Longrightarrow> \<exists>u. subtree t' [key_named acc] = Some u"
  using entries_resolve_found [of "key_named acc"]
  by (auto simp: tree_subscript_def Let_def split: Tree.splits if_splits option.splits)

text \<open>Paths stay when other paths are resolved.\<close>

lemma sorted_resolve_same:
  "sorted_wrt key_less (map fst es) \<Longrightarrow> map_of es K = Some u \<Longrightarrow> entries_resolve K es = es"
proof (induction K es rule: entries_resolve.induct)
  case (2 K L t es)
  show ?case
  proof (cases "L = K")
    case True
    then show ?thesis using key_less_irrefl by simp
  next
    case False
    then have "K \<in> fst ` set es" using 2(3) by (auto dest: map_of_SomeD intro: rev_image_eqI)
    then have "key_less L K" using 2(2) by auto
    then show ?thesis using 2 False by simp
  qed
qed simp

section \<open>Runs\<close>

text \<open>
  A call that does what a call on trees does, or throws what that one throws, or runs out of memory. After an exception, all variables still
  have values.
\<close>

definition runs :: "'a mem \<Rightarrow> Memory \<Rightarrow> 'r result \<Rightarrow> nat set \<Rightarrow> ('r \<Rightarrow> 'a \<Rightarrow> Memory \<Rightarrow> bool) \<Rightarrow> bool" where
  "runs f m r X Q \<longleftrightarrow>
     (\<exists>x m' s. f m = Some (Inr x, m') \<and> r = Inr s \<and> out_of_memory m' = out_of_memory m \<and> Q s x m')
     \<or> (\<exists>e m'. f m = Some (Inl e, m') \<and> (allocation_failure m e \<or> (\<exists>y. e = Thrown y \<and> r = Inl y))
          \<and> out_of_memory m' = out_of_memory m \<and> (\<exists>\<sigma>'. dom \<sigma>' = X \<and> represents m' \<sigma>'))"

lemma runsI: "f m = Some (Inr x, m') \<Longrightarrow> out_of_memory m' = out_of_memory m \<Longrightarrow> Q s x m' \<Longrightarrow> runs f m (Inr s) X Q"
  by (auto simp: runs_def)

lemma runs_throw: "f m = Some (Inl (Thrown e), m) \<Longrightarrow> represents m \<sigma> \<Longrightarrow> dom \<sigma> = X \<Longrightarrow> runs f m (Inl e) X Q"
  by (auto simp: runs_def)

lemma runs_failI:
  "f m = Some (Inl e, m') \<Longrightarrow> allocation_failure m e \<Longrightarrow> out_of_memory m' = out_of_memory m \<Longrightarrow> represents m' \<sigma> \<Longrightarrow> dom \<sigma> = X \<Longrightarrow>
     runs f m r X Q"
  by (auto simp: runs_def)

lemma runs_bind:
  assumes "runs f m r X Q" "\<And>s x m'. r = Inr s \<Longrightarrow> Q s x m' \<Longrightarrow> out_of_memory m' = out_of_memory m \<Longrightarrow> runs (g x) m' (k s) X Q'"
  shows "runs (mem_bind f g) m (bind_result r k) X Q'"
  using assms(1) unfolding runs_def [of f]
proof (elim disjE exE conjE)
  fix x m' s assume *: "f m = Some (Inr x, m')" "r = Inr s" "out_of_memory m' = out_of_memory m" "Q s x m'"
  have "runs (g x) m' (k s) X Q'" using assms(2) * by blast
  then show ?thesis using * by (auto simp: runs_def allocation_failure_def)
qed (auto simp: runs_def)

lemma runs_weaken: "runs f m r X Q \<Longrightarrow> (\<And>s x m'. Q s x m' \<Longrightarrow> Q' s x m') \<Longrightarrow> runs f m r X Q'"
  unfolding runs_def by blast

text \<open>What is only read.\<close>

lemma read_place_run: "place_value pl m = Some v \<Longrightarrow> mem_bind (read_place pl) f m = f v m"
  by (simp add: read_place_def)

lemma mem_read_run: "F (cells m) = Some y \<Longrightarrow> mem_bind (mem_read F) f m = f y m"
  by simp

lemma runs_eq: "f m = g m \<Longrightarrow> runs f m = runs g m"
  by (simp add: runs_def [abs_def])

lemma runs_map:
  "runs f m r X Q \<Longrightarrow> (\<And>s x m'. Q s x m' \<Longrightarrow> Q' (h s) x m') \<Longrightarrow> runs f m (bind_result r (\<lambda>s. Inr (h s))) X Q'"
  unfolding runs_def by fastforce

section \<open>Places that stay\<close>

text \<open>Later memories: nothing but nulls has changed.\<close>

definition later :: "Memory \<Rightarrow> Memory \<Rightarrow> bool" where
  "later m m' \<longleftrightarrow> (\<forall>pl v. place_value pl m = Some v \<longrightarrow> (\<exists>v'. place_value pl m' = Some v' \<and> (v' = v \<or> value_type v = nullType)))"

lemma later_same: "later m m"
  by (simp add: later_def)

lemma later_trans: "later m m1 \<Longrightarrow> later m1 m2 \<Longrightarrow> later m m2"
  unfolding later_def by metis

lemma reach_from_later:
  assumes "later m m'"
  shows "reach_from (cells m) v pl ks = Some pl' \<Longrightarrow> v' = v \<or> value_type v = nullType \<Longrightarrow> reach_from (cells m') v' pl ks = Some pl'"
proof (induction ks arbitrary: v v' pl)
  case (Cons K ks)
  then obtain a w where a: "value_type v = arrayType \<or> value_type v = objectType" "value_payload v = P_map a" "slot_value a K (cells m) = Some w"
    "reach_from (cells m) w (Slot a K) ks = Some pl'" by (auto split: if_splits payload.splits option.splits)
  then have v: "v' = v" using Cons.prems(2) by auto
  obtain w' where w: "slot_value a K (cells m') = Some w'" "w' = w \<or> value_type w = nullType"
    using assms a(3) unfolding later_def by (auto dest!: spec [of _ "Slot a K"] simp: place_value_def)
  show ?case using a w Cons.IH [OF a(4) w(2)] by (auto simp: v)
qed simp

lemma reach_later: "reach m x ks = Some pl \<Longrightarrow> later m m' \<Longrightarrow> reach m' x ks = Some pl"
proof -
  assume r: "reach m x ks = Some pl" and l: "later m m'"
  from r obtain v where v: "variables m x = Some v" "reach_from (cells m) v (Variable x) ks = Some pl" by (auto simp: reach_def split: option.splits)
  obtain v' where "variables m' x = Some v'" "v' = v \<or> value_type v = nullType"
    using l v(1) unfolding later_def by (auto dest!: spec [of _ "Variable x"] simp: place_value_def)
  then show ?thesis using reach_from_later [OF l v(2)] by (simp add: reach_def)
qed

definition chars_kept :: "(nat \<Rightarrow> block option) \<Rightarrow> (nat \<Rightarrow> block option) \<Rightarrow> bool" where
  "chars_kept c c' \<longleftrightarrow> (\<forall>a s. c a = Some (Chars s) \<longrightarrow> c' a = Some (Chars s))"

lemma key_of_kept: "chars_kept c c' \<Longrightarrow> key_of k c = Some K \<Longrightarrow> key_of k c' = Some K"
  by (auto simp: chars_kept_def key_of_def read_bytes_def pointer_bytes_def split: CZString.splits option.splits pointer.splits block.splits if_splits)

lemma find_entry_kept: "chars_kept c c' \<Longrightarrow> find_entry K es c = Some v \<Longrightarrow> find_entry K es c' = Some v"
proof (induction es)
  case (Cons e es)
  obtain k w where e: "e = (k, w)" by (cases e)
  with Cons.prems obtain L where L: "key_of k c = Some L" by (auto split: option.splits)
  then show ?case using Cons key_of_kept [OF Cons.prems(1) L] by (auto simp: e)
qed simp

lemma later_grown: "grown m m' B \<Longrightarrow> later m m'"
proof -
  assume g: "grown m m' B"
  have k: "chars_kept (cells m) (cells m')" using grown_cells [OF g] by (simp add: chars_kept_def)
  have "variables m' = variables m" using g by (simp add: grown_def)
  then show ?thesis using find_entry_kept [OF k] grown_cells [OF g]
    by (auto simp: later_def place_value_def slot_value_def read_entries_def split: place.splits option.splits block.splits)
qed

lemma key_of_entries [simp]: "c a = Some (Entries es) \<Longrightarrow> key_of k (c(a \<mapsto> Entries es')) = key_of k c"
  by (auto simp: key_of_def read_bytes_def pointer_bytes_def split: CZString.split pointer.split)

lemma find_entry_entries [simp]: "c a = Some (Entries es) \<Longrightarrow> find_entry K ms (c(a \<mapsto> Entries es')) = find_entry K ms c"
  by (induction ms) (auto split: option.split)

lemma store_entry_entries [simp]: "c a = Some (Entries es) \<Longrightarrow> store_entry K w ms (c(a \<mapsto> Entries es')) = store_entry K w ms c"
  by (induction ms) auto

lemma find_store_entry:
  "find_entry K ms c = Some v \<Longrightarrow> find_entry L (store_entry K w ms c) c = (if L = K then Some w else find_entry L ms c)"
  by (induction ms) (auto split: option.splits if_splits)

lemma later_write:
  assumes "write_place pl w m = Some (Inr (), m')" "place_value pl m = Some v" "value_type v = nullType"
  shows "later m m'"
  using assms
  by (auto simp: later_def write_place_def place_value_def slot_value_def read_entries_def find_store_entry
    split: place.splits option.splits block.splits if_splits)

section \<open>Subscripts\<close>

text \<open>One value of a store changes: what the memory represents.\<close>

definition store_at :: "store \<Rightarrow> nat \<Rightarrow> key list \<Rightarrow> Tree \<Rightarrow> store" where
  "store_at \<sigma> x ks u = \<sigma>(x \<mapsto> replace (the (\<sigma> x)) ks u)"

lemma store_at_simps [simp]:
  "\<sigma> x \<noteq> None \<Longrightarrow> dom (store_at \<sigma> x ks u) = dom \<sigma>"
  "y \<noteq> x \<Longrightarrow> store_at \<sigma> x ks u y = \<sigma> y"
  "\<exists>t. store_at \<sigma> x ks u x = Some t"
  by (auto simp: store_at_def)

lemma store_at_same: "\<sigma> x \<noteq> None \<Longrightarrow> subtree (the (\<sigma> x)) ks = Some u \<Longrightarrow> store_at \<sigma> x ks u = \<sigma>"
  by (auto simp: store_at_def replace_same)

lemma subtree_store_at:
  assumes "subtree (the (\<sigma> x)) ks = Some v"
  shows "subtree (the (store_at \<sigma> x ks u x)) (ks @ ks') = subtree u ks'" "subtree (the (store_at \<sigma> x ks u x)) ks = Some u"
  using subtree_replace [OF assms, of u ks'] subtree_replace [OF assms, of u "[]"] by (simp_all add: store_at_def)

lemma store_at_twice:
  assumes "subtree (the (\<sigma> x)) ks = Some v"
  shows "store_at (store_at \<sigma> x ks u1) x (ks @ ks') u2 = store_at \<sigma> x ks (replace u1 ks' u2)"
    "store_at (store_at \<sigma> x ks u1) x ks u2 = store_at \<sigma> x ks u2"
  using replace_replace [OF assms, of u1 ks' u2] replace_replace [OF assms, of u1 "[]" u2] by (simp_all add: store_at_def)

lemma represents_focus:
  assumes "represents_with m \<sigma> E" "\<sigma> x \<noteq> None" "subtree (the (\<sigma> x)) ks = Some u"
  obtains A pl v B where "owners m \<sigma> A E" "focus m \<sigma> A E x ks pl v u B"
proof -
  from assms(1) obtain A where A: "owners m \<sigma> A E" by (auto simp: represents_with_def)
  from assms(2) obtain t where t: "\<sigma> x = Some t" by auto
  from assms(3) t have "subtree t ks = Some u" by simp
  with A t obtain pl v B where "focus m \<sigma> A E x ks pl v u B" by (rule focus_exists)
  then show ?thesis using that A by blast
qed

lemma owners_disjoint: "owners m \<sigma> A E \<Longrightarrow> \<sigma> x \<noteq> None \<Longrightarrow> A x \<inter> E = {} \<and> A x \<subseteq> dom (cells m) \<and> E \<subseteq> dom (cells m)"
  by (auto simp: owners_def)

lemma represents_made: "represents m \<sigma> \<Longrightarrow> grown m m' B \<Longrightarrow> B \<subseteq> dom (cells m') \<Longrightarrow> represents_with m' \<sigma> B"
  using represents_grown [of m \<sigma> "{}"] by (simp add: represents_def)

lemma represents_failed: "represents m \<sigma> \<Longrightarrow> grown m m' {} \<Longrightarrow> represents m' \<sigma>"
  using represents_made [of m \<sigma> m' "{}"] by (simp add: represents_def)

text \<open>What a place holds is exchanged with a temporary value.\<close>

lemma exchange:
  assumes A: "owners m \<sigma> A E" and x: "\<sigma> x \<noteq> None" and f: "focus m \<sigma> A E x ks pl v u B" and w: "owns (cells m) w u' E"
  obtains m' where "write_place pl w m = Some (Inr (), m')" "represents_with m' (store_at \<sigma> x ks u') B" "owns (cells m') v u B"
    "out_of_memory m' = out_of_memory m" "next_free m' = next_free m"
proof -
  note d = focusD [OF f] and e = owners_disjoint [OF A x]
  have km: "kept R m m" for R by (simp add: kept_def)
  obtain m' where m': "write_place pl w m = Some (Inr (), m')" "written (A x - B) m m'" using focus_write [OF f km] .
  have same: "cells m' a = cells m a" if "a \<in> B \<union> E" for a using m'(2) that e by (auto simp: written_def)
  have o: "owns (cells m') w u' E" "owns (cells m') v u B"
    using owns_frame(1) [OF w] owns_frame(1) [OF d(3)] same by auto
  have "represents_with m' (store_at \<sigma> x ks u') B"
    unfolding store_at_def by (rule focus_represents [OF f km m'(1) o(1)]) (use d(4) e A in \<open>auto simp: owners_def\<close>)
  then show ?thesis using that m' o by (auto simp: written_def)
qed

text \<open>A value is changed where it is.\<close>

lemma in_place:
  assumes A: "owners m \<sigma> A {}" and f: "focus m \<sigma> A {} x ks pl v u B"
    and m': "variables m' = variables m" "\<And>b. b \<in> dom (cells m) - B \<Longrightarrow> cells m' b = cells m b" "owns (cells m') v u' B'"
      "B' \<inter> (dom (cells m) - B) = {}" "dom (cells m') = (dom (cells m) - B) \<union> B'" "fresh m'" and x: "\<sigma> x \<noteq> None"
  shows "represents m' (store_at \<sigma> x ks u')"
proof -
  have "A x - B \<subseteq> dom (cells m) - B" using owners_disjoint [OF A x] by auto
  then have "kept (A x - B) m m'" unfolding kept_def using m'(1,2) by blast
  then have "write_place pl v m' = Some (Inr (), m')" by (rule focus_read [OF f])
  then show ?thesis unfolding represents_def store_at_def
    using focus_represents [OF f, of m' v m' u' B' "{}"] m' by (auto simp: kept_def)
qed

lemma releasePayload_null: "value_type v = nullType \<Longrightarrow> releasePayload (Suc 0) v = mem_return ()"
  by (simp add: releasePayload.simps)

lemma owns_null: "owns c v u A \<Longrightarrow> value_type v = nullType \<longleftrightarrow> u = TNull"
  by (cases u) (auto split: if_splits)

lemma owns_map_type: "owns c v u A \<Longrightarrow> value_type v = (if b then arrayType else objectType) \<longleftrightarrow> (\<exists>es. u = TMap b es)"
  by (cases u) (auto split: if_splits)

lemma access_type_index: "access_type acc = (if is_index (key_named acc) then arrayType else objectType)"
  by (cases acc) (auto simp: access_type_def key_named_def)

lemma Value_of_map_makes:
  "fresh m \<Longrightarrow> makes (Value_of_type (if b then arrayType else objectType)) m (\<lambda>c v. owns c v (TMap b []))"
  by (cases b) (auto simp: Value_of_type_def Let_def initBasic_def map_keys_def
    intro!: makes_wrap [where P = "\<lambda>c a B. c a = Some (Entries []) \<and> B = {a}"] makes_allocate)

text \<open>A null becomes an empty array or object.\<close>

lemma become_runs:
  assumes r: "represents m \<sigma>" and x: "\<sigma> x \<noteq> None" "subtree (the (\<sigma> x)) ks = Some TNull" and pl: "reach m x ks = Some pl"
      "place_value pl m = Some v"
  shows "runs (become (if b then arrayType else objectType) pl v) m (Inr (TMap b [])) (dom \<sigma>)
    (\<lambda>u w m'. represents m' (store_at \<sigma> x ks u) \<and> later m m' \<and> place_value pl m' = Some w)"
proof -
  let ?type = "if b then arrayType else objectType"
  from r [unfolded represents_def] x obtain A pl' v' B where A: "owners m \<sigma> A {}" and f: "focus m \<sigma> A {} x ks pl' v' TNull B"
    by (rule represents_focus)
  have p: "pl' = pl" "v' = v" "value_type v = nullType" "B = {}" using focusD [OF f] pl by auto
  have "makes (Value_of_type ?type) m (\<lambda>c v. owns c v (TMap b []))" using A by (intro Value_of_map_makes) (simp add: owners_def)
  then show ?thesis
  proof (cases rule: makesE)
    case (failed e m')
    have "represents m' \<sigma>" by (rule represents_failed [OF r failed(3)])
    then show ?thesis using failed p by (intro runs_failI) (auto simp: become_def grown_def)
  next
    case (made w m1 C)
    have C: "C \<subseteq> dom (cells m1)" using owns_dom(1) [OF made(3)] by simp
    have r1: "represents_with m1 \<sigma> C" by (rule represents_made [OF r made(2) C])
    have l1: "later m m1" by (rule later_grown [OF made(2)])
    from r1 x obtain A1 pl1 v1 B1 where A1: "owners m1 \<sigma> A1 C" and f1: "focus m1 \<sigma> A1 C x ks pl1 v1 TNull B1" by (rule represents_focus)
    have p1: "pl1 = pl" using focusD(1) [OF f1] reach_later [OF pl(1) l1] by simp
    have n1: "value_type v1 = nullType" "B1 = {}" "place_value pl m1 = Some v1" using focusD [OF f1] p1 by auto
    from exchange [OF A1 x(1) f1 made(3)] obtain m2 where m2: "write_place pl w m1 = Some (Inr (), m2)"
      "represents_with m2 (store_at \<sigma> x ks (TMap b [])) B1" "out_of_memory m2 = out_of_memory m1" unfolding p1 by blast
    have l2: "later m1 m2" by (rule later_write [OF m2(1) n1(3,1)])
    have pv: "place_value pl m2 = Some w" using m2(1)
      by (auto simp: write_place_def place_value_def slot_value_def read_entries_def find_store_entry split: place.splits option.splits block.splits if_splits)
    show ?thesis
      using made(1,2) m2 p n1(2) pv later_trans [OF l1 l2]
      by (intro runsI [of _ _ w m2]) (auto simp: become_def releasePayload_null [OF p(3)] mem_return_def represents_def grown_def)
  qed
qed

text \<open>The search for a key.\<close>

lemma lower_bound_position:
  assumes "list_all2 (\<lambda>e E. reads_key c (fst e) (fst E)) ms es" "\<forall>L \<in> set (map fst es). is_index L = is_index K" "reads_key c key K"
  shows "lower_bound key ms c = Some (length (takeWhile (\<lambda>E. key_less (fst E) K) es))"
  using assms(1,2)
proof (induction ms es rule: list_all2_induct)
  case (Cons e ms E es)
  obtain k v L t where e: "e = (k, v)" "E = (L, t)" by (cases e; cases E)
  have "key_less_mem k key c = Some (key_less L K)" using Cons assms(3) by (intro keys_compared) (auto simp: e)
  then show ?case using Cons by (auto simp: e)
qed simp

lemma found_position:
  assumes "list_all2 (\<lambda>e E. reads_key c (fst e) (fst E)) ms es" "\<forall>L \<in> set (map fst es). is_index L = is_index K" "reads_key c key K"
  shows "found_at key ms i c = Some (i < length es \<and> fst (es ! i) = K)"
proof (cases "i < length es")
  case True
  then have "is_index (fst (es ! i)) = is_index K" using assms(2) nth_mem [OF True] by simp
  then show ?thesis using True assms list_all2_lengthD [OF assms(1)] list_all2_nthD2 [OF assms(1) True]
    by (simp add: found_at_def keys_compared)
qed (use list_all2_lengthD [OF assms(1)] in \<open>simp add: found_at_def\<close>)

lemma position_of_found:
  assumes "sorted_wrt key_less (map fst es)" "map_keys b es" "is_index K = b" "i = length (takeWhile (\<lambda>E. key_less (fst E) K) es)"
  shows "(i < length es \<and> fst (es ! i) = K) \<longleftrightarrow> map_of es K \<noteq> None"
proof
  assume "i < length es \<and> fst (es ! i) = K"
  then have "K \<in> fst ` set es" by (metis nth_mem image_eqI)
  then show "map_of es K \<noteq> None" by (simp add: map_of_eq_None_iff)
next
  assume "map_of es K \<noteq> None"
  then show "i < length es \<and> fst (es ! i) = K"
    using assms unfolding map_keys_def
  proof (induction es arbitrary: i)
    case (Cons E es)
    show ?case
    proof (cases "fst E = K")
      case True
      then show ?thesis using Cons.prems key_less_irrefl by simp
    next
      case False
      then have "map_of es K \<noteq> None" using Cons.prems(1) by (cases E) auto
      moreover from this have "K \<in> fst ` set es" by (simp add: map_of_eq_None_iff)
      then have "key_less (fst E) K" using Cons.prems(2) by auto
      ultimately show ?thesis using Cons by auto
    qed
  qed simp
qed

text \<open>The map with a new null at the place where it belongs is ordered.\<close>

lemma entries_resolve_keys: "set (map fst (entries_resolve K es)) = insert K (set (map fst es))"
  by (induction K es rule: entries_resolve.induct) auto

lemma sorted_entries_resolve:
  "sorted_wrt key_less (map fst es) \<Longrightarrow> \<forall>L \<in> set (map fst es). is_index L = is_index K \<Longrightarrow>
     sorted_wrt key_less (map fst (entries_resolve K es))"
proof (induction K es rule: entries_resolve.induct)
  case (2 K L t es)
  have "key_less K M" if "\<not> key_less L K" "L \<noteq> K" "M \<in> insert L (set (map fst es))" for M
    using that 2(2,3) key_less_total [of K L] by (auto intro: key_less_trans)
  moreover have "\<forall>M \<in> set (map fst (entries_resolve K es)). key_less L M" if "key_less L K"
    unfolding entries_resolve_keys using that 2(2) by auto
  ultimately show ?case using 2 by auto
qed simp

lemma map_keys_resolve: "map_keys b es \<Longrightarrow> is_index K = b \<Longrightarrow> map_keys b (entries_resolve K es)"
  using sorted_entries_resolve [of es K] by (simp only: map_keys_def entries_resolve_keys) simp

lemma reach_from_append:
  assumes "place_value pl0 m = Some v" "reach_from (cells m) v pl0 ks = Some pl"
  shows "\<exists>v'. place_value pl m = Some v' \<and> reach_from (cells m) v pl0 (ks @ ks') = reach_from (cells m) v' pl ks'"
  using assms
proof (induction ks arbitrary: pl0 v)
  case (Cons K ks)
  then obtain a w where a: "value_type v = arrayType \<or> value_type v = objectType" "value_payload v = P_map a" "slot_value a K (cells m) = Some w"
    "reach_from (cells m) w (Slot a K) ks = Some pl" by (auto split: if_splits payload.splits option.splits)
  then show ?case using Cons.IH [of "Slot a K" w] by (auto simp: place_value_def)
qed auto

lemma reach_append:
  assumes "reach m x ks = Some pl" "place_value pl m = Some v"
  shows "reach m x (ks @ ks') = reach_from (cells m) v pl ks'"
  using assms reach_from_append [of "Variable x" m _ ks pl ks']
  by (auto simp: reach_def place_value_def split: option.splits)

lemma reach_slot:
  assumes r: "represents_with m \<sigma> E" and x: "\<sigma> x \<noteq> None" "subtree (the (\<sigma> x)) (ks @ [K]) \<noteq> None"
    and v: "reach m x ks = Some pl" "place_value pl m = Some v" "value_payload v = P_map a"
  shows "reach m x (ks @ [K]) = Some (Slot a K)"
proof -
  from x(2) obtain u where "subtree (the (\<sigma> x)) (ks @ [K]) = Some u" by auto
  with r x(1) obtain A pl' v' B where "focus m \<sigma> A E x (ks @ [K]) pl' v' u B" by (rule represents_focus)
  then have "reach m x (ks @ [K]) = Some pl'" by (rule focusD)
  then show ?thesis using v by (auto simp: reach_append [OF v(1,2)] split: if_splits option.splits)
qed

lemma insert_null_run:
  assumes m: "fresh m" "reads_key (cells m) key K" "cells m a = Some (Entries ms)"
  obtains (inserted) m' k B where "insert_null key a i m = Some (Inr (), m')" "owns_key (cells m') k K B" "B \<inter> dom (cells m) = {}"
      "cells m' a = Some (Entries (take i ms @ (k, null_value) # drop i ms))" "\<And>b. b \<in> dom (cells m) - {a} \<Longrightarrow> cells m' b = cells m b"
      "dom (cells m') = dom (cells m) \<union> B" "variables m' = variables m" "out_of_memory m' = out_of_memory m" "fresh m'"
  | (failed) e m' where "insert_null key a i m = Some (Inl e, m')" "allocation_failure m e" "grown m m' {}"
proof -
  define copies where "copies = mem_bind (CZString_copy key) (\<lambda>k1.
    mem_bind (mem_cleanup (mem_bind allocate_node (\<lambda>_. CZString_copy k1)) (CZString_destroy k1)) (\<lambda>k2. mem_return (k1, k2)))"
  have run: "insert_null key a i = mem_bind copies (\<lambda>p. mem_bind (mem_read (read_entries a)) (\<lambda>es.
    mem_bind (write_entries a (take i es @ (snd p, null_value) # drop i es)) (\<lambda>_. CZString_destroy (fst p))))"
    by (simp add: insert_null_def copies_def mem_bind_assoc)
  have second: "makes (mem_bind allocate_node (\<lambda>_. CZString_copy k1)) m1 (\<lambda>c k2. owns_key c k2 K)"
    if "grown m m1 B" "owns_key (cells m1) k1 K B" for k1 m1 B
  proof (rule makes_node)
    fix m2 assume "grown m1 m2 {}"
    then show "makes (CZString_copy k1) m2 (\<lambda>c k2. owns_key c k2 K)"
      using reads_key_grown [OF owns_reads_key [OF that(2)]] by (intro CZString_copy_makes) (auto intro: grown_fresh)
  qed (rule grown_fresh [OF that(1)])
  have "makes copies m (\<lambda>c p B. \<exists>B1 B2. B = B1 \<union> B2 \<and> B1 \<inter> B2 = {} \<and> owns_key c (fst p) K B1 \<and> owns_key c (snd p) K B2)"
    unfolding copies_def
    by (rule makes_then [OF CZString_copy_makes [OF m(2,1)], where Q = "\<lambda>_ c k2. owns_key c k2 K"])
      (auto intro: second owns_key_frame release_key dest: owns_key_dom)
  then show thesis
  proof (cases rule: makesE)
    case (failed e m')
    then show ?thesis by (intro that(2)) (auto simp: run)
  next
    case (made p m1 B)
    obtain k1 k2 where p: "p = (k1, k2)" by (cases p)
    from made(3) p obtain B1 B2 where B: "B = B1 \<union> B2" "B1 \<inter> B2 = {}" "owns_key (cells m1) k1 K B1" "owns_key (cells m1) k2 K B2" by auto
    have dom: "B \<inter> dom (cells m) = {}" "dom (cells m1) = dom (cells m) \<union> B"
      using made(2) grown_dom [OF made(2)] owns_key_dom [OF B(3)] owns_key_dom [OF B(4)] B(1) by (auto simp: grown_def)
    have a: "cells m1 a = Some (Entries ms)" "a \<notin> B" using grown_cells [OF made(2)] m(3) dom by auto
    define m2 where "m2 = m1\<lparr>cells := (cells m1)(a \<mapsto> Entries (take i ms @ (k2, null_value) # drop i ms))\<rparr>"
    define m3 where "m3 = m2\<lparr>cells := cells m2 |` (- B1)\<rparr>"
    have "CZString_destroy k1 m2 = Some (Inr (), m3)"
      unfolding m3_def by (rule release_key [OF B(3)]) (use a B in \<open>auto simp: m2_def\<close>)
    then have "insert_null key a i m = Some (Inr (), m3)"
      using made(1) a by (simp add: run p read_entries_def write_entries_def m2_def)
    moreover have "owns_key (cells m3) k2 K B2"
      by (rule owns_key_frame [OF B(4)]) (use a B in \<open>auto simp: m3_def m2_def restrict_map_def\<close>)
    moreover have "cells m3 b = cells m b" if "b \<in> dom (cells m) - {a}" for b
      using that dom B(1) grown_same [OF made(2), of b] by (auto simp: m3_def m2_def restrict_map_def)
    moreover have "dom (cells m3) = dom (cells m) \<union> B2" using dom B a m(3) by (auto simp: m3_def m2_def)
    moreover have "cells m3 a = Some (Entries (take i ms @ (k2, null_value) # drop i ms))" using a B by (auto simp: m3_def m2_def)
    moreover have "fresh m3" using grown_fresh [OF made(2)] a(1) by (auto simp: fresh_def m3_def m2_def restrict_map_def)
    ultimately show ?thesis using made(2) dom B by (intro that(1)) (auto simp: m3_def m2_def grown_def)
  qed
qed

lemma owns_entries_insert:
  assumes "owns_entries c ms es A" "i \<le> length es" "owns_key c k K C" "C \<inter> A = {}"
  shows "owns_entries c (take i ms @ (k, null_value) # drop i ms) (take i es @ (K, TNull) # drop i es) (A \<union> C)"
proof -
  from assms(1) have "owns_entries c ms (take i es @ drop i es) A" by simp
  then obtain ms1 ms2 A1 A2 where ms: "ms = ms1 @ ms2" "length ms1 = i" "owns_entries c ms1 (take i es) A1" "owns_entries c ms2 (drop i es) A2"
    "A1 \<inter> A2 = {}" "A = A1 \<union> A2" unfolding owns_entries_append using assms(2) by (auto simp: min_absorb2)
  have "owns_entries c ((k, null_value) # ms2) ((K, TNull) # drop i es) (C \<union> A2)"
    using assms(3,4) ms by (auto simp: initBasic_def)
  moreover have "A1 \<inter> (C \<union> A2) = {}" "A \<union> C = A1 \<union> (C \<union> A2)" using assms(4) ms by auto
  ultimately show ?thesis
    unfolding owns_entries_append using ms assms(2)
    by (intro exI [of _ ms1] exI [of _ "(k, null_value) # ms2"] exI [of _ A1] exI [of _ "C \<union> A2"]) (simp add: min_absorb2)
qed

lemma find_entry_insert:
  "key_of k c = Some K \<Longrightarrow> L \<noteq> K \<Longrightarrow> find_entry L (ms1 @ (k, w) # ms2) c = find_entry L (ms1 @ ms2) c"
  by (induction ms1) (auto split: option.split)

lemma find_entry_owned: "owns_entries c ms es A \<Longrightarrow> find_entry K ms c = Some w \<Longrightarrow> map_of es K \<noteq> None"
proof (induction es arbitrary: ms A)
  case (Cons E es)
  obtain L t where E: "E = (L, t)" by (cases E)
  with Cons.prems obtain k v ms' A1 A3 where "ms = (k, v) # ms'" "owns_key c k L A1" "owns_entries c ms' es A3" by auto
  then show ?case using Cons.IH [of ms' A3] Cons.prems(2) reads_key_of [OF owns_reads_key, of c k L A1] by (auto simp: E split: if_splits)
qed simp

lemma later_insert:
  assumes "variables m' = variables m" "\<And>b. b \<in> dom (cells m) - {a} \<Longrightarrow> cells m' b = cells m b" "cells m a = Some (Entries ms)"
    "cells m' a = Some (Entries (take i ms @ (k, w) # drop i ms))" "key_of k (cells m') = Some K" "find_entry K ms (cells m) = None"
  shows "later m m'"
proof -
  have same: "cells m' b = cells m b" if "cells m b = Some y" "b \<noteq> a" for b y using assms(2) [of b] that by auto
  then have k: "chars_kept (cells m) (cells m')" using assms(3) unfolding chars_kept_def by (metis block.distinct(1) option.inject)
  have "find_entry L (take i ms @ (k, w) # drop i ms) (cells m') = Some v" if "find_entry L ms (cells m) = Some v" for L v
    using that assms(6) find_entry_kept [OF k that] by (cases "L = K") (simp_all add: find_entry_insert [OF assms(5)])
  then show ?thesis
    using find_entry_kept [OF k] same assms(1,3,4)
    by (fastforce simp: later_def place_value_def slot_value_def read_entries_def split: place.splits option.splits block.splits)
qed

lemma find_or_insert_runs:
  assumes r: "represents m \<sigma>" and x: "\<sigma> x \<noteq> None" "subtree (the (\<sigma> x)) ks = Some (TMap b es)" and b: "b = is_index (key_named acc)"
    and pl: "reach m x ks = Some pl" "place_value pl m = Some v"
  shows "runs (find_or_insert acc v) m (Inr (TMap b (entries_resolve (key_named acc) es))) (dom \<sigma>)
    (\<lambda>u pl' m'. represents m' (store_at \<sigma> x ks u) \<and> later m m' \<and> reach m' x (ks @ [key_named acc]) = Some pl')"
proof -
  let ?K = "key_named acc" and ?key = "access_key acc"
  from r [unfolded represents_def] x obtain A pl' v' B where A: "owners m \<sigma> A {}" and f: "focus m \<sigma> A {} x ks pl' v' (TMap b es) B"
    by (rule represents_focus)
  have p: "pl' = pl" "v' = v" "owns (cells m) v (TMap b es) B" using focusD [OF f] pl by auto
  then obtain a ms B0 where a: "value_payload v = P_map a" "cells m a = Some (Entries ms)" "owns_entries (cells m) ms es B0" "a \<notin> B0" "B = insert a B0"
    and ty: "value_type v = (if b then arrayType else objectType)" "map_keys b es" by auto
  define i where "i = length (takeWhile (\<lambda>E. key_less (fst E) ?K) es)"
  note keys = owns_entries_keys [OF a(3)]
  have kinds: "\<forall>L \<in> set (map fst es). is_index L = is_index ?K" using ty(2) b by (auto simp: map_keys_def)
  note pos = lower_bound_position [OF keys kinds access_key_reads] found_position [OF keys kinds access_key_reads]
  have found: "(i < length es \<and> fst (es ! i) = ?K) = (map_of es ?K \<noteq> None)"
    by (rule position_of_found [OF _ ty(2) b [symmetric] i_def]) (use ty(2) in \<open>simp add: map_keys_def\<close>)
  have run: "find_or_insert acc v m =
    mem_bind (if map_of es ?K \<noteq> None then mem_return () else insert_null ?key a i) (\<lambda>_. mem_return (Slot a ?K)) m"
    using a(1,2) pos(1) pos(2) [of i] unfolding i_def [symmetric] by (simp add: find_or_insert_def read_entries_def found)
  show ?thesis
  proof (cases "map_of es ?K = None")
    case False
    then have e: "entries_resolve ?K es = es" using ty(2) by (auto simp: map_keys_def intro: sorted_resolve_same)
    have s: "subtree (the (\<sigma> x)) (ks @ [?K]) \<noteq> None"
      using subtree_replace [OF x(2), of "TMap b es" "[?K]"] replace_same [OF x(2)] False by auto
    have "reach m x (ks @ [?K]) = Some (Slot a ?K)" by (rule reach_slot [OF r [unfolded represents_def] x(1) s pl a(1)])
    moreover have "represents m (store_at \<sigma> x ks (TMap b es))" using r store_at_same [of \<sigma> x, OF x] by simp
    ultimately show ?thesis using False by (intro runsI [of _ _ "Slot a ?K" m]) (auto simp: run e mem_return_def later_same)
  next
    case True
    then have e: "entries_resolve ?K es = take i es @ (?K, TNull) # drop i es" unfolding entries_resolve_position using found i_def by (auto simp: Let_def)
    have "fresh m" using A by (simp add: owners_def)
    from this access_key_reads [of "cells m" acc] a(2) show ?thesis
    proof (cases rule: insert_null_run [where i = i])
      case (failed e m')
      then show ?thesis using True represents_failed [OF r failed(3)] by (intro runs_failI) (auto simp: run grown_def)
    next
      case (inserted m' k C)
      have "C \<inter> B0 = {}" using inserted(3) owns_dom(2) [OF a(3)] by auto
      moreover have "owns_entries (cells m') ms es B0" using owns_frame(2) [OF a(3)] owns_dom(2) [OF a(3)] inserted(5) a(4) by blast
      ultimately have "owns_entries (cells m') (take i ms @ (k, null_value) # drop i ms) (entries_resolve ?K es) (B0 \<union> C)"
        unfolding e using inserted(2) i_def by (intro owns_entries_insert) (auto simp: length_takeWhile_le)
      moreover have "a \<notin> B0 \<union> C" using a inserted(3) by auto
      ultimately have o: "owns (cells m') v (TMap b (entries_resolve ?K es)) (insert a (B0 \<union> C))"
        using ty map_keys_resolve [OF ty(2)] b a(1) inserted(4) by auto
      have Bd: "B \<subseteq> dom (cells m)" using owns_dom(1) [OF p(3)] by simp
      have r': "represents m' (store_at \<sigma> x ks (TMap b (entries_resolve ?K es)))"
        by (rule in_place [OF A f _ _ _ _ _ _ x(1), where B' = "insert a (B0 \<union> C)"]) (use inserted o p a(5) Bd in auto)
      have n: "find_entry ?K ms (cells m) = None" using find_entry_owned [OF a(3), of ?K] True by (cases "find_entry ?K ms (cells m)") auto
      have l: "later m m'"
        by (rule later_insert [OF inserted(7,5) a(2) inserted(4) reads_key_of [OF owns_reads_key [OF inserted(2)]] n])
      have "place_value pl m' = Some v" using l pl(2) ty(1) unfolding later_def by (metis ValueType.distinct(11,13))
      moreover have "subtree (the ((store_at \<sigma> x ks (TMap b (entries_resolve ?K es))) x)) (ks @ [?K]) \<noteq> None"
        using entries_resolve_found [of ?K es] by (auto simp: subtree_store_at [of \<sigma> x, OF x(2)])
      ultimately have "reach m' x (ks @ [?K]) = Some (Slot a ?K)"
        by (intro reach_slot [OF r' [unfolded represents_def] _ _ reach_later [OF pl(1) l] _ a(1)]) auto
      then show ?thesis using inserted(1,8) True r' l by (intro runsI [of _ _ "Slot a ?K" m']) (auto simp: run mem_return_def)
    qed
  qed
qed

text \<open>A value at the end of a path is not null and not a map of the right kind: \<open>operator[]\<close> throws.\<close>

lemma tree_subscript_error:
  "u \<noteq> TNull \<Longrightarrow> \<nexists>es. u = TMap (is_index (key_named acc)) es \<Longrightarrow> tree_subscript acc u = Inl (access_error acc)"
  by (cases u) (auto simp: tree_subscript_def)

lemma subscript_runs:
  assumes r: "represents m \<sigma>" and x: "\<sigma> x \<noteq> None" "subtree (the (\<sigma> x)) ks = Some u" and pl: "reach m x ks = Some pl"
  shows "runs (subscript acc pl) m (tree_subscript acc u) (dom \<sigma>)
    (\<lambda>u' pl' m'. represents m' (store_at \<sigma> x ks u') \<and> later m m' \<and> reach m' x (ks @ [key_named acc]) = Some pl')"
proof -
  let ?b = "is_index (key_named acc)" and ?K = "key_named acc"
  from r [unfolded represents_def] x obtain A pl' v B where f: "focus m \<sigma> A {} x ks pl' v u B" by (rule represents_focus)
  have p: "place_value pl m = Some v" "owns (cells m) v u B" using focusD [OF f] pl by auto
  have run: "runs (subscript acc pl) m = runs (if value_type v \<noteq> nullType \<and> value_type v \<noteq> access_type acc
      then mem_throw (Thrown (access_error acc)) else mem_bind (become (access_type acc) pl v) (find_or_insert acc)) m"
    by (rule runs_eq) (simp add: subscript_def read_place_run [OF p(1)])
  consider (null) "u = TNull" | (map) es where "u = TMap ?b es" | (other) "u \<noteq> TNull" "\<nexists>es. u = TMap ?b es" by blast
  then show ?thesis
  proof cases
    case null
    have b: "runs (become (access_type acc) pl v) m (Inr (TMap ?b [])) (dom \<sigma>)
        (\<lambda>u w m'. represents m' (store_at \<sigma> x ks u) \<and> later m m' \<and> place_value pl m' = Some w)"
      unfolding access_type_index using become_runs [OF r x(1) _ pl p(1)] x(2) null by simp
    have "runs (mem_bind (become (access_type acc) pl v) (find_or_insert acc)) m
        (bind_result (Inr (TMap ?b [])) (\<lambda>u. Inr (TMap ?b (entries_resolve ?K [])))) (dom \<sigma>)
        (\<lambda>u' pl' m'. represents m' (store_at \<sigma> x ks u') \<and> later m m' \<and> reach m' x (ks @ [?K]) = Some pl')"
    proof (rule runs_bind [OF b])
      fix s w m1
      assume "Inr (TMap ?b []) = (Inr s :: Tree result)" "represents m1 (store_at \<sigma> x ks s) \<and> later m m1 \<and> place_value pl m1 = Some w"
      then have m1: "represents m1 (store_at \<sigma> x ks (TMap ?b []))" "later m m1" "place_value pl m1 = Some w" by auto
      note sub = subtree_store_at(2) [of \<sigma> x, OF x(2)] and twice = store_at_twice(2) [of \<sigma> x, OF x(2)]
      show "runs (find_or_insert acc w) m1 (Inr (TMap ?b (entries_resolve ?K []))) (dom \<sigma>)
        (\<lambda>u' pl' m'. represents m' (store_at \<sigma> x ks u') \<and> later m m' \<and> reach m' x (ks @ [?K]) = Some pl')"
        using find_or_insert_runs [where b = ?b, OF m1(1) _ sub refl reach_later [OF pl m1(2)] m1(3)] x(1) later_trans [OF m1(2)]
        unfolding twice by (auto elim!: runs_weaken)
    qed
    then show ?thesis using null owns_null [OF p(2)] unfolding run by (auto simp: tree_subscript_def Let_def)
  next
    case (map es)
    have t: "value_type v = access_type acc" "value_type v \<noteq> nullType"
      using map p(2) by (auto simp: access_type_index)
    have "runs (find_or_insert acc v) m (Inr (TMap ?b (entries_resolve ?K es))) (dom \<sigma>)
      (\<lambda>u pl' m'. represents m' (store_at \<sigma> x ks u) \<and> later m m' \<and> reach m' x (ks @ [?K]) = Some pl')"
      using find_or_insert_runs [OF r x(1) _ refl pl p(1)] x(2) map by simp
    then show ?thesis using t map unfolding run by (auto simp: become_def tree_subscript_def Let_def)
  next
    case other
    then have "value_type v \<noteq> nullType" "value_type v \<noteq> access_type acc"
      using owns_null [OF p(2)] owns_map_type [OF p(2)] by (auto simp: access_type_index)
    then show ?thesis using r tree_subscript_error [OF other] unfolding run by (auto simp: mem_throw_def intro!: runs_throw)
  qed
qed

lemma subscripts_runs:
  assumes "represents m \<sigma>" "\<sigma> x \<noteq> None" "subtree (the (\<sigma> x)) ks = Some u" "reach m x ks = Some pl"
  shows "runs (subscripts p pl) m (tree_subscripts p u) (dom \<sigma>)
    (\<lambda>u' pl' m'. represents m' (store_at \<sigma> x ks u') \<and> later m m' \<and> reach m' x (ks @ map key_named p) = Some pl')"
  using assms
proof (induction p arbitrary: m \<sigma> ks u pl)
  case Nil
  then show ?case using store_at_same [of \<sigma> x, OF Nil(2,3)] by (auto simp: mem_return_def later_same intro!: runsI)
next
  case (Cons acc p)
  let ?K = "key_named acc"
  show ?case
    unfolding subscripts.simps tree_subscripts.simps
  proof (rule runs_bind [OF subscript_runs [OF Cons.prems]])
    fix u1 pl1 m1
    assume u1: "tree_subscript acc u = Inr u1" and *: "represents m1 (store_at \<sigma> x ks u1) \<and> later m m1 \<and> reach m1 x (ks @ [?K]) = Some pl1"
    then have m1: "represents m1 (store_at \<sigma> x ks u1)" "later m m1" "reach m1 x (ks @ [?K]) = Some pl1" by auto
    obtain w where w: "subtree u1 [?K] = Some w" using tree_subscript_found [OF u1] by blast
    let ?s = "store_at \<sigma> x ks u1"
    have sub: "subtree (the (?s x)) (ks @ [?K]) = Some w" using subtree_store_at(1) [of \<sigma> x, OF Cons.prems(3)] w by simp
    have rr: "store_at ?s x (ks @ [?K]) u' = store_at \<sigma> x ks (replace u1 [?K] u')" for u'
      by (rule store_at_twice(1) [of \<sigma> x, OF Cons.prems(3)])
    have "runs (subscripts p pl1) m1 (tree_subscripts p w) (dom ?s)
      (\<lambda>u' pl' m'. represents m' (store_at ?s x (ks @ [?K]) u') \<and> later m1 m' \<and> reach m' x ((ks @ [?K]) @ map key_named p) = Some pl')"
      by (rule Cons.IH [OF m1(1) _ sub m1(3)]) simp
    then show "runs (subscripts p pl1) m1 (bind_result (tree_subscripts p (the (subtree u1 [?K]))) (\<lambda>u'. Inr (replace u1 [?K] u'))) (dom \<sigma>)
      (\<lambda>u' pl' m'. represents m' (store_at \<sigma> x ks u') \<and> later m m' \<and> reach m' x (ks @ map key_named (acc # p)) = Some pl')"
      unfolding rr using w Cons.prems(2) later_trans [OF m1(2)] by (auto elim!: runs_map)
  qed
qed

end
