(* ===== verification/Json_Memory_Operations.thy ===== *)
theory Json_Memory_Operations
  imports Json_Memory_Subscripts
begin

text \<open>
  The operations on values in memory do what they do on trees: assignment, swapping and moving, copying in place, appending, clearing,
  and removing members.
\<close>

section \<open>References\<close>

text \<open>A place that an expression refers to, and the tree there.\<close>

definition refers :: "Memory \<Rightarrow> store \<Rightarrow> lvalue \<Rightarrow> place \<Rightarrow> bool" where
  "refers m \<sigma> l pl \<longleftrightarrow> \<sigma> (fst l) \<noteq> None \<and> reach m (fst l) (keys l) = Some pl \<and> subtree (the (\<sigma> (fst l))) (keys l) = Some (look l \<sigma>)"

lemma put_store_at: "put l u \<sigma> = store_at \<sigma> (fst l) (keys l) u"
  by (simp add: put_def store_at_def)

lemma refers_focus:
  assumes "represents_with m \<sigma> E" "refers m \<sigma> l pl"
  obtains A v B where "owners m \<sigma> A E" "focus m \<sigma> A E (fst l) (keys l) pl v (look l \<sigma>) B"
proof -
  from assms obtain A pl' v B where A: "owners m \<sigma> A E" and f: "focus m \<sigma> A E (fst l) (keys l) pl' v (look l \<sigma>) B"
    unfolding refers_def by (elim conjE) (rule represents_focus)
  have "pl' = pl" using focusD(1) [OF f] assms(2) by (simp add: refers_def)
  then show ?thesis using that A f by blast
qed

lemma owned_slot:
  assumes "owns c v t A" "value_type v = arrayType \<or> value_type v = objectType" "value_payload v = P_map a" "slot_value a K c = Some w"
  shows "\<exists>b es u B. t = TMap b es \<and> map_of es K = Some u \<and> owns c w u B \<and> B \<subseteq> A
    \<and> (\<forall>c'. (\<forall>b \<in> A. c' b = c b) \<longrightarrow> slot_value a K c' = Some w)"
proof -
  from assms(1,2) obtain b es where t: "t = TMap b es" by (cases t) auto
  then obtain ms A0 where ms: "c a = Some (Entries ms)" "owns_entries c ms es A0" using assms(1,3) by auto
  then have "find_entry K ms c = Some w" using assms(4) by (simp add: slot_value_def read_entries_def)
  then obtain u where u: "map_of es K = Some u" using find_entry_owned [OF ms(2)] by blast
  from hole_entry [OF assms(1) [unfolded t] u] obtain ms1 k w' ms2 B
    where h: "hole c v (\<lambda>u'. TMap b (entries_store K u' es)) A a K ms1 k w' ms2 u B" using assms(3) by auto
  have w: "w' = w" using hole_slot_value [OF h] assms(4) by simp
  have "slot_value a K c' = Some w" if "\<forall>b \<in> A. c' b = c b" for c'
    using named_entry(1) [OF hole_names [OF h]] holeD(1,2) [OF h] that w by (auto simp: slot_value_def read_entries_def)
  then show ?thesis using t u holeD(4,5) [OF h] w by blast
qed

lemma reach_subtree: "owns c v t A \<Longrightarrow> reach_from c v pl ks = Some pl' \<Longrightarrow> subtree t ks \<noteq> None"
proof (induction ks arbitrary: v t A pl)
  case (Cons K ks)
  then obtain a w where a: "value_type v = arrayType \<or> value_type v = objectType" "value_payload v = P_map a" "slot_value a K c = Some w"
    "reach_from c w (Slot a K) ks = Some pl'" by (auto split: if_splits payload.splits option.splits)
  from owned_slot [OF Cons.prems(1) a(1-3)] obtain b es u B where "t = TMap b es" "map_of es K = Some u" "owns c w u B" by blast
  then show ?case using Cons.IH [OF _ a(4)] by simp
qed simp

lemma reach_frame: "owns c v t A \<Longrightarrow> \<forall>b \<in> A. c' b = c b \<Longrightarrow> reach_from c v pl ks = Some pl' \<Longrightarrow> reach_from c' v pl ks = Some pl'"
proof (induction ks arbitrary: v t A pl)
  case (Cons K ks)
  then obtain a w where a: "value_type v = arrayType \<or> value_type v = objectType" "value_payload v = P_map a" "slot_value a K c = Some w"
    "reach_from c w (Slot a K) ks = Some pl'" by (auto split: if_splits payload.splits option.splits)
  from owned_slot [OF Cons.prems(1) a(1-3)] Cons.prems(2) obtain u B where o: "owns c w u B" "B \<subseteq> A" "slot_value a K c' = Some w" by blast
  then have "reach_from c' w (Slot a K) ks = Some pl'" using Cons.IH [OF o(1) _ a(4)] Cons.prems(2) by blast
  then show ?case using a o by auto
qed simp

lemma refersI:
  assumes "represents_with m \<sigma> E" "\<sigma> (fst l) \<noteq> None" "reach m (fst l) (keys l) = Some pl"
  shows "refers m \<sigma> l pl"
proof -
  from assms(2) obtain t where t: "\<sigma> (fst l) = Some t" by auto
  from assms(1) obtain A where A: "owners m \<sigma> A E" by (auto simp: represents_with_def)
  obtain v where v: "variables m (fst l) = Some v" "owns (cells m) v t (A (fst l))" using owners_variable [OF A t] by blast
  have "reach_from (cells m) v (Variable (fst l)) (keys l) = Some pl" using assms(3) v(1) by (simp add: reach_def)
  then have "subtree t (keys l) \<noteq> None" by (rule reach_subtree [OF v(2)])
  then show ?thesis using assms t by (auto simp: refers_def look_def)
qed

lemma refers_later:
  assumes "refers m \<sigma> l pl" "later m m'" "represents_with m' \<sigma>' E" "dom \<sigma>' = dom \<sigma>"
  shows "refers m' \<sigma>' l pl"
proof (rule refersI [OF assms(3)])
  show "reach m' (fst l) (keys l) = Some pl" using assms(1) by (intro reach_later [OF _ assms(2)]) (simp add: refers_def)
  show "\<sigma>' (fst l) \<noteq> None" using assms(1,4) unfolding refers_def by (metis domIff)
qed

lemma lvalue_runs:
  assumes "represents m \<sigma>" "\<sigma> (fst l) \<noteq> None"
  shows "runs (lvalue_place l) m (resolve_lvalue l \<sigma>) (dom \<sigma>)
    (\<lambda>\<sigma>' pl m'. represents m' \<sigma>' \<and> dom \<sigma>' = dom \<sigma> \<and> later m m' \<and> refers m' \<sigma>' l pl)"
proof -
  let ?x = "fst l"
  have s: "subtree (the (\<sigma> ?x)) [] = Some (the (\<sigma> ?x))" by simp
  have "reach m ?x [] = Some (Variable ?x)"
    using represents_variable [OF assms(1) [unfolded represents_def]] assms(2) by (auto simp: reach_def split: option.splits)
  from subscripts_runs [OF assms s this, of "snd l"]
  show ?thesis
    unfolding lvalue_place_def resolve_lvalue_def
  proof (rule runs_map)
    fix u pl m'
    assume *: "represents m' (store_at \<sigma> ?x [] u) \<and> later m m' \<and> reach m' ?x ([] @ map key_named (snd l)) = Some pl"
    have e: "store_at \<sigma> ?x [] u = \<sigma>(?x \<mapsto> u)" by (simp add: store_at_def)
    have "refers m' (\<sigma>(?x \<mapsto> u)) l pl"
      using * unfolding e by (intro refersI [where E = "{}"]) (auto simp: represents_def keys_def)
    then show "represents m' (\<sigma>(?x \<mapsto> u)) \<and> dom (\<sigma>(?x \<mapsto> u)) = dom \<sigma> \<and> later m m' \<and> refers m' (\<sigma>(?x \<mapsto> u)) l pl"
      using * assms(2) unfolding e by auto
  qed
qed

section \<open>Values as a whole\<close>

lemma fuel_enough: "owns (cells m) v u B \<Longrightarrow> fresh m \<Longrightarrow> depth u < Suc (next_free m)"
proof -
  assume o: "owns (cells m) v u B" and f: "fresh m"
  have "B \<subseteq> {..<next_free m}" using owns_dom(1) [OF o] f by (fastforce simp: fresh_def not_less [symmetric])
  then have "card B \<le> next_free m" using card_mono [of "{..<next_free m}" B] by simp
  then show ?thesis using depth_card(1) [OF o] by simp
qed

lemma copy_value_makes: "owns (cells m) v u B \<Longrightarrow> fresh m \<Longrightarrow> makes (copy_value v) m (\<lambda>c w. owns c w u)"
  using dup(1) [of m v u B "Suc (next_free m)"] fuel_enough by (simp add: copy_value_def makes_def)

lemma destroy_value_run:
  "owns (cells m) v u B \<Longrightarrow> fresh m \<Longrightarrow> destroy_value v m = Some (Inr (), m\<lparr>cells := cells m |` (- B)\<rparr>)"
  using release(1) [of "cells m" v u B "Suc (next_free m)" m] fuel_enough by (simp add: destroy_value_def)

lemma assign_runs:
  assumes r: "represents m \<sigma>" and l: "refers m \<sigma> l pl" and "refers m \<sigma> r pr"
  shows "runs (assign_place pl pr) m (Inr (put l (look r \<sigma>) \<sigma>)) (dom \<sigma>) (\<lambda>\<sigma>' _ m'. represents m' \<sigma>')"
proof -
  from r [unfolded represents_def] assms(3) obtain A v B where A: "owners m \<sigma> A {}" and f: "focus m \<sigma> A {} (fst r) (keys r) pr v (look r \<sigma>) B"
    by (rule refers_focus)
  note d = focusD [OF f]
  have "makes (copy_value v) m (\<lambda>c w. owns c w (look r \<sigma>))" using A by (intro copy_value_makes [OF d(3)]) (simp add: owners_def)
  then show ?thesis
  proof (cases rule: makesE)
    case (failed e m')
    then show ?thesis using represents_failed [OF r failed(3)]
      by (intro runs_failI) (auto simp: assign_place_def read_place_run [OF d(2)] grown_def)
  next
    case (made w m1 C)
    have r1: "represents_with m1 \<sigma> C" using owns_dom(1) [OF made(3)] by (intro represents_made [OF r made(2)]) simp
    have l1: "refers m1 \<sigma> l pl" by (rule refers_later [OF l later_grown [OF made(2)] r1 refl])
    from r1 l1 obtain A1 old B1 where A1: "owners m1 \<sigma> A1 C" and f1: "focus m1 \<sigma> A1 C (fst l) (keys l) pl old (look l \<sigma>) B1"
      by (rule refers_focus)
    have x: "\<sigma> (fst l) \<noteq> None" using l by (simp add: refers_def)
    from exchange [OF A1 x f1 made(3)] obtain m2 where m2: "write_place pl w m1 = Some (Inr (), m2)"
      "represents_with m2 (put l (look r \<sigma>) \<sigma>) B1" "owns (cells m2) old (look l \<sigma>) B1" "out_of_memory m2 = out_of_memory m1"
      unfolding put_store_at by blast
    note dd = destroy_value_run [OF m2(3) represents_fresh [OF m2(2)]]
    show ?thesis
      using made(1,2) m2 dd represents_release [OF m2(2)]
      by (intro runsI [of _ _ "()" "m2\<lparr>cells := cells m2 |` (- B1)\<rparr>"])
        (auto simp: assign_place_def read_place_run [OF d(2)] read_place_run [OF focusD(2) [OF f1]] represents_def grown_def)
  qed
qed

text \<open>Writes at different places.\<close>

lemma write_other_value: "write_place pr w m = Some (Inr (), m') \<Longrightarrow> pl \<noteq> pr \<Longrightarrow> place_value pl m' = place_value pl m"
  by (auto simp: write_place_def place_value_def slot_value_def read_entries_def find_store_entry
    split: place.splits option.splits block.splits if_splits)

lemma store_entry_twice: "store_entry K w (store_entry K v es c) c = store_entry K w es c"
  by (induction es) auto

lemma store_entry_commute: "K \<noteq> L \<Longrightarrow> store_entry K w (store_entry L v es c) c = store_entry L v (store_entry K w es c) c"
  by (induction es) auto

lemma write_twice: "write_place pl v m = Some (Inr (), m') \<Longrightarrow> write_place pl w m' = write_place pl w m"
  by (auto simp: write_place_def read_entries_def find_store_entry store_entry_twice
    split: place.splits option.splits block.splits if_splits)

lemma write_commute:
  assumes "write_place pr v m = Some (Inr (), m1)" "write_place pl w m1 = Some (Inr (), m2)" "pl \<noteq> pr"
  shows "\<exists>m3. write_place pl w m = Some (Inr (), m3) \<and> write_place pr v m3 = Some (Inr (), m2)"
proof (cases pl)
  case (Variable x)
  then show ?thesis using assms
    by (cases pr) (auto simp: write_place_def read_entries_def fun_upd_twist split: option.splits block.splits if_splits)
next
  case pl: (Slot a K)
  show ?thesis
  proof (cases pr)
    case (Variable y)
    with assms(1) have y: "variables m y \<noteq> None" "m1 = m\<lparr>variables := (variables m)(y \<mapsto> v)\<rparr>"
      by (auto simp: write_place_def split: if_splits)
    with assms(2) pl obtain es where es: "cells m a = Some (Entries es)" "find_entry K es (cells m) \<noteq> None"
      "m2 = m1\<lparr>cells := (cells m)(a \<mapsto> Entries (store_entry K w es (cells m)))\<rparr>"
      by (auto simp: write_place_def read_entries_def split: option.splits block.splits if_splits)
    show ?thesis
      by (rule exI [of _ "m\<lparr>cells := (cells m)(a \<mapsto> Entries (store_entry K w es (cells m)))\<rparr>"])
        (use y es pl Variable in \<open>simp add: write_place_def read_entries_def\<close>)
  next
    case (Slot b L)
    then show ?thesis using assms pl
      by (cases "a = b") (auto simp: write_place_def read_entries_def find_store_entry store_entry_commute [of K L] fun_upd_twist
        split: option.splits block.splits if_splits)
  qed
qed

text \<open>A write to one variable does not change where paths from another one lead.\<close>

lemma reach_other:
  assumes A: "owners m \<sigma> A E" and x: "\<sigma> x \<noteq> None" and y: "\<sigma> y \<noteq> None" "x \<noteq> y"
    and w: "write_place pl w m = Some (Inr (), m')" "place_in pl x (A x)" and r: "reach m y ks = Some pr"
  shows "reach m' y ks = Some pr"
proof -
  from y(1) obtain t where t: "\<sigma> y = Some t" by auto
  obtain v where v: "variables m y = Some v" "owns (cells m) v t (A y)" using owners_variable [OF A t] by blast
  have "A x \<inter> A y = {}" using A x y unfolding owners_def by blast
  then have k: "\<forall>b \<in> A y. cells m' b = cells m b" "variables m' y = variables m y"
    using w y(2) by (auto simp: write_place_def place_in_def read_entries_def split: place.splits option.splits block.splits if_splits)
  have "reach_from (cells m) v (Variable y) ks = Some pr" using r v(1) by (simp add: reach_def)
  then have "reach_from (cells m') v (Variable y) ks = Some pr" by (rule reach_frame [OF v(2) k(1)])
  then show ?thesis using k(2) v(1) by (simp add: reach_def)
qed

lemma swap_runs:
  assumes r: "represents m \<sigma>" and l: "refers m \<sigma> l pl" and pr: "refers m \<sigma> r pr" and ne: "fst l \<noteq> fst r"
  shows "runs (swap_places pl pr) m (Inr (put r (look l \<sigma>) (put l (look r \<sigma>) \<sigma>))) (dom \<sigma>)
    (\<lambda>\<sigma>' _ m'. represents m' \<sigma>' \<and> reach m' (fst r) (keys r) = Some pr)"
proof -
  let ?x = "fst l" and ?y = "fst r"
  have x: "\<sigma> ?x \<noteq> None" and y: "\<sigma> ?y \<noteq> None" using l pr by (auto simp: refers_def)
  have sx: "subtree (the (\<sigma> ?x)) (keys l) = Some (look l \<sigma>)" and sy: "subtree (the (\<sigma> ?y)) (keys r) = Some (look r \<sigma>)"
    using l pr by (auto simp: refers_def)
  from r [unfolded represents_def] pr obtain A w C where A: "owners m \<sigma> A {}" and fr: "focus m \<sigma> A {} ?y (keys r) pr w (look r \<sigma>) C"
    by (rule refers_focus)
  obtain pl' v B where fl0: "focus m \<sigma> A {} ?x (keys l) pl' v (look l \<sigma>) B" using focus_exists [OF A] x sx by (metis not_None_eq option.sel)
  have fl: "focus m \<sigma> A {} ?x (keys l) pl v (look l \<sigma>) B" using fl0 focusD(1) [OF fl0] l by (simp add: refers_def)
  have "A ?x \<inter> A ?y = {}" using A x y ne unfolding owners_def by blast
  then have pp: "pl \<noteq> pr" using focusD(5) [OF fl] focusD(5) [OF fr] ne by (auto simp: place_in_def split: place.splits)
  \<comment> \<open>the value on the right is taken out\<close>
  have "owns (cells m) null_value TNull {}" by (simp add: initBasic_def)
  from exchange [OF A y fr this] obtain m1 where m1: "write_place pr null_value m = Some (Inr (), m1)"
    "represents_with m1 (store_at \<sigma> ?y (keys r) TNull) C" "owns (cells m1) w (look r \<sigma>) C" "out_of_memory m1 = out_of_memory m" by blast
  let ?s1 = "store_at \<sigma> ?y (keys r) TNull"
  have l1: "reach m1 ?x (keys l) = Some pl"
    using focusD(5) [OF fr] by (intro reach_other [OF A y x _ m1(1)]) (use ne focusD(1) [OF fl] in \<open>auto simp: place_in_def split: place.splits\<close>)
  have ref1: "refers m1 ?s1 l pl" using l1 x sx ne by (auto simp: refers_def look_def)
  have look1: "look l ?s1 = look l \<sigma>" using ne by (simp add: look_def)
  from m1(2) ref1 obtain A1 v1 B1 where A1: "owners m1 ?s1 A1 C" and f1: "focus m1 ?s1 A1 C ?x (keys l) pl v1 (look l \<sigma>) B1"
    unfolding look1 [symmetric] by (rule refers_focus)
  have v1: "v1 = v" using focusD(2) [OF f1] focusD(2) [OF fl] write_other_value [OF m1(1) pp] by simp
  have s1x: "?s1 ?x \<noteq> None" using x ne by simp
  from exchange [OF A1 s1x f1 m1(3)] obtain m2 where m2: "write_place pl w m1 = Some (Inr (), m2)"
    "represents_with m2 (store_at ?s1 ?x (keys l) (look r \<sigma>)) B1" "owns (cells m2) v (look l \<sigma>) B1" "out_of_memory m2 = out_of_memory m1"
    unfolding v1 by blast
  let ?s2 = "store_at ?s1 ?x (keys l) (look r \<sigma>)"
  have s2y: "?s2 ?y = ?s1 ?y" "?s1 ?y \<noteq> None" using ne by auto
  have sub2: "subtree (the (?s2 ?y)) (keys r) = Some TNull" unfolding s2y(1) by (rule subtree_store_at(2) [of \<sigma> ?y, OF sy])
  \<comment> \<open>the place on the right is where it was\<close>
  have n1: "place_value pr m1 = Some null_value"
    using m1(1) by (auto simp: write_place_def place_value_def slot_value_def read_entries_def find_store_entry
      split: place.splits option.splits block.splits if_splits)
  have restore: "write_place pr w m1 = Some (Inr (), m)"
    using write_twice [OF m1(1)] focus_read(2) [OF fr] by (simp add: kept_def)
  have "subtree (the (?s1 ?y)) (keys r) = Some TNull" by (rule subtree_store_at(2) [of \<sigma> ?y, OF sy])
  with A1 s2y(2) obtain p v' B' where "focus m1 ?s1 A1 C ?y (keys r) p v' TNull B'" by (metis focus_exists not_None_eq option.sel)
  then have rp: "reach m1 ?y (keys r) = Some p" by (rule focusD)
  moreover have "later m1 m" by (rule later_write [OF restore n1]) (simp add: initBasic_def)
  ultimately have "reach m ?y (keys r) = Some p" by (rule reach_later)
  then have p: "p = pr" using focusD(1) [OF fr] by simp
  have r2: "reach m2 ?y (keys r) = Some pr"
    using focusD(5) [OF f1] rp p by (intro reach_other [OF A1 s1x s2y(2) ne m2(1)]) (auto simp: place_in_def split: place.splits)
  have "refers m2 ?s2 (?y, snd r) pr" using r2 sub2 s2y by (auto simp: refers_def look_def keys_def)
  with m2(2) obtain A2 v2 B2 where A2: "owners m2 ?s2 A2 B1" and f2': "focus m2 ?s2 A2 B1 ?y (keys (?y, snd r)) pr v2 (look (?y, snd r) ?s2) B2"
    by (metis refers_focus fst_conv)
  have "look (?y, snd r) ?s2 = TNull" using sub2 by (simp add: look_def keys_def)
  then have f2: "focus m2 ?s2 A2 B1 ?y (keys r) pr v2 TNull B2" using f2' by (simp add: keys_def)
  have B2: "B2 = {}" using focusD(3) [OF f2] by simp
  have s2n: "?s2 ?y \<noteq> None" using s2y by simp
  from exchange [OF A2 s2n f2 m2(3)] obtain m3 where m3: "write_place pr v m2 = Some (Inr (), m3)"
    "represents_with m3 (store_at ?s2 ?y (keys r) (look l \<sigma>)) {}" "out_of_memory m3 = out_of_memory m2" unfolding B2 by blast
  from write_commute [OF m1(1) m2(1) pp] obtain m4 where m4: "write_place pl w m = Some (Inr (), m4)" "write_place pr null_value m4 = Some (Inr (), m2)"
    by blast
  have run: "swap_places pl pr m = Some (Inr (), m3)"
    using m4(1) write_twice [OF m4(2)] m3(1)
    by (simp add: swap_places_def read_place_run [OF focusD(2) [OF fl]] read_place_run [OF focusD(2) [OF fr]])
  have "store_at ?s2 ?y (keys r) (look l \<sigma>) = put r (look l \<sigma>) (put l (look r \<sigma>) \<sigma>)"
    using ne replace_replace [OF sy, of TNull "[]" "look l \<sigma>"] by (auto simp: put_store_at store_at_def fun_upd_twist)
  moreover have "later m2 m3" using focusD(2,3) [OF f2] by (intro later_write [OF m3(1)]) auto
  ultimately show ?thesis using run m1(4) m2(4) m3 reach_later [OF r2]
    by (intro runsI [of _ _ "()" m3]) (auto simp: represents_def)
qed

text \<open>
  \<open>copyPayload\<close> does the same as the assignment when the values are in different variables and there is memory; otherwise
  it throws, and nothing is said of the value that it has released.
\<close>

lemma copyPayload_run:
  assumes r: "represents m \<sigma>" and l: "refers m \<sigma> l pl" and pr: "refers m \<sigma> r pr" and ne: "fst l \<noteq> fst r"
  obtains (copied) m' where "copyPayload pl pr m = Some (Inr (), m')" "represents m' (put l (look r \<sigma>) \<sigma>)" "out_of_memory m' = out_of_memory m"
  | (failed) e m' where "copyPayload pl pr m = Some (Inl e, m')" "allocation_failure m e" "out_of_memory m' = out_of_memory m"
proof -
  let ?x = "fst l" and ?y = "fst r"
  have x: "\<sigma> ?x \<noteq> None" and y: "\<sigma> ?y \<noteq> None" using l pr by (auto simp: refers_def)
  from r [unfolded represents_def] l obtain A v B where A: "owners m \<sigma> A {}" and fl: "focus m \<sigma> A {} ?x (keys l) pl v (look l \<sigma>) B"
    by (rule refers_focus)
  obtain pr' w C where "focus m \<sigma> A {} ?y (keys r) pr' w (look r \<sigma>) C"
    using focus_exists [OF A, of ?y] y pr unfolding refers_def by (metis not_None_eq option.sel)
  then have fr: "focus m \<sigma> A {} ?y (keys r) pr w (look r \<sigma>) C" using focusD(1) pr by (fastforce simp: refers_def)
  have disj: "A ?x \<inter> A ?y = {}" using A x y ne unfolding owners_def by blast
  have sub: "B \<subseteq> A ?x" "C \<subseteq> A ?y" "A ?x \<subseteq> dom (cells m)" "A ?y \<subseteq> dom (cells m)"
    using focusD(4) [OF fl] focusD(4) [OF fr] owners_disjoint [OF A x] owners_disjoint [OF A y] by auto
  define m1 where "m1 = m\<lparr>cells := cells m |` (- B)\<rparr>"
  have "fresh m" using A by (simp add: owners_def)
  then have fresh: "fresh m1" by (auto simp: m1_def fresh_def restrict_map_def)
  have destroy: "destroy_value v m = Some (Inr (), m1)" unfolding m1_def by (rule destroy_value_run [OF focusD(3) [OF fl] \<open>fresh m\<close>])
  have "kept (A ?y - C) m m1" using disj sub by (auto simp: kept_def m1_def restrict_map_def)
  then have w: "place_value pr m1 = Some w" by (rule focus_read [OF fr])
  have "owns (cells m1) w (look r \<sigma>) C"
    by (rule owns_frame(1) [OF focusD(3) [OF fr]]) (use disj sub in \<open>auto simp: m1_def restrict_map_def\<close>)
  then have "makes (copy_value w) m1 (\<lambda>c w. owns c w (look r \<sigma>))" by (rule copy_value_makes [OF _ fresh])
  then show thesis
  proof (cases rule: makesE)
    case (failed e m2)
    have "kept (A ?x - B) m m2" using failed(3) sub by (auto simp: kept_def m1_def grown_def restrict_map_def)
    with fl obtain m3 where m3: "write_place pl (v\<lparr>value_type := value_type w, allocated := False\<rparr>) m2 = Some (Inr (), m3)" "written (A ?x - B) m2 m3"
      by (rule focus_write)
    have "mem_cleanup (copy_value w) (write_place pl (v\<lparr>value_type := value_type w, allocated := False\<rparr>)) m1 = Some (Inl e, m3)"
      using failed(1) m3(1) by simp
    then have "copyPayload pl pr m = Some (Inl e, m3)"
      using destroy by (simp add: copyPayload_def read_place_run [OF focusD(2) [OF fl]] read_place_run [OF w])
    then show ?thesis using that(2) failed m3(2) by (auto simp: allocation_failure_def m1_def grown_def written_def)
  next
    case (made w' m2 D)
    have D: "D \<inter> (dom (cells m) - B) = {}" "dom (cells m2) = (dom (cells m) - B) \<union> D"
      using made(2) grown_dom [OF made(2)] owns_dom(1) [OF made(3)] by (auto simp: m1_def grown_def)
    have "cells m2 b = cells m b" if "b \<in> dom (cells m) - B" for b using grown_same [OF made(2), of b] that by (auto simp: m1_def)
    then have k: "kept (dom (cells m) - B - {}) m m2" using made(2) by (auto simp: kept_def m1_def grown_def)
    then have "kept (A ?x - B) m m2" unfolding kept_def using sub(3) by blast
    with fl obtain m3 where m3: "write_place pl w' m2 = Some (Inr (), m3)" "written (A ?x - B) m2 m3" by (rule focus_write)
    have "owns (cells m3) w' (look r \<sigma>) D"
    proof (rule owns_frame(1) [OF made(3)])
      fix a assume "a \<in> D"
      then have "a \<notin> A ?x - B" using D(1) sub(3) by blast
      then show "cells m3 a = cells m2 a" using m3(2) by (simp add: written_def)
    qed
    then have "represents_with m3 (put l (look r \<sigma>) \<sigma>) {}"
      unfolding put_store_at store_at_def
      by (intro focus_represents [OF fl k m3(1)]) (use D grown_fresh [OF made(2)] in auto)
    moreover have "copyPayload pl pr m = Some (Inr (), m3)"
      using destroy made(1) m3(1) by (simp add: copyPayload_def read_place_run [OF focusD(2) [OF fl]] read_place_run [OF w])
    ultimately show ?thesis using that(1) made(2) m3(2) by (auto simp: represents_def m1_def grown_def written_def)
  qed
qed

lemma size_of_run: "owns (cells m) v u B \<Longrightarrow> size_of v m = Some (Inr (tree_size u), m)"
proof (cases u)
  case (TMap b es)
  assume "owns (cells m) v u B"
  then obtain a ms B0 where a: "value_payload v = P_map a" "cells m a = Some (Entries ms)" "owns_entries (cells m) ms es B0"
    "value_type v = (if b then arrayType else objectType)" "map_keys b es" by (auto simp: TMap)
  have len: "length ms = length es" by (rule owns_entries_length [OF a(3)])
  show ?thesis
  proof (cases "b \<and> es \<noteq> []")
    case True
    then have "es \<noteq> []" "ms \<noteq> []" using len by auto
    then have "reads_key (cells m) (fst (last ms)) (fst (last es))"
      using owns_entries_keys [OF a(3)] len by (auto simp: list_all2_conv_all_nth last_conv_nth)
    moreover have "is_index (fst (last es))" using True a(5) by (simp add: map_keys_def)
    ultimately obtain i where "fst (last es) = IndexKey i" "fst (last ms) = Index i" by (cases "fst (last es)") (auto simp: reads_key_def)
    then show ?thesis using True a len by (auto simp: size_of_def TMap read_entries_def mem_return_def)
  next
    case False
    then show ?thesis using a len by (auto simp: size_of_def TMap read_entries_def mem_return_def)
  qed
qed (auto simp: size_of_def mem_return_def)

lemma new_element_runs:
  assumes r: "represents m \<sigma>" and l: "refers m \<sigma> l pl" and pr: "refers m \<sigma> r pr"
    and acc: "acc = At (tree_size (look l \<sigma>))" and l': "l' = (fst l, snd l @ [acc])"
    and f: "\<And>m s slot. represents m s \<Longrightarrow> refers m s l' slot \<Longrightarrow> refers m s r pr \<Longrightarrow> runs (f slot) m (g s) (dom s) Q"
  shows "runs (mem_bind (read_place pl) (\<lambda>v. mem_bind (size_of v) (\<lambda>n. mem_bind (subscript (At n) pl) f))) m
    (bind_result (tree_subscript acc (look l \<sigma>)) (\<lambda>t. g (put l t \<sigma>))) (dom \<sigma>) Q"
proof -
  from r [unfolded represents_def] l obtain A v B where fc: "focus m \<sigma> A {} (fst l) (keys l) pl v (look l \<sigma>) B" by (rule refers_focus)
  have x: "\<sigma> (fst l) \<noteq> None" "subtree (the (\<sigma> (fst l))) (keys l) = Some (look l \<sigma>)" "reach m (fst l) (keys l) = Some pl"
    using l by (auto simp: refers_def)
  have run: "runs (mem_bind (read_place pl) (\<lambda>v. mem_bind (size_of v) (\<lambda>n. mem_bind (subscript (At n) pl) f))) m
      = runs (mem_bind (subscript acc pl) f) m"
    by (rule runs_eq) (simp add: acc read_place_run [OF focusD(2) [OF fc]] size_of_run [OF focusD(3) [OF fc]])
  show ?thesis
    unfolding run
  proof (rule runs_bind [OF subscript_runs [OF r x]])
    fix t slot m1
    assume *: "represents m1 (store_at \<sigma> (fst l) (keys l) t) \<and> later m m1 \<and> reach m1 (fst l) (keys l @ [key_named acc]) = Some slot"
    let ?s = "put l t \<sigma>"
    have s: "represents m1 ?s" "dom ?s = dom \<sigma>" using * x(1) by (auto simp: put_store_at)
    have "refers m1 ?s l' slot"
      using * s(1) by (intro refersI [where E = "{}"]) (auto simp: represents_def keys_def put_def l')
    moreover have "refers m1 ?s r pr" using * s by (intro refers_later [OF pr]) (auto simp: represents_def)
    ultimately have "runs (f slot) m1 (g ?s) (dom ?s) Q" by (rule f [OF s(1)])
    then show "runs (f slot) m1 (g ?s) (dom \<sigma>) Q" unfolding s(2) .
  qed
qed

lemma append_runs:
  assumes "represents m \<sigma>" "refers m \<sigma> l pl" "refers m \<sigma> r pr"
  shows "runs (append_place pl pr) m
    (let acc = At (tree_size (look l \<sigma>))
     in bind_result (tree_subscript acc (look l \<sigma>)) (\<lambda>t. let \<sigma> = put l t \<sigma> in Inr (put (fst l, snd l @ [acc]) (look r \<sigma>) \<sigma>)))
    (dom \<sigma>) (\<lambda>\<sigma>' _ m'. represents m' \<sigma>')"
  unfolding append_place_def Let_def by (rule new_element_runs [OF assms refl refl]) (rule assign_runs)

lemma append_move_runs:
  assumes "represents m \<sigma>" "refers m \<sigma> l pl" "refers m \<sigma> r pr" "fst l \<noteq> fst r"
  shows "runs (append_move pl pr) m
    (let acc = At (tree_size (look l \<sigma>)); l' = (fst l, snd l @ [acc])
     in bind_result (tree_subscript acc (look l \<sigma>)) (\<lambda>t. let \<sigma> = put l t \<sigma> in Inr (put r (look l' \<sigma>) (put l' (look r \<sigma>) \<sigma>))))
    (dom \<sigma>) (\<lambda>\<sigma>' _ m'. represents m' \<sigma>')"
  unfolding append_move_def Let_def
proof (rule new_element_runs [OF assms(1-3) refl refl], rule runs_weaken)
  fix m s slot
  let ?l = "(fst l, snd l @ [At (tree_size (look l \<sigma>))])"
  assume s: "represents m s" "refers m s ?l slot" "refers m s r pr"
  show "runs (swap_places slot pr) m (Inr (put r (look ?l s) (put ?l (look r s) s))) (dom s)
      (\<lambda>\<sigma>' _ m'. represents m' \<sigma>' \<and> reach m' (fst r) (keys r) = Some pr)"
    by (rule swap_runs [OF s]) (simp add: assms(4))
qed simp

lemma clear_runs:
  assumes r: "represents m \<sigma>" and l: "refers m \<sigma> l pl"
  shows "runs (clear_place pl) m
    (case look l \<sigma> of TNull \<Rightarrow> Inr \<sigma> | TMap b es \<Rightarrow> Inr (put l (TMap b []) \<sigma>)
     | _ \<Rightarrow> Inl (LogicError ''in Json::Value::clear(): requires complex value'')) (dom \<sigma>) (\<lambda>\<sigma>' _ m'. represents m' \<sigma>')"
proof -
  from r [unfolded represents_def] l obtain A v B where A: "owners m \<sigma> A {}" and f: "focus m \<sigma> A {} (fst l) (keys l) pl v (look l \<sigma>) B"
    by (rule refers_focus)
  have x: "\<sigma> (fst l) \<noteq> None" using l by (simp add: refers_def)
  have fm: "fresh m" using A by (simp add: owners_def)
  note d = focusD [OF f]
  show ?thesis
  proof (cases "\<exists>b es. look l \<sigma> = TMap b es")
    case True
    then obtain b es where u: "look l \<sigma> = TMap b es" by blast
    then obtain a ms B0 where a: "value_payload v = P_map a" "cells m a = Some (Entries ms)" "owns_entries (cells m) ms es B0" "a \<notin> B0" "B = insert a B0"
      and ty: "value_type v = (if b then arrayType else objectType)" using d(3) by auto
    define m1 where "m1 = m\<lparr>cells := cells m |` (- B0)\<rparr>"
    define m2 where "m2 = m1\<lparr>cells := (cells m1)(a \<mapsto> Entries [])\<rparr>"
    have fuel: "depth_entries es < Suc (next_free m)" using fuel_enough [OF d(3) fm] u by simp
    have rel: "release_entries (Suc (next_free m)) ms m = Some (Inr (), m1)"
      unfolding m1_def using fuel by (intro release(2) [OF a(3)]) auto
    have wr: "write_entries a [] m1 = Some (Inr (), m2)" using a(2,4) by (simp add: write_entries_def m1_def m2_def)
    have t: "value_type v = arrayType \<or> value_type v = objectType" using ty by simp
    have rd: "read_entries a (cells m) = Some ms" using a(2) by (simp add: read_entries_def)
    have run: "clear_place pl m = Some (Inr (), m2)"
      unfolding clear_place_def read_place_run [OF d(2)] if_P [OF t] a(1) payload.case mem_read_run [of "read_entries a", OF rd]
      using rel wr by (simp add: mem_bind_def)
    have "represents m2 (store_at \<sigma> (fst l) (keys l) (TMap b []))"
    proof (rule in_place [OF A f, where B' = "{a}"])
      show "owns (cells m2) v (TMap b []) {a}" using ty a(1) by (simp add: m2_def map_keys_def)
      show "dom (cells m2) = dom (cells m) - B \<union> {a}" using a by (auto simp: m2_def m1_def)
      show "fresh m2" using fm a(2) by (auto simp: fresh_def m2_def m1_def restrict_map_def)
    qed (use a x in \<open>auto simp: m2_def m1_def restrict_map_def\<close>)
    then show ?thesis using run by (simp add: u put_store_at) (auto simp: m2_def m1_def intro!: runsI)
  next
    case False
    have "value_type v = nullType \<and> look l \<sigma> = TNull
      \<or> value_type v \<noteq> nullType \<and> value_type v \<noteq> arrayType \<and> value_type v \<noteq> objectType \<and> look l \<sigma> \<noteq> TNull"
      using False d(3) by (cases "look l \<sigma>") auto
    then show ?thesis
    proof (elim disjE conjE)
      assume "value_type v = nullType" "look l \<sigma> = TNull"
      then show ?thesis using r by (simp add: runsI [of _ _ "()" m] clear_place_def read_place_run [OF d(2)] mem_return_def)
    next
      assume *: "value_type v \<noteq> nullType" "value_type v \<noteq> arrayType" "value_type v \<noteq> objectType" "look l \<sigma> \<noteq> TNull"
      have "clear_place pl m = Some (Inl (Thrown (LogicError ''in Json::Value::clear(): requires complex value'')), m)"
        using * by (simp add: clear_place_def read_place_run [OF d(2)] mem_throw_def)
      then have "runs (clear_place pl) m (Inl (LogicError ''in Json::Value::clear(): requires complex value'')) (dom \<sigma>) (\<lambda>\<sigma>' _ m'. represents m' \<sigma>')"
        by (rule runs_throw [OF _ r refl])
      then show ?thesis using False * by (cases "look l \<sigma>") auto
    qed
  qed
qed

text \<open>The position of a key in a map, and the map without it.\<close>

lemma sorted_position:
  assumes "map_keys b es" "map_of es K = Some u"
  obtains es1 es2 where "es = es1 @ (K, u) # es2" "length (takeWhile (\<lambda>E. key_less (fst E) K) es) = length es1"
    "filter (\<lambda>E. fst E \<noteq> K) es = es1 @ es2" "map_keys b (es1 @ es2)"
proof -
  from map_of_split [OF assms(2)] obtain es1 es2 where es: "es = es1 @ (K, u) # es2" by blast
  have so: "\<forall>E \<in> set es1. key_less (fst E) K" "\<forall>E \<in> set es2. key_less K (fst E)"
    using assms(1) by (auto simp: es map_keys_def sorted_wrt_append)
  have "length (takeWhile (\<lambda>E. key_less (fst E) K) es) = length es1" using so(1) key_less_irrefl by (simp add: es takeWhile_append2)
  moreover have "\<forall>E \<in> set es1 \<union> set es2. fst E \<noteq> K" using so key_less_irrefl by fastforce
  then have "filter (\<lambda>E. fst E \<noteq> K) es = es1 @ es2" by (simp add: es filter_id_conv)
  moreover have "map_keys b (es1 @ es2)" using assms(1) by (auto simp: es map_keys_def sorted_wrt_append)
  ultimately show ?thesis using that es by blast
qed

lemma erase_runs:
  assumes r: "represents m \<sigma>" and l: "refers m \<sigma> l pl" and u: "look l \<sigma> = TMap b es" "map_of es K = Some t"
    and v: "place_value pl m = Some v" "value_payload v = P_map a" and i: "i = length (takeWhile (\<lambda>E. key_less (fst E) K) es)"
  shows "runs (erase_node a i) m (Inr (put l (TMap b (filter (\<lambda>E. fst E \<noteq> K) es)) \<sigma>)) (dom \<sigma>)
    (\<lambda>\<sigma>' _ m'. represents m' \<sigma>' \<and> refers m' \<sigma>' l pl \<and> place_value pl m' = Some v)"
proof -
  from r [unfolded represents_def] l obtain A v' B where A: "owners m \<sigma> A {}" and f: "focus m \<sigma> A {} (fst l) (keys l) pl v' (look l \<sigma>) B"
    by (rule refers_focus)
  have x: "\<sigma> (fst l) \<noteq> None" using l by (simp add: refers_def)
  have fm: "fresh m" using A by (simp add: owners_def)
  have "v' = v" using focusD(2) [OF f] v(1) by simp
  then have f: "focus m \<sigma> A {} (fst l) (keys l) pl v (TMap b es) B" using f u by simp
  then obtain ms B0 where ms: "cells m a = Some (Entries ms)" "owns_entries (cells m) ms es B0" "a \<notin> B0" "B = insert a B0"
    and ty: "value_type v = (if b then arrayType else objectType)" "map_keys b es" using focusD(3) [OF f] v(2) by auto
  from ty(2) u(2) obtain es1 es2 where es: "es = es1 @ (K, t) # es2" "length (takeWhile (\<lambda>E. key_less (fst E) K) es) = length es1"
    "filter (\<lambda>E. fst E \<noteq> K) es = es1 @ es2" "map_keys b (es1 @ es2)" by (rule sorted_position)
  from ms(2) obtain ms1 k w ms2 A1 A2 C A3 where e: "ms = ms1 @ (k, w) # ms2" "length ms1 = i"
    and o: "owns_entries (cells m) ms1 es1 A1" "owns_key (cells m) k K A2" "owns (cells m) w t C" "owns_entries (cells m) ms2 es2 A3"
    and d: "A1 \<inter> (A2 \<union> C \<union> A3) = {}" "A2 \<inter> C = {}" "A2 \<inter> A3 = {}" "C \<inter> A3 = {}" "B0 = A1 \<union> (A2 \<union> C \<union> A3)"
    unfolding es owns_entries_append i es(2) [symmetric] using es(1,2) by auto
  define m1 where "m1 = m\<lparr>cells := (cells m)(a \<mapsto> Entries (ms1 @ ms2))\<rparr>"
  define m2 where "m2 = m1\<lparr>cells := cells m1 |` (- C)\<rparr>"
  define m3 where "m3 = m2\<lparr>cells := cells m2 |` (- A2)\<rparr>"
  have f1: "fresh m1" using fm ms(1) by (auto simp: fresh_def m1_def)
  have "owns (cells m1) w t C" by (rule owns_frame(1) [OF o(3)]) (use d ms in \<open>auto simp: m1_def\<close>)
  then have "destroy_value w m1 = Some (Inr (), m2)" unfolding m2_def by (rule destroy_value_run [OF _ f1])
  moreover have "CZString_destroy k m2 = Some (Inr (), m3)"
    unfolding m3_def by (rule release_key [OF o(2)]) (use d ms(3) in \<open>auto simp: m2_def m1_def restrict_map_def\<close>)
  moreover have "write_entries a (ms1 @ ms2) m = Some (Inr (), m1)" using ms(1) by (simp add: write_entries_def m1_def)
  moreover have "read_entries a (cells m) = Some ms" using ms(1) by (simp add: read_entries_def)
  ultimately have run: "erase_node a i m = Some (Inr (), m3)"
    using e by (simp add: erase_node_def nth_append)
  have cells3: "cells m3 b = (if b = a then Some (Entries (ms1 @ ms2)) else if b \<in> C \<union> A2 then None else cells m b)" for b
    using d(5) ms(3) by (auto simp: m3_def m2_def m1_def restrict_map_def)
  have "owns_entries (cells m3) ms1 es1 A1" "owns_entries (cells m3) ms2 es2 A3"
    using d ms(3) by (auto intro!: owns_frame(2) [OF o(1)] owns_frame(2) [OF o(4)] simp: cells3)
  moreover have "A1 \<inter> A3 = {}" using d(1) by auto
  ultimately have "owns_entries (cells m3) (ms1 @ ms2) (es1 @ es2) (A1 \<union> A3)"
    unfolding owns_entries_append using owns_entries_length [OF o(1)] by blast
  then have o3: "owns (cells m3) v (TMap b (es1 @ es2)) (insert a (A1 \<union> A3))"
    using ty(1) es(4) v(2) ms(3) d(5) by (auto simp: cells3)
  have r3: "represents m3 (store_at \<sigma> (fst l) (keys l) (TMap b (es1 @ es2)))"
  proof (rule in_place [OF A f _ _ o3 _ _ _ x])
    show "dom (cells m3) = dom (cells m) - B \<union> insert a (A1 \<union> A3)"
      using d ms owns_dom(2) [OF ms(2)] by (auto simp: cells3 split: if_splits)
    show "fresh m3" using fm ms(1) by (auto simp: fresh_def m3_def m2_def m1_def restrict_map_def)
  qed (use d ms in \<open>auto simp: cells3 m3_def m2_def m1_def\<close>)
  have "kept (A (fst l) - B) m m3"
    using d(5) ms(4) owners_disjoint [OF A x] by (auto simp: kept_def cells3 m3_def m2_def m1_def)
  note read = focus_read [OF f this]
  have "refers m3 (store_at \<sigma> (fst l) (keys l) (TMap b (es1 @ es2))) l pl"
    using r3 read(3) by (intro refersI [where E = "{}"]) (auto simp: represents_def)
  then show ?thesis using run es(3) r3 read(1) by (intro runsI [of _ _ "()" m3]) (auto simp: put_store_at m3_def m2_def m1_def)
qed

lemma filter_entries_store: "filter (\<lambda>E. fst E \<noteq> K) (entries_store K u es) = filter (\<lambda>E. fst E \<noteq> K) es"
  by (induction es) auto

lemma entries_store_takeWhile:
  "length (takeWhile (\<lambda>E. P (fst E)) (entries_store K u es)) = length (takeWhile (\<lambda>E. P (fst E)) es)"
  by (induction es) auto

lemma replace_prefix:
  "subtree t ks = Some u0 \<Longrightarrow> replace t (ks @ ks') u = replace t ks (replace u0 ks' u)"
  using replace_replace [of t ks u0 u0 ks' u] by (simp add: replace_same)

text \<open>The member is moved to a variable before its node is destroyed.\<close>

lemma move_out_runs:
  assumes r: "represents m \<sigma>" and l: "refers m \<sigma> l pl" and y: "\<sigma> y \<noteq> None" "y \<noteq> fst l"
    and u: "look l \<sigma> = TMap False es" "map_of es K = Some t" and K: "K = key_named (Member s)"
    and v: "place_value pl m = Some v" "value_payload v = P_map a" and i: "i = length (takeWhile (\<lambda>E. key_less (fst E) K) es)"
  shows "runs (mem_bind (swap_places (Variable y) (Slot a K)) (\<lambda>_. erase_node a i)) m
    (Inr ((put l (TMap False (filter (\<lambda>E. fst E \<noteq> K) es)) \<sigma>)(y \<mapsto> t))) (dom \<sigma>) (\<lambda>\<sigma>' _ m'. represents m' \<sigma>')"
proof -
  let ?x = "fst l" and ?l = "(fst l, snd l @ [Member s])" and ?y = "(y, []) :: lvalue"
  have x: "\<sigma> ?x \<noteq> None" "subtree (the (\<sigma> ?x)) (keys l) = Some (TMap False es)" "reach m ?x (keys l) = Some pl"
    using l u by (auto simp: refers_def)
  have kl: "keys ?l = keys l @ [K]" by (simp add: keys_def K)
  have sub: "subtree (the (\<sigma> ?x)) (keys l @ [K]) = Some t"
    using subtree_replace [OF x(2), of "TMap False es" "[K]"] replace_same [OF x(2)] u(2) by simp
  have "reach m ?x (keys l @ [K]) = Some (Slot a K)"
    by (rule reach_slot [OF r [unfolded represents_def] x(1) _ x(3) v]) (simp add: sub)
  then have rl: "refers m \<sigma> ?l (Slot a K)" using r x(1) by (intro refersI [where E = "{}"]) (auto simp: represents_def kl)
  have ry: "refers m \<sigma> ?y (Variable y)"
    using r y represents_variable [of m \<sigma> "{}" y] by (intro refersI [where E = "{}"]) (auto simp: represents_def keys_def reach_def split: option.splits)
  define old where "old = look ?y \<sigma>"
  define s1 where "s1 = put ?l old (put ?y (look ?l \<sigma>) \<sigma>)"
  have s1: "s1 = (store_at \<sigma> ?x (keys l @ [K]) old)(y \<mapsto> t)"
    using y sub by (simp add: s1_def put_def store_at_def kl look_def keys_def [of ?y] fun_upd_twist)
  have x1: "the (s1 ?x) = replace (the (\<sigma> ?x)) (keys l) (TMap False (entries_store K old es))" "s1 ?x \<noteq> None"
    using y u(2) by (auto simp: s1 store_at_def replace_prefix [OF x(2)])
  have d1: "dom s1 = dom \<sigma>" using y x(1) by (auto simp: s1 store_at_def)
  have sw: "runs (swap_places (Variable y) (Slot a K)) m (Inr s1) (dom \<sigma>)
      (\<lambda>\<sigma>' _ m'. represents m' \<sigma>' \<and> reach m' ?x (keys ?l) = Some (Slot a K))"
    using swap_runs [OF r ry rl] y(2) by (simp add: s1_def old_def)
  have fin: "put l (TMap False (filter (\<lambda>E. fst E \<noteq> K) es)) s1 = (put l (TMap False (filter (\<lambda>E. fst E \<noteq> K) es)) \<sigma>)(y \<mapsto> t)"
    using y replace_replace [OF x(2), of "TMap False (entries_store K old es)" "[]"] x1(1) by (simp add: put_def s1 store_at_def fun_upd_twist)
  have "runs (mem_bind (swap_places (Variable y) (Slot a K)) (\<lambda>_. erase_node a i)) m
      (bind_result (Inr s1) (\<lambda>\<sigma>. Inr (put l (TMap False (filter (\<lambda>E. fst E \<noteq> K) es)) \<sigma>))) (dom \<sigma>) (\<lambda>\<sigma>' _ m'. represents m' \<sigma>')"
  proof (rule runs_bind [OF sw])
    fix s' z m1
    assume "Inr s1 = (Inr s' :: store result)" and *: "represents m1 s' \<and> reach m1 ?x (keys ?l) = Some (Slot a K)"
    then have s': "s' = s1" and m1: "represents m1 s1" "reach m1 ?x (keys l @ [K]) = Some (Slot a K)" by (auto simp: kl)
    have sub1: "subtree (the (s1 ?x)) (keys l) = Some (TMap False (entries_store K old es))"
      unfolding x1(1) using subtree_replace [OF x(2), of _ "[]"] by simp
    from m1(1) [unfolded represents_def] x1(2) sub1 obtain A p1 v1 B1 where
      f: "focus m1 s1 A {} ?x (keys l) p1 v1 (TMap False (entries_store K old es)) B1" by (rule represents_focus)
    have p1: "refers m1 s1 l p1" using focusD(1) [OF f] m1(1) x1(2) by (intro refersI [where E = "{}"]) (auto simp: represents_def)
    have pay: "value_payload v1 = P_map a"
      using m1(2) unfolding reach_append [OF focusD(1,2) [OF f]] by (auto split: if_splits payload.splits option.splits)
    have "look l s1 = TMap False (entries_store K old es)" using sub1 by (simp add: look_def)
    from erase_runs [OF m1(1) p1 this _ focusD(2) [OF f] pay, of K old i]
    have "runs (erase_node a i) m1 (Inr (put l (TMap False (filter (\<lambda>E. fst E \<noteq> K) es)) s')) (dom \<sigma>)
        (\<lambda>\<sigma>' _ m'. represents m' \<sigma>' \<and> refers m' \<sigma>' l p1 \<and> place_value p1 m' = Some v1)"
      using u(2) by (simp add: s' d1 filter_entries_store map_of_entries_store i entries_store_takeWhile [where P = "\<lambda>L. key_less L K"])
    then show "runs (erase_node a i) m1 (Inr (put l (TMap False (filter (\<lambda>E. fst E \<noteq> K) es)) s')) (dom \<sigma>) (\<lambda>\<sigma>' _ m'. represents m' \<sigma>')"
      by (rule runs_weaken) simp
  qed
  then show ?thesis using fin by simp
qed

lemma member_key_reads: "reads_key c (CZString_text s (length s) noDuplication) (key_named (Member s))"
proof -
  have "length s mod 1073741824 \<le> length s" by (rule mod_less_eq_dividend)
  then show ?thesis
    by (auto simp: key_named_def reads_key_def CZString_text_def read_bytes_def pointer_bytes_def min_absorb2 intro: append_take_drop_id [symmetric])
qed

lemma runs_then_return: "runs f m r X Q \<Longrightarrow> (\<And>s x m'. Q s x m' \<Longrightarrow> Q' s y m') \<Longrightarrow> runs (mem_bind f (\<lambda>_. mem_return y)) m r X Q'"
proof -
  assume f: "runs f m r X Q" and Q: "\<And>s x m'. Q s x m' \<Longrightarrow> Q' s y m'"
  have "runs (mem_bind f (\<lambda>_. mem_return y)) m (bind_result r Inr) X Q'"
    by (rule runs_bind [OF f]) (auto simp: mem_return_def intro!: runsI Q)
  then show ?thesis by (cases r) auto
qed

lemma remove_member_runs:
  assumes r: "represents m \<sigma>" and l: "refers m \<sigma> l pl"
    and y: "case removed of None \<Rightarrow> True | Some y \<Rightarrow> \<sigma> y \<noteq> None \<and> y \<noteq> fst l"
  shows "runs (remove_member s (map_option Variable removed) pl) m
    (case look l \<sigma> of
       TMap False es \<Rightarrow>
         (case map_of es (key_named (Member s)) of
            None \<Rightarrow> Inr \<sigma>
          | Some u \<Rightarrow>
              let \<sigma> = put l (TMap False (filter (\<lambda>e. fst e \<noteq> key_named (Member s)) es)) \<sigma>
              in Inr (case removed of None \<Rightarrow> \<sigma> | Some y \<Rightarrow> \<sigma>(y \<mapsto> u)))
     | _ \<Rightarrow> Inr \<sigma>) (dom \<sigma>) (\<lambda>\<sigma>' _ m'. represents m' \<sigma>')"
proof -
  let ?K = "key_named (Member s)" and ?key = "CZString_text s (length s) noDuplication"
  from r [unfolded represents_def] l obtain A v B where f: "focus m \<sigma> A {} (fst l) (keys l) pl v (look l \<sigma>) B" by (rule refers_focus)
  note d = focusD [OF f]
  show ?thesis
  proof (cases "\<exists>es. look l \<sigma> = TMap False es")
    case False
    then have "value_type v \<noteq> objectType" using owns_map_type [OF d(3), of False] by simp
    then have "remove_member s (map_option Variable removed) pl m = Some (Inr False, m)"
      by (simp add: remove_member_def read_place_run [OF d(2)] mem_return_def)
    then have "runs (remove_member s (map_option Variable removed) pl) m (Inr \<sigma>) (dom \<sigma>) (\<lambda>\<sigma>' _ m'. represents m' \<sigma>')"
      by (rule runsI) (simp_all add: r)
    then show ?thesis using False by (cases "look l \<sigma>") (auto split: bool.splits)
  next
    case True
    then obtain es where u: "look l \<sigma> = TMap False es" by blast
    then obtain a ms B0 where a: "value_payload v = P_map a" "cells m a = Some (Entries ms)" "owns_entries (cells m) ms es B0"
      and ty: "value_type v = objectType" "map_keys False es" using d(3) by auto
    define i where "i = length (takeWhile (\<lambda>E. key_less (fst E) ?K) es)"
    have kinds: "\<forall>L \<in> set (map fst es). is_index L = is_index ?K" using ty(2) by (auto simp: map_keys_def key_named_def)
    note pos = lower_bound_position [OF owns_entries_keys [OF a(3)] kinds member_key_reads, folded i_def]
      found_position [OF owns_entries_keys [OF a(3)] kinds member_key_reads, of i]
    have found: "(i < length es \<and> fst (es ! i) = ?K) = (map_of es ?K \<noteq> None)"
      by (rule position_of_found [OF _ ty(2) _ i_def]) (use ty(2) in \<open>auto simp: map_keys_def key_named_def\<close>)
    have rd: "read_entries a (cells m) = Some ms" using a(2) by (simp add: read_entries_def)
    define move where "move = (case map_option Variable removed of None \<Rightarrow> mem_return () | Some pr \<Rightarrow> swap_places pr (Slot a ?K))"
    have run: "runs (remove_member s (map_option Variable removed) pl) m =
        runs (if map_of es ?K = None then mem_return False else mem_bind (mem_bind move (\<lambda>_. erase_node a i)) (\<lambda>_. mem_return True)) m"
      using ty(1) rd pos by (intro runs_eq)
        (simp add: remove_member_def read_place_run [OF d(2)] a(1) Let_def found move_def mem_bind_assoc)
    show ?thesis
    proof (cases "map_of es ?K")
      case None
      then show ?thesis using r unfolding run by (simp add: u mem_return_def runsI [of _ _ False m])
    next
      case (Some t)
      have "runs (mem_bind move (\<lambda>_. erase_node a i)) m
          (Inr (let \<sigma> = put l (TMap False (filter (\<lambda>e. fst e \<noteq> ?K) es)) \<sigma> in case removed of None \<Rightarrow> \<sigma> | Some y \<Rightarrow> \<sigma>(y \<mapsto> t)))
          (dom \<sigma>) (\<lambda>\<sigma>' _ m'. represents m' \<sigma>')"
      proof (cases removed)
        case None
        then show ?thesis using erase_runs [OF r l u Some d(2) a(1) i_def] by (auto simp: move_def elim: runs_weaken)
      next
        case (Some y')
        then show ?thesis using move_out_runs [OF r l _ _ u \<open>map_of es ?K = Some t\<close> refl d(2) a(1) i_def, of y'] y by (simp add: move_def)
      qed
      then show ?thesis unfolding run using Some by (simp add: u Let_def runs_then_return)
    qed
  qed
qed

section \<open>Resizing\<close>

lemma erase_key_runs:
  assumes r: "represents m \<sigma>" and l: "refers m \<sigma> l pl" and u: "look l \<sigma> = TMap b es" "is_index K = b" "reads_key (cells m) key K"
    and v: "place_value pl m = Some v" "value_payload v = P_map a"
  shows "runs (erase_key key a) m (Inr (put l (TMap b (filter (\<lambda>E. fst E \<noteq> K) es)) \<sigma>)) (dom \<sigma>)
    (\<lambda>\<sigma>' _ m'. represents m' \<sigma>' \<and> refers m' \<sigma>' l pl \<and> place_value pl m' = Some v)"
proof -
  from r [unfolded represents_def] l obtain A v' B where f: "focus m \<sigma> A {} (fst l) (keys l) pl v' (look l \<sigma>) B" by (rule refers_focus)
  have "v' = v" using focusD(2) [OF f] v(1) by simp
  then obtain ms B0 where a: "cells m a = Some (Entries ms)" "owns_entries (cells m) ms es B0" and mk: "map_keys b es"
    using focusD(3) [OF f] v(2) u(1) by auto
  define i where "i = length (takeWhile (\<lambda>E. key_less (fst E) K) es)"
  have kinds: "\<forall>L \<in> set (map fst es). is_index L = is_index K" using mk u(2) by (auto simp: map_keys_def)
  note pos = lower_bound_position [OF owns_entries_keys [OF a(2)] kinds u(3), folded i_def]
    found_position [OF owns_entries_keys [OF a(2)] kinds u(3), of i]
  have found: "(i < length es \<and> fst (es ! i) = K) = (map_of es K \<noteq> None)"
    by (rule position_of_found [OF _ mk u(2) i_def]) (use mk in \<open>simp add: map_keys_def\<close>)
  have rd: "read_entries a (cells m) = Some ms" using a(1) by (simp add: read_entries_def)
  have run: "runs (erase_key key a) m = runs (if map_of es K = None then mem_return () else erase_node a i) m"
    using rd pos by (intro runs_eq) (simp add: erase_key_def found)
  show ?thesis
  proof (cases "map_of es K")
    case None
    then have "filter (\<lambda>E. fst E \<noteq> K) es = es" by (auto simp: map_of_eq_None_iff filter_id_conv image_iff)
    moreover have "put l (TMap b es) \<sigma> = \<sigma>" using l u(1) by (auto simp: put_store_at refers_def intro: store_at_same)
    ultimately show ?thesis using None r l v(1) unfolding run by (simp add: mem_return_def runsI [of _ _ "()" m])
  next
    case (Some t)
    then show ?thesis using erase_runs [OF r l u(1) Some v i_def] unfolding run by simp
  qed
qed

lemma put_twice: "refers m \<sigma> l pl \<Longrightarrow> put l u (put l t \<sigma>) = put l u \<sigma>"
  using store_at_twice(2) [of \<sigma> "fst l" "keys l"] by (simp add: put_store_at refers_def)

lemma look_of_put: "refers m \<sigma> l pl \<Longrightarrow> look l (put l t \<sigma>) = t"
  using subtree_store_at(2) [of \<sigma> "fst l" "keys l" _ t] unfolding put_store_at refers_def look_def by (elim conjE) simp

lemma put_look: "refers m \<sigma> l pl \<Longrightarrow> put l (look l \<sigma>) \<sigma> = \<sigma>"
  by (auto simp: put_store_at refers_def intro: store_at_same)

lemma dom_put: "refers m \<sigma> l pl \<Longrightarrow> dom (put l t \<sigma>) = dom \<sigma>"
  by (auto simp: put_def refers_def)

lemma reads_index: "reads_key c (Index i) (IndexKey i)"
  by (simp add: reads_key_def)

lemma erase_indices_runs:
  assumes "represents m \<sigma>" "refers m \<sigma> l pl" "look l \<sigma> = TMap True es" "place_value pl m = Some v" "value_payload v = P_map a"
  shows "runs (erase_indices a i n) m (Inr (put l (TMap True (filter (\<lambda>E. fst E \<notin> IndexKey ` {i..<n}) es)) \<sigma>)) (dom \<sigma>)
    (\<lambda>\<sigma>' _ m'. represents m' \<sigma>' \<and> refers m' \<sigma>' l pl \<and> place_value pl m' = Some v)"
  using assms(1-4)
proof (induction "n - i" arbitrary: i m \<sigma> es)
  case 0
  then have "erase_indices a i n = mem_return ()" "{i..<n} = {}" by (auto simp: erase_indices.simps)
  then show ?case using 0 put_look [OF 0(3)] by (simp add: mem_return_def runsI [of _ _ "()" m])
next
  case (Suc k)
  let ?es = "filter (\<lambda>E. fst E \<noteq> IndexKey i) es"
  have step: "erase_indices a i n = mem_bind (erase_key (Index i) a) (\<lambda>_. erase_indices a (Suc i) n)"
    using Suc.hyps(2) by (subst erase_indices.simps) auto
  have "{i..<n} = insert i {Suc i..<n}" using Suc(2) by auto
  then have es: "filter (\<lambda>E. fst E \<notin> IndexKey ` {i..<n}) es = filter (\<lambda>E. fst E \<notin> IndexKey ` {Suc i..<n}) ?es"
    by (auto intro!: filter_cong)
  have "runs (mem_bind (erase_key (Index i) a) (\<lambda>_. erase_indices a (Suc i) n)) m
    (bind_result (Inr (put l (TMap True ?es) \<sigma>)) (\<lambda>s. Inr (put l (TMap True (filter (\<lambda>E. fst E \<notin> IndexKey ` {Suc i..<n}) ?es)) s))) (dom \<sigma>)
    (\<lambda>\<sigma>' _ m'. represents m' \<sigma>' \<and> refers m' \<sigma>' l pl \<and> place_value pl m' = Some v)"
  proof (rule runs_bind [OF erase_key_runs [OF Suc.prems(1-3) _ reads_index Suc.prems(4) assms(5)]])
    fix s z m1
    assume "Inr (put l (TMap True ?es) \<sigma>) = (Inr s :: store result)" and *: "represents m1 s \<and> refers m1 s l pl \<and> place_value pl m1 = Some v"
    then have s: "s = put l (TMap True ?es) \<sigma>" by simp
    have "dom s = dom \<sigma>" "look l s = TMap True ?es" using dom_put [OF Suc.prems(2)] look_of_put [OF Suc.prems(2)] by (simp_all add: s)
    then show "runs (erase_indices a (Suc i) n) m1 (Inr (put l (TMap True (filter (\<lambda>E. fst E \<notin> IndexKey ` {Suc i..<n}) ?es)) s)) (dom \<sigma>)
        (\<lambda>\<sigma>' _ m'. represents m' \<sigma>' \<and> refers m' \<sigma>' l pl \<and> place_value pl m' = Some v)"
      using Suc.hyps(1) [of "Suc i" m1 s ?es] Suc.hyps(2) * by simp
  qed simp
  then show ?case unfolding step es by (simp add: put_twice [OF Suc.prems(2)])
qed

lemma mem_bind_step: "f m = Some (Inr x, m') \<Longrightarrow> mem_bind f g m = g x m'"
  by simp

lemma resize_array_runs:
  assumes r: "represents m \<sigma>" and l: "refers m \<sigma> l pl" and u: "look l \<sigma> = TMap True es" and v: "place_value pl m = Some v"
  shows "runs (resize_array n pl v) m
    (bind_result (tree_resize n (TMap True es)) (\<lambda>t. Inr (put l t \<sigma>))) (dom \<sigma>) (\<lambda>\<sigma>' _ m'. represents m' \<sigma>')"
  supply tree_size.simps [simp del]
proof -
  let ?k = "tree_size (TMap True es)"
  from r [unfolded represents_def] l obtain A v' B where f: "focus m \<sigma> A {} (fst l) (keys l) pl v' (look l \<sigma>) B" by (rule refers_focus)
  have o: "owns (cells m) v (TMap True es) B" using focusD(2,3) [OF f] v u by simp
  then obtain a where a: "value_payload v = P_map a" by auto
  define check where "check = mem_bind (size_of v) (\<lambda>k. if k = n then mem_return () else mem_throw (Thrown (LogicError ''assert json failed'')))"
  have run: "runs (resize_array n pl v) m = runs
      (if n = 0 then clear_place pl
       else if n > ?k then mem_bind (subscript (At (n - 1)) pl) (\<lambda>_. mem_return ())
       else mem_bind (erase_indices a n ?k) (\<lambda>_. check)) m"
    unfolding resize_array_def check_def by (rule runs_eq) (simp only: mem_bind_step [of "size_of v", OF size_of_run [OF o]] a payload.case)
  consider "n = 0" | "n > ?k" "n \<noteq> 0" | "n \<le> ?k" "n \<noteq> 0" by linarith
  then show ?thesis
  proof cases
    case 1
    then show ?thesis using clear_runs [OF r l] unfolding run by (simp add: u tree_resize_def)
  next
    case 2
    have x: "\<sigma> (fst l) \<noteq> None" "subtree (the (\<sigma> (fst l))) (keys l) = Some (TMap True es)" "reach m (fst l) (keys l) = Some pl"
      using l u by (auto simp: refers_def)
    have "runs (subscript (At (n - 1)) pl) m (bind_result (tree_subscript (At (n - 1)) (TMap True es)) (\<lambda>t. Inr (put l t \<sigma>))) (dom \<sigma>)
        (\<lambda>\<sigma>' _ m'. represents m' \<sigma>')"
      by (rule runs_map [OF subscript_runs [OF r x]]) (simp add: put_store_at)
    then show ?thesis using 2 unfolding run by (simp add: tree_resize_def runs_then_return)
  next
    case 3
    let ?t = "TMap True (filter (\<lambda>E. fst E \<notin> IndexKey ` {n..<?k}) es)"
    have "runs (mem_bind (erase_indices a n ?k) (\<lambda>_. check)) m
        (bind_result (Inr (put l ?t \<sigma>)) (\<lambda>s. if tree_size ?t = n then Inr s else Inl (LogicError ''assert json failed''))) (dom \<sigma>)
        (\<lambda>\<sigma>' _ m'. represents m' \<sigma>')"
    proof (rule runs_bind [OF erase_indices_runs [OF r l u v a]])
      fix s z m1
      assume "Inr (put l ?t \<sigma>) = (Inr s :: store result)" and *: "represents m1 s \<and> refers m1 s l pl \<and> place_value pl m1 = Some v"
      then have "s = put l ?t \<sigma>" by simp
      then have s: "dom s = dom \<sigma>" "look l s = ?t" by (simp_all only: dom_put [OF l] look_of_put [OF l])
      from * obtain A v' B where f: "focus m1 s A {} (fst l) (keys l) pl v' (look l s) B" by (metis refers_focus represents_def)
      have o: "owns (cells m1) v ?t B" using focusD(2,3) [OF f] * s(2) by simp
      show "runs check m1
          (if tree_size ?t = n then Inr s else Inl (LogicError ''assert json failed'')) (dom \<sigma>) (\<lambda>\<sigma>' _ m'. represents m' \<sigma>')"
        using * s(1) by (auto simp: check_def runs_def size_of_run [OF o] mem_return_def mem_throw_def)
    qed
    then show ?thesis using 3 a unfolding run by (simp add: tree_resize_def Let_def if_distrib [of "\<lambda>r. bind_result r _"] cong: if_cong)
  qed
qed

lemma resize_runs:
  assumes r: "represents m \<sigma>" and l: "refers m \<sigma> l pl"
  shows "runs (resize_place n pl) m (bind_result (tree_resize n (look l \<sigma>)) (\<lambda>t. Inr (put l t \<sigma>))) (dom \<sigma>) (\<lambda>\<sigma>' _ m'. represents m' \<sigma>')"
proof -
  from r [unfolded represents_def] l obtain A v B where f: "focus m \<sigma> A {} (fst l) (keys l) pl v (look l \<sigma>) B" by (rule refers_focus)
  note d = focusD [OF f]
  have x: "\<sigma> (fst l) \<noteq> None" "subtree (the (\<sigma> (fst l))) (keys l) = Some (look l \<sigma>)" "reach m (fst l) (keys l) = Some pl"
    using l by (auto simp: refers_def)
  consider (null) "look l \<sigma> = TNull" | (array) es where "look l \<sigma> = TMap True es" | (other) "look l \<sigma> \<noteq> TNull" "\<nexists>es. look l \<sigma> = TMap True es" by blast
  then show ?thesis
  proof cases
    case null
    have run: "runs (resize_place n pl) m = runs (mem_bind (become arrayType pl v) (resize_array n pl)) m"
      using owns_null [OF d(3)] null by (intro runs_eq) (simp add: resize_place_def read_place_run [OF d(2)])
    have b: "runs (become arrayType pl v) m (Inr (TMap True [])) (dom \<sigma>)
        (\<lambda>u w m'. represents m' (store_at \<sigma> (fst l) (keys l) u) \<and> later m m' \<and> place_value pl m' = Some w)"
      using become_runs [OF r x(1) _ x(3) d(2), of True] x(2) null by simp
    have "runs (mem_bind (become arrayType pl v) (resize_array n pl)) m
      (bind_result (Inr (TMap True [])) (\<lambda>u. bind_result (tree_resize n u) (\<lambda>t. Inr (put l t \<sigma>)))) (dom \<sigma>) (\<lambda>\<sigma>' _ m'. represents m' \<sigma>')"
    proof (rule runs_bind [OF b])
      fix s w m1
      assume "Inr (TMap True []) = (Inr s :: Tree result)" "represents m1 (store_at \<sigma> (fst l) (keys l) s) \<and> later m m1 \<and> place_value pl m1 = Some w"
      then have m1: "represents m1 (put l (TMap True []) \<sigma>)" "later m m1" "place_value pl m1 = Some w" "s = TMap True []" by (auto simp: put_store_at)
      have l1: "refers m1 (put l (TMap True []) \<sigma>) l pl" using m1(1,2) dom_put [OF l] by (intro refers_later [OF l]) (auto simp: represents_def)
      from resize_array_runs [OF m1(1) l1 look_of_put [OF l] m1(3), of n]
      show "runs (resize_array n pl w) m1 (bind_result (tree_resize n s) (\<lambda>t. Inr (put l t \<sigma>))) (dom \<sigma>) (\<lambda>\<sigma>' _ m'. represents m' \<sigma>')"
        by (simp only: m1(4) put_twice [OF l] dom_put [OF l])
    qed
    moreover have "tree_resize n (look l \<sigma>) = tree_resize n (TMap True [])" by (simp add: null tree_resize_def)
    ultimately show ?thesis unfolding run by simp
  next
    case (array es)
    have "value_type v = arrayType" using d(3) array by auto
    then have eq: "resize_place n pl m = resize_array n pl v m" by (simp add: resize_place_def read_place_run [OF d(2)] become_def)
    show ?thesis unfolding array runs_eq [of "resize_place n pl" m "resize_array n pl v", OF eq]
      by (intro resize_array_runs r l array d(2))
  next
    case other
    then have "value_type v \<noteq> nullType" "value_type v \<noteq> arrayType" using owns_null [OF d(3)] owns_map_type [OF d(3), of True] by auto
    then have "resize_place n pl m = Some (Inl (Thrown (LogicError ''in Json::Value::resize(): requires arrayValue'')), m)"
      by (simp add: resize_place_def read_place_run [OF d(2)] mem_throw_def)
    moreover have "tree_resize n (look l \<sigma>) = Inl (LogicError ''in Json::Value::resize(): requires arrayValue'')"
      using other by (cases "look l \<sigma>") (auto simp: tree_resize_def split: bool.splits)
    ultimately show ?thesis using r by (auto intro!: runs_throw)
  qed
qed

section \<open>Variables\<close>

text \<open>A temporary value becomes a new variable.\<close>

lemma declare_represents:
  assumes r: "represents_with m \<sigma> E" and v: "owns (cells m) v t E" and x: "\<sigma> x = None"
  shows "declare_variable x v m = Some (Inr (), m\<lparr>variables := (variables m)(x \<mapsto> v)\<rparr>)"
    "represents (m\<lparr>variables := (variables m)(x \<mapsto> v)\<rparr>) (\<sigma>(x \<mapsto> t))"
proof -
  show "declare_variable x v m = Some (Inr (), m\<lparr>variables := (variables m)(x \<mapsto> v)\<rparr>)"
    using represents_variable [OF r, of x] x by (simp add: declare_variable_def)
  from r obtain A where A: "owners m \<sigma> A E" by (auto simp: represents_with_def)
  have o: "others \<sigma> A x = (\<Union>y \<in> dom \<sigma>. A y)" using x by (auto simp: others_def)
  have "owners (m\<lparr>variables := (variables m)(x \<mapsto> v)\<rparr>) (\<sigma>(x \<mapsto> t)) (A(x := E)) {}"
    by (rule owners_update [OF A]) (use A v in \<open>auto simp: o owners_def fresh_def\<close>)
  then show "represents (m\<lparr>variables := (variables m)(x \<mapsto> v)\<rparr>) (\<sigma>(x \<mapsto> t))" by (auto simp: represents_def represents_with_def)
qed

text \<open>A variable is destroyed.\<close>

lemma destroy_run:
  assumes r: "represents m \<sigma>" and x: "\<sigma> x = Some t"
  shows "\<exists>m'. exec (Destroy x) m = Some (Inr (), m') \<and> represents m' (\<sigma>(x := None)) \<and> out_of_memory m' = out_of_memory m"
proof -
  from r obtain A where A: "owners m \<sigma> A {}" by (auto simp: represents_def represents_with_def)
  obtain v where v: "variables m x = Some v" "owns (cells m) v t (A x)" using owners_variable [OF A x] by blast
  define m1 where "m1 = m\<lparr>cells := cells m |` (- A x), variables := (variables m)(x := None)\<rparr>"
  have fm: "fresh m" using A by (simp add: owners_def)
  have pv: "place_value (Variable x) m = Some v" using v by (simp add: place_value_def)
  have run: "exec (Destroy x) m = Some (Inr (), m1)"
    using destroy_value_run [OF v(2) fm] by (simp add: read_place_run [OF pv] drop_variable_def m1_def)
  have d: "A x \<inter> A y = {}" if "\<sigma> y \<noteq> None" "y \<noteq> x" for y using A x that unfolding owners_def by blast
  have "owns (cells m1) v' t' (A y)" if "variables m y = Some v'" "\<sigma> y = Some t'" "y \<noteq> x" for y v' t'
  proof (rule owns_frame(1))
    show "owns (cells m) v' t' (A y)" using A that by (auto simp: owners_def)
  qed (use d [of y] that in \<open>auto simp: m1_def restrict_map_def\<close>)
  moreover have "dom (cells m) = (\<Union>y \<in> dom \<sigma>. A y)" using A by (simp add: owners_def)
  then have "dom (cells m1) = (\<Union>y \<in> dom (\<sigma>(x := None)). A y)" using d by (auto simp: m1_def)
  ultimately have "owners m1 (\<sigma>(x := None)) A {}"
    using A fm by (auto simp: owners_def m1_def fresh_def restrict_map_def split: if_splits)
  then show ?thesis using run by (auto simp: m1_def represents_def represents_with_def)
qed

end
