(* ===== verification/Json_Memory_Safety.thy ===== *)
theory Json_Memory_Safety
  imports Json_Memory_Operations
begin

text \<open>
  Programs on values in memory implement the programs on trees: they never read or release what they do not own, whatever
  allocation fails, and when all variables are destroyed no block is left. Where the rules that a program has to keep
  matter, examples show what goes wrong without them.
\<close>

section \<open>Commands\<close>

lemma runsE:
  assumes "runs f m r X Q"
  obtains (ok) x m' s where "f m = Some (Inr x, m')" "r = Inr s" "out_of_memory m' = out_of_memory m" "Q s x m'"
  | (fails) e m' \<sigma>' where "f m = Some (Inl e, m')" "allocation_failure m e \<or> (\<exists>y. e = Thrown y \<and> r = Inl y)"
      "out_of_memory m' = out_of_memory m" "dom \<sigma>' = X" "represents m' \<sigma>'"
  using assms unfolding runs_def by blast

lemma make_variable:
  assumes "makes f m (\<lambda>c v. owns c v t)" "represents m \<sigma>" "\<sigma> x = None" "X = dom \<sigma>"
  shows "runs (mem_bind f (declare_variable x)) m (Inr (\<sigma>(x \<mapsto> t))) X (\<lambda>\<sigma>' _ m'. represents m' \<sigma>')"
  using assms(1)
proof (cases rule: makesE)
  case (failed e m')
  then show ?thesis using represents_failed [OF assms(2) failed(3)] assms(4) by (intro runs_failI) (auto simp: grown_def)
next
  case (made v m1 B)
  have r: "represents_with m1 \<sigma> B" using owns_dom(1) [OF made(3)] by (intro represents_made [OF assms(2) made(2)]) simp
  note d = declare_represents [OF r made(3) assms(3)]
  show ?thesis using made(1,2) d by (intro runsI) (auto simp: grown_def)
qed

lemma strlen_outside: "strlen (Outside s) c = Some (length (c_text s))"
proof -
  have "find_char NUL (s @ [NUL]) = Some (length (takeWhile (\<lambda>x. x \<noteq> NUL) s))" by (induction s) auto
  then show ?thesis by (simp add: strlen_def pointer_bytes_def c_text_def)
qed

lemma Value_of_chars_makes:
  assumes "fresh m" "n \<le> length s" "chars_tree s n = Inr t"
  shows "makes (Value_of_chars s n) m (\<lambda>c v. owns c v t)"
proof -
  define k where "k = n mod 2 ^ 32"
  have k: "k \<le> length s" "k \<le> maxInt - 5" "t = TString (take k s)"
    using assms(2,3) le_trans [OF mod_less_eq_dividend assms(2)] by (auto simp: chars_tree_def k_def split: if_splits)
  have "makes (duplicateAndPrefixStringValue (Outside s) 0 k) m
      (\<lambda>c a B. c a = Some (Chars (unsigned_bytes (length (take k s)) @ take k s @ [NUL])) \<and> B = {a})"
    using k assms(1) by (intro duplicate_prefixed_makes) (auto simp: read_bytes_def pointer_bytes_def)
  then show ?thesis
    unfolding Value_of_chars_def k_def [symmetric] using k by (elim makes_wrap) (auto simp: initBasic_def)
qed

lemma construct_makes: "initial_tree i = Inr t \<Longrightarrow> fresh m \<Longrightarrow> makes (construct i) m (\<lambda>c v. owns c v t)"
proof (cases i)
  case (OfType type)
  assume t: "initial_tree i = Inr t" "fresh m"
  show ?thesis
  proof (cases "type = arrayType \<or> type = objectType")
    case True
    then show ?thesis using t OfType Value_of_map_makes [of m True] Value_of_map_makes [of m False] by auto
  next
    case False
    then show ?thesis using t OfType
      by (cases type) (auto simp: Value_of_type_def Let_def initBasic_def c_text_def intro!: makes_return)
  qed
next
  case (OfCString s)
  assume t: "initial_tree i = Inr t" "fresh m"
  have "length (c_text s) \<le> length s" by (simp add: c_text_def length_takeWhile_le)
  then show ?thesis using t OfCString Value_of_chars_makes [of m "length (c_text s)" s t]
    by (auto simp: Value_of_c_str_def strlen_outside intro!: makes_read)
qed (auto simp: Value_of_int_def Value_of_uint_def Value_of_real_def Value_of_bool_def Value_of_StaticString_def Value_of_String_def
  initBasic_def intro!: makes_return Value_of_chars_makes)

lemma Value_of_chars_throws: "chars_tree s n = Inl e \<Longrightarrow> Value_of_chars s n m = Some (Inl (Thrown e), m)"
  by (auto simp: chars_tree_def Value_of_chars_def duplicateAndPrefixStringValue_def mem_throw_def split: if_splits)

lemma construct_throws: "initial_tree i = Inl e \<Longrightarrow> construct i m = Some (Inl (Thrown e), m)"
  by (cases i) (auto simp: Value_of_String_def Value_of_c_str_def mem_read_run strlen_outside Value_of_chars_throws)

lemma construct_runs:
  assumes "represents m \<sigma>" "\<sigma> x = None"
  shows "runs (exec (Construct x i)) m (spec (Construct x i) \<sigma>) (dom \<sigma>) (\<lambda>\<sigma>' _ m'. represents m' \<sigma>')"
proof (cases "initial_tree i")
  case (Inl e)
  then show ?thesis using assms construct_throws [OF Inl, of m] by (auto intro!: runs_throw)
next
  case (Inr t)
  have "fresh m" using represents_fresh assms(1) by (auto simp: represents_def)
  then show ?thesis using Inr make_variable [OF construct_makes [OF Inr] assms refl] by simp
qed

lemma copy_construct_runs:
  assumes "represents m \<sigma>" "\<sigma> x = None" "\<sigma> (fst r) \<noteq> None"
  shows "runs (exec (CopyConstruct x r)) m (spec (CopyConstruct x r) \<sigma>) (dom \<sigma>) (\<lambda>\<sigma>' _ m'. represents m' \<sigma>')"
  unfolding exec.simps spec.simps
proof (rule runs_bind [OF lvalue_runs [OF assms(1,3)]])
  fix s pr m1
  assume *: "represents m1 s \<and> dom s = dom \<sigma> \<and> later m m1 \<and> refers m1 s r pr"
  then have s: "represents m1 s" "s x = None" "dom \<sigma> = dom s" using assms(2) by (auto simp: domIff [symmetric])
  from * obtain A v B where f: "focus m1 s A {} (fst r) (keys r) pr v (look r s) B" by (metis refers_focus represents_def)
  have "fresh m1" using represents_fresh s(1) by (auto simp: represents_def)
  from make_variable [OF copy_value_makes [OF focusD(3) [OF f] this] s]
  show "runs (mem_bind (read_place pr) (\<lambda>v. mem_bind (copy_value v) (declare_variable x))) m1 (Inr (s(x \<mapsto> look r s))) (dom \<sigma>) (\<lambda>\<sigma>' _ m'. represents m' \<sigma>')"
    by (simp add: runs_def read_place_run [OF focusD(2) [OF f]])
qed

lemma swap_never_throws: "swap_places pl pr m \<noteq> Some (Inl e, m')"
  by (auto simp: swap_places_def mem_bind_def read_place_def write_place_def split: option.splits place.splits sum.splits if_splits prod.splits)

lemma later_declare: "declare_variable x v m = Some (Inr (), m') \<Longrightarrow> later m m'"
  by (auto simp: declare_variable_def later_def place_value_def split: place.splits if_splits)

lemma move_construct_runs:
  assumes "represents m \<sigma>" "\<sigma> x = None" "\<sigma> (fst r) \<noteq> None"
  shows "runs (exec (MoveConstruct x r)) m (spec (MoveConstruct x r) \<sigma>) (dom \<sigma>) (\<lambda>\<sigma>' _ m'. represents m' \<sigma>')"
  unfolding exec.simps spec.simps
proof (rule runs_bind [OF lvalue_runs [OF assms(1,3)]])
  fix s pr m1
  assume "represents m1 s \<and> dom s = dom \<sigma> \<and> later m m1 \<and> refers m1 s r pr"
  then have s: "represents m1 s" "s x = None" "refers m1 s r pr" using assms(2) by (auto simp: domIff [symmetric])
  let ?m = "m1\<lparr>variables := (variables m1)(x \<mapsto> null_value)\<rparr>" and ?s = "s(x \<mapsto> TNull)" and ?l = "(x, []) :: lvalue"
  have "owns (cells m1) null_value TNull {}" by (simp add: initBasic_def)
  note d = declare_represents [OF s(1) [unfolded represents_def] this s(2)]
  have ne: "fst r \<noteq> x" using s by (auto simp: refers_def)
  have "reach ?m (fst r) (keys r) = Some pr" using s(3) by (intro reach_later [OF _ later_declare [OF d(1)]]) (simp add: refers_def)
  then have rr: "refers ?m ?s r pr"
    using s(3) ne d(2) by (intro refersI [where E = "{}"]) (auto simp: represents_def refers_def)
  have rl: "refers ?m ?s ?l (Variable x)"
    using d(2) by (intro refersI [where E = "{}"]) (auto simp: represents_def keys_def reach_def)
  have e: "put r (look ?l ?s) (put ?l (look r ?s) ?s) = (put r TNull s)(x \<mapsto> look r s)"
    using ne by (simp add: put_def look_def keys_def [of ?l] fun_upd_twist)
  have "runs (swap_places (Variable x) pr) ?m (Inr (put r (look ?l ?s) (put ?l (look r ?s) ?s))) (dom ?s)
      (\<lambda>\<sigma>' _ m'. represents m' \<sigma>' \<and> reach m' (fst r) (keys r) = Some pr)"
    using ne by (intro swap_runs d(2) rl rr) auto
  then obtain z m2 where "swap_places (Variable x) pr ?m = Some (Inr z, m2)" "represents m2 ((put r TNull s)(x \<mapsto> look r s))"
      "out_of_memory m2 = out_of_memory m1"
    unfolding e by (auto simp: runs_def swap_never_throws)
  then show "runs (mem_bind (declare_variable x null_value) (\<lambda>_. swap_places (Variable x) pr)) m1 (Inr ((put r TNull s)(x \<mapsto> look r s))) (dom \<sigma>)
      (\<lambda>\<sigma>' _ m'. represents m' \<sigma>')"
    using d(1) by (intro runsI) auto
qed

text \<open>Operations on two places.\<close>

lemma two_places_runs:
  assumes r: "represents m \<sigma>" and x: "\<sigma> (fst l) \<noteq> None" "\<sigma> (fst r) \<noteq> None"
    and f: "\<And>m s pl pr. represents m s \<Longrightarrow> dom s = dom \<sigma> \<Longrightarrow> refers m s l pl \<Longrightarrow> refers m s r pr \<Longrightarrow> runs (f pl pr) m (g s) (dom s) Q"
  shows "runs (mem_bind (lvalue_place l) (\<lambda>pl. mem_bind (lvalue_place r) (f pl))) m
    (bind_result (resolve_lvalue l \<sigma>) (\<lambda>\<sigma>. bind_result (resolve_lvalue r \<sigma>) g)) (dom \<sigma>) Q"
proof (rule runs_bind [OF lvalue_runs [OF r x(1)]])
  fix s1 pl m1
  assume 1: "represents m1 s1 \<and> dom s1 = dom \<sigma> \<and> later m m1 \<and> refers m1 s1 l pl"
  then have y: "s1 (fst r) \<noteq> None" "represents m1 s1" using x(2) by (auto simp: domIff [symmetric])
  have "runs (mem_bind (lvalue_place r) (f pl)) m1 (bind_result (resolve_lvalue r s1) g) (dom s1) Q"
  proof (rule runs_bind [OF lvalue_runs [OF y(2,1)]])
    fix s2 pr m2
    assume 2: "represents m2 s2 \<and> dom s2 = dom s1 \<and> later m1 m2 \<and> refers m2 s2 r pr"
    then have s2: "represents m2 s2" "refers m2 s2 r pr" "dom s2 = dom \<sigma>" "dom s1 = dom s2" "later m1 m2" using 1 by auto
    have r1: "refers m1 s1 l pl" using 1 by simp
    have "refers m2 s2 l pl" by (rule refers_later [OF r1 s2(5) s2(1) [unfolded represents_def] s2(4) [symmetric]])
    from f [OF s2(1,3) this s2(2)] show "runs (f pl pr) m2 (g s2) (dom s1) Q" unfolding s2(4) .
  qed
  then show "runs (mem_bind (lvalue_place r) (f pl)) m1 (bind_result (resolve_lvalue r s1) g) (dom \<sigma>) Q" using 1 by simp
qed

lemma one_place_runs:
  assumes r: "represents m \<sigma>" and x: "\<sigma> (fst l) \<noteq> None"
    and f: "\<And>m s pl. represents m s \<Longrightarrow> dom s = dom \<sigma> \<Longrightarrow> refers m s l pl \<Longrightarrow> runs (f pl) m (g s) (dom s) Q"
  shows "runs (mem_bind (lvalue_place l) f) m (bind_result (resolve_lvalue l \<sigma>) g) (dom \<sigma>) Q"
proof (rule runs_bind [OF lvalue_runs [OF r x]])
  fix s pl m1
  assume "represents m1 s \<and> dom s = dom \<sigma> \<and> later m m1 \<and> refers m1 s l pl"
  then show "runs (f pl) m1 (g s) (dom \<sigma>) Q" using f [of m1 s pl] by simp
qed

text \<open>
  The contracts of the operations that a command calls with the places of its expressions: they do to memory what they do to trees. The command
  then does it, too, with the exceptions of its expressions in their order.
\<close>

locale place_operation =
  fixes f :: "place \<Rightarrow> 'a mem" and g :: "lvalue \<Rightarrow> store \<Rightarrow> store result" and apart :: "lvalue \<Rightarrow> nat set \<Rightarrow> bool"
  assumes operation: "represents m \<sigma> \<Longrightarrow> apart l (dom \<sigma>) \<Longrightarrow> refers m \<sigma> l pl \<Longrightarrow> runs (f pl) m (g l \<sigma>) (dom \<sigma>) (\<lambda>\<sigma>' _ m'. represents m' \<sigma>')"
begin

lemma command:
  assumes "represents m \<sigma>" "\<sigma> (fst l) \<noteq> None" "apart l (dom \<sigma>)"
  shows "runs (mem_bind (lvalue_place l) f) m (bind_result (resolve_lvalue l \<sigma>) (g l)) (dom \<sigma>) (\<lambda>\<sigma>' _ m'. represents m' \<sigma>')"
  by (rule one_place_runs [OF assms(1,2)], rule operation) (use assms(3) in simp_all)

end

locale two_place_operation =
  fixes f :: "place \<Rightarrow> place \<Rightarrow> 'a mem" and g :: "lvalue \<Rightarrow> lvalue \<Rightarrow> store \<Rightarrow> store result" and apart :: "lvalue \<Rightarrow> lvalue \<Rightarrow> bool"
  assumes operation: "represents m \<sigma> \<Longrightarrow> apart l r \<Longrightarrow> refers m \<sigma> l pl \<Longrightarrow> refers m \<sigma> r pr \<Longrightarrow>
    runs (f pl pr) m (g l r \<sigma>) (dom \<sigma>) (\<lambda>\<sigma>' _ m'. represents m' \<sigma>')"
begin

lemma command:
  assumes "represents m \<sigma>" "\<sigma> (fst l) \<noteq> None" "\<sigma> (fst r) \<noteq> None" "apart l r"
  shows "runs (mem_bind (lvalue_place l) (\<lambda>pl. mem_bind (lvalue_place r) (f pl))) m
    (bind_result (resolve_lvalue l \<sigma>) (\<lambda>\<sigma>. bind_result (resolve_lvalue r \<sigma>) (g l r))) (dom \<sigma>) (\<lambda>\<sigma>' _ m'. represents m' \<sigma>')"
  by (rule two_places_runs [OF assms(1-3)], rule operation) (use assms(4) in simp_all)

end

interpretation assigning: two_place_operation assign_place "\<lambda>l r \<sigma>. Inr (put l (look r \<sigma>) \<sigma>)" "\<lambda>l r. True"
  by unfold_locales (rule assign_runs)

interpretation swapping: two_place_operation swap_places "\<lambda>l r \<sigma>. Inr (put r (look l \<sigma>) (put l (look r \<sigma>) \<sigma>))" "\<lambda>l r. fst l \<noteq> fst r"
  by unfold_locales (rule runs_weaken, rule swap_runs, simp_all)

interpretation appending: two_place_operation append_place
  "\<lambda>l r \<sigma>. let acc = At (tree_size (look l \<sigma>))
     in bind_result (tree_subscript acc (look l \<sigma>)) (\<lambda>t. let \<sigma> = put l t \<sigma> in Inr (put (fst l, snd l @ [acc]) (look r \<sigma>) \<sigma>))" "\<lambda>l r. True"
  by unfold_locales (rule append_runs)

interpretation appending_moved: two_place_operation append_move
  "\<lambda>l r \<sigma>. let acc = At (tree_size (look l \<sigma>)); l' = (fst l, snd l @ [acc])
     in bind_result (tree_subscript acc (look l \<sigma>)) (\<lambda>t. let \<sigma> = put l t \<sigma> in Inr (put r (look l' \<sigma>) (put l' (look r \<sigma>) \<sigma>)))"
  "\<lambda>l r. fst l \<noteq> fst r"
  by unfold_locales (rule append_move_runs)

interpretation clearing: place_operation clear_place
  "\<lambda>l \<sigma>. case look l \<sigma> of TNull \<Rightarrow> Inr \<sigma> | TMap b es \<Rightarrow> Inr (put l (TMap b []) \<sigma>)
     | _ \<Rightarrow> Inl (LogicError ''in Json::Value::clear(): requires complex value'')" "\<lambda>l X. True"
  by unfold_locales (rule clear_runs)

interpretation resizing: place_operation "resize_place n" "\<lambda>l \<sigma>. bind_result (tree_resize n (look l \<sigma>)) (\<lambda>t. Inr (put l t \<sigma>))" "\<lambda>l X. True" for n
  by unfold_locales (rule resize_runs)

interpretation removing: place_operation "remove_member s (map_option Variable removed)"
  "\<lambda>l \<sigma>. case look l \<sigma> of
       TMap False es \<Rightarrow>
         (case map_of es (key_named (Member s)) of
            None \<Rightarrow> Inr \<sigma>
          | Some u \<Rightarrow>
              let \<sigma> = put l (TMap False (filter (\<lambda>e. fst e \<noteq> key_named (Member s)) es)) \<sigma>
              in Inr (case removed of None \<Rightarrow> \<sigma> | Some y \<Rightarrow> \<sigma>(y \<mapsto> u)))
     | _ \<Rightarrow> Inr \<sigma>"
  "\<lambda>l X. case removed of None \<Rightarrow> True | Some y \<Rightarrow> y \<in> X \<and> y \<noteq> fst l" for s removed
  by unfold_locales (rule remove_member_runs, auto split: option.splits)

fun is_copy :: "command \<Rightarrow> bool" where
  "is_copy (Copy l r) = True"
| "is_copy c = False"

lemma exec_runs:
  assumes r: "represents m \<sigma>" and s: "scoped c \<sigma>" and n: "\<not> is_copy c"
  shows "runs (exec c) m (spec c \<sigma>) (dom \<sigma>) (\<lambda>\<sigma>' _ m'. represents m' \<sigma>')"
proof (cases c)
  case (Construct x i)
  then show ?thesis using construct_runs [OF r] s by simp
next
  case (CopyConstruct x l)
  then show ?thesis using copy_construct_runs [OF r] s by (simp del: exec.simps spec.simps)
next
  case (MoveConstruct x l)
  then show ?thesis using move_construct_runs [OF r] s by (simp del: exec.simps spec.simps)
next
  case (Destroy x)
  then show ?thesis using destroy_run [OF r] s by (fastforce simp del: exec.simps intro: runsI)
next
  case (Assign l l')
  then show ?thesis using assigning.command [OF r] s by (simp add: Assign)
next
  case (MoveAssign l l')
  then show ?thesis using swapping.command [OF r] s by (simp add: MoveAssign)
next
  case (Swap l l')
  then show ?thesis using swapping.command [OF r] s by (simp add: Swap)
next
  case (Append l l')
  then show ?thesis using appending.command [OF r] s by (simp add: Append)
next
  case (AppendMove l l')
  then show ?thesis using appending_moved.command [OF r] s by (simp add: AppendMove)
next
  case (RemoveMember l k removed)
  have a: "\<sigma> (fst l) \<noteq> None" "case removed of None \<Rightarrow> True | Some y \<Rightarrow> y \<in> dom \<sigma> \<and> y \<noteq> fst l"
    using s unfolding RemoveMember by (auto split: option.splits)
  have "runs (mem_bind (mem_bind (lvalue_place l) (remove_member k (map_option Variable removed))) (\<lambda>_. mem_return ())) m (spec c \<sigma>) (dom \<sigma>)
      (\<lambda>\<sigma>' _ m'. represents m' \<sigma>')"
    unfolding RemoveMember spec.simps by (rule runs_then_return [OF removing.command [OF r a]])
  then show ?thesis by (simp add: RemoveMember mem_bind_assoc del: spec.simps)
next
  case (Clear l)
  then show ?thesis using clearing.command [OF r] s by (simp add: Clear)
next
  case (Resize l n)
  then show ?thesis using resizing.command [OF r] s by (simp add: Resize)
qed (use n in auto)

lemma copy_exec:
  assumes r: "represents m \<sigma>" and s: "scoped (Copy l l') \<sigma>"
  obtains (copied) m' \<sigma>' where "exec (Copy l l') m = Some (Inr (), m')" "spec (Copy l l') \<sigma> = Inr \<sigma>'" "represents m' \<sigma>'" "out_of_memory m' = out_of_memory m"
  | (failed) e m' where "exec (Copy l l') m = Some (Inl e, m')" "allocation_failure m e \<or> (\<exists>y. e = Thrown y \<and> spec (Copy l l') \<sigma> = Inl y)"
      "out_of_memory m' = out_of_memory m"
proof -
  have "runs (mem_bind (lvalue_place l) (\<lambda>pl. mem_bind (lvalue_place l') (\<lambda>pr. mem_return (pl, pr)))) m
    (bind_result (resolve_lvalue l \<sigma>) (\<lambda>\<sigma>. bind_result (resolve_lvalue l' \<sigma>) Inr)) (dom \<sigma>)
    (\<lambda>\<sigma>' p m'. represents m' \<sigma>' \<and> refers m' \<sigma>' l (fst p) \<and> refers m' \<sigma>' l' (snd p))"
    using s by (intro two_places_runs r) (auto simp: mem_return_def intro!: runsI)
  then show thesis
  proof (cases rule: runsE)
    case (ok p m1 s1)
    then have *: "mem_bind (lvalue_place l) (\<lambda>pl. mem_bind (lvalue_place l') (\<lambda>pr. mem_return (pl, pr))) m = Some (Inr p, m1)"
      "bind_result (resolve_lvalue l \<sigma>) (\<lambda>\<sigma>. bind_result (resolve_lvalue l' \<sigma>) Inr) = Inr s1" "out_of_memory m1 = out_of_memory m"
      "represents m1 s1" "refers m1 s1 l (fst p)" "refers m1 s1 l' (snd p)" by auto
    have "mem_bind (mem_bind (lvalue_place l) (\<lambda>pl. mem_bind (lvalue_place l') (\<lambda>pr. mem_return (pl, pr)))) (\<lambda>p. copyPayload (fst p) (snd p)) m
        = copyPayload (fst p) (snd p) m1" using *(1) by simp
    then have run: "exec (Copy l l') m = copyPayload (fst p) (snd p) m1" by (simp add: mem_bind_assoc)
    have sp: "spec (Copy l l') \<sigma> = Inr (put l (look l' s1) s1)" using *(2) by (auto simp: bind_result_Inr_iff)
    have ne: "fst l \<noteq> fst l'" using s by simp
    show thesis using *(4-6) ne
    proof (cases rule: copyPayload_run)
      case (copied m')
      then show ?thesis using that(1) run sp *(3) by auto
    next
      case (failed e m')
      then show ?thesis using that(2) run *(3) by (auto simp: allocation_failure_def)
    qed
  next
    case (fails e m1 s1)
    then have *: "mem_bind (lvalue_place l) (\<lambda>pl. mem_bind (lvalue_place l') (\<lambda>pr. mem_return (pl, pr))) m = Some (Inl e, m1)"
      "allocation_failure m e \<or> (\<exists>y. e = Thrown y \<and> bind_result (resolve_lvalue l \<sigma>) (\<lambda>\<sigma>. bind_result (resolve_lvalue l' \<sigma>) Inr) = Inl y)"
      "out_of_memory m1 = out_of_memory m" by auto
    have "mem_bind (mem_bind (lvalue_place l) (\<lambda>pl. mem_bind (lvalue_place l') (\<lambda>pr. mem_return (pl, pr)))) (\<lambda>p. copyPayload (fst p) (snd p)) m
        = Some (Inl e, m1)" using *(1) by simp
    then have run: "exec (Copy l l') m = Some (Inl e, m1)" by (simp add: mem_bind_assoc)
    have "spec (Copy l l') \<sigma> = Inl y" if "bind_result (resolve_lvalue l \<sigma>) (\<lambda>\<sigma>. bind_result (resolve_lvalue l' \<sigma>) Inr) = Inl y" for y
      using that by (cases "resolve_lvalue l \<sigma>") (auto simp: bind_result_def split: sum.splits)
    then show thesis using that(2) run * by blast
  qed
qed

section \<open>Programs\<close>

text \<open>What evaluates the programs on trees, and those in memory.\<close>

lemmas spec_defs = resolve_lvalue_def look_def put_def keys_def tree_subscript_def chars_tree_def key_named_def maxInt_def Let_def

lemmas memory_defs = mem_bind_def mem_return_def mem_throw_def mem_fault_def mem_cleanup_def mem_read_def allocate_def allocate_node_def free_def
  read_entries_def delete_map_def write_entries_def maxInt_def pointer_bytes_def read_bytes_def strlen_def unsigned_bytes_def unsigned_at_def
  duplicateStringValue_def duplicateAndPrefixStringValue_def decodePrefixedString_def release_pointer_def CZString_text_def CZString_copy_def
  CZString_destroy_def key_less_mem_def key_equal_mem_def initBasic_def Value_of_type_def Value_of_int_def Value_of_chars_def Value_of_String_def
  releasePayload.simps dupPayload.simps key_of_def slot_value_def place_value_def read_place_def write_place_def access_key_def key_named_def
  access_type_def found_at_def insert_null_def become_def find_or_insert_def subscript_def copy_value_def destroy_value_def swap_places_def
  assign_place_def copyPayload_def size_of_def append_place_def erase_node_def remove_member_def clear_place_def lvalue_place_def
  declare_variable_def drop_variable_def empty_memory_def Let_def

lemma exec_outcome:
  assumes "represents m \<sigma>" "scoped c \<sigma>"
  obtains (ok) m' \<sigma>' where "exec c m = Some (Inr (), m')" "spec c \<sigma> = Inr \<sigma>'" "represents m' \<sigma>'" "out_of_memory m' = out_of_memory m"
  | (fails) e m' where "exec c m = Some (Inl e, m')" "allocation_failure m e \<or> (\<exists>y. e = Thrown y \<and> spec c \<sigma> = Inl y)"
      "out_of_memory m' = out_of_memory m" "\<not> is_copy c \<longrightarrow> (\<exists>\<sigma>'. dom \<sigma>' = dom \<sigma> \<and> represents m' \<sigma>')"
proof (cases "is_copy c")
  case True
  then obtain l r where c: "c = Copy l r" by (cases c) auto
  show ?thesis using assms unfolding c by (rule copy_exec) (use that c True in auto)
next
  case False
  show ?thesis using exec_runs [OF assms False] by (rule runsE) (use that in auto)
qed

lemma exec_all_outcome:
  assumes "represents m \<sigma>" "scoped_all cs \<sigma>"
  obtains (ok) m' \<sigma>' where "exec_all cs m = Some (Inr (), m')" "spec_all cs \<sigma> = Inr \<sigma>'" "represents m' \<sigma>'" "out_of_memory m' = out_of_memory m"
  | (fails) e m' where "exec_all cs m = Some (Inl e, m')" "allocation_failure m e \<or> (\<exists>y. e = Thrown y \<and> spec_all cs \<sigma> = Inl y)"
      "out_of_memory m' = out_of_memory m" "list_all (\<lambda>c. \<not> is_copy c) cs \<longrightarrow> (\<exists>\<sigma>'. represents m' \<sigma>')"
  using assms
proof (induction cs arbitrary: m \<sigma> thesis)
  case Nil
  then show ?case by (auto simp: mem_return_def)
next
  case (Cons c cs)
  from Cons.prems(4) have s: "scoped c \<sigma>" by simp
  from Cons.prems(3) s show ?case
  proof (cases rule: exec_outcome)
    case (ok m1 s1)
    then have s1: "scoped_all cs s1" using Cons.prems(4) by simp
    show ?thesis
    proof (rule Cons.IH [OF _ _ ok(3) s1])
      fix m2 s2 assume "exec_all cs m1 = Some (Inr (), m2)" "spec_all cs s1 = Inr s2" "represents m2 s2" "out_of_memory m2 = out_of_memory m1"
      then show ?thesis using Cons.prems(1) ok by auto
    next
      fix e m2 assume "exec_all cs m1 = Some (Inl e, m2)" "allocation_failure m1 e \<or> (\<exists>y. e = Thrown y \<and> spec_all cs s1 = Inl y)"
        "out_of_memory m2 = out_of_memory m1" "list_all (\<lambda>c. \<not> is_copy c) cs \<longrightarrow> (\<exists>\<sigma>'. represents m2 \<sigma>')"
      then show ?thesis using Cons.prems(2) ok by (auto simp: allocation_failure_def)
    qed
  next
    case (fails e m1)
    show ?thesis by (rule Cons.prems(2) [of e m1]) (use fails in auto)
  qed
qed

lemma empty_represents: "represents (empty_memory oom) Map.empty"
proof -
  have "owners (empty_memory oom) Map.empty (\<lambda>_. {}) {}" by (simp add: owners_def empty_memory_def fresh_def)
  then show ?thesis by (auto simp: represents_def represents_with_def)
qed

text \<open>
  C7. Values in memory behave like trees. A program that keeps the rules of scope runs without reading, writing or releasing
  memory that it may not, whatever allocations fail. If it ends, every variable represents its tree, every block has exactly
  one owner, and the trees are those of the same program on trees. If it throws, then because memory has run out, or the
  program on trees throws the same.
\<close>

theorem memory_refines_trees:
  assumes "scoped_all cs Map.empty"
  shows "\<exists>r m. exec_all cs (empty_memory oom) = Some (r, m) \<and>
    (case r of
       Inr _ \<Rightarrow> \<exists>\<sigma>. spec_all cs Map.empty = Inr \<sigma> \<and> represents m \<sigma>
     | Inl e \<Rightarrow> allocation_failure m e \<or> (\<exists>x. e = Thrown x \<and> spec_all cs Map.empty = Inl x))"
  using empty_represents [of oom] assms by (cases rule: exec_all_outcome) (auto simp: allocation_failure_def)

theorem memory_refines_trees_witness:
  "let cs = [Construct 0 (OfType objectType), Construct 1 (OfString ''x''), Assign (0, [Member ''a'', At 2]) (1, []), Swap (1, []) (0, [Member ''a''])]
   in scoped_all cs Map.empty \<and>
      (\<exists>r m. exec_all cs (empty_memory (\<lambda>a. a = 9)) = Some (r, m) \<and>
        (case r of
           Inr _ \<Rightarrow> \<exists>\<sigma>. spec_all cs Map.empty = Inr \<sigma> \<and> represents m \<sigma>
         | Inl e \<Rightarrow> allocation_failure m e \<or> (\<exists>x. e = Thrown x \<and> spec_all cs Map.empty = Inl x)))"
  unfolding Let_def by (intro conjI memory_refines_trees) (simp_all add: spec_defs)

text \<open>All variables that are left are destroyed, as when an exception leaves their scope.\<close>

lemma destroy_all:
  assumes "represents m \<sigma>" "distinct xs" "set xs = dom \<sigma>"
  shows "\<exists>m'. exec_all (map Destroy xs) m = Some (Inr (), m') \<and> represents m' Map.empty"
  using assms
proof (induction xs arbitrary: m \<sigma>)
  case Nil
  then have "\<sigma> = Map.empty" by auto
  then show ?case using Nil by (auto simp: mem_return_def)
next
  case (Cons x xs)
  then obtain t where x: "\<sigma> x = Some t" by (metis domD list.set_intros(1))
  from destroy_run [OF Cons.prems(1) x] obtain m1 where m1: "exec (Destroy x) m = Some (Inr (), m1)" "represents m1 (\<sigma>(x := None))" by blast
  have "set xs = dom (\<sigma>(x := None))" using Cons.prems(2,3) by auto
  from Cons.IH [OF m1(2) _ this] show ?case using Cons.prems(2) m1(1) by (auto simp del: exec.simps)
qed

lemma finite_store:
  "finite (dom \<sigma>) \<Longrightarrow> finite (dom (put l u \<sigma>))"
  "resolve_lvalue l \<sigma> = Inr \<sigma>' \<Longrightarrow> finite (dom \<sigma>) \<Longrightarrow> finite (dom \<sigma>')"
  by (auto simp: put_def resolve_lvalue_def bind_result_Inr_iff)

lemma spec_finite: "spec c \<sigma> = Inr \<sigma>' \<Longrightarrow> finite (dom \<sigma>) \<Longrightarrow> finite (dom \<sigma>')"
proof (cases c)
  case (RemoveMember l k removed)
  assume c: "spec c \<sigma> = Inr \<sigma>'" and f: "finite (dom \<sigma>)"
  from c obtain s where "resolve_lvalue l \<sigma> = Inr s" and s: "spec c \<sigma> = (case look l s of
      TMap False es \<Rightarrow>
        (case map_of es (key_named (Member k)) of
           None \<Rightarrow> Inr s
         | Some u \<Rightarrow>
             let \<sigma> = put l (TMap False (filter (\<lambda>e. fst e \<noteq> key_named (Member k)) es)) s
             in Inr (case removed of None \<Rightarrow> \<sigma> | Some y \<Rightarrow> \<sigma>(y \<mapsto> u)))
    | _ \<Rightarrow> Inr s)" unfolding RemoveMember spec.simps by (auto simp: bind_result_Inr_iff)
  then have "finite (dom s)" using f finite_store by blast
  then show ?thesis using c unfolding s
    by (cases "look l s") (auto simp: Let_def finite_store split: bool.split_asm option.split_asm)
next
  case (Clear l)
  assume c: "spec c \<sigma> = Inr \<sigma>'" and f: "finite (dom \<sigma>)"
  from c obtain s where s: "resolve_lvalue l \<sigma> = Inr s" unfolding Clear spec.simps by (auto simp: bind_result_Inr_iff)
  then have "finite (dom s)" using f finite_store by blast
  then show ?thesis using c s by (cases "look l s") (auto simp: Clear finite_store)
qed (auto simp: bind_result_Inr_iff Let_def finite_store)

lemma exec_all_finite:
  assumes "represents m \<sigma>" "scoped_all cs \<sigma>" "finite (dom \<sigma>)" "exec_all cs m = Some (r, m')" "list_all (\<lambda>c. \<not> is_copy c) cs"
  shows "\<exists>\<sigma>'. represents m' \<sigma>' \<and> finite (dom \<sigma>')"
  using assms
proof (induction cs arbitrary: m \<sigma>)
  case Nil
  then show ?case by (auto simp: mem_return_def)
next
  case (Cons c cs)
  then have s: "scoped c \<sigma>" "\<not> is_copy c" by auto
  from Cons.prems(1) s(1) show ?case
  proof (cases rule: exec_outcome)
    case (ok m1 s1)
    then show ?thesis using Cons.IH [OF ok(3)] Cons.prems spec_finite [OF ok(2)] by auto
  next
    case (fails e m1)
    then show ?thesis using Cons.prems s(2) by auto
  qed
qed

text \<open>
  C8. No leaks: wherever a program without \<open>copy\<close> stops, at its end or by an exception, also for lack of memory in the middle of copying
  a value, the destructors of its variables run without a fault and leave no block behind.
\<close>

theorem memory_no_leaks:
  assumes "scoped_all cs Map.empty" "list_all (\<lambda>c. \<not> is_copy c) cs"
  shows "\<exists>r m xs m'. exec_all cs (empty_memory oom) = Some (r, m) \<and> distinct xs \<and> set xs = dom (variables m) \<and>
    exec_all (map Destroy xs) m = Some (Inr (), m') \<and> cells m' = Map.empty \<and> variables m' = Map.empty"
proof -
  obtain r m where run: "exec_all cs (empty_memory oom) = Some (r, m)"
    using empty_represents [of oom] assms(1) by (rule exec_all_outcome)
  from exec_all_finite [OF empty_represents assms(1) _ run assms(2)] obtain s where s: "represents m s" "finite (dom s)" by auto
  from finite_distinct_list [OF s(2)] obtain xs where xs: "set xs = dom s" "distinct xs" by blast
  from destroy_all [OF s(1) xs(2,1)] obtain m' where "exec_all (map Destroy xs) m = Some (Inr (), m')" "represents m' Map.empty" by blast
  moreover have "dom (variables m) = dom s" using s(1) by (auto simp: represents_def represents_with_def owners_def)
  moreover have "cells m' = Map.empty" "variables m' = Map.empty"
    using \<open>represents m' Map.empty\<close> by (auto simp: represents_def represents_with_def owners_def)
  ultimately show ?thesis using run xs by blast
qed

theorem memory_no_leaks_witness:
  "\<exists>r m xs m'. exec_all [Construct 0 (OfType objectType), Construct 1 (OfString ''x''), Assign (0, [Member ''a'', At 2]) (1, [])] (empty_memory (\<lambda>a. a = 9)) = Some (r, m)
    \<and> distinct xs \<and> set xs = dom (variables m) \<and> exec_all (map Destroy xs) m = Some (Inr (), m') \<and> cells m' = Map.empty \<and> variables m' = Map.empty"
  by (rule memory_no_leaks) (simp_all add: spec_defs)

section \<open>The values of the other theories\<close>

lemma members_tree_resolve: "members_tree (members_resolve k ms) = entries_resolve (StringKey k) (members_tree ms)"
  by (induction k ms rule: members_resolve.induct) auto

lemma members_tree_store: "members_tree (members_store k w ms) = entries_store (StringKey k) (value_tree w) (members_tree ms)"
  by (induction k w ms rule: members_store.induct) auto

lemma set_member_tree:
  assumes "set_member key w v = Inr v'"
  shows "\<exists>es. value_tree v' = TMap False (entries_store (StringKey key) (value_tree w) (entries_resolve (StringKey key) es))
    \<and> (v = nullValue \<and> es = [] \<or> value_tree v = TMap False es)"
  using assms by (auto simp: set_member_def resolveReference_def members_tree_store members_tree_resolve bind_result_Inr_iff split: Value.splits)

text \<open>
  C40. The values of the other theories are what is in memory: where \<open>set_member\<close> gives a value, \<open>json[key] = w\<close> on a memory that holds the
  two values ends with that value in memory, when memory does not run out.
\<close>

theorem set_member_in_memory:
  assumes "represents m \<sigma>" "\<forall>a. \<not> out_of_memory m a" "\<sigma> x = Some (value_tree v)" "\<sigma> y = Some (value_tree w)" "x \<noteq> y"
    and "length key < 2 ^ 30" "set_member key w v = Inr v'"
  shows "\<exists>m'. exec (Assign (x, [Member key]) (y, [])) m = Some (Inr (), m') \<and> represents m' (\<sigma>(x \<mapsto> value_tree v'))"
proof -
  let ?K = "StringKey key" and ?c = "Assign (x, [Member key]) (y, [])"
  from set_member_tree [OF assms(7)] obtain es where es: "value_tree v' = TMap False (entries_store ?K (value_tree w) (entries_resolve ?K es))"
    "v = nullValue \<and> es = [] \<or> value_tree v = TMap False es" by blast
  have K: "key_named (Member key) = ?K" using assms(6) by (simp add: key_named_def)
  have sub: "tree_subscript (Member key) (value_tree v) = Inr (TMap False (entries_resolve ?K es))"
    using es(2) by (auto simp: tree_subscript_def K)
  obtain u where u: "map_of (entries_resolve ?K es) ?K = Some u" using entries_resolve_found [of ?K es] by blast
  have "\<sigma>(y \<mapsto> value_tree w) = \<sigma>" using assms(4) by (simp add: fun_upd_idem)
  then have "spec ?c \<sigma> = Inr (\<sigma>(x \<mapsto> value_tree v'))"
    using assms(3-5) sub u es(1)
    by (simp add: resolve_lvalue_def K put_def look_def keys_def map_of_entries_store entries_store_twice entries_store_same)
  moreover have "scoped ?c \<sigma>" using assms(3,4) by simp
  ultimately show ?thesis using assms(1,2) exec_outcome [OF assms(1), of ?c] by (metis allocation_failure_def sum.inject(2) sum.distinct(1))
qed

theorem set_member_in_memory_witness:
  "\<exists>m m'. represents m [0 \<mapsto> value_tree (objectValue []), 1 \<mapsto> value_tree (intValue 5)] \<and>
     exec (Assign (0, [Member ''a'']) (1, [])) m = Some (Inr (), m') \<and>
     represents m' [0 \<mapsto> value_tree (objectValue [(''a'', intValue 5)]), 1 \<mapsto> value_tree (intValue 5)]"
proof -
  define m where "m = \<lparr>cells = [0 \<mapsto> Entries []], next_free = 1, out_of_memory = (\<lambda>_. False),
    variables = [0 \<mapsto> \<lparr>value_type = objectType, allocated = False, value_payload = P_map 0\<rparr>, 1 \<mapsto> Value_of_int 5]\<rparr>"
  let ?s = "[0 \<mapsto> value_tree (objectValue []), 1 \<mapsto> value_tree (intValue 5)] :: store"
  have "owners m ?s (\<lambda>x. if x = 0 then {0} else {}) {}"
    by (auto simp: owners_def m_def fresh_def map_keys_def Value_of_int_def initBasic_def split: if_splits)
  then have r: "represents m ?s" by (auto simp: represents_def represents_with_def)
  have "?s(0 \<mapsto> value_tree (objectValue [(''a'', intValue 5)])) = [0 \<mapsto> value_tree (objectValue [(''a'', intValue 5)]), 1 \<mapsto> value_tree (intValue 5)]"
    by auto
  then show ?thesis
    using r set_member_in_memory [of m ?s 0 "objectValue []" 1 "intValue 5" "''a''" "objectValue [(''a'', intValue 5)]"]
    by (auto simp: m_def set_member_def resolveReference_def)
qed

section \<open>Rules that matter\<close>

text \<open>\<open>x.copy(x)\<close> releases the text before it copies it.\<close>

lemma copy_of_itself: "exec_all [Construct 0 (OfString ''a''), Copy (0, []) (0, [])] (empty_memory (\<lambda>_. False)) = None"
  by (simp add: memory_defs)

text \<open>
  \<open>x = std::move(x["a"])\<close> swaps a value with a part of itself: the map of \<open>x\<close> becomes a member of itself, and nothing else points to it. The
  block stays when all variables are gone.
\<close>

lemma move_of_a_part_leaks:
  "\<exists>m. exec_all [Construct 0 (OfType objectType), Construct 1 (OfInt 5), Assign (0, [Member ''a'', Member ''b'']) (1, []),
       MoveAssign (0, []) (0, [Member ''a'']), Destroy 0, Destroy 1] (empty_memory (\<lambda>_. False)) = Some (Inr (), m)
     \<and> variables m = Map.empty \<and> cells m 0 \<noteq> None"
  by (simp add: memory_defs)

text \<open>When memory runs out in \<open>x.copy(y)\<close>, \<open>x\<close> has the type of \<open>y\<close> and the pointer to the map that it has released; its destructor releases it again.\<close>

lemma copy_without_memory:
  "\<exists>m. exec_all [Construct 0 (OfType arrayType), Construct 1 (OfType objectType), Copy (0, []) (1, [])] (empty_memory (\<lambda>a. a = 2)) = Some (Inl BadAlloc, m)
    \<and> exec (Destroy 0) m = None"
  by (simp add: memory_defs)

text \<open>\<open>a.append(a)\<close> inserts the new element before it copies: the copy ends with a null that the array did not have.\<close>

lemma append_of_itself:
  "spec_all [Construct 0 (OfType arrayType), Append (0, []) (0, [])] Map.empty = Inr [0 \<mapsto> TMap True [(IndexKey 0, TMap True [(IndexKey 0, TNull)])]]"
  by (simp add: spec_defs)

text \<open>The assignment of keys copies the pointer: both keys own the same block, and the second destructor releases it again. Moving leaves one owner.\<close>

lemma key_assignment_releases_twice:
  assumes "owns_key (cells m) k (StringKey s) {a}" "CZString_destroy k m = Some (Inr (), m')"
  shows "CZString_destroy (CZString_assign k' k) m' = None"
  using assms by (auto simp: owns_key_def CZString_destroy_def CZString_assign_def release_pointer_def free_def split: option.splits block.splits)

lemma key_move_has_one_owner:
  assumes "owns_key c k K A" "CZString_move k = (k', old)"
  shows "owns_key c k' K A" "CZString_destroy old = mem_return ()"
  using assms by (auto simp: CZString_move_def CZString_moved_def CZString_destroy_def fun_eq_iff split: CZString.splits)

text \<open>A text of \<open>2 ^ 32\<close> bytes and a few more is cut without an error.\<close>

lemma long_string_is_cut: "length s = 2 ^ 32 + n \<Longrightarrow> n < 1000 \<Longrightarrow> initial_tree (OfString s) = Inr (TString (take n s))"
  by (simp add: chars_tree_def maxInt_def)

end
