(* ===== verification/Json_Path.thy ===== *)
theory Json_Path
  imports Json_Operations
begin

text \<open>
  \<open>Json::Path\<close> of \<open>json/jsoncpp.cpp\<close>: paths such as \<open>.faces[2].x\<close> into a value. \<open>Path::make\<close>, which creates
  what is missing, makes arrays with holes, which these values do not have; it is in \<open>Json_Path_Memory\<close>.
\<close>

section \<open>Paths\<close>

datatype PathArgument = kindNone | kindIndex nat | kindKey string

datatype Kind = KindNone | KindIndex | KindKey

fun kind_of :: "PathArgument \<Rightarrow> Kind" where
  "kind_of kindNone = KindNone"
| "kind_of (kindIndex i) = KindIndex"
| "kind_of (kindKey k) = KindKey"

text \<open>An argument is taken if there is one left and it is of the right kind; nothing is reported otherwise.\<close>

definition addPathInArg :: "Kind \<Rightarrow> PathArgument list \<Rightarrow> PathArgument list \<Rightarrow> PathArgument list \<times> PathArgument list" where
  "addPathInArg kind in_args args =
     (case in_args of
        [] \<Rightarrow> (in_args, args)
      | a # as \<Rightarrow> if kind_of a \<noteq> kind then (in_args, args) else (as, args @ [a]))"

text \<open>The index is an \<open>unsigned int\<close> and wraps around.\<close>

fun path_index :: "nat \<Rightarrow> string \<Rightarrow> nat \<times> string" where
  "path_index index (c # s) =
     (if isdigit c then path_index ((index * 10 + (byte c - 48)) mod 2 ^ 32) s else (index, c # s))"
| "path_index index [] = (index, [])"

text \<open>
  The characters that are left, the arguments that are left, and the components so far. \<open>invalidPath\<close> does nothing. \<open>strchr\<close>
  finds the zero byte at the end of its text, too, so that a name ends at a zero byte.
\<close>

partial_function (option) makePath_loop :: "string \<Rightarrow> PathArgument list \<Rightarrow> PathArgument list \<Rightarrow> PathArgument list option" where
  "makePath_loop current in_args args =
     (if current = [] then Some args
      else if hd current = CHR ''['' then
        let current = tl current;
            (current, in_args, args) =
              (if current \<noteq> [] \<and> hd current = CHR ''%'' then
                 let (in_args, args) = addPathInArg KindIndex in_args args in (current, in_args, args)
               else
                 let (index, current) = path_index 0 current in (current, in_args, args @ [kindIndex index]))
        in makePath_loop (if current = [] then [] else tl current) in_args args
      else if hd current = CHR ''%'' then
        let (in_args, args) = addPathInArg KindKey in_args args in makePath_loop (tl current) in_args args
      else if hd current = CHR ''.'' \<or> hd current = CHR '']'' then makePath_loop (tl current) in_args args
      else
        let name = takeWhile (\<lambda>c. c \<notin> {CHR ''['', CHR ''.'', CHR 0x00}) current;
            current = dropWhile (\<lambda>c. c \<notin> {CHR ''['', CHR ''.'', CHR 0x00}) current
        in makePath_loop current in_args (args @ [kindKey name]))"

definition makePath :: "string \<Rightarrow> PathArgument list \<Rightarrow> PathArgument list option" where
  "makePath path in_args = makePath_loop path in_args []"

text \<open>
  The constructors. An argument made of a string takes the text up to the first zero byte; the arguments that a caller leaves out are of
  no kind.
\<close>

definition PathArgument_of_String :: "string \<Rightarrow> PathArgument" where
  "PathArgument_of_String key = kindKey (takeWhile (\<lambda>c. c \<noteq> CHR 0x00) key)"

definition Path_Path :: "string \<Rightarrow> PathArgument \<Rightarrow> PathArgument \<Rightarrow> PathArgument \<Rightarrow> PathArgument \<Rightarrow> PathArgument \<Rightarrow> PathArgument list option" where
  "Path_Path path a1 a2 a3 a4 a5 = makePath path [a1, a2, a3, a4, a5]"

section \<open>Resolving\<close>

text \<open>Where a path leads, if it leads anywhere.\<close>

fun resolve_node :: "PathArgument list \<Rightarrow> Value \<Rightarrow> Value option" where
  "resolve_node [] node = Some node"
| "resolve_node (kindIndex i # args) node =
     (case node of
        arrayValue vs \<Rightarrow> if \<not> i < Value_size node then None else resolve_node args (vs ! i)
      | _ \<Rightarrow> None)"
| "resolve_node (kindKey k # args) node =
     (case node of
        objectValue ms \<Rightarrow> (case members_find k ms of None \<Rightarrow> None | Some v \<Rightarrow> resolve_node args v)
      | _ \<Rightarrow> None)"
| "resolve_node (kindNone # args) node = resolve_node args node"

definition resolve :: "PathArgument list \<Rightarrow> Value \<Rightarrow> Value" where
  "resolve args root = (case resolve_node args root of None \<Rightarrow> nullValue | Some v \<Rightarrow> v)"

definition resolve_default :: "PathArgument list \<Rightarrow> Value \<Rightarrow> Value \<Rightarrow> Value" where
  "resolve_default args root defaultValue = (case resolve_node args root of None \<Rightarrow> defaultValue | Some v \<Rightarrow> v)"

section \<open>Paths without zero bytes\<close>

text \<open>Without zero bytes every round of the loop takes at least one character.\<close>

lemma path_index_shorter: "length (snd (path_index n s)) \<le> length s"
  by (induction n s rule: path_index.induct) (auto intro: le_SucI)

lemma path_index_suffix: "set (snd (path_index n s)) \<subseteq> set s"
  by (induction n s rule: path_index.induct) auto

abbreviation "in_name \<equiv> \<lambda>c. c \<notin> {CHR ''['', CHR ''.'', CHR 0x00}"

lemma makePath_steps:
  "makePath_loop [] in_args args = Some args"
  "c = CHR ''.'' \<or> c = CHR '']'' \<Longrightarrow> makePath_loop (c # s) in_args args = makePath_loop s in_args args"
  "makePath_loop (CHR ''%'' # s) in_args args
     = makePath_loop s (fst (addPathInArg KindKey in_args args)) (snd (addPathInArg KindKey in_args args))"
  "makePath_loop (CHR ''['' # CHR ''%'' # s) in_args args
     = makePath_loop s (fst (addPathInArg KindIndex in_args args)) (snd (addPathInArg KindIndex in_args args))"
  "\<not> (s \<noteq> [] \<and> hd s = CHR ''%'') \<Longrightarrow> makePath_loop (CHR ''['' # s) in_args args
     = makePath_loop (drop 1 (snd (path_index 0 s))) in_args (args @ [kindIndex (fst (path_index 0 s))])"
  "c \<notin> {CHR ''['', CHR ''%'', CHR ''.'', CHR '']''} \<Longrightarrow> makePath_loop (c # s) in_args args
     = makePath_loop (dropWhile in_name (c # s)) in_args (args @ [kindKey (takeWhile in_name (c # s))])"
proof -
  show "makePath_loop [] in_args args = Some args" by (subst makePath_loop.simps) simp
  show "makePath_loop (c # s) in_args args = makePath_loop s in_args args" if "c = CHR ''.'' \<or> c = CHR '']''"
    by (subst makePath_loop.simps) (use that in auto)
  show "makePath_loop (CHR ''%'' # s) in_args args
     = makePath_loop s (fst (addPathInArg KindKey in_args args)) (snd (addPathInArg KindKey in_args args))"
    by (subst makePath_loop.simps) (simp add: split_beta)
  show "makePath_loop (CHR ''['' # CHR ''%'' # s) in_args args
     = makePath_loop s (fst (addPathInArg KindIndex in_args args)) (snd (addPathInArg KindIndex in_args args))"
    by (subst makePath_loop.simps) (simp add: split_beta)
  show "makePath_loop (CHR ''['' # s) in_args args
     = makePath_loop (drop 1 (snd (path_index 0 s))) in_args (args @ [kindIndex (fst (path_index 0 s))])"
    if "\<not> (s \<noteq> [] \<and> hd s = CHR ''%'')"
  proof -
    have "(if t = [] then [] else tl t) = drop 1 t" for t :: string by (simp add: drop_Suc)
    with that show ?thesis by (subst makePath_loop.simps) (auto simp: split_beta Let_def)
  qed
  show "makePath_loop (c # s) in_args args
     = makePath_loop (dropWhile in_name (c # s)) in_args (args @ [kindKey (takeWhile in_name (c # s))])"
    if "c \<notin> {CHR ''['', CHR ''%'', CHR ''.'', CHR '']''}"
    using that by (subst makePath_loop.simps) (simp del: takeWhile.simps dropWhile.simps)
qed

lemma makePath_loop_returns: "CHR 0x00 \<notin> set current \<Longrightarrow> \<exists>args'. makePath_loop current in_args args = Some args'"
proof (induction current arbitrary: in_args args rule: length_induct)
  case (1 current)
  show ?case
  proof (cases current)
    case Nil
    then show ?thesis by (simp add: makePath_steps)
  next
    case (Cons c s)
    have IH: "length t < length current \<Longrightarrow> set t \<subseteq> set current \<Longrightarrow> \<exists>args'. makePath_loop t i a = Some args'" for t i a
      using 1 by blast
    consider "c = CHR ''.'' \<or> c = CHR '']''" | "c = CHR ''%''" | t where "c = CHR ''[''" "s = CHR ''%'' # t"
      | "c = CHR ''[''" "\<not> (s \<noteq> [] \<and> hd s = CHR ''%'')" | "c \<notin> {CHR ''['', CHR ''%'', CHR ''.'', CHR '']''}"
      by (cases s) auto
    then show ?thesis
    proof cases
      case 1
      with Cons IH [of s] show ?thesis by (auto simp: makePath_steps(2))
    next
      case 2
      with Cons IH [of s] show ?thesis by (auto simp: makePath_steps(3))
    next
      case 3
      with Cons IH [of t] show ?thesis by (auto simp: makePath_steps(4))
    next
      case 4
      have "set (drop 1 (snd (path_index 0 s))) \<subseteq> set s" using path_index_suffix [of 0 s] set_drop_subset [of 1 "snd (path_index 0 s)"] by blast
      with 4 Cons IH [of "drop 1 (snd (path_index 0 s))"] path_index_shorter [of 0 s] show ?thesis
        by (auto simp: makePath_steps(5) le_imp_less_Suc le_diff_conv)
    next
      case 5
      have "in_name c" using 5 Cons "1.prems" by auto
      then have "length (dropWhile in_name (c # s)) < length current" "set (dropWhile in_name (c # s)) \<subseteq> set current"
        using Cons length_dropWhile_le [of in_name s] set_dropWhileD [of _ in_name s] by auto
      with 5 Cons IH [of "dropWhile in_name (c # s)"] show ?thesis by (metis makePath_steps(6))
    qed
  qed
qed

text \<open>A name that starts with a zero byte is empty, and the loop stays where it is.\<close>

definition stuck :: "string \<Rightarrow> bool" where
  "stuck s \<longleftrightarrow> s \<noteq> [] \<and> hd s = CHR 0x00"

lemma makePath_loop_stuck:
  assumes "makePath_loop current in_args args = Some args'"
  shows "\<not> stuck current"
proof (rule makePath_loop.raw_induct [where P = "\<lambda>current in_args args args'. \<not> stuck current", OF _ assms])
  fix loop :: "string \<Rightarrow> PathArgument list \<Rightarrow> PathArgument list \<Rightarrow> PathArgument list option" and current in_args args args'
  assume IH: "\<And>current in_args args args'. loop current in_args args = Some args' \<Longrightarrow> \<not> stuck current"
  assume body: "(if current = [] then Some args
      else if hd current = CHR ''['' then
        let current = tl current;
            (current, in_args, args) =
              (if current \<noteq> [] \<and> hd current = CHR ''%'' then
                 let (in_args, args) = addPathInArg KindIndex in_args args in (current, in_args, args)
               else
                 let (index, current) = path_index 0 current in (current, in_args, args @ [kindIndex index]))
        in loop (if current = [] then [] else tl current) in_args args
      else if hd current = CHR ''%'' then
        let (in_args, args) = addPathInArg KindKey in_args args in loop (tl current) in_args args
      else if hd current = CHR ''.'' \<or> hd current = CHR '']'' then loop (tl current) in_args args
      else
        let name = takeWhile in_name current; current = dropWhile in_name current
        in loop current in_args (args @ [kindKey name])) = Some args'"
  show "\<not> stuck current"
  proof
    assume s: "stuck current"
    then have "loop current in_args (args @ [kindKey []]) = Some args'"
      using body by (cases current) (simp_all add: stuck_def)
    with IH s show False by blast
  qed
qed

section \<open>Printing paths\<close>

fun path_text :: "PathArgument list \<Rightarrow> string" where
  "path_text [] = []"
| "path_text (kindIndex i # args) = ''['' @ to_string i @ '']'' @ path_text args"
| "path_text (kindKey k # args) = ''.'' @ k @ path_text args"
| "path_text (kindNone # args) = path_text args"

fun plain_argument :: "PathArgument \<Rightarrow> bool" where
  "plain_argument (kindIndex i) = (i < 2 ^ 32)"
| "plain_argument (kindKey k) = (k \<noteq> [] \<and> hd k \<notin> {CHR ''%'', CHR '']''} \<and> list_all in_name k)"
| "plain_argument kindNone = False"

lemma path_index_digits:
  assumes "\<forall>c \<in> set ds. isdigit c" "r = [] \<or> \<not> isdigit (hd r)"
  shows "path_index n (ds @ r) = (foldl (\<lambda>n c. (n * 10 + (byte c - 48)) mod 2 ^ 32) n ds, r)"
  using assms
proof (induction ds arbitrary: n)
  case Nil
  then show ?case by (cases r) simp_all
qed simp

lemma digits_mod:
  "\<forall>c \<in> set ds. isdigit c \<Longrightarrow>
     foldl (\<lambda>n c. (n * 10 + (byte c - 48)) mod m) (n mod m) ds = foldl (\<lambda>n c. n * 10 + digit_val c) n ds mod m"
proof (induction ds arbitrary: n)
  case (Cons c ds)
  have c: "digit_val c = byte c - 48" using Cons.prems by (simp add: digit_val_def)
  have "(n mod m * 10 + (byte c - 48)) mod m = (n * 10 + digit_val c) mod m" unfolding c by (metis mod_add_left_eq mod_mult_left_eq)
  with Cons show ?case by simp
qed simp

lemma path_index_to_string:
  assumes "i < 2 ^ 32" "r = [] \<or> \<not> isdigit (hd r)"
  shows "path_index 0 (to_string i @ r) = (i, r)"
  using digits_mod [of "to_string i" "2 ^ 32" 0] path_index_digits [OF to_string_all_digits assms(2), of 0 i] assms(1) digits_val_to_string [of i]
  by (simp add: digits_val_def to_string_all_digits)


lemma path_text_head: "list_all plain_argument as \<Longrightarrow> path_text as = [] \<or> \<not> in_name (hd (path_text as))"
  by (cases "as" rule: path_text.cases) simp_all

lemma makePath_loop_text: "list_all plain_argument as \<Longrightarrow> makePath_loop (path_text as) in_args args = Some (args @ as)"
proof (induction "as" arbitrary: args)
  case (Cons a "as")
  have rest: "list_all plain_argument as" using Cons.prems by simp
  show ?case
  proof (cases a)
    case (kindIndex i)
    have "isdigit (hd (to_string i))" by (rule to_string_hd)
    then have "\<not> (to_string i @ CHR '']'' # path_text as \<noteq> [] \<and> hd (to_string i @ CHR '']'' # path_text as) = CHR ''%'')"
      by (auto simp: isdigit_def)
    moreover have "path_index 0 (to_string i @ CHR '']'' # path_text as) = (i, CHR '']'' # path_text as)"
      by (rule path_index_to_string) (use Cons.prems kindIndex in \<open>simp_all add: isdigit_def\<close>)
    ultimately show ?thesis using Cons.IH [OF rest] kindIndex by (simp add: makePath_steps(5))
  next
    case (kindKey k)
    then have k: "k \<noteq> []" "hd k \<notin> {CHR ''%'', CHR '']''}" "list_all in_name k" using Cons.prems by simp_all
    then obtain c t where ct: "k = c # t" "c \<notin> {CHR ''['', CHR ''%'', CHR ''.'', CHR '']''}" by (cases k) auto
    have split: "takeWhile in_name (k @ path_text as) = k" "dropWhile in_name (k @ path_text as) = path_text as"
      using k(3) path_text_head [OF rest] by (cases "path_text as"; auto simp: list_all_iff takeWhile_append2 dropWhile_append2)+
    have "makePath_loop (path_text (a # as)) in_args args = makePath_loop (k @ path_text as) in_args args"
      using kindKey by (simp add: makePath_steps(2))
    also have "\<dots> = makePath_loop (path_text as) in_args (args @ [a])"
      using makePath_steps(6) [OF ct(2), of "t @ path_text as" in_args args] split ct(1) kindKey by simp
    finally show ?thesis using Cons.IH [OF rest] by simp
  qed (use Cons.prems in simp)
qed (simp add: makePath_steps)

section \<open>Properties\<close>

text \<open>
  A path text is read as the components it was written for: indices below \<open>2 ^ 32\<close> in brackets and keys behind dots, as long
  as the keys are not empty, contain no dot, bracket or zero byte where it matters, and do not start with a sign that has a meaning.
\<close>

lemma path_roundtrip:
  "list_all plain_argument args \<Longrightarrow> makePath (path_text args) in_args = Some args"
  by (simp add: makePath_def makePath_loop_text)


text \<open>
  C39. Making a path returns for every text without zero bytes, whatever else it holds, and never returns for a text that begins
  with one: the loop then adds empty names for ever.
\<close>

theorem makePath_returns_without_zero_bytes:
  "(CHR 0x00 \<notin> set path \<longrightarrow> (\<exists>args. makePath path in_args = Some args)) \<and> makePath (CHR 0x00 # path) in_args = None"
proof -
  have "makePath_loop (CHR 0x00 # path) in_args [] = None"
    using makePath_loop_stuck [of "CHR 0x00 # path" in_args "[]"] by (cases "makePath_loop (CHR 0x00 # path) in_args []") (simp_all add: stuck_def)
  then show ?thesis using makePath_loop_returns [of path in_args "[]"] by (simp add: makePath_def)
qed

theorem makePath_returns_without_zero_bytes_witness: "\<exists>args. makePath ''a[%].[[x'' [] = Some args"
  using makePath_returns_without_zero_bytes [of "''a[%].[[x''" "[]"] by simp

text \<open>The member or element that a path names, and null or the default for a path that leads nowhere.\<close>

lemma resolve_found: "resolve_node args root = Some v \<Longrightarrow> resolve args root = v \<and> resolve_default args root w = v"
  by (simp add: resolve_def resolve_default_def)

lemma resolve_append: "resolve_node (as @ bs) v = (case resolve_node as v of None \<Rightarrow> None | Some w \<Rightarrow> resolve_node bs w)"
  by (induction "as" v rule: resolve_node.induct) (auto split: Value.splits option.splits)

end
