(* ===== verification/Json_Path_Memory.thy ===== *)
theory Json_Path_Memory
  imports Json_Memory_Safety Json_Path
begin

text \<open>
  Ways through values in memory: constant access by index and by name, \<open>Path::make\<close> and \<open>Path::resolve\<close>, with the proof that what
  \<open>make\<close> has made is what \<open>resolve\<close> finds (\<open>json/jsoncpp.cpp\<close>).
\<close>

section \<open>Constant access\<close>

text \<open>\<open>std::map::find\<close>.\<close>

definition map_find :: "CZString \<Rightarrow> nat \<Rightarrow> MValue option mem" where
  "map_find key a =
     mem_bind (mem_read (read_entries a)) (\<lambda>es.
     mem_bind (mem_read (lower_bound key es)) (\<lambda>i.
     mem_bind (mem_read (found_at key es i)) (\<lambda>found.
     mem_return (if found then Some (snd (es ! i)) else None))))"

text \<open>\<open>operator[](ArrayIndex) const\<close>; the null that stands for a missing element is \<open>nullSingleton\<close>.\<close>

definition at_const :: "nat \<Rightarrow> MValue \<Rightarrow> MValue mem" where
  "at_const i v =
     (if value_type v \<noteq> nullType \<and> value_type v \<noteq> arrayType
      then mem_throw (Thrown (LogicError ''in Json::Value::operator[](ArrayIndex)const: requires arrayValue''))
      else if value_type v = nullType then mem_return null_value
      else case value_payload v of
        P_map a \<Rightarrow> mem_bind (map_find (Index i) a) (\<lambda>w. mem_return (case w of None \<Rightarrow> null_value | Some w \<Rightarrow> w))
      | _ \<Rightarrow> mem_fault)"

text \<open>\<open>Value::find\<close>.\<close>

definition find_const :: "string \<Rightarrow> MValue \<Rightarrow> MValue option mem" where
  "find_const s v =
     (if value_type v \<noteq> nullType \<and> value_type v \<noteq> objectType
      then mem_throw (Thrown (LogicError ''in Json::Value::find(begin, end): requires objectValue or nullValue''))
      else if value_type v = nullType then mem_return None
      else case value_payload v of
        P_map a \<Rightarrow> map_find (CZString_text s (length s) noDuplication) a
      | _ \<Rightarrow> mem_fault)"

section \<open>Paths\<close>

text \<open>\<open>Path::make\<close>: nothing is reported where a value is of the wrong type, but \<open>operator[]\<close> throws.\<close>

fun Path_make :: "PathArgument list \<Rightarrow> place \<Rightarrow> place mem" where
  "Path_make [] node = mem_return node"
| "Path_make (kindIndex i # args) node = mem_bind (subscript (At i) node) (Path_make args)"
| "Path_make (kindKey k # args) node = mem_bind (subscript (Member k) node) (Path_make args)"
| "Path_make (kindNone # args) node = Path_make args node"

text \<open>\<open>Path::resolve\<close>; \<^const>\<open>None\<close> is where the default value is returned.\<close>

fun Path_resolve :: "PathArgument list \<Rightarrow> MValue \<Rightarrow> MValue option mem" where
  "Path_resolve [] node = mem_return (Some node)"
| "Path_resolve (kindIndex i # args) node =
     (if value_type node \<noteq> arrayType then mem_return None
      else mem_bind (size_of node) (\<lambda>n.
        if \<not> i < n then mem_return None else mem_bind (at_const i node) (Path_resolve args)))"
| "Path_resolve (kindKey k # args) node =
     (if value_type node \<noteq> objectType then mem_return None
      else mem_bind (find_const k node) (\<lambda>w. case w of None \<Rightarrow> mem_return None | Some w \<Rightarrow> Path_resolve args w))"
| "Path_resolve (kindNone # args) node = Path_resolve args node"

text \<open>The same on trees.\<close>

fun tree_resolve :: "PathArgument list \<Rightarrow> Tree \<Rightarrow> Tree option" where
  "tree_resolve [] t = Some t"
| "tree_resolve (kindIndex i # args) t =
     (case t of
        TMap True es \<Rightarrow>
          if \<not> i < tree_size t then None
          else tree_resolve args (case map_of es (IndexKey i) of None \<Rightarrow> TNull | Some u \<Rightarrow> u)
      | _ \<Rightarrow> None)"
| "tree_resolve (kindKey k # args) t =
     (case t of
        TMap False es \<Rightarrow> (case map_of es (key_named (Member k)) of None \<Rightarrow> None | Some u \<Rightarrow> tree_resolve args u)
      | _ \<Rightarrow> None)"
| "tree_resolve (kindNone # args) t = tree_resolve args t"

fun path_accesses :: "PathArgument list \<Rightarrow> access list" where
  "path_accesses [] = []"
| "path_accesses (kindIndex i # args) = At i # path_accesses args"
| "path_accesses (kindKey k # args) = Member k # path_accesses args"
| "path_accesses (kindNone # args) = path_accesses args"

text \<open>The arguments of a path are \<open>unsigned\<close> indices, and the last index of all, with which the size of an array wraps around, is left out.\<close>

definition arg_ok :: "PathArgument \<Rightarrow> bool" where
  "arg_ok arg = (case arg of kindIndex i \<Rightarrow> Suc i < 2 ^ 32 | _ \<Rightarrow> True)"

fun indices_ok :: "Tree \<Rightarrow> bool" and entries_ok :: "(key \<times> Tree) list \<Rightarrow> bool" where
  "indices_ok (TMap b es) = entries_ok es"
| "indices_ok t = True"
| "entries_ok [] = True"
| "entries_ok ((K, t) # es) = ((case K of IndexKey i \<Rightarrow> Suc i < 2 ^ 32 | _ \<Rightarrow> True) \<and> indices_ok t \<and> entries_ok es)"

section \<open>Lookups in memory and on trees\<close>

lemma Path_make_subscripts: "Path_make args = subscripts (path_accesses args)"
  by (induction args rule: path_accesses.induct) (rule ext, simp)+

text \<open>The value that a lookup gives for a tree.\<close>

definition gives :: "Memory \<Rightarrow> MValue option \<Rightarrow> Tree option \<Rightarrow> bool" where
  "gives m r t \<longleftrightarrow> (case t of None \<Rightarrow> r = None | Some u \<Rightarrow> \<exists>w B. r = Some w \<and> owns (cells m) w u B)"

lemma owns_entries_nth:
  "owns_entries c ms es A \<Longrightarrow> i < length es \<Longrightarrow> \<exists>B. owns c (snd (ms ! i)) (snd (es ! i)) B \<and> B \<subseteq> A"
proof (induction es arbitrary: ms A i)
  case (Cons E es)
  obtain K t where E: "E = (K, t)" by (cases E)
  with Cons.prems(1) obtain k v ms' A1 A2 A3 where "ms = (k, v) # ms'" "owns c v t A2" "owns_entries c ms' es A3" "A = A1 \<union> A2 \<union> A3" by auto
  then show ?case using Cons.IH [of ms' A3 "i - 1"] Cons.prems(2) by (cases i) (auto simp: E intro: exI [of _ A2])
qed simp

lemma map_find_run:
  assumes "cells m a = Some (Entries ms)" "owns_entries (cells m) ms es A" "map_keys b es" "is_index K = b" "reads_key (cells m) key K"
  shows "\<exists>r. map_find key a m = Some (Inr r, m) \<and> gives m r (map_of es K)"
proof -
  define i where "i = length (takeWhile (\<lambda>E. key_less (fst E) K) es)"
  have kinds: "\<forall>L \<in> set (map fst es). is_index L = is_index K" using assms(3,4) by (auto simp: map_keys_def)
  note pos = lower_bound_position [OF owns_entries_keys [OF assms(2)] kinds assms(5), folded i_def]
    found_position [OF owns_entries_keys [OF assms(2)] kinds assms(5), of i]
  have found: "(i < length es \<and> fst (es ! i) = K) = (map_of es K \<noteq> None)"
    by (rule position_of_found [OF _ assms(3,4) i_def]) (use assms(3) in \<open>simp add: map_keys_def\<close>)
  have run: "map_find key a m = Some (Inr (if map_of es K \<noteq> None then Some (snd (ms ! i)) else None), m)"
    using assms(1) pos by (simp add: map_find_def read_entries_def found mem_return_def)
  show ?thesis
  proof (cases "map_of es K")
    case (Some u)
    from assms(3) Some obtain es1 es2 where "es = es1 @ (K, u) # es2" "i = length es1"
      by (rule sorted_position) (simp add: i_def)
    then have "i < length es" "snd (es ! i) = u" by auto
    then show ?thesis using run Some owns_entries_nth [OF assms(2), of i] by (auto simp: gives_def)
  qed (use run in \<open>auto simp: gives_def\<close>)
qed

lemma tree_map_cases:
  "owns c v t A \<Longrightarrow> value_type v = arrayType \<longleftrightarrow> (\<exists>es. t = TMap True es)"
  "owns c v t A \<Longrightarrow> value_type v = objectType \<longleftrightarrow> (\<exists>es. t = TMap False es)"
  using owns_map_type [of c v t A True] owns_map_type [of c v t A False] by simp_all

lemma at_const_run:
  assumes "owns (cells m) v (TMap True es) A"
  shows "\<exists>w B. at_const i v m = Some (Inr w, m) \<and> owns (cells m) w (case map_of es (IndexKey i) of None \<Rightarrow> TNull | Some u \<Rightarrow> u) B"
proof -
  from assms obtain a ms B where a: "value_payload v = P_map a" "cells m a = Some (Entries ms)" "owns_entries (cells m) ms es B"
    "map_keys True es" "value_type v = arrayType" by auto
  from map_find_run [OF a(2-4) _ reads_index, of i] obtain r where r: "map_find (Index i) a m = Some (Inr r, m)" "gives m r (map_of es (IndexKey i))" by auto
  have "at_const i v m = Some (Inr (case r of None \<Rightarrow> null_value | Some w \<Rightarrow> w), m)"
    using a(1,5) r(1) by (simp add: at_const_def mem_return_def)
  moreover have "owns (cells m) null_value TNull {}" by (simp add: initBasic_def)
  ultimately show ?thesis using r(2) by (auto simp: gives_def split: option.splits)
qed

lemma find_const_run:
  assumes "owns (cells m) v (TMap False es) A"
  shows "\<exists>r. find_const s v m = Some (Inr r, m) \<and> gives m r (map_of es (key_named (Member s)))"
proof -
  from assms obtain a ms B where a: "value_payload v = P_map a" "cells m a = Some (Entries ms)" "owns_entries (cells m) ms es B"
    "map_keys False es" "value_type v = objectType" by auto
  have "is_index (key_named (Member s)) = False" by (simp add: key_named_def)
  from map_find_run [OF a(2-4) this member_key_reads] show ?thesis using a(1,5) by (simp add: find_const_def)
qed

text \<open>\<open>Path::resolve\<close> reads only what the value owns, never throws and finds what the path leads to.\<close>

lemma Path_resolve_run:
  "owns (cells m) v t A \<Longrightarrow> \<exists>r. Path_resolve args v m = Some (Inr r, m) \<and> gives m r (tree_resolve args t)"
proof (induction args arbitrary: v t A rule: path_accesses.induct)
  case 1
  then show ?case by (auto simp: mem_return_def gives_def)
next
  case (2 i args)
  show ?case
  proof (cases "\<exists>es. t = TMap True es")
    case True
    then obtain es where t: "t = TMap True es" by blast
    from at_const_run [OF 2(2) [unfolded t], of i] obtain w B where w: "at_const i v m = Some (Inr w, m)"
      "owns (cells m) w (case map_of es (IndexKey i) of None \<Rightarrow> TNull | Some u \<Rightarrow> u) B" by blast
    have "value_type v = arrayType" using tree_map_cases(1) [OF 2(2)] t by simp
    then show ?thesis using 2(1) [OF w(2)] w(1) by (auto simp: size_of_run [OF 2(2)] t mem_return_def gives_def simp del: tree_size.simps)
  next
    case False
    then have "tree_resolve (kindIndex i # args) t = None" by (cases t) (auto split: bool.splits)
    then show ?thesis using False tree_map_cases(1) [OF 2(2)] by (simp add: mem_return_def gives_def)
  qed
next
  case (3 k args)
  show ?case
  proof (cases "\<exists>es. t = TMap False es")
    case True
    then obtain es where t: "t = TMap False es" by blast
    from find_const_run [OF 3(2) [unfolded t], of k] obtain r where r: "find_const k v m = Some (Inr r, m)" "gives m r (map_of es (key_named (Member k)))" by blast
    have "value_type v = objectType" using tree_map_cases(2) [OF 3(2)] t by simp
    then show ?thesis using 3(1) r by (fastforce simp: t mem_return_def gives_def split: option.splits)
  next
    case False
    then have "tree_resolve (kindKey k # args) t = None" by (cases t) (auto split: bool.splits)
    then show ?thesis using False tree_map_cases(2) [OF 3(2)] by (simp add: mem_return_def gives_def)
  qed
next
  case (4 args)
  then show ?case by simp
qed

section \<open>What has been made is found\<close>

fun sorted_tree :: "Tree \<Rightarrow> bool" and sorted_entries :: "(key \<times> Tree) list \<Rightarrow> bool" where
  "sorted_tree (TMap b es) = (map_keys b es \<and> sorted_entries es)"
| "sorted_tree t = True"
| "sorted_entries [] = True"
| "sorted_entries ((K, t) # es) = (sorted_tree t \<and> sorted_entries es)"

lemma owns_sorted: "owns c v t A \<Longrightarrow> sorted_tree t" "owns_entries c ms es A \<Longrightarrow> sorted_entries es"
  by (induction t and es arbitrary: v A and ms A rule: sorted_tree_sorted_entries.induct) fastforce+

lemma entries_ok_all: "entries_ok es \<longleftrightarrow> (\<forall>K \<in> fst ` set es. case K of IndexKey i \<Rightarrow> Suc i < 2 ^ 32 | _ \<Rightarrow> True) \<and> (\<forall>t \<in> snd ` set es. indices_ok t)"
  by (induction es) auto

lemma sorted_entries_all: "sorted_entries es \<longleftrightarrow> (\<forall>t \<in> snd ` set es. sorted_tree t)"
  by (induction es) auto

lemma entries_resolve_values: "snd ` set (entries_resolve K es) \<subseteq> insert TNull (snd ` set es)"
  by (induction K es rule: entries_resolve.induct) auto

lemma entries_store_keys: "map fst (entries_store K u es) = map fst es"
  by (induction es) auto

lemma tree_size_store: "tree_size (TMap b (entries_store K u es)) = tree_size (TMap b es)"
proof -
  have "map fst (entries_store K u es) = map fst es" by (rule entries_store_keys)
  then have "length (entries_store K u es) = length es" "es \<noteq> [] \<Longrightarrow> fst (last (entries_store K u es)) = fst (last es)"
    by (metis length_map, metis last_map list.map_disc_iff)
  then show ?thesis by (cases "es = []") auto
qed

text \<open>An array with an element for an index is longer than the index.\<close>

lemma array_longer:
  assumes "map_keys True es" "entries_ok es" "IndexKey i \<in> fst ` set es"
  shows "i < tree_size (TMap True es)"
proof -
  have ne: "es \<noteq> []" using assms(3) by auto
  have "is_index (fst (last es))" using assms(1) last_in_set [OF ne] by (auto simp: map_keys_def)
  then obtain j where j: "fst (last es) = IndexKey j" by (cases "fst (last es)") auto
  then have small: "Suc j < 2 ^ 32" using assms(2) last_in_set [OF ne] unfolding entries_ok_all by (metis image_eqI key.simps(5))
  obtain k where k: "k < length es" "fst (es ! k) = IndexKey i" using assms(3) by (auto simp: in_set_conv_nth)
  have "i \<le> j"
  proof (cases "k = length es - 1")
    case True
    then show ?thesis using k j ne by (simp add: last_conv_nth)
  next
    case False
    then have "key_less (map fst es ! k) (map fst es ! (length es - 1))"
      using assms(1) k(1) sorted_wrt_nth_less [of key_less "map fst es" k "length es - 1"] by (simp add: map_keys_def)
    then show ?thesis using k j ne by (simp add: last_conv_nth)
  qed
  then show ?thesis using j ne small by simp
qed

text \<open>One step of a path that has been made.\<close>

lemma make_step:
  assumes "tree_subscripts (acc # p) t = Inr t'" "sorted_tree t" "indices_ok t" "case key_named acc of IndexKey i \<Rightarrow> Suc i < 2 ^ 32 | _ \<Rightarrow> True"
  obtains es w u1 where "map_keys (is_index (key_named acc)) es" "entries_ok es" "map_of es (key_named acc) = Some w" "sorted_tree w" "indices_ok w"
    "tree_subscripts p w = Inr u1" "\<forall>ks u. replace t' (key_named acc # ks) u = TMap (is_index (key_named acc)) (entries_store (key_named acc) (replace u1 ks u) es)"
proof -
  let ?K = "key_named acc" and ?b = "is_index (key_named acc)"
  from assms(1) obtain es0 es u1 where t1: "es = entries_resolve ?K es0" "t = TNull \<and> es0 = [] \<or> t = TMap ?b es0"
      "tree_subscripts p (the (subtree (TMap ?b es) [?K])) = Inr u1" "t' = replace (TMap ?b es) [?K] u1"
    by (auto simp: bind_result_Inr_iff tree_subscript_def Let_def split: Tree.splits if_splits)
  obtain w where w: "map_of es ?K = Some w" using entries_resolve_found [of ?K es0] t1(1) by blast
  have es0: "map_keys ?b es0" "entries_ok es0" "sorted_entries es0" using t1(2) assms(2,3) by (elim disjE; simp add: map_keys_def)+
  have ok: "map_keys ?b es" unfolding t1(1) by (rule map_keys_resolve [OF es0(1) refl])
  have k: "fst ` set es = insert ?K (fst ` set es0)" using entries_resolve_keys [of ?K es0] by (simp add: t1(1))
  have v: "snd ` set es \<subseteq> insert TNull (snd ` set es0)" unfolding t1(1) by (rule entries_resolve_values)
  have "indices_ok t" if "t \<in> snd ` set es" for t using that v es0(2) unfolding entries_ok_all by (metis indices_ok.simps(2) insertE subsetD)
  then have eok: "entries_ok es" using es0(2) assms(4) unfolding entries_ok_all k by auto
  have sok: "sorted_entries es" using es0(3) v unfolding sorted_entries_all by (metis insertE sorted_tree.simps(2) subsetD)
  have "w \<in> snd ` set es" using map_of_SomeD [OF w] by force
  then have "sorted_tree w" "indices_ok w" using eok sok unfolding entries_ok_all sorted_entries_all by auto
  moreover have "tree_subscripts p w = Inr u1" using t1(3) w by simp
  moreover have "replace t' (?K # ks) u = TMap ?b (entries_store ?K (replace u1 ks u) es)" for ks u
    using w by (simp add: t1(4) map_of_entries_store entries_store_twice)
  ultimately show ?thesis using that ok eok w by blast
qed

lemma tree_make_resolve:
  assumes "tree_subscripts (path_accesses args) t = Inr t'" "sorted_tree t" "indices_ok t" "list_all arg_ok args"
  shows "tree_resolve args (replace t' (map key_named (path_accesses args)) u) = Some u"
  using assms
proof (induction args arbitrary: t t' rule: path_accesses.induct)
  case (2 i args)
  have K: "key_named (At i) = IndexKey i" "Suc i < 2 ^ 32" using 2(5) by (simp_all add: key_named_def arg_ok_def)
  from 2(2-4) K obtain es w u1 where s: "map_keys True es" "entries_ok es" "map_of es (IndexKey i) = Some w" "sorted_tree w" "indices_ok w"
      "tree_subscripts (path_accesses args) w = Inr u1" "\<forall>ks u. replace t' (IndexKey i # ks) u = TMap True (entries_store (IndexKey i) (replace u1 ks u) es)"
    using make_step [of "At i" "path_accesses args" t t'] by auto
  let ?es = "entries_store (IndexKey i) (replace u1 (map key_named (path_accesses args)) u) es"
  have "i < tree_size (TMap True es)" using map_of_SomeD [OF s(3)] by (intro array_longer [OF s(1,2)]) force
  moreover have "tree_size (TMap True ?es) = tree_size (TMap True es)" by (rule tree_size_store)
  moreover have "tree_resolve args (replace u1 (map key_named (path_accesses args)) u) = Some u" using 2(1) [OF s(6,4,5)] 2(5) by simp
  ultimately show ?case using s(3) by (simp add: K s(7) [rule_format] map_of_entries_store del: tree_size.simps)
next
  case (3 k args)
  have K: "is_index (key_named (Member k)) = False" by (simp add: key_named_def)
  have S: "tree_subscripts (Member k # path_accesses args) t = Inr t'" "case key_named (Member k) of IndexKey i \<Rightarrow> Suc i < 2 ^ 32 | _ \<Rightarrow> True"
    using 3(2) by (simp_all add: key_named_def)
  from make_step [OF S(1) 3(3,4) S(2), unfolded K] obtain es w u1 where "map_keys False es" "entries_ok es"
      and s: "map_of es (key_named (Member k)) = Some w" "sorted_tree w" "indices_ok w" "tree_subscripts (path_accesses args) w = Inr u1"
      "\<forall>ks u. replace t' (key_named (Member k) # ks) u = TMap False (entries_store (key_named (Member k)) (replace u1 ks u) es)" .
  have "tree_resolve args (replace u1 (map key_named (path_accesses args)) u) = Some u" using 3(1) [OF s(4,2,3)] 3(5) by simp
  then show ?case using s(1) by (simp add: s(5) [rule_format] map_of_entries_store)
qed simp_all

text \<open>
  What \<open>Path::make\<close> makes is what \<open>Path::resolve\<close> finds: after \<open>path.make(x) = y\<close> the path leads from \<open>x\<close> to a value like \<open>y\<close>. Left out is
  the largest index of an array, with which its size wraps around to zero.
\<close>

lemma path_make_resolve:
  assumes "represents m \<sigma>" "\<sigma> x = Some t" "\<sigma> y = Some u" "x \<noteq> y" "indices_ok t" "list_all arg_ok args"
    and "mem_bind (Path_make args (Variable x)) (\<lambda>pl. assign_place pl (Variable y)) m = Some (Inr (), m')"
  shows "\<exists>v w B. variables m' x = Some v \<and> Path_resolve args v m' = Some (Inr (Some w), m') \<and> owns (cells m') w u B"
proof -
  let ?c = "Assign (x, path_accesses args) (y, [])" and ?ks = "map key_named (path_accesses args)"
  have run: "exec ?c m = Some (Inr (), m')"
    using assms(7) by (simp add: lvalue_place_def Path_make_subscripts)
  have "scoped ?c \<sigma>" using assms(2,3) by simp
  with assms(1) obtain \<sigma>' where s: "spec ?c \<sigma> = Inr \<sigma>'" "represents m' \<sigma>'" by (cases rule: exec_outcome) (use run in auto)
  then obtain t' where t': "tree_subscripts (path_accesses args) t = Inr t'" "\<sigma>' x = Some (replace t' ?ks u)"
    using assms(2-4) by (auto simp: bind_result_Inr_iff resolve_lvalue_def put_def look_def keys_def split: if_splits)
  from assms(1,2) have "sorted_tree t" by (metis owners_variable owns_sorted(1) represents_def represents_with_def)
  from tree_make_resolve [OF t'(1) this assms(5,6)] have r: "tree_resolve args (replace t' ?ks u) = Some u" .
  from s(2) t'(2) obtain v A where v: "variables m' x = Some v" "owns (cells m') v (replace t' ?ks u) A"
    by (metis owners_variable represents_def represents_with_def)
  from Path_resolve_run [OF v(2), of args] v(1) show ?thesis by (auto simp: r gives_def)
qed

lemma path_make_resolve_example:
  "\<exists>m m' v w B. mem_bind (Path_make [kindKey ''a'', kindIndex 2] (Variable 0)) (\<lambda>pl. assign_place pl (Variable 1)) m = Some (Inr (), m')
     \<and> variables m' 0 = Some v \<and> Path_resolve [kindKey ''a'', kindIndex 2] v m' = Some (Inr (Some w), m') \<and> owns (cells m') w (TInt 5) B"
proof -
  define m where "m = \<lparr>cells = [0 \<mapsto> Entries []], next_free = 1, out_of_memory = (\<lambda>_. False),
    variables = [0 \<mapsto> \<lparr>value_type = objectType, allocated = False, value_payload = P_map 0\<rparr>, 1 \<mapsto> Value_of_int 5]\<rparr>"
  let ?s = "[0 \<mapsto> TMap False [], 1 \<mapsto> TInt 5] :: store" and ?args = "[kindKey ''a'', kindIndex 2]"
  have "owners m ?s (\<lambda>x. if x = 0 then {0} else {}) {}"
    by (auto simp: owners_def m_def fresh_def map_keys_def Value_of_int_def initBasic_def split: if_splits)
  then have r: "represents m ?s" by (auto simp: represents_def represents_with_def)
  have "\<exists>m'. mem_bind (Path_make ?args (Variable 0)) (\<lambda>pl. assign_place pl (Variable 1)) m = Some (Inr (), m')"
    by (simp add: memory_defs m_def)
  then obtain m' where m': "mem_bind (Path_make ?args (Variable 0)) (\<lambda>pl. assign_place pl (Variable 1)) m = Some (Inr (), m')" by blast
  have "\<exists>v w B. variables m' 0 = Some v \<and> Path_resolve ?args v m' = Some (Inr (Some w), m') \<and> owns (cells m') w (TInt 5) B"
    using path_make_resolve [OF r, of 0 "TMap False []" 1 "TInt 5" ?args m'] m' by (simp add: arg_ok_def)
  with m' show ?thesis by blast
qed

section \<open>Values without holes\<close>

text \<open>For the values of the other theories this is the \<open>resolve\<close> of \<open>Json_Path\<close>.\<close>

lemma map_of_elements_tree: "map_of (elements_tree j vs) (IndexKey i) = (if j \<le> i \<and> i < j + length vs then Some (value_tree (vs ! (i - j))) else None)"
  by (induction vs arbitrary: j) (auto simp: nth_Cons' Suc_le_eq less_Suc_eq_le)

lemma map_of_members_tree: "map_of (members_tree ms) (StringKey k) = map_option value_tree (members_find k ms)"
  by (induction ms) (auto simp: members_find_def)

lemma elements_tree_nil [simp]: "elements_tree j vs = [] \<longleftrightarrow> vs = []"
  by (cases vs) auto

lemma last_elements_tree: "vs \<noteq> [] \<Longrightarrow> fst (last (elements_tree j vs)) = IndexKey (j + length vs - 1)"
  by (induction vs arbitrary: j) auto

lemma tree_size_array: "length vs < 2 ^ 32 \<Longrightarrow> tree_size (TMap True (elements_tree 0 vs)) = length vs"
  using last_elements_tree [of vs 0] by (cases "vs = []") auto

fun arrays_fit :: "Value \<Rightarrow> bool" where
  "arrays_fit (arrayValue vs) = (length vs < 2 ^ 32 \<and> list_all arrays_fit vs)"
| "arrays_fit (objectValue ms) = list_all (\<lambda>m. arrays_fit (snd m)) ms"
| "arrays_fit v = True"

lemma tree_resolve_value:
  assumes "arrays_fit v" "list_all (\<lambda>arg. case arg of kindKey k \<Rightarrow> length k < 2 ^ 30 | _ \<Rightarrow> True) args"
  shows "tree_resolve args (value_tree v) = map_option value_tree (resolve_node args v)"
  using assms
proof (induction args v rule: resolve_node.induct)
  case (2 i args node)
  show ?case
  proof (cases "\<exists>vs. node = arrayValue vs")
    case True
    then obtain vs where node: "node = arrayValue vs" by blast
    have fit: "length vs < 2 ^ 32" "list_all arrays_fit vs" using 2(2) node by auto
    have "tree_resolve args (value_tree (vs ! i)) = map_option value_tree (resolve_node args (vs ! i))" if "i < length vs"
      using 2(1) [OF node] 2(3) fit(2) that by (simp add: node Value_size_def list_all_length [of arrays_fit])
    then show ?thesis by (simp add: node tree_size_array [OF fit(1)] map_of_elements_tree Value_size_def del: tree_size.simps)
  next
    case False
    then show ?thesis by (cases node) auto
  qed
next
  case (3 k args node)
  show ?case
  proof (cases "\<exists>ms. node = objectValue ms")
    case True
    then obtain ms where node: "node = objectValue ms" by blast
    have k: "key_named (Member k) = StringKey k" using 3(3) by (simp add: key_named_def)
    have "tree_resolve args (value_tree v) = map_option value_tree (resolve_node args v)" if v: "members_find k ms = Some v" for v
    proof (rule 3(1) [OF node v])
      show "arrays_fit v" using 3(2) v map_of_SomeD [of ms k v] by (auto simp: node members_find_def list_all_iff)
    qed (use 3(3) in simp)
    then show ?thesis by (simp add: node k map_of_members_tree split: option.split)
  next
    case False
    then show ?thesis by (cases node) auto
  qed
qed simp_all

end
