(* ===== verification/Face_Service.thy ===== *)
theory Face_Service
  imports Base64_Cpp Json_Wellformed Webcc_Server
begin

text \<open>
  The program itself: \<open>FaceDetectionService\<close>, \<open>DB\<close> and \<open>facedetector\<close>. The service answers a POST of a JSON
  document that holds an identifier and an image in base 64 with the faces that OpenCV finds in the
  image; started with a path instead of \<open>server\<close>, the program looks for faces in one file and stores what
  it finds in a database. OpenCV and the database connection are arguments. \<open>Sleep\<close> does nothing but wait
  and is left out; \<open>main\<close> passes zero seconds to it.
\<close>

section \<open>OpenCV\<close>

text \<open>\<open>cv::Rect\<close>, with its 32-bit integers.\<close>

record Rect =
  rect_x :: "32 word"
  rect_y :: "32 word"
  rect_width :: "32 word"
  rect_height :: "32 word"

text \<open>
  The calls that the program makes: an image is of type \<open>'m\<close>, a loaded cascade of type \<open>'k\<close>. Every function
  that reads an image may throw.
\<close>

record ('m, 'k) opencv =
  Mat_default :: 'm
  Mat_empty :: "'m \<Rightarrow> bool"
  Mat_cols :: "'m \<Rightarrow> 32 word"
  Mat_rows :: "'m \<Rightarrow> 32 word"
  Mat_crop :: "'m \<Rightarrow> Rect \<Rightarrow> 'm result"
  imdecode :: "string \<Rightarrow> 'm result"
  imwrite_error :: "string \<Rightarrow> 'm \<Rightarrow> cxx_exn option"
  imread :: "string \<Rightarrow> 'm result"
  cvtColor :: "'m \<Rightarrow> 'm result"
  equalizeHist :: "'m \<Rightarrow> 'm result"
  cascade_load :: "string \<Rightarrow> 'k"
  cascade_empty :: "'k \<Rightarrow> bool"
  detectMultiScale :: "'k \<Rightarrow> 'm \<Rightarrow> Rect list result"

section \<open>Images and JSON\<close>

record 'm Image =
  img_faceId :: string
  img_matInput :: 'm

definition make_Image :: "('m, 'k) opencv \<Rightarrow> string \<Rightarrow> 'm Image" where
  "make_Image cv faceId = \<lparr>img_faceId = faceId, img_matInput = Mat_default cv\<rparr>"

definition getFaceId :: "'m Image \<Rightarrow> string" where
  "getFaceId img = img_faceId img"

text \<open>
  The reader returns on every text; the branch for a reader that does not is never taken
  (\<open>StringToJson_returns\<close> below). What was read before an error stays in \<open>json\<close>.
\<close>

definition StringToJson :: "c_double \<Rightarrow> string \<Rightarrow> Value result" where
  "StringToJson D s =
     (case parseFromStream D s nullValue of
        None \<Rightarrow> Inl (RuntimeError ''no result'')
      | Some r \<Rightarrow> bind_result r (\<lambda>(ok, json). Inr json))"

text \<open>\<open>junk\<close> is what the uninitialised array of \<open>base64_decode\<close> holds.\<close>

definition setImageData :: "('m, 'k) opencv \<Rightarrow> uchar list \<Rightarrow> string \<Rightarrow> 'm Image \<Rightarrow> 'm Image result" where
  "setImageData cv junk sImageDataBase64 img =
     (let sImageData = base64_decode junk sImageDataBase64
      in bind_result (imdecode cv sImageData) (\<lambda>m. Inr (img\<lparr>img_matInput := m\<rparr>)))"

definition JsonToImage :: "('m, 'k) opencv \<Rightarrow> c_double \<Rightarrow> uchar list \<Rightarrow> Value \<Rightarrow> 'm Image result" where
  "JsonToImage cv D junk json =
     bind_result (Value_member ''faceId'' json) (\<lambda>v.
     bind_result (asString D v) (\<lambda>faceId.
     let pImage = make_Image cv faceId
     in bind_result (Value_member ''imageData'' json) (\<lambda>v.
        if \<not> isNull v then bind_result (asString D v) (\<lambda>s. setImageData cv junk s pImage)
        else Inr pImage)))"

definition JsonStringToImage :: "('m, 'k) opencv \<Rightarrow> c_double \<Rightarrow> uchar list \<Rightarrow> string \<Rightarrow> 'm Image option result" where
  "JsonStringToImage cv D junk sJson =
     bind_result (StringToJson D sJson) (\<lambda>json.
     if isNull json then Inr None
     else bind_result (JsonToImage cv D junk json) (\<lambda>pImage. Inr (Some pImage)))"

definition JsonToString :: "c_double \<Rightarrow> Value \<Rightarrow> string" where
  "JsonToString D json = writeString D json"

definition faceDetect :: "('m, 'k) opencv \<Rightarrow> 'k \<Rightarrow> 'm Image \<Rightarrow> ('m Image \<times> Rect list) result" where
  "faceDetect cv cascade img =
     (if Mat_empty cv (img_matInput img) then Inr (img, [])
      else
        bind_result (equalizeHist cv (img_matInput img)) (\<lambda>m.
        bind_result (detectMultiScale cv cascade m) (\<lambda>vFaces. Inr (img\<lparr>img_matInput := m\<rparr>, vFaces))))"

section \<open>The service\<close>

text \<open>The body of the loop of \<open>Post\<close>: a face as an object, appended to the member \<open>faces\<close>.\<close>

definition append_member :: "string \<Rightarrow> Value \<Rightarrow> Value \<Rightarrow> Value result" where
  "append_member key w json =
     bind_result (resolveReference key json) (\<lambda>ms.
     bind_result (append_value w (case members_find key ms of None \<Rightarrow> nullValue | Some v \<Rightarrow> v)) (\<lambda>v.
     Inr (objectValue (members_store key v ms))))"

definition jsonFace :: "Rect \<Rightarrow> Value result" where
  "jsonFace face =
     bind_result (set_member ''width'' (intValue (sint (rect_width face))) nullValue) (\<lambda>v.
     bind_result (set_member ''height'' (intValue (sint (rect_height face))) v) (\<lambda>v.
     bind_result (set_member ''x'' (intValue (sint (rect_x face))) v) (\<lambda>v.
     set_member ''y'' (intValue (sint (rect_y face))) v)))"

fun Post_loop :: "Rect list \<Rightarrow> Value \<Rightarrow> Value result" where
  "Post_loop [] json = Inr json"
| "Post_loop (face # vFaces) json =
     bind_result (jsonFace face) (\<lambda>v.
     bind_result (append_member ''faces'' v json) (\<lambda>json. Post_loop vFaces json))"

definition Post :: "('m, 'k) opencv \<Rightarrow> c_double \<Rightarrow> uchar list \<Rightarrow> 'k \<Rightarrow> string \<Rightarrow> RestResponse \<Rightarrow> RestResponse result" where
  "Post cv D junk cascade sRequestContent rest_response =
     (if sRequestContent = [] then Inr rest_response
      else
        bind_result (JsonStringToImage cv D junk sRequestContent) (\<lambda>found.
        case found of
          None \<Rightarrow> Inr (rest_response\<lparr>rr_status := status_code kBadRequest\<rparr>)
        | Some pImage \<Rightarrow>
            bind_result (set_member ''faceId'' (stringValue (getFaceId pImage)) nullValue) (\<lambda>json.
            bind_result (set_member ''faces'' (arrayValue []) json) (\<lambda>json.
            bind_result (faceDetect cv cascade pImage) (\<lambda>(pImage, vFaces).
            bind_result (Post_loop vFaces json) (\<lambda>json.
            Inr (rest_response\<lparr>rr_content := JsonToString D json, rr_media_type := kApplicationJson,
              rr_charset := ''utf-8'', rr_status := status_code kCreated\<rparr>)))))))"

definition Get :: "c_double \<Rightarrow> UrlQuery \<Rightarrow> RestResponse \<Rightarrow> RestResponse result" where
  "Get D query rest_response =
     Inr (rest_response\<lparr>rr_content := JsonToString D (arrayValue []), rr_media_type := kApplicationJson,
       rr_charset := ''utf-8'', rr_status := status_code kOK\<rparr>)"

definition FaceDetectionService :: "('m, 'k) opencv \<Rightarrow> c_double \<Rightarrow> uchar list \<Rightarrow> 'k \<Rightarrow> RestService" where
  "FaceDetectionService cv D junk cascade = RestListService_Handle (Get D) (Post cv D junk cascade)"

section \<open>The database\<close>

text \<open>
  The members of \<open>DB\<close> that are used. \<open>_stmt\<close> is set by the constructor only if no call before it throws;
  otherwise the exception is caught and printed and the pointer keeps what the memory held.
\<close>

record DB =
  db_bFaceFound :: bool
  db_iFaceWidth :: "32 word"
  db_iFaceHeight :: "32 word"
  db_stmt :: bool

text \<open>What a run of the program does to the outside.\<close>

datatype 'm action =
    Print string
  | WriteImage string 'm
  | ExecuteUpdate string

text \<open>The constructor; the argument is the report that is printed when a call of it throws.\<close>

definition make_DB :: "string option \<Rightarrow> 'm action list \<times> DB" where
  "make_DB connect_error =
     (let db = \<lparr>db_bFaceFound = False, db_iFaceWidth = - 1, db_iFaceHeight = - 1, db_stmt = False\<rparr>
      in case connect_error of
           None \<Rightarrow> ([], db\<lparr>db_stmt := True\<rparr>)
         | Some report \<Rightarrow> ([Print report], db))"

definition sSQLUpdate :: "string \<Rightarrow> string \<Rightarrow> string \<Rightarrow> string \<Rightarrow> string" where
  "sSQLUpdate sFaceID sFaceFound sFaceWidth sFaceHeight =
     ''UPDATE fimage64s SET faceFound = '' @ sFaceFound @ '' , faceWidth ='' @ sFaceWidth
     @ '', faceHeight='' @ sFaceHeight @ '' WHERE ID = '' @ sFaceID @ '';''"

text \<open>
  How a run ends. \<open>Undefined\<close> stands for behaviour that the language does not define: a string from a null
  pointer, a call through an uninitialised one.
\<close>

datatype outcome =
    Exit int
  | Uncaught cxx_exn
  | Undefined
  | Serving nat Acceptor Server "ServiceItem list"

text \<open>\<open>updateFaceInfo\<close>: what it does, and how the run ends if it does not come back.\<close>

definition updateFaceInfo ::
  "(string \<Rightarrow> cxx_exn option) \<Rightarrow> DB \<Rightarrow> string \<Rightarrow> string \<Rightarrow> string \<Rightarrow> string \<Rightarrow> 'm action list \<times> outcome option" where
  "updateFaceInfo sql_error db sFaceID sFaceFound sFaceWidth sFaceHeight =
     (let sql = sSQLUpdate sFaceID sFaceFound sFaceWidth sFaceHeight; out = [Print (''sSQLUpdate'' @ sql)]
      in if \<not> db_stmt db then (out, Some Undefined)
         else (case sql_error sql of
                 Some e \<Rightarrow> (out, Some (Uncaught e))
               | None \<Rightarrow> (out @ [ExecuteUpdate sql], None)))"

section \<open>The program\<close>

text \<open>Writing an \<open>int\<close> to a \<open>stringstream\<close>.\<close>

definition int_to_string :: "32 word \<Rightarrow> string" where
  "int_to_string w = (if sint w < 0 then CHR ''-'' # to_string (nat (- sint w)) else to_string (nat (sint w)))"

text \<open>The loop over the faces of a file.\<close>

fun file_loop ::
  "('m, 'k) opencv \<Rightarrow> (string \<Rightarrow> cxx_exn option) \<Rightarrow> DB \<Rightarrow> string \<Rightarrow> string \<Rightarrow> 'm \<Rightarrow> Rect list \<Rightarrow> 'm action list \<times> outcome option" where
  "file_loop cv sql_error db sFaceId sFaceFilePath mInput [] = ([], None)"
| "file_loop cv sql_error db sFaceId sFaceFilePath mInput (face # faces) =
     (case Mat_crop cv mInput face of
        Inl e \<Rightarrow> ([], Some (Uncaught e))
      | Inr mCroppedFace \<Rightarrow>
          if imwrite_error cv sFaceFilePath mCroppedFace \<noteq> None then
            ([], map_option Uncaught (imwrite_error cv sFaceFilePath mCroppedFace))
          else
          let (acts, stop) = updateFaceInfo sql_error db sFaceId ''true''
                (int_to_string (Mat_cols cv mCroppedFace)) (int_to_string (Mat_rows cv mCroppedFace));
              acts = WriteImage sFaceFilePath mCroppedFace # acts
          in if stop \<noteq> None then (acts, stop)
             else
               let (acts', stop) = file_loop cv sql_error db sFaceId sFaceFilePath mInput faces
               in (acts @ acts', stop))"

definition sFixedPath :: string where
  "sFixedPath = ''/home/jednipat/works/devops_workshop/facedetection_webapp/public''"

definition sFaceFilePath :: "string \<Rightarrow> string" where
  "sFaceFilePath sFilePath = sFixedPath @ (case find_str ''image.png'' sFilePath of None \<Rightarrow> sFilePath | Some n \<Rightarrow> take n sFilePath) @ ''face.jpg''"

text \<open>The branch of \<open>main\<close> for a file.\<close>

definition main_file ::
  "('m, 'k) opencv \<Rightarrow> string option \<Rightarrow> (string \<Rightarrow> cxx_exn option) \<Rightarrow> string \<Rightarrow> string \<Rightarrow> 'm action list \<times> outcome" where
  "main_file cv connect_error sql_error sFilePath sFaceId =
     (let sFullPath = sFixedPath @ sFilePath;
          out = [Print (''sFaceFilePath: '' @ sFaceFilePath sFilePath)];
          (acts, db) = make_DB connect_error;
          out = out @ acts;
          face_cascade = cascade_load cv ''/home/jednipat/works/devops_workshop/facedetection_va/haarcascade_frontalface_alt.xml''
      in case imread cv sFullPath of
           Inl e \<Rightarrow> (out, Uncaught e)
         | Inr mInput \<Rightarrow>
             (case bind_result (cvtColor cv mInput) (\<lambda>m. bind_result (equalizeHist cv m) (detectMultiScale cv face_cascade)) of
                Inl e \<Rightarrow> (out, Uncaught e)
              | Inr faces \<Rightarrow>
                  (case file_loop cv sql_error db sFaceId (sFaceFilePath sFilePath) mInput faces of
                     (acts, Some stop) \<Rightarrow> (out @ acts, stop)
                   | (acts, None) \<Rightarrow> (out @ acts @ [Print (to_string (length faces))], Exit 0))))"

text \<open>
  The branch for the server: the exceptions of the constructor are caught, and a \<open>Run\<close> that returns at once
  leads to the end of \<open>main\<close>. A server that runs is its port, its acceptor, its state and its services.
\<close>

definition main_server ::
  "('m, 'k) opencv \<Rightarrow> c_double \<Rightarrow> uchar list \<Rightarrow> (string \<Rightarrow> regex option) \<Rightarrow> acceptor_calls \<Rightarrow> outcome" where
  "main_server cv D junk compile sys =
     (let port = 444; worker_count = 2;
          face_cascade = cascade_load cv ''/home/dev/devops_workshop/facedetection_va/haarcascade_frontalface_alt.xml''
      in if cascade_empty cv face_cascade then Exit 1
         else
           (case make_Server sys of
              Inl e \<Rightarrow> Exit 1
            | Inr acceptor \<Rightarrow>
                let items = snd (AddService compile (FaceDetectionService cv D junk face_cascade) ''/images'' False [])
                in (case Server_Run_open acceptor worker_count of
                      None \<Rightarrow> Exit 0
                    | Some server \<Rightarrow> Serving port acceptor server items)))"

text \<open>\<open>main\<close>; \<open>argv\<close> is the list of arguments, \<open>argc\<close> its length.\<close>

definition facedetector_main ::
  "('m, 'k) opencv \<Rightarrow> c_double \<Rightarrow> uchar list \<Rightarrow> (string \<Rightarrow> regex option) \<Rightarrow> acceptor_calls
    \<Rightarrow> string option \<Rightarrow> (string \<Rightarrow> cxx_exn option) \<Rightarrow> string list \<Rightarrow> 'm action list \<times> outcome" where
  "facedetector_main cv D junk compile sys connect_error sql_error argv =
     (if length argv \<le> 1 then ([], Undefined)
      else if argv ! 1 = ''server'' then ([], main_server cv D junk compile sys)
      else if length argv \<le> 2 then ([], Undefined)
      else main_file cv connect_error sql_error (argv ! 1) (argv ! 2))"

section \<open>What the service answers\<close>

text \<open>The object of a face and the document of an answer, with their members in the order of the keys.\<close>

definition face_value :: "Rect \<Rightarrow> Value" where
  "face_value face = objectValue
     [(''height'', intValue (sint (rect_height face))), (''width'', intValue (sint (rect_width face))),
      (''x'', intValue (sint (rect_x face))), (''y'', intValue (sint (rect_y face)))]"

definition answer_value :: "string \<Rightarrow> Rect list \<Rightarrow> Value" where
  "answer_value faceId faces = objectValue [(''faceId'', stringValue faceId), (''faces'', arrayValue (map face_value faces))]"

lemma jsonFace_value: "jsonFace face = Inr (face_value face)"
  by (simp add: jsonFace_def face_value_def set_member_def resolveReference_def)

lemma append_member_faces:
  "append_member ''faces'' w (objectValue [(''faceId'', v), (''faces'', arrayValue vs)])
     = Inr (objectValue [(''faceId'', v), (''faces'', arrayValue (vs @ [w]))])"
  by (simp add: append_member_def resolveReference_def members_find_def append_value_def)

lemma Post_loop_faces:
  "Post_loop faces (objectValue [(''faceId'', v), (''faces'', arrayValue vs)])
     = Inr (objectValue [(''faceId'', v), (''faces'', arrayValue (vs @ map face_value faces))])"
  by (induction faces arbitrary: vs) (simp_all add: jsonFace_value append_member_faces)

text \<open>The answer, over the image that the document holds.\<close>

lemma Post_image:
  assumes "s \<noteq> []" "JsonStringToImage cv D junk s = Inr (Some img)" "faceDetect cv cascade img = Inr (img', faces)"
  shows "Post cv D junk cascade s rest_response = Inr (rest_response\<lparr>rr_content := writeString D (answer_value (img_faceId img) faces),
    rr_media_type := kApplicationJson, rr_charset := ''utf-8'', rr_status := status_code kCreated\<rparr>)"
  using assms
  by (simp add: Post_def set_member_def resolveReference_def getFaceId_def Post_loop_faces answer_value_def JsonToString_def)

lemma StringToJson_returns:
  "\<exists>r. parseFromStream D s nullValue = Some r \<and> StringToJson D s = bind_result r (\<lambda>(ok, json). Inr json)"
  using OurReader_parse_returns [of D s nullValue] by (auto simp: StringToJson_def parseFromStream_def)

lemma sint_range: "- (2 ^ 31) \<le> sint (w :: 32 word) \<and> sint w \<le> 2 ^ 31 - 1"
  using sint_range_size [of w] by (simp add: word_size)

lemma answer_value_ok: "utf8_text faceId \<Longrightarrow> 3 \<le> n \<Longrightarrow> json_ok D n (answer_value faceId faces)"
proof -
  assume i: "utf8_text faceId" "3 \<le> n"
  have keys: "utf8_text ''faceId''" "utf8_text ''faces''" "utf8_text ''height''" "utf8_text ''width''" "utf8_text ''x''" "utf8_text ''y''"
    by (rule utf8_text_ascii, simp)+
  have "json_ok D (n - 2) (face_value f)" for f
    using i(2) sint_range [of "rect_x f"] sint_range [of "rect_y f"] sint_range [of "rect_width f"] sint_range [of "rect_height f"]
    by (simp add: face_value_def keys)
  then have "list_all (json_ok D (n - 1 - 1)) (map face_value faces)" by (simp add: list_all_iff flip: numeral_2_eq_2)
  with i keys show ?thesis by (simp add: answer_value_def)
qed

lemma writeString_nonempty: "json_ok D 999 v \<Longrightarrow> writeString D v \<noteq> []"
  by (rule json.print_nonempty)

lemma StringToJson_written: "json_ok D 999 v \<Longrightarrow> StringToJson D (writeString D v) = Inr v"
  by (simp add: StringToJson_def json.parse_print)

text \<open>The image of a document with both members.\<close>

lemma JsonToImage_members:
  assumes "members_find ''faceId'' ms = Some (stringValue faceId)"
    and "members_find ''imageData'' ms = Some (stringValue (base64_encode [x, y, z] bytes))"
    and "imdecode cv (bytes_to_string bytes) = Inr m"
  shows "JsonToImage cv D [p, q, r, s] (objectValue ms) = Inr \<lparr>img_faceId = faceId, img_matInput = m\<rparr>"
  using assms
  by (simp add: JsonToImage_def Value_member_def Value_find_def asString_def isNull_def setImageData_def make_Image_def
    cpp_base64.decode_encode Let_def)

lemma Post_detects:
  assumes ok: "json_ok D 999 (objectValue ms)"
    and ms: "members_find ''faceId'' ms = Some (stringValue faceId)"
      "members_find ''imageData'' ms = Some (stringValue (base64_encode [x, y, z] bytes))"
    and cv: "imdecode cv (bytes_to_string bytes) = Inr m" "\<not> Mat_empty cv m" "equalizeHist cv m = Inr m'"
      "detectMultiScale cv cascade m' = Inr faces"
  shows "Post cv D [p, q, r, s] cascade (writeString D (objectValue ms)) rest_response
      = Inr (rest_response\<lparr>rr_content := writeString D (answer_value faceId faces), rr_media_type := kApplicationJson,
          rr_charset := ''utf-8'', rr_status := status_code kCreated\<rparr>)
    \<and> parseFromStream D (writeString D (answer_value faceId faces)) root = Some (Inr (True, answer_value faceId faces))"
proof -
  let ?img = "\<lparr>img_faceId = faceId, img_matInput = m\<rparr>"
  have "json_ok D 998 (stringValue faceId)"
    using ok ms(1) by (auto simp: members_find_def list_all_iff dest!: map_of_SomeD)
  then have "json_ok D 999 (answer_value faceId faces)" by (simp add: answer_value_ok)
  moreover have "JsonStringToImage cv D [p, q, r, s] (writeString D (objectValue ms)) = Inr (Some ?img)"
    using JsonToImage_members [OF ms cv(1)] by (simp add: JsonStringToImage_def StringToJson_written [OF ok] isNull_def)
  moreover have "faceDetect cv cascade ?img = Inr (?img\<lparr>img_matInput := m'\<rparr>, faces)"
    using cv by (simp add: faceDetect_def)
  ultimately show ?thesis
    using Post_image [OF writeString_nonempty [OF ok], of cv D "[p, q, r, s]" ?img cascade] by (simp add: json.parse_print)
qed

text \<open>Documents on which \<open>Post\<close> throws: a value that is neither an object nor null, or a quote and a slash.\<close>

definition throws_LogicError :: "'a result \<Rightarrow> bool" where
  "throws_LogicError r \<longleftrightarrow> (case r of Inl (LogicError msg) \<Rightarrow> True | _ \<Rightarrow> False)"

lemma Post_not_object:
  assumes "json_ok D 999 v" "v \<noteq> nullValue" "\<forall>ms. v \<noteq> objectValue ms"
  shows "throws_LogicError (Post cv D junk cascade (writeString D v) rest_response)"
proof -
  have "\<exists>msg. JsonToImage cv D junk v = Inl (LogicError msg)"
    using assms(2,3) by (cases v) (auto simp: JsonToImage_def Value_member_def Value_find_def)
  with assms writeString_nonempty [OF assms(1)] show ?thesis
    by (auto simp: throws_LogicError_def Post_def JsonStringToImage_def StringToJson_written isNull_def)
qed

lemma Post_quote: "throws_LogicError (Post cv D junk cascade (CHR 0x27 # CHR ''/'' # t) rest_response)"
  using parse_quote_throws [of D t nullValue]
  by (auto simp: throws_LogicError_def Post_def JsonStringToImage_def StringToJson_def)

section \<open>Properties of the service\<close>

text \<open>
  C3. A document with an identifier and an image in base 64 is answered with status 201 and a JSON
  document that reads back as exactly the identifier and the rectangles that the classifier found, in
  their order, whatever other members the request had and whatever the memory held.
\<close>

theorem post_detects:
  "json_ok D 999 (objectValue ms) \<Longrightarrow> members_find ''faceId'' ms = Some (stringValue faceId) \<Longrightarrow>
   members_find ''imageData'' ms = Some (stringValue (base64_encode [x, y, z] bytes)) \<Longrightarrow>
   imdecode cv (bytes_to_string bytes) = Inr m \<Longrightarrow> \<not> Mat_empty cv m \<Longrightarrow> equalizeHist cv m = Inr m' \<Longrightarrow>
   detectMultiScale cv cascade m' = Inr faces \<Longrightarrow>
   \<exists>content. Post cv D [p, q, r, s] cascade (writeString D (objectValue ms)) rest_response
       = Inr (rest_response\<lparr>rr_content := content, rr_media_type := ''application/json'', rr_charset := ''utf-8'', rr_status := 201\<rparr>)
     \<and> parseFromStream D content root = Some (Inr (True, objectValue [(''faceId'', stringValue faceId),
         (''faces'', arrayValue (map (\<lambda>f. objectValue [(''height'', intValue (sint (rect_height f))), (''width'', intValue (sint (rect_width f))),
            (''x'', intValue (sint (rect_x f))), (''y'', intValue (sint (rect_y f)))]) faces))]))"
  using Post_detects [of D ms faceId x y z bytes cv m m' cascade faces p q r s rest_response root]
  by (auto simp: answer_value_def face_value_def [abs_def] kApplicationJson_def)

text \<open>OpenCV for the concrete runs: images are texts, and a text that is not empty has one face as wide as it is long.\<close>

definition example_opencv :: "(string, unit) opencv" where
  "example_opencv = \<lparr>Mat_default = [], Mat_empty = (\<lambda>m. m = []), Mat_cols = (\<lambda>m. of_nat (length m)), Mat_rows = (\<lambda>m. 1),
     Mat_crop = (\<lambda>m f. Inr (take (unat (rect_width f)) m)), imdecode = Inr, imwrite_error = (\<lambda>p m. None), imread = Inr,
     cvtColor = Inr, equalizeHist = Inr, cascade_load = (\<lambda>p. ()), cascade_empty = (\<lambda>k. False),
     detectMultiScale = (\<lambda>k m. Inr [\<lparr>rect_x = 0, rect_y = 0, rect_width = of_nat (length m), rect_height = 1\<rparr>])\<rparr>"

definition example_double :: c_double where
  "example_double = \<lparr>scan_double = (\<lambda>s. None), stream_double = (\<lambda>s. None), print_double = (\<lambda>t p d. ''0'')\<rparr>"

definition example_calls :: acceptor_calls where
  "example_calls = \<lparr>open_fails = False, option_error = None, bind_fails = False, listen_fails = False\<rparr>"

theorem post_detects_witness:
  "\<exists>content. Post example_opencv example_double [0, 0, 0, 0] ()
       (writeString example_double (objectValue [(''faceId'', stringValue ''f1''), (''imageData'', stringValue (base64_encode [0, 0, 0] [65, 66]))]))
       (uninitialized_RestResponse 7)
     = Inr ((uninitialized_RestResponse 7)\<lparr>rr_content := content, rr_media_type := ''application/json'', rr_charset := ''utf-8'', rr_status := 201\<rparr>)
     \<and> parseFromStream example_double content nullValue = Some (Inr (True, objectValue [(''faceId'', stringValue ''f1''),
         (''faces'', arrayValue [objectValue [(''height'', intValue 1), (''width'', intValue 2), (''x'', intValue 0), (''y'', intValue 0)]])]))"
proof -
  have b: "base64_encode [0, 0, 0] [65, 66] = ''QUI=''" by code_simp
  have t: "utf8_text ''faceId''" "utf8_text ''f1''" "utf8_text ''imageData''" "utf8_text ''QUI=''"
    by (rule utf8_text_ascii, simp)+
  show ?thesis
    using post_detects [of example_double "[(''faceId'', stringValue ''f1''), (''imageData'', stringValue (base64_encode [0, 0, 0] [65, 66]))]"
        "''f1''" 0 0 0 "[65, 66]" example_opencv "bytes_to_string [65, 66]" "bytes_to_string [65, 66]" "()"
        "[\<lparr>rect_x = 0, rect_y = 0, rect_width = 2, rect_height = 1\<rparr>]" 0 0 0 0 "uninitialized_RestResponse 7" nullValue]
    by (simp add: example_opencv_def t b members_find_def bytes_to_string_def)
qed

text \<open>
  C37. A request is refused with status 400 exactly when the value that was read is null: that is what
  remains when nothing could be read, and a document that says null is refused too. Whatever else was read
  is answered with 201 if it is answered at all, whether or not the reader reported errors, and whatever
  the image data decode to; a document without image data gets an empty list of faces.
\<close>

theorem post_ignores_parse_errors:
  "doc \<noteq> [] \<Longrightarrow> parseFromStream D doc nullValue = Some (Inr (ok, v)) \<Longrightarrow>
   (v = nullValue \<longrightarrow> Post cv D junk cascade doc rest_response = Inr (rest_response\<lparr>rr_status := 400\<rparr>))
   \<and> (\<forall>reply. v \<noteq> nullValue \<longrightarrow> Post cv D junk cascade doc rest_response = Inr reply \<longrightarrow>
        rr_status reply = 201 \<and> rr_media_type reply = ''application/json'' \<and> rr_charset reply = ''utf-8'')
   \<and> (\<forall>ms faceId. v = objectValue ms \<longrightarrow>
        members_find ''faceId'' ms = Some (stringValue faceId) \<or> members_find ''faceId'' ms = None \<and> faceId = [] \<longrightarrow>
        members_find ''imageData'' ms = None \<longrightarrow> Mat_empty cv (Mat_default cv) \<longrightarrow>
        Post cv D junk cascade doc rest_response
          = Inr (rest_response\<lparr>rr_content := writeString D (answer_value faceId []), rr_media_type := ''application/json'',
              rr_charset := ''utf-8'', rr_status := 201\<rparr>))"
proof -
  assume doc: "doc \<noteq> []" and r: "parseFromStream D doc nullValue = Some (Inr (ok, v))"
  have "Post cv D junk cascade doc rest_response = Inr (rest_response\<lparr>rr_status := 400\<rparr>)" if "v = nullValue"
    using that doc r by (simp add: Post_def JsonStringToImage_def StringToJson_def isNull_def)
  moreover have "rr_status reply = 201 \<and> rr_media_type reply = ''application/json'' \<and> rr_charset reply = ''utf-8''"
    if "v \<noteq> nullValue" "Post cv D junk cascade doc rest_response = Inr reply" for reply
    using that doc r
    by (auto simp: Post_def JsonStringToImage_def StringToJson_def isNull_def kApplicationJson_def bind_result_def
      split: sum.splits prod.splits)
  moreover have "JsonStringToImage cv D junk doc = Inr (Some \<lparr>img_faceId = faceId, img_matInput = Mat_default cv\<rparr>)"
    if "v = objectValue ms" "members_find ''imageData'' ms = None"
      "members_find ''faceId'' ms = Some (stringValue faceId) \<or> members_find ''faceId'' ms = None \<and> faceId = []" for ms faceId
    using that r
    by (auto simp: JsonStringToImage_def StringToJson_def JsonToImage_def Value_member_def Value_find_def isNull_def
      asString_def make_Image_def)
  then have "Post cv D junk cascade doc rest_response
      = Inr (rest_response\<lparr>rr_content := writeString D (answer_value faceId []), rr_media_type := ''application/json'',
          rr_charset := ''utf-8'', rr_status := 201\<rparr>)"
    if "v = objectValue ms" "members_find ''imageData'' ms = None" "Mat_empty cv (Mat_default cv)"
      "members_find ''faceId'' ms = Some (stringValue faceId) \<or> members_find ''faceId'' ms = None \<and> faceId = []" for ms faceId
    using that doc Post_image [of doc cv D junk "\<lparr>img_faceId = faceId, img_matInput = Mat_default cv\<rparr>" cascade _ "[]" rest_response]
    by (auto simp: faceDetect_def kApplicationJson_def)
  ultimately show ?thesis by blast
qed

theorem post_ignores_parse_errors_witness:
  "parseFromStream example_double ''{'' nullValue = Some (Inr (False, objectValue []))
   \<and> Post example_opencv example_double [0, 0, 0, 0] () ''{'' (uninitialized_RestResponse 7)
     = Inr ((uninitialized_RestResponse 7)\<lparr>rr_content := writeString example_double (answer_value [] []), rr_media_type := ''application/json'',
         rr_charset := ''utf-8'', rr_status := 201\<rparr>)
   \<and> parseFromStream example_double ''null'' nullValue = Some (Inr (True, nullValue))
   \<and> Post example_opencv example_double [0, 0, 0, 0] () ''null'' (uninitialized_RestResponse 7)
     = Inr ((uninitialized_RestResponse 7)\<lparr>rr_status := 400\<rparr>)"
proof -
  have p: "parseFromStream example_double ''{'' nullValue = Some (Inr (False, objectValue []))"
      "parseFromStream example_double ''null'' nullValue = Some (Inr (True, nullValue))" by code_simp+
  show ?thesis
    using post_ignores_parse_errors [OF _ p(1), of example_opencv "[0, 0, 0, 0]" "()" "uninitialized_RestResponse 7"]
      post_ignores_parse_errors [OF _ p(2), of example_opencv "[0, 0, 0, 0]" "()" "uninitialized_RestResponse 7"] p
    by (simp add: members_find_def example_opencv_def)
qed

section \<open>Properties of the program\<close>

text \<open>What a face of a file leads to, and what a file holds in the end.\<close>

definition face_update :: "('m, 'k) opencv \<Rightarrow> string \<Rightarrow> 'm \<Rightarrow> string" where
  "face_update cv sFaceId m = sSQLUpdate sFaceId ''true'' (int_to_string (Mat_cols cv m)) (int_to_string (Mat_rows cv m))"

definition face_actions :: "('m, 'k) opencv \<Rightarrow> string \<Rightarrow> string \<Rightarrow> 'm \<Rightarrow> 'm action list" where
  "face_actions cv sFaceId path m =
     [WriteImage path m, Print (''sSQLUpdate'' @ face_update cv sFaceId m), ExecuteUpdate (face_update cv sFaceId m)]"

fun file_content :: "string \<Rightarrow> 'm action list \<Rightarrow> 'm option \<Rightarrow> 'm option" where
  "file_content path [] old = old"
| "file_content path (WriteImage p m # acts) old = file_content path acts (if p = path then Some m else old)"
| "file_content path (_ # acts) old = file_content path acts old"

lemma file_content_append: "file_content path (as @ bs) old = file_content path bs (file_content path as old)"
  by (induction path as old rule: file_content.induct) auto

lemma file_content_faces:
  "file_content path (concat (map (\<lambda>f. face_actions cv sFaceId path (crop f)) faces)) old
     = (if faces = [] then old else Some (crop (last faces)))"
  by (induction faces arbitrary: old) (auto simp: face_actions_def)

lemma file_loop_faces:
  assumes "\<forall>f \<in> set faces. Mat_crop cv mInput f = Inr (crop f)" "\<forall>m. imwrite_error cv path m = None" "\<forall>sql. sql_error sql = None"
  shows "file_loop cv sql_error db sFaceId path mInput faces =
    (if db_stmt db then (concat (map (\<lambda>f. face_actions cv sFaceId path (crop f)) faces), None)
     else if faces = [] then ([], None)
     else ([WriteImage path (crop (hd faces)), Print (''sSQLUpdate'' @ face_update cv sFaceId (crop (hd faces)))], Some Undefined))"
  using assms(1)
proof (induction faces)
  case (Cons f faces)
  with assms(2,3) show ?case
    by (auto simp: updateFaceInfo_def face_actions_def face_update_def Let_def)
qed simp

text \<open>
  C38. Started on a file, the program stores every face that the classifier finds under one and the same
  name and updates the same row for each, so that the file and the row are left with the last face; if no
  face is found it does neither. When the database cannot be reached, the first face makes the program call
  through an uninitialised pointer.
\<close>

theorem file_mode_keeps_last_face:
  assumes "path \<noteq> ''server''" "imread cv (sFixedPath @ path) = Inr mInput"
    and "bind_result (cvtColor cv mInput) (\<lambda>m. bind_result (equalizeHist cv m) (detectMultiScale cv
          (cascade_load cv ''/home/jednipat/works/devops_workshop/facedetection_va/haarcascade_frontalface_alt.xml''))) = Inr faces"
    and "\<forall>f \<in> set faces. Mat_crop cv mInput f = Inr (crop f)" "\<forall>m. imwrite_error cv (sFaceFilePath path) m = None"
      "\<forall>sql. sql_error sql = None"
  shows "facedetector_main cv D junk compile sys None sql_error [prog, path, faceId] =
      (Print (''sFaceFilePath: '' @ sFaceFilePath path) # concat (map (\<lambda>f. face_actions cv faceId (sFaceFilePath path) (crop f)) faces)
         @ [Print (to_string (length faces))], Exit 0)
    \<and> file_content (sFaceFilePath path) (fst (facedetector_main cv D junk compile sys None sql_error [prog, path, faceId])) old
      = (if faces = [] then old else Some (crop (last faces)))
    \<and> (faces \<noteq> [] \<longrightarrow> snd (facedetector_main cv D junk compile sys (Some report) sql_error [prog, path, faceId]) = Undefined)"
proof -
  have "facedetector_main cv D junk compile sys None sql_error [prog, path, faceId] =
      (Print (''sFaceFilePath: '' @ sFaceFilePath path) # concat (map (\<lambda>f. face_actions cv faceId (sFaceFilePath path) (crop f)) faces)
         @ [Print (to_string (length faces))], Exit 0)"
    using assms by (simp add: facedetector_main_def main_file_def make_DB_def Let_def file_loop_faces [OF assms(4-6)])
  moreover have "snd (facedetector_main cv D junk compile sys (Some report) sql_error [prog, path, faceId]) = Undefined" if "faces \<noteq> []"
    using assms that by (simp add: facedetector_main_def main_file_def make_DB_def Let_def file_loop_faces [OF assms(4-6)])
  ultimately show ?thesis by (simp add: file_content_append file_content_faces)
qed

theorem file_mode_keeps_last_face_witness:
  "facedetector_main example_opencv example_double [] (\<lambda>u. None) example_calls None (\<lambda>sql. None) [''facedetector'', ''/1/image.png'', ''5''] =
     ([Print (''sFaceFilePath: '' @ sFixedPath @ ''/1/face.jpg''), WriteImage (sFixedPath @ ''/1/face.jpg'') (sFixedPath @ ''/1/image.png''),
       Print ''sSQLUpdateUPDATE fimage64s SET faceFound = true , faceWidth =76, faceHeight=1 WHERE ID = 5;'',
       ExecuteUpdate ''UPDATE fimage64s SET faceFound = true , faceWidth =76, faceHeight=1 WHERE ID = 5;'', Print ''1''], Exit 0)"
proof -
  have path: "sFaceFilePath ''/1/image.png'' = sFixedPath @ ''/1/face.jpg''"
    by (simp add: sFaceFilePath_def)
  have len: "length (sFixedPath @ ''/1/image.png'') = 76" by (simp add: sFixedPath_def)
  have n: "int_to_string 76 = ''76''" "int_to_string 1 = ''1''" "to_string 1 = ''1''" by code_simp+
  show ?thesis
    using file_mode_keeps_last_face [of "''/1/image.png''" example_opencv "sFixedPath @ ''/1/image.png''"
        "[\<lparr>rect_x = 0, rect_y = 0, rect_width = 76, rect_height = 1\<rparr>]" "\<lambda>f. take (unat (rect_width f)) (sFixedPath @ ''/1/image.png'')"
        "\<lambda>sql. None" example_double "[]" "\<lambda>u. None" example_calls "''facedetector''" "''5''" None "[]"] n len
    by (simp add: path example_opencv_def face_actions_def face_update_def sSQLUpdate_def)
qed

text \<open>
  How the server starts: without a classifier the program ends with 1, but an acceptor that cannot be
  opened ends it with 0, as if it had run; an address that is already taken goes unnoticed, because the
  acceptor stays open after a failed bind: the server runs and does not listen.
\<close>

lemma server_start:
  "\<not> cascade_empty cv (cascade_load cv ''/home/dev/devops_workshop/facedetection_va/haarcascade_frontalface_alt.xml'') \<Longrightarrow>
   (open_fails sys \<longrightarrow> main_server cv D junk compile sys = Exit 0)
   \<and> (\<not> open_fails sys \<longrightarrow> option_error sys \<noteq> None \<longrightarrow> main_server cv D junk compile sys = Exit 1)
   \<and> (\<not> open_fails sys \<longrightarrow> option_error sys = None \<longrightarrow>
        (\<exists>acceptor items. main_server cv D junk compile sys = Serving 444 acceptor (Server_Run 2) items
           \<and> (listening acceptor \<longleftrightarrow> \<not> bind_fails sys \<and> \<not> listen_fails sys)
           \<and> (\<forall>url ms. fst (GetService url items ms) \<noteq> None \<longleftrightarrow> url = ''/images'')))"
  by (auto simp: main_server_def make_Server_def Server_Run_open_def AddService_def Let_def split: option.splits)


end
