(* ===== verification/Spec2Isabelle.thy ===== *)
theory Spec2Isabelle
  imports Base64_Cpp Webcc_Base64 Webcc_Roundtrip Webcc_Gzip Webcc_Exchange Webcc_Client Json_Reader_Copies Json_Styled_Writers Json_Arrays Json_Path_Memory Face_Service
begin

text \<open>
  \<^bold>\<open>Verification of the face detection service\<close> (\<open>src/facedetection_va\<close>).

  \<^bold>\<open>The program.\<close> \<open>facedetector\<close> is an HTTP server for one resource, \<open>/images\<close>. A client posts a JSON document
  with an identifier and a picture in base 64; the server decodes both, lets OpenCV look for faces and
  answers with a JSON document that lists them. Started with a path instead of the word \<open>server\<close> it looks for
  faces in one file and records them in a MySQL table. The program is written on two libraries that the
  repository carries as source: \<open>webcc\<close> (HTTP client and server over Boost.Asio) and the one-file edition of
  \<open>jsoncpp\<close>, and on \<open>base64.cpp\<close>.

  \<^bold>\<open>How the parts interact.\<close> Bytes arrive at a \<open>Connection\<close>, whose \<open>OnRead\<close> feeds them to a \<open>RequestParser\<close>; a
  finished request goes to the \<open>Queue\<close>; a worker takes it, \<open>RestRequestHandler\<close> finds the service for its path
  in the \<open>RestServiceManager\<close>, and \<open>FaceDetectionService::Post\<close> reads the JSON with \<open>Json::OurReader\<close>, decodes
  the picture with \<open>base64_decode\<close>, and writes its answer with \<open>BuiltStyledStreamWriter\<close>; \<open>SendResponse\<close> prepares the
  bytes. On the other side \<open>ClientSession\<close> keeps a pool of \<open>Client\<close>s, each of which writes a \<open>Request\<close> and feeds
  what comes back to a \<open>ResponseParser\<close> under a timer.

  \<^bold>\<open>Theories.\<close>
  \<^item> \<open>Prelude\<close>: results and exceptions (\<open>error + value\<close>, with \<^const>\<open>None\<close> for a loop that never ends), characters of
    the C locale, \<open>std::string\<close> searches, numbers as text, the documented behaviour of the Boost string
    algorithms as the locale \<open>boost_string\<close>, and the contracts \<open>codec\<close> and \<open>keyed_store\<close> that several parts fulfil.
  \<^item> \<open>Base64_Cpp\<close>: \<open>base64/base64.cpp\<close>, with its uninitialised working arrays; equivalence with RFC 4648 and
    round trip. \<open>Webcc_Base64\<close>: \<open>webcc/base64.cc\<close> with the buffers it writes to; round trip, and when the decoder
    leaves its buffer.
  \<^item> \<open>Webcc_Common\<close>: globals, headers, content types, form parts (\<open>common\<close>, \<open>globals\<close>, \<open>utility\<close>); the header list
    refines a finite map. \<open>Webcc_Url\<close>: \<open>url\<close>, percent codec, query strings. \<open>Webcc_Message\<close>: \<open>message\<close>,
    \<open>request\<close>, \<open>response\<close>, what is sent.
  \<^item> \<open>Webcc_Parser\<close>: \<open>parser\<close>, \<open>response_parser\<close>; fixed and chunked content, independence of how the bytes are cut
    into reads. \<open>Webcc_Request_Parser\<close>: \<open>request_parser\<close> with the multipart state machine, cuts and termination.
    \<open>Webcc_Roundtrip\<close>: prepared requests, plain and multipart, are read back. \<open>Webcc_Gzip\<close>: \<open>gzip\<close>, around zlib.
  \<^item> \<open>Webcc_Rest\<close>: \<open>rest_service\<close>, \<open>rest_service_manager\<close>, \<open>rest_request_handler\<close>. \<open>Webcc_Server\<close>: \<open>connection\<close>,
    \<open>connection_pool\<close>, \<open>queue\<close>, \<open>request_handler\<close>, \<open>server\<close> as a step relation of worker threads and main thread;
    a read delivers at most \<open>kBufferSize\<close> bytes, and what a connection makes of a request that arrives in many
    reads; exclusive use of connections, completion of \<open>Stop\<close>. \<open>Webcc_Exchange\<close>: what the server promises on each connection, and
    that the server implements it (contract \<open>simulation\<close>).
  \<^item> \<open>Webcc_Client\<close>: \<open>request_builder\<close>, \<open>client\<close>, \<open>client_pool\<close>, \<open>client_session\<close>; the client reads what the
    server sends, timeouts, and the pool, a \<open>std::map\<close> by the \<open>operator<\<close> of its keys, with its invariant.
  \<^item> \<open>Json_Value\<close>, \<open>Json_Reader\<close>, \<open>Json_Writer\<close>: \<open>json/jsoncpp.cpp\<close> as the service uses it, with the default settings;
    \<open>Json_Strings\<close> (UTF-8 and escapes), \<open>Json_Renders\<close> (which texts render a value, and that the reader reads all of
    them; the contract \<open>json_printer\<close>), \<open>Json_Roundtrip\<close> (the reader reads what the writer writes), \<open>Json_Wellformed\<close>
    (what every value that was read satisfies, and documents on which the reader throws).
  \<^item> \<open>Json_Settings\<close>: the two builders, their defaults and strict mode. \<open>Json_Dialects\<close>: \<open>OurReader\<close> and the deprecated
    \<open>Reader\<close> with every setting and the list of errors; \<open>Json_Reader_Errors\<close>: they return, they fail exactly when
    they record an error, where the errors stand, and the messages; \<open>Json_Reader_Copies\<close>: the default settings give the
    reader of \<open>Json_Reader\<close>, and how far the deprecated reader agrees, which scans doubles in a way of its own.
  \<^item> \<open>Json_Fast_Writer\<close>, \<open>Json_Styled_Writers\<close>: the other writers with all settings, their layouts as the contract
    \<open>styled_layout\<close>; whatever they write is read back. \<open>Json_Arrays\<close>: arrays as maps from indices, which refine padded lists.
    \<open>Json_Operations\<close>: types, conversions, comparison and removal of members. \<open>Json_Path\<close>: paths and their texts.
  \<^item> \<open>Json_Memory\<close>: the memory of JSON values, with strings, keys and maps in blocks of their own and allocations that may fail; which
    blocks a value owns; \<open>copy\<close> and release of values. \<open>Json_Memory_Programs\<close>: references into values, \<open>operator[]\<close>, assignments,
    moves, \<open>append\<close>, \<open>removeMember\<close>, \<open>clear\<close>, \<open>resize\<close>, programs of these on variables, and the same programs on trees.
    \<open>Json_Memory_Holes\<close>, \<open>Json_Memory_Subscripts\<close>, \<open>Json_Memory_Operations\<close>: a value with a part taken out, and what each operation
    does to the trees. \<open>Json_Memory_Safety\<close>: the contracts \<open>place_operation\<close> and
    \<open>two_place_operation\<close> of the operations; no fault, no leak, the programs on trees are implemented; and the calls that break this. \<open>Json_Path_Memory\<close>:
    \<open>Path::make\<close> and \<open>Path::resolve\<close> in memory, and that the second finds what the first makes.
  \<^item> \<open>Face_Service\<close>: \<open>FaceDetectionService.cpp\<close>, \<open>DB.cpp\<close>, \<open>facedetector.cpp\<close>.
  \<^item> this theory: the whole way of a request, and a request that ends the server.

  \<^bold>\<open>How code and model correspond.\<close> A class is a record of its members, a method a function from the state to
  the new state and its result, under the name of the method; names that two classes share carry the
  class in front. A loop is a recursive function, with its name or the suffix \<open>_loop\<close>. Exceptions
  are the left values of a sum. 64-bit sizes stay machine words wherever the code computes with them
  (\<open>kInvalidLength\<close>, chunk sizes), bytes are \<open>8 word\<close> in the codecs, rectangles are \<open>32 word\<close>. Characters are
  bytes. Uninitialised memory is an argument. The threads of the server take turns in a step relation: the
  queue is locked, and a connection belongs to one thread at a time, which is proved
  (\<open>connection_exclusive\<close>).

  \<^bold>\<open>Arguments for what is outside.\<close> Boost's string algorithms (\<open>platform\<close>, with \<open>boost_string\<close> stating their
  documentation and \<open>reference_platform\<close> fulfilling it), regular expressions, the clock, random identifiers,
  files, the network with its completions, the system calls of the acceptor, scanning of doubles by \<open>sscanf\<close> and from a stream and
  their printing,
  OpenCV, zlib (\<open>zlib_contract\<close>), and the MySQL connector.

  \<^bold>\<open>Fuel.\<close> The JSON readers run on fuel, twice the length of the document plus two: every call takes a character or goes
  down from a value to its array or object; \<open>dialect_parse_returns\<close> shows that this is always enough. Copying and destroying a
  value in memory take the number of allocations so far as fuel, since every level of nesting has a block of its own: no program of
  \<open>memory_refines_trees\<close> runs out of it. Two loops that may
  not end are partial functions whose undefined results are the runs that never end: the multipart loop of the request
  parser (\<open>request_parse_returns\<close> shows when there are none, \<open>second_multipart_hangs\<close> that there are some) and the text of
  a path (\<open>makePath_returns_without_zero_bytes\<close>).

  \<^bold>\<open>Limits of the model.\<close> The pool of a client session is searched from the left; where the \<open>operator<\<close> of its keys is no
  strict weak order on the keys in use (\<open>pool_key_order_broken\<close>), the standard leaves the result open.
  The \<open>int\<close> and \<open>unsigned\<close> counters of \<open>base64.cpp\<close> are natural numbers, which they are for texts shorter than \<open>2 ^ 31\<close> bytes;
  the round trips of messages assume contents shorter than \<open>2 ^ 62\<close> bytes. Comments of JSON are read, and where they make the reader throw
  is modelled, but values do not keep them; nor do they keep their offsets. In \<open>Json_Value\<close> arrays are lists, which is
  all the service needs; \<open>Json_Arrays\<close> has the maps from indices that the code has. In the memory of \<open>Json_Memory\<close>
  the nodes of a map are not blocks of their own, but their allocations count and may fail; moves and swaps are between different
  variables, and \<open>copy\<close> is not called on a part of its own argument.

  \<^bold>\<open>Not modelled.\<close> \<open>logger\<close> and \<open>socket\<close> (input and output only); of \<open>jsoncpp\<close>
  iterators, \<open>asFloat\<close>, \<open>removeIndex\<close> in memory, the comments and offsets that values carry with the functions that write comments,
  and \<open>JSONCPP_USING_SECURE_MEMORY\<close>; destructors of other classes, \<open>Sleep\<close>; the vendored \<open>googletest\<close>;
  the Rails application, scripts and container files, which are not C++. That OpenCV's classifier is shared by two
  workers is outside the model.
\<close>

section \<open>The service behind the server\<close>

text \<open>The services that \<open>main\<close> binds, and what they make of a POST to their path.\<close>

lemma main_server_items:
  assumes "main_server cv D junk compile sys = Serving 444 acceptor server items"
  shows "items = [\<lparr>si_service = FaceDetectionService cv D junk
      (cascade_load cv ''/home/dev/devops_workshop/facedetection_va/haarcascade_frontalface_alt.xml''),
      si_url = ''/images'', si_is_regex = False, si_url_regex = (\<lambda>_. None)\<rparr>]"
  using assms by (auto simp: main_server_def AddService_def Let_def split: if_splits sum.splits option.splits)

lemma HandleConnection_post:
  assumes B: "boost_string B" and srv: "main_server cv D junk compile sys = Serving 444 acceptor server items"
    and req: "req_method request = kPost" "url_path (req_url request) = ''images''"
  shows "HandleConnection B memory items request = map_sum id rest_reply
    (Post cv D junk (cascade_load cv ''/home/dev/devops_workshop/facedetection_va/haarcascade_frontalface_alt.xml'')
      (msg_content request) (uninitialized_RestResponse memory))"
  using req
  by (simp add: HandleConnection_reply [OF B refl] main_server_items [OF srv] answers_def FaceDetectionService_def
    RestListService_Handle_def header_name_defs kGet_def kPost_def)

lemma throws_LogicError_map: "throws_LogicError r \<Longrightarrow> \<exists>e. map_sum id f r = Inl e"
  by (cases r) (auto simp: throws_LogicError_def)

section \<open>The way of a request\<close>

lemma Connection_Start_fresh: "request_parser (Connection_Start make_Connection) = make_RequestParser empty_Request"
  by (simp add: Connection_Start_def DoRead_def make_Connection_def make_RequestParser_def RequestParser_Init_def Parser_Init_def Reset_def)

lemma json_content_type:
  assumes B: "boost_string B"
  shows "ContentType_Valid (make_ContentType B ''application/json;charset=utf-8'')"
proof -
  have t: "trim_by isspace ''application/json'' = ''application/json''" "trim_by isspace ''charset=utf-8'' = ''charset=utf-8''"
      "trim_by isspace ''charset'' = ''charset''" "trim_by isspace ''utf-8'' = ''utf-8''"
    by (rule trim_by_id, simp add: isspace_def)+
  show ?thesis
    by (simp add: make_ContentType_def ContentType_Init_def empty_ContentType_def ParseValue_def Split2_def ContentType_Valid_def
      boost_string.trim [OF B] t)
qed

text \<open>The reply to a POST, with the header that \<open>SendResponse\<close> adds, is a response that the client can read.\<close>

lemma reply_ok:
  assumes B: "boost_string B" and rr: "rr_content rr \<noteq> []" "rr_media_type rr = ''application/json''" "rr_charset rr = ''utf-8''"
    and len: "length (rr_content rr) < 2 ^ 62" "reserve_ok B (of_nat (length (rr_content rr)))" and date: "value_ok date"
    and v: "v = ''Keep-Alive'' \<or> v = ''Close''"
  shows "response_ok B date (SetHeader B kConnection v (rest_reply rr))"
proof -
  let ?n = "length (rr_content rr)"
  let ?hs = "[(kContentType, ''application/json;charset=utf-8''), (kContentLength, to_string ?n)]"
  have n: "unat (of_nat ?n :: size_t) = ?n" using size_t_valid [OF len(1)] by simp
  have digits: "value_ok (to_string ?n)"
  proof -
    have d: "isdigit c \<Longrightarrow> \<not> isspace c \<and> c \<noteq> CR" for c by (auto simp: isdigit_def isspace_def)
    show ?thesis
      using to_string_all_digits [of ?n] to_string_nonempty [of ?n] d by (auto simp: value_ok_def)
  qed
  have "headers_good B ?n ?hs"
    using digits json_content_type [OF B] len
    by (auto simp: headers_good_def headers_inv_def header_ok_def key_ok_def token_def isspace_def header_accept_def
      header_name_defs value_ok_def [of "''application/json;charset=utf-8''"])
  then have "headers_good B ?n (Headers_Set B kConnection v ?hs)"
    using v by (intro headers_good_Set [OF B])
      (auto simp: header_ok_def key_ok_def value_ok_def token_def isspace_def header_accept_def header_name_defs)
  moreover have "has_length (Headers_Set B kConnection v ?hs)"
    by (rule has_length_Set) (simp add: has_length_def)
  ultimately show ?thesis
    using rr len date n by (simp add: response_ok_def rest_reply_def SetHeader_def headers_good_def empty_Response_def)
qed

text \<open>
  A connection that gets the bytes of a request, a buffer or less at a time, reads on until it has all of them;
  then it is put in the queue.
\<close>

definition pieces_of :: "string list \<Rightarrow> string \<Rightarrow> bool" where
  "pieces_of ds text \<longleftrightarrow> concat ds = text \<and> [] \<notin> set ds \<and> (\<forall>d \<in> set ds. length d \<le> unat kBufferSize)"

lemma receive_request:
  assumes B: "boost_string B" and r: "request_ok B r" and prep: "Request_Prepare B uuid r = Inr r'"
    and s: "event_loop s" "connections s c = Some (Connection_Start make_Connection)" and ds: "pieces_of ds (CopyPayload r')"
  shows "\<exists>k. receive B date c ds s = Some (s\<lparr>connections := (connections s)(c \<mapsto> k), queue := Push (Some c) (queue s)\<rparr>)
    \<and> operation k = Queued
    \<and> req_method (message (request_parser k)) = req_method r
    \<and> url_path (req_url (message (request_parser k))) = url_path (req_url r)
    \<and> msg_content (message (request_parser k)) = msg_content r"
proof -
  let ?k = "Connection_Start make_Connection"
  note fresh = Connection_Start_fresh
  from request_text_parse [OF B r, of uuid] prep obtain f where
    f: "RequestParser_Parse B (CopyPayload r') (make_RequestParser empty_Request) = Some (Inr (True, f))" "finished f"
      "req_method (message f) = req_method r" "url_path (req_url (message f)) = url_path (req_url r)"
      "msg_content (message f) = msg_content r" by auto
  have "ds \<noteq> []"
    using ds Request_Prepare_plain [OF r, of uuid] prep by (auto simp: pieces_of_def CopyPayload_Message_Prepare)
  then obtain es d where es: "ds = es @ [d]" by (metis rev_exhaust)
  with ds have d: "concat es @ d = CopyPayload r'" "d \<noteq> []" "length d \<le> unat kBufferSize" "\<forall>e \<in> set es. length e \<le> unat kBufferSize"
    by (auto simp: pieces_of_def)
  from request_pieces_parse [OF B r prep d(1,2)] f(1) obtain q where
    q: "feed (RequestParser_Parse B) es (make_RequestParser empty_Request) = Some (Inr (True, q))" "\<not> finished q"
      "RequestParser_Parse B d q = Some (Inr (True, f))"
    by (auto dest: outcome_True)
  let ?s = "s\<lparr>connections := (connections s)(c \<mapsto> ?k\<lparr>request_parser := q\<rparr>)\<rparr>"
  have reading: "operation ?k = Reading" by (simp add: Connection_Start_def DoRead_def)
  have "receive B date c ds s = receive B date c [d] ?s"
    unfolding es using q(1,2) d(4) s reading by (intro receive_unfinished) (simp_all add: fresh)
  also have "\<dots> = Some (s\<lparr>connections := (connections s)(c \<mapsto> ?k\<lparr>request_parser := f, operation := Queued\<rparr>), queue := Push (Some c) (queue s)\<rparr>)"
    using q(3) f(2) d(3) s(1) reading by (simp add: OnRead_def apply_effect_def event_loop_def)
  finally show ?thesis using f(3-5) by auto
qed

text \<open>The worker takes the connection, and what the handler answers is written.\<close>

lemma worker_serves:
  assumes w: "\<not> terminated s" "i < length (workers s)" "workers s ! i = Waiting" and q: "queue s = [Some c]"
    and k: "connections s c = Some k" "HandleConnection B memory items (message (request_parser k)) = Inr resp"
  shows "worker_step B items s (s\<lparr>queue := [], workers := (workers s)[i := Handling c]\<rparr>)"
    and "worker_step B items (s\<lparr>queue := [], workers := (workers s)[i := Handling c]\<rparr>)
      (s\<lparr>queue := [], connections := (connections s)(c \<mapsto> SendResponse B date resp k)\<rparr>)"
proof -
  let ?t = "s\<lparr>queue := [], workers := (workers s)[i := Handling c]\<rparr>"
  show "worker_step B items s ?t" using w q by (intro worker_step.Take) simp_all
  have "worker_step B items ?t (?t\<lparr>connections := (connections ?t)(c \<mapsto> SendResponse B date resp k),
      workers := (workers ?t)[i := Waiting]\<rparr>)"
    using w k by (intro worker_step.Handle) simp_all
  moreover have "(workers s)[i := Handling c, i := Waiting] = workers s" using w(3) by (metis list_update_id list_update_overwrite)
  ultimately show "worker_step B items ?t (s\<lparr>queue := [], connections := (connections s)(c \<mapsto> SendResponse B date resp k)\<rparr>)"
    by simp
qed

lemma SendResponse_bytes: "operation (SendResponse B date resp k) = Writing payload \<Longrightarrow> concat payload \<noteq> []"
  by (auto simp: SendResponse_def DoWrite_def Response_Prepare_def Message_Prepare_def Let_def split: if_splits)

text \<open>The bytes that a worker sends, and what the client makes of them.\<close>

lemma client_reads_reply:
  assumes B: "boost_string B" and ok: "\<And>v. v = ''Keep-Alive'' \<or> v = ''Close'' \<Longrightarrow> response_ok B date (SetHeader B kConnection v resp)"
    and st: "res_status resp = status_code st"
    and sent: "operation (SendResponse B date resp k) = Writing payload"
    and net: "delivers net request connect" "net_completions net (CopyPayload request) = cs" "list_all undisturbed cs"
      "concat (read_data cs) = concat payload"
  shows "\<exists>c'. Client_Request B net request connect c = Some (Inr True, c')
    \<and> res_status (message (response_parser c')) = res_status resp \<and> msg_content (message (response_parser c')) = msg_content resp"
proof -
  define v where "v = (if IsConnectionKeepAlive B (message (request_parser k)) then ''Keep-Alive'' else ''Close'')"
  let ?r = "SetHeader B kConnection v resp"
  have ok': "response_ok B date ?r" by (rule ok) (simp add: v_def)
  have s: "res_status ?r = res_status resp" "msg_content ?r = msg_content resp" by (simp_all add: SetHeader_def)
  have "payload = msg_payload (Response_Prepare B date ?r)"
    using sent by (auto simp: SendResponse_def DoWrite_def Let_def v_def split: if_splits)
  with net(4) have p: "concat (read_data cs) = CopyPayload (Response_Prepare B date ?r)" by (simp add: CopyPayload_def)
  have "res_status ?r = status_code st" using s st by simp
  from client_reads [OF B ok' this net(1,2,3) p, of c] s show ?thesis by auto
qed

lemma answer_reply_ok:
  assumes B: "boost_string B" and f: "utf8_text faceId"
    and len: "length (writeString D (answer_value faceId faces)) < 2 ^ 62"
      "reserve_ok B (of_nat (length (writeString D (answer_value faceId faces))))" and date: "value_ok date"
    and v: "v = ''Keep-Alive'' \<or> v = ''Close''"
  shows "response_ok B date (SetHeader B kConnection v (rest_reply (rr\<lparr>rr_content := writeString D (answer_value faceId faces),
    rr_media_type := kApplicationJson, rr_charset := ''utf-8'', rr_status := status_code kCreated\<rparr>)))"
proof -
  have "writeString D (answer_value faceId faces) \<noteq> []"
    using writeString_nonempty [of D] answer_value_ok [OF f, of 999 D faces] by simp
  with len show ?thesis
    by (intro reply_ok [OF B _ _ _ _ _ date v]) (simp_all add: kApplicationJson_def)
qed

text \<open>
  C1. From the client's request to the faces in the client's hands. A POST of a document with an identifier
  and an image is prepared by the client. However the network cuts its bytes into reads of the server, each of
  at most the buffer's size, the connection reads on until all are there and is put in the queue; a waiting
  worker takes it, and the handler's response is written; and whatever the network does to cut the bytes
  that are then written into pieces, the client's request succeeds with status 201 and content that parses as
  the identifier and the faces of the image. The connection is new and the queue empty before.
\<close>

theorem post_end_to_end:
  assumes B: "boost_string B" and srv: "main_server cv D [p, q, r, s] compile sys = Serving 444 acceptor server items"
    and sv: "event_loop sv" "connections sv c = Some (Connection_Start make_Connection)" "queue sv = []"
      "i < length (workers sv)" "workers sv ! i = Waiting"
    and req: "request_ok B req" "req_method req = kPost" "url_path (req_url req) = ''images''"
      "msg_content req = writeString D (objectValue ms)"
    and doc: "json_ok D 999 (objectValue ms)" "members_find ''faceId'' ms = Some (stringValue faceId)"
      "members_find ''imageData'' ms = Some (stringValue (base64_encode [x, y, z] bytes))"
    and cv: "imdecode cv (bytes_to_string bytes) = Inr m" "\<not> Mat_empty cv m" "equalizeHist cv m = Inr m'"
      "detectMultiScale cv (cascade_load cv ''/home/dev/devops_workshop/facedetection_va/haarcascade_frontalface_alt.xml'') m' = Inr faces"
    and len: "length (writeString D (answer_value faceId faces)) < 2 ^ 62"
      "reserve_ok B (of_nat (length (writeString D (answer_value faceId faces))))" and date: "value_ok date"
  shows "\<exists>sent. Request_Prepare B uuid req = Inr sent
    \<and> (\<forall>ds. pieces_of ds (CopyPayload sent) \<longrightarrow>
        (\<exists>s1 s2 s3 k resp payload.
           receive B date c ds sv = Some s1 \<and> (main_step B)\<^sup>*\<^sup>* sv s1 \<and> queue s1 = [Some c] \<and> connections s1 c = Some k
           \<and> worker_step B items s1 s2 \<and> workers s2 ! i = Handling c \<and> queue s2 = []
           \<and> HandleConnection B memory items (message (request_parser k)) = Inr resp
           \<and> worker_step B items s2 s3 \<and> connections s3 c = Some (SendResponse B date resp k) \<and> workers s3 ! i = Waiting
           \<and> operation (SendResponse B date resp k) = Writing payload
           \<and> (\<forall>net cs connect cl. delivers net sent connect \<longrightarrow> net_completions net (CopyPayload sent) = cs \<longrightarrow>
               list_all undisturbed cs \<longrightarrow> concat (read_data cs) = concat payload \<longrightarrow>
               (\<exists>cl'. Client_Request B net sent connect cl = Some (Inr True, cl')
                  \<and> res_status (message (response_parser cl')) = 201
                  \<and> parseFromStream D (msg_content (message (response_parser cl'))) root = Some (Inr (True, answer_value faceId faces))))))"
proof -
  let ?casc = "cascade_load cv ''/home/dev/devops_workshop/facedetection_va/haarcascade_frontalface_alt.xml''"
  let ?rr = "(uninitialized_RestResponse memory)\<lparr>rr_content := writeString D (answer_value faceId faces),
    rr_media_type := kApplicationJson, rr_charset := ''utf-8'', rr_status := status_code kCreated\<rparr>"
  obtain sent where sent: "Request_Prepare B uuid req = Inr sent" using Request_Prepare_plain [OF req(1)] by blast
  note post = Post_detects [OF doc cv, of p q r s "uninitialized_RestResponse memory" root]
  have "utf8_text faceId"
    using doc(1,2) by (auto simp: members_find_def list_all_iff dest!: map_of_SomeD)
  note ok = answer_reply_ok [OF B this len date]
  have st: "res_status (rest_reply ?rr) = status_code kCreated" "msg_content (rest_reply ?rr) = writeString D (answer_value faceId faces)"
    by (simp_all add: rest_reply_def empty_Response_def)
  show ?thesis
  proof (rule exI [of _ sent], intro conjI [OF sent] allI impI, goal_cases)
    case (1 ds)
    from receive_request [OF B req(1) sent sv(1,2) 1, of date] obtain k where
      k: "receive B date c ds sv = Some (sv\<lparr>connections := (connections sv)(c \<mapsto> k), queue := Push (Some c) (queue sv)\<rparr>)"
        "req_method (message (request_parser k)) = kPost" "url_path (req_url (message (request_parser k))) = ''images''"
        "msg_content (message (request_parser k)) = writeString D (objectValue ms)"
      using req by auto
    let ?s1 = "sv\<lparr>connections := (connections sv)(c \<mapsto> k), queue := Push (Some c) (queue sv)\<rparr>"
    let ?s2 = "?s1\<lparr>queue := [], workers := (workers ?s1)[i := Handling c]\<rparr>"
    have h: "HandleConnection B memory items (message (request_parser k)) = Inr (rest_reply ?rr)"
      using HandleConnection_post [OF B srv k(2,3), of memory] post k(4) by simp
    obtain payload where pl: "operation (SendResponse B date (rest_reply ?rr) k) = Writing payload"
      by (simp add: SendResponse_def DoWrite_def Let_def)
    have s1: "\<not> terminated ?s1" "i < length (workers ?s1)" "workers ?s1 ! i = Waiting" "queue ?s1 = [Some c]" "connections ?s1 c = Some k"
      using sv by (simp_all add: event_loop_def Push_def)
    note steps = worker_serves(1) [OF s1 h] worker_serves(2) [OF s1 h, of date]
    have client: "\<exists>cl'. Client_Request B net sent connect cl = Some (Inr True, cl') \<and> res_status (message (response_parser cl')) = 201
             \<and> parseFromStream D (msg_content (message (response_parser cl'))) root = Some (Inr (True, answer_value faceId faces))"
      if "delivers net sent connect" "net_completions net (CopyPayload sent) = cs" "list_all undisturbed cs"
        "concat (read_data cs) = concat payload" for net cs connect cl
      using client_reads_reply [OF B ok st(1) pl that, of cl] post st by auto
    show ?case
      by (intro exI [of _ ?s1] exI [of _ ?s2] exI [of _ "?s1\<lparr>queue := [], connections := (connections ?s1)(c \<mapsto> SendResponse B date (rest_reply ?rr) k)\<rparr>"]
          exI [of _ k] exI [of _ "rest_reply ?rr"] exI [of _ payload])
        (use k(1) receive_steps [OF k(1)] s1 steps h pl client sv(4) in simp)
  qed
qed

definition sample_members :: members where
  "sample_members = [(''faceId'', stringValue ''f1''), (''imageData'', stringValue (base64_encode [0, 0, 0] [65, 66]))]"

definition sample_post :: Request where
  "sample_post = empty_Request\<lparr>req_method := kPost,
     req_url := \<lparr>url_scheme = ''http'', url_host = ''h'', url_port = ''444'', url_path = ''images'', url_query = []\<rparr>,
     msg_content := writeString example_double (objectValue sample_members),
     msg_headers := [(kContentLength, to_string (length (writeString example_double (objectValue sample_members))))]\<rparr>"

lemma sample_lengths:
  "length (writeString example_double (objectValue sample_members)) = 43"
  "length (writeString example_double (answer_value ''f1'' [\<lparr>rect_x = 0, rect_y = 0, rect_width = 2, rect_height = 1\<rparr>])) = 103"
  by code_simp+

lemma sample_post_ok: "request_ok reference_platform sample_post"
proof -
  have line: "request_line_ok sample_post"
    by (simp add: request_line_ok_def sample_post_def empty_Request_def target_def kPost_def)
  have n: "to_string 43 = ''43''" by code_simp
  have good: "headers_good reference_platform 43 (msg_headers sample_post)"
    by (simp add: headers_good_def sample_post_def headers_inv_def header_ok_def key_ok_def value_ok_def
      token_def isspace_def header_accept_def header_name_defs sample_lengths n reference_platform_def)
  have len: "length (msg_content sample_post) = 43" by (simp add: sample_post_def sample_lengths)
  show ?thesis
    unfolding request_ok_def len using line good
    by (simp add: value_ok_def host_value_def isspace_def sample_post_def empty_Request_def has_length_def headers_map_def header_name_defs)
qed

lemma sample_text:
  assumes "Request_Prepare reference_platform [] sample_post = Inr sent"
  shows "pieces_of [take 20 (CopyPayload sent), drop 20 (CopyPayload sent)] (CopyPayload sent)"
proof -
  have hs: "Headers_Set reference_platform kHost (host_value sample_post) (msg_headers sample_post)
      = [(kContentLength, ''43''), (kHost, ''h:444'')]"
  proof -
    have "to_string 43 = ''43''" by code_simp
    then show ?thesis
      by (simp add: sample_post_def host_value_def sample_lengths Headers_Set_def ref.iequals header_name_defs)
  qed
  have "CopyPayload sent = start_line sample_post @ kCRLF
      @ header_text (Headers_Set reference_platform kHost (host_value sample_post) (msg_headers sample_post)) @ kCRLF @ msg_content sample_post"
    using assms Request_Prepare_plain [OF sample_post_ok, of "[]"] by (auto simp: CopyPayload_Message_Prepare)
  moreover have "length (start_line sample_post) = 21" by (simp add: start_line_def target_def sample_post_def kPost_def)
  moreover have "length (msg_content sample_post) = 43" by (simp add: sample_post_def sample_lengths)
  ultimately have "length (CopyPayload sent) \<le> 1000 \<and> 20 < length (CopyPayload sent)"
    unfolding hs by (simp add: header_text_def header_name_defs)
  then show ?thesis by (auto simp: pieces_of_def kBufferSize_def)
qed

text \<open>A run of the server: a connection is accepted, its request read in two pieces and queued, and taken by the worker.\<close>

lemma sample_run:
  "\<exists>s k. server_reachable reference_platform [] 1 s \<and> \<not> terminated s \<and> workers s = [Handling 0] \<and> queue s = []
     \<and> connections s 0 = Some k"
proof -
  let ?reach = "server_reachable reference_platform [] 1"
  define s1 where "s1 = Pool_Start 0 make_Connection (Server_Run 1)"
  obtain sent where sent: "Request_Prepare reference_platform [] sample_post = Inr sent"
    using Request_Prepare_plain [OF sample_post_ok] by blast
  have "event_loop s1" "connections s1 0 = Some (Connection_Start make_Connection)"
    by (simp_all add: s1_def event_loop_def Pool_Start_def Server_Run_def)
  from receive_request [OF ref.boost_string_axioms sample_post_ok sent this sample_text [OF sent], of "[]"] obtain k where
    k: "receive reference_platform [] 0 [take 20 (CopyPayload sent), drop 20 (CopyPayload sent)] s1
      = Some (s1\<lparr>connections := (connections s1)(0 \<mapsto> k), queue := Push (Some 0) (queue s1)\<rparr>)" by blast
  let ?s2 = "s1\<lparr>connections := (connections s1)(0 \<mapsto> k), queue := Push (Some 0) (queue s1)\<rparr>"
  have "?reach s1"
    unfolding s1_def by (rule server_reachable.Main [OF server_reachable.Init main_step.Accept]) (simp_all add: Server_Run_def event_loop_def)
  moreover have "?reach s \<Longrightarrow> ?reach s'" if "(main_step reference_platform)\<^sup>*\<^sup>* s s'" for s s'
    using that by (induction rule: rtranclp_induct) (auto intro: server_reachable.Main)
  ultimately have "?reach ?s2" using receive_steps [OF k] by blast
  then have "?reach (?s2\<lparr>queue := [], workers := (workers ?s2)[0 := Handling 0]\<rparr>)"
    by (rule server_reachable.Worker [OF _ worker_step.Take]) (simp_all add: s1_def Pool_Start_def Server_Run_def Push_def)
  then show ?thesis
    by (intro exI [of _ "?s2\<lparr>queue := [], workers := (workers ?s2)[0 := Handling 0]\<rparr>"] exI [of _ k])
      (simp add: s1_def Pool_Start_def Server_Run_def)
qed

theorem connection_exclusive_witness:
  "\<exists>s k. server_reachable reference_platform [] 1 s \<and> workers s ! 0 = Handling 0 \<and> Some 0 \<notin> set (queue s)
     \<and> connections s 0 = Some k \<and> operation k = Queued"
proof -
  obtain s k where s: "server_reachable reference_platform [] 1 s" "workers s = [Handling 0]" using sample_run by blast
  then have "0 < length (workers s)" "workers s ! 0 = Handling 0" by simp_all
  with connection_exclusive [OF s(1)] s(1) show ?thesis by blast
qed

theorem server_refines_exchange_witness:
  "\<exists>s k p. server_reachable reference_platform [] 1 s \<and> connections s 0 = Some k \<and> operation k = Writing p
     \<and> own_answer reference_platform [] (message (request_parser k)) p"
proof -
  obtain s k where s: "server_reachable reference_platform [] 1 s" "\<not> terminated s" "workers s = [Handling 0]" "connections s 0 = Some k"
    using sample_run by blast
  let ?t = "s\<lparr>connections := (connections s)(0 \<mapsto> SendResponse reference_platform [] (empty_Response 404) k), workers := (workers s)[0 := Waiting]\<rparr>"
  have t: "server_reachable reference_platform [] 1 ?t"
    by (rule server_reachable.Worker [OF s(1) worker_step.Handle [of _ 0 0 k]])
      (simp_all add: s HandleConnection_reply [OF ref.boost_string_axioms refl])
  obtain p where p: "connections ?t 0 = Some (SendResponse reference_platform [] (empty_Response 404) k)"
      "operation (SendResponse reference_platform [] (empty_Response 404) k) = Writing p"
    by (simp add: SendResponse_def DoWrite_def Let_def)
  with server_refines_exchange [OF t] t show ?thesis by blast
qed

theorem post_end_to_end_witness:
  "\<exists>items sent s1 s2 s3 k resp payload net c'.
     main_server example_opencv example_double [0, 0, 0, 0] (\<lambda>u. None) example_calls
       = Serving 444 \<lparr>is_open = True, listening = True\<rparr> (Server_Run 2) items
     \<and> Request_Prepare reference_platform [] sample_post = Inr sent
     \<and> receive reference_platform ''today'' 0 [take 20 (CopyPayload sent), drop 20 (CopyPayload sent)]
         (Pool_Start 0 make_Connection (Server_Run 2)) = Some s1
     \<and> connections s1 0 = Some k
     \<and> worker_step reference_platform items s1 s2 \<and> workers s2 ! 1 = Handling 0
     \<and> HandleConnection reference_platform 7 items (message (request_parser k)) = Inr resp
     \<and> worker_step reference_platform items s2 s3 \<and> connections s3 0 = Some (SendResponse reference_platform ''today'' resp k)
     \<and> operation (SendResponse reference_platform ''today'' resp k) = Writing payload
     \<and> net_completions net (CopyPayload sent) = [ReadDone False (concat payload)]
     \<and> Client_Request reference_platform net sent True make_Client = Some (Inr True, c')
     \<and> res_status (message (response_parser c')) = 201
     \<and> parseFromStream example_double (msg_content (message (response_parser c'))) nullValue
         = Some (Inr (True, answer_value ''f1'' [\<lparr>rect_x = 0, rect_y = 0, rect_width = 2, rect_height = 1\<rparr>]))"
proof -
  let ?f = "\<lparr>rect_x = 0, rect_y = 0, rect_width = 2, rect_height = 1\<rparr> :: Rect"
  obtain items where items: "main_server example_opencv example_double [0, 0, 0, 0] (\<lambda>u. None) example_calls
      = Serving 444 \<lparr>is_open = True, listening = True\<rparr> (Server_Run 2) items"
    by (simp add: main_server_def example_opencv_def example_calls_def make_Server_def Server_Run_open_def)
  have b: "base64_encode [0, 0, 0] [65, 66] = ''QUI=''" by code_simp
  have t: "utf8_text ''faceId''" "utf8_text ''f1''" "utf8_text ''imageData''" "utf8_text ''QUI=''"
    by (rule utf8_text_ascii, simp)+
  have post: "req_method sample_post = kPost" "url_path (req_url sample_post) = ''images''"
      "msg_content sample_post = writeString example_double (objectValue sample_members)"
    by (simp_all add: sample_post_def)
  have doc: "json_ok example_double 999 (objectValue sample_members)" "members_find ''faceId'' sample_members = Some (stringValue ''f1'')"
      "members_find ''imageData'' sample_members = Some (stringValue (base64_encode [0, 0, 0] [65, 66]))"
    by (simp_all add: sample_members_def t b members_find_def)
  have cv: "imdecode example_opencv (bytes_to_string [65, 66]) = Inr (bytes_to_string [65, 66])"
      "\<not> Mat_empty example_opencv (bytes_to_string [65, 66])"
      "equalizeHist example_opencv (bytes_to_string [65, 66]) = Inr (bytes_to_string [65, 66])"
      "detectMultiScale example_opencv (cascade_load example_opencv ''/home/dev/devops_workshop/facedetection_va/haarcascade_frontalface_alt.xml'')
         (bytes_to_string [65, 66]) = Inr [?f]"
    by (simp_all add: example_opencv_def bytes_to_string_def)
  have len: "length (writeString example_double (answer_value ''f1'' [?f])) < 2 ^ 62"
      "reserve_ok reference_platform (of_nat (length (writeString example_double (answer_value ''f1'' [?f]))))" "value_ok ''today''"
    by (simp_all add: sample_lengths reference_platform_def value_ok_def isspace_def)
  let ?sv = "Pool_Start 0 make_Connection (Server_Run 2)"
  have sv: "event_loop ?sv" "connections ?sv 0 = Some (Connection_Start make_Connection)" "queue ?sv = []"
      "1 < length (workers ?sv)" "workers ?sv ! 1 = Waiting"
    by (simp_all add: event_loop_def Pool_Start_def Server_Run_def numeral_2_eq_2)
  obtain sent where sent: "Request_Prepare reference_platform [] sample_post = Inr sent"
    using Request_Prepare_plain [OF sample_post_ok] by blast
  obtain s1 s2 s3 k resp payload where w: "receive reference_platform ''today'' 0 [take 20 (CopyPayload sent), drop 20 (CopyPayload sent)] ?sv = Some s1"
      "connections s1 0 = Some k" "worker_step reference_platform items s1 s2" "workers s2 ! 1 = Handling 0"
      "HandleConnection reference_platform 7 items (message (request_parser k)) = Inr resp"
      "worker_step reference_platform items s2 s3" "connections s3 0 = Some (SendResponse reference_platform ''today'' resp k)"
      "operation (SendResponse reference_platform ''today'' resp k) = Writing payload"
    and client: "\<And>net cs connect c. delivers net sent connect \<Longrightarrow> net_completions net (CopyPayload sent) = cs \<Longrightarrow>
        list_all undisturbed cs \<Longrightarrow> concat (read_data cs) = concat payload \<Longrightarrow>
        \<exists>c'. Client_Request reference_platform net sent connect c = Some (Inr True, c') \<and> res_status (message (response_parser c')) = 201
           \<and> parseFromStream example_double (msg_content (message (response_parser c'))) nullValue = Some (Inr (True, answer_value ''f1'' [?f]))"
    using post_end_to_end [OF ref.boost_string_axioms items sv sample_post_ok post doc cv len, of "[]" 7 nullValue]
      sent sample_text [OF sent] by auto
  define net where "net = \<lparr>net_resolve = (\<lambda>h p. True), net_connect = (\<lambda>t h. True), net_write = (\<lambda>s. True),
    net_completions = (\<lambda>s. [ReadDone False (concat payload)])\<rparr>"
  have "concat payload \<noteq> []" by (rule SendResponse_bytes [OF w(8)])
  then obtain c' where "Client_Request reference_platform net sent True make_Client = Some (Inr True, c')"
      "res_status (message (response_parser c')) = 201"
      "parseFromStream example_double (msg_content (message (response_parser c'))) nullValue = Some (Inr (True, answer_value ''f1'' [?f]))"
    using client [of net True "[ReadDone False (concat payload)]" make_Client] by (auto simp: delivers_def net_def)
  moreover have "net_completions net (CopyPayload sent) = [ReadDone False (concat payload)]" by (simp add: net_def)
  ultimately show ?thesis using items sent w by blast
qed

text \<open>
  C2. One request ends the server: when a worker handles a POST whose body is a JSON value other than an
  object or null, or starts with a quote and a slash, the exception leaves the worker's thread and the
  program terminates with every connection; the worker itself can take no other step.
\<close>

theorem request_kills_server:
  assumes B: "boost_string B" and srv: "main_server cv D junk compile sys = Serving 444 acceptor server items"
    and w: "\<not> terminated s" "i < length (workers s)" "workers s ! i = Handling c" "connections s c = Some k"
    and req: "req_method (message (request_parser k)) = kPost" "url_path (req_url (message (request_parser k))) = ''images''"
    and body: "(\<exists>v. msg_content (message (request_parser k)) = writeString D v \<and> json_ok D 999 v \<and> v \<noteq> nullValue \<and> (\<forall>ms. v \<noteq> objectValue ms))
      \<or> (\<exists>t. msg_content (message (request_parser k)) = CHR 0x27 # CHR ''/'' # t)"
  shows "worker_step B items s (s\<lparr>terminated := True\<rparr>)
    \<and> (\<forall>s'. worker_step B items s s' \<longrightarrow> terminated s' \<or> workers s' ! i = Handling c)
    \<and> (\<forall>s'. \<not> worker_step B items (s\<lparr>terminated := True\<rparr>) s' \<and> \<not> main_step B (s\<lparr>terminated := True\<rparr>) s')"
proof -
  have h: "\<exists>e. HandleConnection B memory items (message (request_parser k)) = Inl e" for memory
  proof -
    have "throws_LogicError (Post cv D junk cascade (msg_content (message (request_parser k))) rr)" for cascade rr
      using body Post_not_object Post_quote by metis
    then show ?thesis by (simp add: HandleConnection_post [OF B srv req] throws_LogicError_map)
  qed
  then obtain e where "HandleConnection B undefined items (message (request_parser k)) = Inl e" by blast
  with w have "worker_step B items s (s\<lparr>terminated := True\<rparr>)" by (rule worker_step.Uncaught)
  moreover have "terminated s' \<or> workers s' ! i = Handling c" if "worker_step B items s s'" for s'
    using that
  proof cases
    case (Handle j c' k' memory resp date)
    have "j \<noteq> i" using Handle w h [of memory] by auto
    with Handle w show ?thesis by simp
  qed (use w in \<open>auto simp: nth_list_update\<close>)
  moreover have "\<not> worker_step B items (s\<lparr>terminated := True\<rparr>) s' \<and> \<not> main_step B (s\<lparr>terminated := True\<rparr>) s'" for s'
    by (auto elim!: worker_stepE main_stepE simp: event_loop_def)
  ultimately show ?thesis by blast
qed

definition sample_server :: Server where
  "sample_server = (Server_Run 2)\<lparr>workers := [Handling 0, Waiting],
     connections := [0 \<mapsto> make_Connection\<lparr>request_parser := make_RequestParser (sample_post\<lparr>msg_content := writeString example_double (intValue 5)\<rparr>),
       operation := Queued\<rparr>]\<rparr>"

theorem request_kills_server_witness:
  "\<exists>items. main_server example_opencv example_double [0, 0, 0, 0] (\<lambda>u. None) example_calls
       = Serving 444 \<lparr>is_open = True, listening = True\<rparr> (Server_Run 2) items
     \<and> worker_step reference_platform items sample_server (sample_server\<lparr>terminated := True\<rparr>)"
proof -
  obtain items where items: "main_server example_opencv example_double [0, 0, 0, 0] (\<lambda>u. None) example_calls
      = Serving 444 \<lparr>is_open = True, listening = True\<rparr> (Server_Run 2) items"
    by (simp add: main_server_def example_opencv_def example_calls_def make_Server_def Server_Run_open_def)
  have "json_ok example_double 999 (intValue 5)" by simp
  then have body: "\<exists>v. writeString example_double (intValue 5) = writeString example_double v \<and> json_ok example_double 999 v
      \<and> v \<noteq> nullValue \<and> (\<forall>ms. v \<noteq> objectValue ms)" by blast
  show ?thesis
    using request_kills_server [OF ref.boost_string_axioms items, of sample_server 0 0] body items
    by (simp add: sample_server_def Server_Run_def make_RequestParser_def sample_post_def)
qed

end
